(* ===== verification/Prelude.thy ===== *)
theory Prelude
  imports Main "HOL-Library.Word"
begin

text \<open>
  Shared vocabulary of the development: the C integer types, the errno values that the
  drivers return, results of fallible operations, the word accessors of shared memory and
  the generic lemmas on lists, bits and circular probing that the components use.
\<close>

unbundle bit_operations_syntax

section \<open>C integers and error values\<close>

type_synonym u8 = "8 word"
type_synonym u16 = "16 word"
type_synonym u32 = "32 word"
type_synonym u64 = "64 word"

text \<open>The negative errno values that the modelled functions return, by their C names.\<close>

datatype errno = EINVAL | ENOMEM | EAGAIN | EPERM | ENXIO | EPROBE_DEFER | EIO | ENODEV | EFAIL | CRASH

text \<open>
  \<open>EFAIL\<close> stands for the plain \<open>-1\<close> some of the user space library functions return,
  \<open>CRASH\<close> for a dereferenced null pointer, which ends the process.
  A C function that returns 0 or a negative errno and delivers its result through pointers
  is a function into \<open>'a result\<close>.
\<close>

type_synonym 'a result = "errno + 'a"

definition is_ok :: "'a result \<Rightarrow> bool" where
  "is_ok r = (case r of Inl _ \<Rightarrow> False | Inr _ \<Rightarrow> True)"

lemma is_ok_simps [simp]: "is_ok (Inr x)" "\<not> is_ok (Inl e)"
  by (simp_all add: is_ok_def)

definition U32_MAX :: u32 where
  "U32_MAX = 0xFFFFFFFF"

lemma unat_u16_less: "unat (x :: u16) < 2 ^ 16"
  using unsigned_less [of x] by simp

lemma unat_u32_less: "unat (x :: u32) < 2 ^ 32"
  using unsigned_less [of x] by simp

lemma unat_u64_less: "unat (x :: u64) < 2 ^ 64"
  using unsigned_less [of x] by simp

lemma unat_ucast_32_64 [simp]: "unat (ucast (x :: u32) :: u64) = unat x"
  using unat_u32_less [of x] by (simp add: unsigned_ucast_eq take_bit_nat_eq_self)

lemma unat_ucast_16_32 [simp]: "unat (ucast (x :: u16) :: u32) = unat x"
  using unat_u16_less [of x] by (simp add: unsigned_ucast_eq take_bit_nat_eq_self)

lemma unat_of_nat_u64: "n < 2 ^ 32 \<Longrightarrow> unat (of_nat n :: u64) = n"
  by (simp add: unsigned_of_nat take_bit_nat_eq_self)

lemma unat_of_nat_u32: "n < 2 ^ 32 \<Longrightarrow> unat (of_nat n :: u32) = n"
  by (simp add: unsigned_of_nat take_bit_nat_eq_self)

lemma unat_add_u32: "unat (a :: u32) + unat b < 2 ^ 32 \<Longrightarrow> unat (a + b) = unat a + unat b"
  by (simp add: unat_word_ariths)

lemma sint_u32_small:
  assumes "unat (x :: u32) < 2 ^ 31"
  shows "sint x = int (unat x)"
proof -
  have "int (unat x) < int (2 ^ 31)" using assms by (simp only: of_nat_less_iff)
  then have "uint x < 2 ^ 31" by simp
  moreover have "0 \<le> uint x" by (rule unsigned_greater_eq)
  ultimately have "signed_take_bit 31 (uint x) = uint x" by (intro signed_take_bit_int_eq_self) linarith+
  then show ?thesis by (simp add: sint_uint)
qed

lemma word_eq_of_nat: "unat x = n \<Longrightarrow> x = of_nat n"
  by auto

text \<open>The kernel's \<open>BIT(nr)\<close> on a 64-bit word.\<close>

definition BIT64 :: "nat \<Rightarrow> u64" where
  "BIT64 n = push_bit n 1"

named_theorems c_defs \<open>definitions of C accessors that proofs unfold\<close>

section \<open>Words of shared memory\<close>

text \<open>
  A region of device-shared memory is a function from the index of a 32-bit word,
  relative to the start of the region, to its contents; indices past the end of the region
  are memory that belongs to someone else, so an access out of range is visible in the
  model. \<open>writel\<close>, \<open>writeq\<close> and \<open>writew\<close> store a little endian value, \<open>readl\<close> and
  \<open>readq\<close> load one.
\<close>

type_synonym words = "nat \<Rightarrow> u32"

definition writel :: "u32 \<Rightarrow> nat \<Rightarrow> words \<Rightarrow> words" where
  [c_defs]: "writel v i m = m(i := v)"

definition writeq :: "u64 \<Rightarrow> nat \<Rightarrow> words \<Rightarrow> words" where
  [c_defs]: "writeq v i m = m(i := ucast v, Suc i := ucast (drop_bit 32 v))"

definition writew_lo :: "u16 \<Rightarrow> nat \<Rightarrow> words \<Rightarrow> words" where
  [c_defs]: "writew_lo v i m = m(i := (m i AND 0xFFFF0000) OR ucast v)"

definition writew_hi :: "u16 \<Rightarrow> nat \<Rightarrow> words \<Rightarrow> words" where
  [c_defs]: "writew_hi v i m = m(i := (m i AND 0x0000FFFF) OR push_bit 16 (ucast v))"

definition readl :: "words \<Rightarrow> nat \<Rightarrow> u32" where
  [c_defs]: "readl m i = m i"

definition readq :: "words \<Rightarrow> nat \<Rightarrow> u64" where
  [c_defs]: "readq m i = ucast (m i) OR push_bit 32 (ucast (m (Suc i)))"

lemma ucast_split_join:
  fixes v :: u64
  shows "ucast (ucast v :: u32) OR push_bit 32 (ucast (ucast (drop_bit 32 v) :: u32)) = v"
  by (rule bit_word_eqI) (auto simp: bit_simps)

lemma readq_writeq [simp]: "readq (writeq v i m) i = v"
  by (simp add: readq_def writeq_def ucast_split_join)

lemma readl_writel [simp]: "readl (writel v i m) i = v"
  by (simp add: readl_def writel_def)

section \<open>Lists\<close>

lemma nth_list_update_if:
  "i < length xs \<Longrightarrow> xs[i := x] ! j = (if i = j then x else xs ! j)"
  by (cases "i = j") simp_all

lemma list_update_preserves:
  "\<forall>x\<in>set xs. P x \<Longrightarrow> P y \<Longrightarrow> \<forall>x\<in>set (xs[i := y]). P x"
  using set_update_subset_insert [of xs i y] by auto

section \<open>Circular probing\<close>

text \<open>
  Linear probing from a start slot visits \<open>(h + s) mod m\<close> for \<open>s < m\<close>, hence every slot
  once.
\<close>

lemma probe_surj:
  assumes "i < m" and "h < m"
  shows "\<exists>s<m. (h + s) mod m = (i::nat)"
proof (cases "h \<le> i")
  case True
  then show ?thesis using assms by (intro exI [of _ "i - h"]) simp
next
  case False
  then have "(h + (m - h + i)) mod m = i" using assms by simp
  with False assms show ?thesis by (intro exI [of _ "m - h + i"]) simp
qed

lemma probe_inj:
  assumes "s < m" "t < m" "(h + s) mod m = (h + t) mod (m::nat)"
  shows "s = t"
proof -
  have "s mod m = t mod m"
    using assms(3) by (simp add: nat_mod_eq_iff)
  with assms show ?thesis by simp
qed

lemma probe_step: "((h + s) mod m + 1) mod m = (h + Suc s) mod (m::nat)"
  by (simp add: mod_Suc_eq)

end
