(* ===== verification/HW_Fence_Types.thy ===== *)
theory HW_Fence_Types
  imports Prelude
begin

text \<open>
  The data of the hardware fence driver (\<open>qcom/opensource/mm-drivers/hw_fence\<close>): the
  constants and structures of \<open>include/hw_fence_drv_priv.h\<close> and
  \<open>include/hw_fence_drv_utils.h\<close>, and the record of the constants that come from
  headers of the kernel tree.
\<close>

section \<open>Constants of hw_fence_drv_priv.h\<close>

definition HW_FENCE_INVALID_PARENT_FENCE :: u64 where
  "HW_FENCE_INVALID_PARENT_FENCE = NOT 0"

definition HW_FENCE_HASH_A_MULT :: u64 where
  "HW_FENCE_HASH_A_MULT = 4969"

definition HW_FENCE_HASH_C_MULT :: u64 where
  "HW_FENCE_HASH_C_MULT = 907"

definition HW_FENCE_CTRL_QUEUES :: nat where
  "HW_FENCE_CTRL_QUEUES = 2"

definition HW_FENCE_CLIENT_QUEUES :: nat where
  "HW_FENCE_CLIENT_QUEUES = 2"

text \<open>\<open>sizeof(struct msm_hw_fence_queue_payload)\<close>, and that in 32-bit words.\<close>

definition HW_FENCE_CLIENT_QUEUE_PAYLOAD :: u32 where
  "HW_FENCE_CLIENT_QUEUE_PAYLOAD = 64"

definition HW_FENCE_CTRL_QUEUE_PAYLOAD :: u32 where
  "HW_FENCE_CTRL_QUEUE_PAYLOAD = (1 + 1 + 1 + 2 + 1) * 4"

definition HW_FENCE_TX_QUEUE :: nat where
  "HW_FENCE_TX_QUEUE = 1"

definition HW_FENCE_RX_QUEUE :: nat where
  "HW_FENCE_RX_QUEUE = 2"

definition HW_FENCE_JOIN_FENCE_CLIENT_ID :: u32 where
  "HW_FENCE_JOIN_FENCE_CLIENT_ID = NOT 0"

definition MSM_HW_FENCE_FLAG_SIGNAL :: u64 where
  "MSM_HW_FENCE_FLAG_SIGNAL = BIT64 0"

definition MSM_HW_FENCE_MAX_JOIN_PARENTS :: nat where
  "MSM_HW_FENCE_MAX_JOIN_PARENTS = 3"

definition HW_FENCE_PAYLOAD_TYPE_1 :: u16 where
  "HW_FENCE_PAYLOAD_TYPE_1 = 1"

definition HW_FENCE_PAYLOAD_REV :: "u16 \<Rightarrow> u16 \<Rightarrow> u16" where
  "HW_FENCE_PAYLOAD_REV major minor = push_bit 8 major OR (minor AND 0xFF)"

lemmas hw_fence_consts =
  HW_FENCE_INVALID_PARENT_FENCE_def HW_FENCE_HASH_A_MULT_def HW_FENCE_HASH_C_MULT_def
  HW_FENCE_CTRL_QUEUES_def HW_FENCE_CLIENT_QUEUES_def HW_FENCE_CLIENT_QUEUE_PAYLOAD_def
  HW_FENCE_CTRL_QUEUE_PAYLOAD_def HW_FENCE_TX_QUEUE_def HW_FENCE_RX_QUEUE_def
  HW_FENCE_JOIN_FENCE_CLIENT_ID_def MSM_HW_FENCE_FLAG_SIGNAL_def
  MSM_HW_FENCE_MAX_JOIN_PARENTS_def HW_FENCE_PAYLOAD_TYPE_1_def HW_FENCE_PAYLOAD_REV_def

datatype hw_fence_lookup_ops =
    HW_FENCE_LOOKUP_OP_CREATE
  | HW_FENCE_LOOKUP_OP_DESTROY
  | HW_FENCE_LOOKUP_OP_CREATE_JOIN
  | HW_FENCE_LOOKUP_OP_FIND_FENCE

text \<open>
  \<open>enum hw_fence_client_data_id\<close>; the last value of the C enum is also its count and
  stands for a client without data.
\<close>

datatype hw_fence_client_data_id =
    HW_FENCE_CLIENT_DATA_ID_CTX0
  | HW_FENCE_CLIENT_DATA_ID_IPE
  | HW_FENCE_CLIENT_DATA_ID_VPU
  | HW_FENCE_CLIENT_DATA_ID_VAL0
  | HW_FENCE_CLIENT_DATA_ID_VAL1
  | HW_FENCE_MAX_CLIENTS_WITH_DATA

fun data_id_index :: "hw_fence_client_data_id \<Rightarrow> nat" where
  "data_id_index HW_FENCE_CLIENT_DATA_ID_CTX0 = 0"
| "data_id_index HW_FENCE_CLIENT_DATA_ID_IPE = 1"
| "data_id_index HW_FENCE_CLIENT_DATA_ID_VPU = 2"
| "data_id_index HW_FENCE_CLIENT_DATA_ID_VAL0 = 3"
| "data_id_index HW_FENCE_CLIENT_DATA_ID_VAL1 = 4"
| "data_id_index HW_FENCE_MAX_CLIENTS_WITH_DATA = 5"

datatype hw_fence_mem_reserve =
    HW_FENCE_MEM_RESERVE_CTRL_QUEUE
  | HW_FENCE_MEM_RESERVE_LOCKS_REGION
  | HW_FENCE_MEM_RESERVE_TABLE
  | HW_FENCE_MEM_RESERVE_CLIENT_QUEUE

section \<open>Constants of the kernel's headers\<close>

text \<open>
  \<open>linux/soc/qcom/msm_hw_fence.h\<close> is part of the kernel, not of this repository: the
  client ids of \<open>enum hw_fence_client_id\<close>, the reset flags, the error code and the sizes
  of the HFI header structures are a parameter of the model; \<open>HW_FENCE_CLIENT_ID_IFE n\<close> is the
  id of the first sub-client of image front end \<open>n\<close>. \<open>conv_start_addr\<close> is the
  conversion of a physical address to the type of the HFI header's \<open>start_addr\<close> field.
\<close>

record hw_fence_abi =
  HW_FENCE_CLIENT_ID_CTX0 :: nat
  HW_FENCE_CLIENT_ID_CTL0 :: nat
  HW_FENCE_CLIENT_ID_VAL0 :: nat
  HW_FENCE_CLIENT_ID_VAL1 :: nat
  HW_FENCE_CLIENT_ID_VAL6 :: nat
  HW_FENCE_CLIENT_ID_IPE :: nat
  HW_FENCE_CLIENT_ID_VPU :: nat
  HW_FENCE_CLIENT_ID_IFE :: "nat \<Rightarrow> nat"
  HW_FENCE_CLIENT_MAX :: nat
  MSM_HW_FENCE_MAX_SIGNAL_PER_CLIENT :: nat
  MSM_HW_FENCE_RESET_WITHOUT_ERROR :: u32
  MSM_HW_FENCE_RESET_WITHOUT_DESTROY :: u32
  MSM_HW_FENCE_ERROR_RESET :: u32
  HW_FENCE_HFI_TABLE_HEADER_SIZE :: u32
  HW_FENCE_HFI_QUEUE_HEADER_SIZE :: u32
  conv_start_addr :: "u64 \<Rightarrow> u64"

section \<open>Queues and clients\<close>

text \<open>The fields of the HFI queue header that the driver reads or writes.\<close>

record msm_hw_fence_hfi_queue_header =
  qh_start_addr :: u64
  qh_type :: u32
  qh_queue_size :: u32
  qh_pkt_size :: u32
  qh_read_index :: u32
  qh_write_index :: u32
  qh_tx_wm :: u32

text \<open>
  A queue. \<open>va_queue\<close> is the memory from the queue's first element on, by 32-bit word;
  \<open>va_header\<close> is the header the C pointer refers to, \<open>None\<close> for \<open>NULL\<close>.
\<close>

record msm_hw_fence_queue =
  va_queue :: words
  q_size_bytes :: u32
  va_header :: "msm_hw_fence_hfi_queue_header option"
  pa_queue :: u64

record msm_hw_fence_queue_payload =
  pl_size :: u32
  pl_type :: u16
  pl_version :: u16
  pl_ctxt_id :: u64
  pl_seqno :: u64
  pl_hash :: u64
  pl_flags :: u64
  pl_client_data :: u64
  pl_error :: u32
  pl_timestamp_lo :: u32
  pl_timestamp_hi :: u32
  pl_reserve :: u32

record msm_hw_fence_client =
  client_id :: nat
  client_id_ext :: nat
  queues :: "msm_hw_fence_queue list"
  ipc_signal_id :: int
  ipc_client_vid :: int
  ipc_client_pid :: int
  update_rxq :: bool
  send_ipc :: bool
  skip_txq_wr_idx :: bool
  val_signal :: bool

record hw_fence_client_ipc_map =
  map_client_id_virt :: int
  map_client_id_phys :: int
  map_signal_id :: int
  map_update_rxq :: bool
  map_send_ipc :: bool

record hw_fence_client_queue_size_desc =
  qs_queues_num :: u32
  qs_queue_entries :: u32
  qs_mem_size :: u32
  qs_start_offset :: u32
  qs_skip_txq_wr_idx :: bool

record hw_fence_client_type_desc =
  ct_name :: string
  ct_init_id :: nat
  ct_max_clients_num :: u32
  ct_clients_num :: u32
  ct_queues_num :: u32
  ct_queue_entries :: u32
  ct_mem_size :: u32
  ct_skip_txq_wr_idx :: bool

section \<open>Fences\<close>

text \<open>One entry of the global table. The lock word is not a field: a section between
  \<open>GLOBAL_ATOMIC_STORE(lock, 1)\<close> and \<open>GLOBAL_ATOMIC_STORE(lock, 0)\<close> is one atomic
  update of the entry.\<close>

record msm_hw_fence =
  hf_valid :: u32
  hf_error :: u32
  hf_ctx_id :: u64
  hf_seq_id :: u64
  hf_wait_client_mask :: u64
  hf_fence_allocator :: u32
  hf_fence_signal_client :: u32
  hf_flags :: u64
  hf_parent_list :: "u64 list"
  hf_parents_cnt :: u32
  hf_pending_child_cnt :: u32
  hf_fence_create_time :: u64
  hf_fence_trigger_time :: u64
  hf_fence_wait_time :: u64
  hf_debug_refcount :: u64
  hf_client_data :: "u64 list"

text \<open>
  The fields the driver uses of the kernel's \<open>struct dma_fence\<close>: its identity and the two
  flag bits that belong to the driver.
\<close>

record dma_fence =
  df_context :: u64
  df_seqno :: u64
  df_hw_enabled :: bool
  df_hw_signaled :: bool

text \<open>
  What a \<open>struct dma_fence *\<close> points to: a plain fence, or the base of a fence array with
  \<open>num_fences\<close> and the pointers in \<open>fences\<close> (\<open>None\<close> for a \<open>NULL\<close> array pointer).
\<close>

datatype dma_fence_obj =
    DmaFence dma_fence
  | DmaFenceArray dma_fence "dma_fence_obj list option"

section \<open>The driver\<close>

text \<open>
  \<open>qtime\<close> is the value the time counter gives to the operation that runs;
  \<open>ipcc_log\<close> lists the interrupts raised so far, the oldest first: the physical id that
  selects the send register and the value written to it. \<open>ipcc_writes\<close> lists the writes to the
  other registers of the interrupt controller by their offset from \<open>ipcc_io_mem\<close>.
\<close>

record hw_fence_driver_data =
  resources_ready :: bool
  vm_ready :: bool
  ipcc_dpu_initialized :: bool
  hw_fence_table_entries :: u32
  hw_fence_mem_fences_table_size :: u32
  hw_fence_queue_entries :: u32
  hw_fence_ctrl_queue_size :: u32
  hw_fence_mem_ctrl_queues_size :: u32
  hw_fence_client_queue_size :: "hw_fence_client_queue_size_desc list"
  hw_fence_client_types :: "hw_fence_client_type_desc list"
  rxq_clients_num :: u32
  clients_num :: u32
  hw_fences_tbl :: "msm_hw_fence list"
  hw_fences_tbl_cnt :: u32
  client_lock_tbl_cnt :: u32
  ctrl_queues :: "msm_hw_fence_queue list"
  res_start :: u64
  mem_size :: u64
  used_mem_size :: u32
  ipcc_client_vid :: u32
  ipcc_client_pid :: u32
  protocol_id :: u32
  ipc_clients_table :: "hw_fence_client_ipc_map list"
  clients :: "msm_hw_fence_client option list"
  qtime :: u64
  ipcc_log :: "(u32 \<times> u32) list"
  ipcc_writes :: "(u32 \<times> u32) list"

definition hw_fence_get_qtime :: "hw_fence_driver_data \<Rightarrow> u64" where
  "hw_fence_get_qtime drv = qtime drv"

end
