(* ===== verification/HW_Fence_Queue.thy ===== *)
theory HW_Fence_Queue
  imports HW_Fence_Types
begin

text \<open>
  The client queues of \<open>src/hw_fence_drv_priv.c\<close>: reading, writing and resetting the ring
  buffers that the driver shares with the fence controller, the abstraction of a ring to
  the list of its messages, and the laws of a bounded first-in first-out queue that the
  two operations satisfy.
\<close>

section \<open>Operations\<close>

text \<open>
  What a reader sees of a message: context, sequence number, hash, flags, client data and
  error, the arguments of \<open>hw_fence_update_queue\<close> in the source's order.
\<close>

type_synonym queue_msg = "u64 \<times> u64 \<times> u64 \<times> u64 \<times> u64 \<times> u32"

text \<open>The client structure that a handle refers to, and its replacement.\<close>

definition client_at :: "hw_fence_driver_data \<Rightarrow> nat \<Rightarrow> msm_hw_fence_client" where
  "client_at drv c = the (clients drv ! c)"

definition set_client ::
  "nat \<Rightarrow> msm_hw_fence_client \<Rightarrow> hw_fence_driver_data \<Rightarrow> hw_fence_driver_data" where
  "set_client c cl drv = drv\<lparr>clients := (clients drv)[c := Some cl]\<rparr>"

definition lock_client_queue :: "nat \<Rightarrow> bool" where
  "lock_client_queue queue_type = (queue_type = HW_FENCE_RX_QUEUE - 1)"

definition payload_size_u32 :: u32 where
  "payload_size_u32 = HW_FENCE_CLIENT_QUEUE_PAYLOAD div 4"

definition read_payload ::
  "words \<Rightarrow> nat \<Rightarrow> msm_hw_fence_queue_payload \<Rightarrow> msm_hw_fence_queue_payload" where
  "read_payload m at p = p\<lparr>
     pl_ctxt_id := readq m (at + 2),
     pl_seqno := readq m (at + 4),
     pl_hash := readq m (at + 6),
     pl_flags := readq m (at + 8),
     pl_client_data := readq m (at + 10),
     pl_error := readl m (at + 12)\<rparr>"

text \<open>Taking a message off a queue whose header is \<open>hfi_header\<close>: the new queue and payload,
  and 1 if the queue still has contents after the read.\<close>

definition queue_pop ::
  "msm_hw_fence_hfi_queue_header \<Rightarrow> msm_hw_fence_queue \<Rightarrow> msm_hw_fence_queue_payload \<Rightarrow>
   nat \<times> msm_hw_fence_queue \<times> msm_hw_fence_queue_payload" where
  "queue_pop hfi_header queue p =
     (let q_size_u32 = q_size_bytes queue div 4;
          read_idx = qh_read_index hfi_header;
          write_idx = qh_write_index hfi_header
      in if read_idx = write_idx then (0, queue, p)
         else
           let next_idx = read_idx + payload_size_u32;
               to_read_idx = (if q_size_u32 \<le> next_idx then 0 else next_idx)
           in (if to_read_idx = write_idx then 0 else 1,
               queue\<lparr>va_header := Some (hfi_header\<lparr>qh_read_index := to_read_idx\<rparr>)\<rparr>,
               read_payload (va_queue queue) (unat read_idx) p))"

definition hw_fence_read_queue ::
  "msm_hw_fence_client option \<Rightarrow> msm_hw_fence_queue_payload option \<Rightarrow> nat \<Rightarrow>
   (nat \<times> msm_hw_fence_client \<times> msm_hw_fence_queue_payload) result" where
  "hw_fence_read_queue hw_fence_client payload queue_type =
     (case (hw_fence_client, payload) of
        (Some cl, Some p) \<Rightarrow>
          if HW_FENCE_CLIENT_QUEUES \<le> queue_type then Inl EINVAL
          else
            let queue = queues cl ! queue_type
            in (case va_header queue of
                  None \<Rightarrow> Inl EINVAL
                | Some hfi_header \<Rightarrow>
                    let (more, queue', p') = queue_pop hfi_header queue p
                    in Inr (more, cl\<lparr>queues := (queues cl)[queue_type := queue']\<rparr>, p'))
      | _ \<Rightarrow> Inl EINVAL)"

text \<open>
  The stores of one message, in the source's order: the 64-bit store of the size clears
  the type and version, which the two 16-bit stores then set.
\<close>

definition write_payload ::
  "nat \<Rightarrow> u64 \<Rightarrow> u64 \<Rightarrow> u64 \<Rightarrow> u64 \<Rightarrow> u64 \<Rightarrow> u32 \<Rightarrow> u64 \<Rightarrow> words \<Rightarrow> words" where
  "write_payload at ctxt_id seqno hash flags client_data error timestamp m =
     (let m = writeq (ucast HW_FENCE_CLIENT_QUEUE_PAYLOAD) at m;
          m = writew_lo HW_FENCE_PAYLOAD_TYPE_1 (at + 1) m;
          m = writew_hi (HW_FENCE_PAYLOAD_REV 1 0) (at + 1) m;
          m = writeq ctxt_id (at + 2) m;
          m = writeq seqno (at + 4) m;
          m = writeq hash (at + 6) m;
          m = writeq flags (at + 8) m;
          m = writeq client_data (at + 10) m;
          m = writel error (at + 12) m;
          m = writel (ucast timestamp) (at + 13) m
      in writel (ucast (drop_bit 32 timestamp)) (at + 14) m)"

text \<open>\<open>wr_ptr\<close>: the index the driver advances is \<open>tx_wm\<close> for a Tx queue whose client
  updates the write index itself, and \<open>write_index\<close> otherwise.\<close>

definition uses_tx_wm :: "msm_hw_fence_client \<Rightarrow> nat \<Rightarrow> bool" where
  "uses_tx_wm cl queue_type = (queue_type = HW_FENCE_TX_QUEUE - 1 \<and> skip_txq_wr_idx cl)"

definition wr_ptr_read :: "bool \<Rightarrow> msm_hw_fence_hfi_queue_header \<Rightarrow> u32" where
  "wr_ptr_read wm h = (if wm then qh_tx_wm h else qh_write_index h)"

definition wr_ptr_write ::
  "bool \<Rightarrow> u32 \<Rightarrow> msm_hw_fence_hfi_queue_header \<Rightarrow> msm_hw_fence_hfi_queue_header" where
  "wr_ptr_write wm v h = (if wm then h\<lparr>qh_tx_wm := v\<rparr> else h\<lparr>qh_write_index := v\<rparr>)"

definition q_free_u32 :: "u32 \<Rightarrow> u32 \<Rightarrow> u32 \<Rightarrow> u32" where
  "q_free_u32 q_size_u32 read_idx write_idx =
     (if read_idx \<le> write_idx then q_size_u32 - (write_idx - read_idx)
      else read_idx - write_idx)"

text \<open>Putting a message into a queue, when it fits.\<close>

definition queue_push ::
  "bool \<Rightarrow> queue_msg \<Rightarrow> u64 \<Rightarrow> msm_hw_fence_hfi_queue_header \<Rightarrow> msm_hw_fence_queue \<Rightarrow>
   msm_hw_fence_queue result" where
  "queue_push wm msg timestamp hfi_header queue =
     (let (ctxt_id, seqno, hash, flags, client_data, error) = msg;
          q_size_u32 = q_size_bytes queue div 4;
          read_idx = qh_read_index hfi_header;
          write_idx = wr_ptr_read wm hfi_header
      in if q_free_u32 q_size_u32 read_idx write_idx \<le> payload_size_u32 then Inl EINVAL
         else
           let next_idx = write_idx + payload_size_u32;
               to_write_idx = (if q_size_u32 \<le> next_idx then 0 else next_idx)
           in Inr (queue\<lparr>
                va_queue := write_payload (unat write_idx) ctxt_id seqno hash flags
                  client_data error timestamp (va_queue queue),
                va_header := Some (wr_ptr_write wm to_write_idx hfi_header)\<rparr>))"

definition hw_fence_update_queue ::
  "hw_fence_driver_data \<Rightarrow> nat \<Rightarrow> queue_msg \<Rightarrow> nat \<Rightarrow> hw_fence_driver_data result" where
  "hw_fence_update_queue drv c msg queue_type =
     (let cl = client_at drv c in
      if unat (qs_queues_num (hw_fence_client_queue_size drv ! client_id cl)) \<le> queue_type
      then Inl EINVAL
      else
        let queue = queues cl ! queue_type;
            wm = uses_tx_wm cl queue_type;
            lock_idx = (of_nat (client_id cl) - 1 :: u32)
        in (case va_header queue of
              None \<Rightarrow> Inl EINVAL
            | Some hfi_header \<Rightarrow>
                if lock_client_queue queue_type \<and> client_lock_tbl_cnt drv \<le> lock_idx
                then Inl EINVAL
                else
                  (case queue_push wm msg (hw_fence_get_qtime drv) hfi_header queue of
                     Inl e \<Rightarrow> Inl e
                   | Inr queue' \<Rightarrow> Inr (set_client c
                       (cl\<lparr>queues := (queues cl)[queue_type := queue']\<rparr>) drv))))"

text \<open>
  Resetting the queues of a client: the Tx queue's read index becomes its write index, and
  for a client with an Rx queue the Rx queue's write index becomes its read index. A header
  pointer that is \<open>NULL\<close> would fault; it is left alone here.
\<close>

definition hw_fence_utils_reset_queues ::
  "hw_fence_driver_data \<Rightarrow> nat \<Rightarrow> hw_fence_driver_data" where
  "hw_fence_utils_reset_queues drv c =
     (let cl = client_at drv c;
          txq = queues cl ! (HW_FENCE_TX_QUEUE - 1);
          txq' = txq\<lparr>va_header := map_option
            (\<lambda>h. h\<lparr>qh_read_index := qh_write_index h\<rparr>) (va_header txq)\<rparr>;
          cl = cl\<lparr>queues := (queues cl)[HW_FENCE_TX_QUEUE - 1 := txq']\<rparr>;
          drv = set_client c cl drv
      in if update_rxq cl then
           let lock_idx = (of_nat (client_id cl) - 1 :: u32) in
           if client_lock_tbl_cnt drv \<le> lock_idx then drv
           else
             let rxq = queues cl ! (HW_FENCE_RX_QUEUE - 1);
                 rxq' = rxq\<lparr>va_header := map_option
                   (\<lambda>h. h\<lparr>qh_write_index := qh_read_index h\<rparr>) (va_header rxq)\<rparr>
             in set_client c (cl\<lparr>queues := (queues cl)[HW_FENCE_RX_QUEUE - 1 := rxq']\<rparr>) drv
         else drv)"

text \<open>
  The loop of the graphics loopback: it reads the Rx queue of the GPU client until a read
  reports that nothing is left. Nothing in the loop bounds it, so not returning is a
  possible outcome of the model (\<open>None\<close>).
\<close>

partial_function (option) gfx_read_loop ::
  "msm_hw_fence_client \<Rightarrow> msm_hw_fence_queue_payload \<Rightarrow> (unit result \<times> msm_hw_fence_client) option"
where
  "gfx_read_loop cl payload =
     (case hw_fence_read_queue (Some cl) (Some payload) (HW_FENCE_RX_QUEUE - 1) of
        Inl e \<Rightarrow> Some (Inl e, cl)
      | Inr (read, cl', payload') \<Rightarrow>
          if read = 0 then Some (Inr (), cl') else gfx_read_loop cl' payload')"

definition process_gfx_client_loopback ::
  "hw_fence_abi \<Rightarrow> hw_fence_driver_data \<Rightarrow> msm_hw_fence_queue_payload \<Rightarrow>
   (unit result \<times> hw_fence_driver_data) option" where
  "process_gfx_client_loopback abi drv payload =
     (case clients drv ! HW_FENCE_CLIENT_ID_CTX0 abi of
        None \<Rightarrow> Some (Inl EINVAL, drv)
      | Some cl \<Rightarrow> map_option (\<lambda>(r, cl'). (r, set_client (HW_FENCE_CLIENT_ID_CTX0 abi) cl' drv))
          (gfx_read_loop cl payload))"

section \<open>Messages in memory\<close>

definition msg_at :: "words \<Rightarrow> nat \<Rightarrow> queue_msg" where
  "msg_at m at = (readq m (at + 2), readq m (at + 4), readq m (at + 6), readq m (at + 8),
     readq m (at + 10), readl m (at + 12))"

definition payload_msg :: "msm_hw_fence_queue_payload \<Rightarrow> queue_msg" where
  "payload_msg p = (pl_ctxt_id p, pl_seqno p, pl_hash p, pl_flags p, pl_client_data p, pl_error p)"

lemma payload_msg_read [simp]: "payload_msg (read_payload m at p) = msg_at m at"
  by (simp add: payload_msg_def read_payload_def msg_at_def)

lemma write_payload_frame:
  "j < at \<or> at + 15 \<le> j \<Longrightarrow>
   write_payload at ctxt_id seqno hash flags client_data error ts m j = m j"
  by (auto simp: write_payload_def c_defs Let_def)

lemma msg_at_write_payload [simp]:
  "msg_at (write_payload at ctxt_id seqno hash flags client_data error ts m) at =
     (ctxt_id, seqno, hash, flags, client_data, error)"
  by (simp add: msg_at_def write_payload_def Let_def c_defs ucast_split_join)

lemma msg_at_cong:
  assumes "\<And>k. 2 \<le> k \<Longrightarrow> k \<le> 12 \<Longrightarrow> m (at + k) = m' (at + k)"
  shows "msg_at m at = msg_at m' at"
  using assms [of 2] assms [of 3] assms [of 4] assms [of 5] assms [of 6] assms [of 7]
    assms [of 8] assms [of 9] assms [of 10] assms [of 11] assms [of 12]
  by (simp add: msg_at_def readq_def readl_def eval_nat_numeral)

lemma msg_at_write_other:
  assumes "i \<noteq> j"
  shows "msg_at (write_payload (16 * i) c s h f d e ts m) (16 * j) = msg_at m (16 * j)"
proof (rule msg_at_cong)
  fix k :: nat
  assume "2 \<le> k" "k \<le> 12"
  with assms have "16 * j + k < 16 * i \<or> 16 * i + 15 \<le> 16 * j + k"
    by arith
  then show "write_payload (16 * i) c s h f d e ts m (16 * j + k) = m (16 * j + k)"
    by (rule write_payload_frame)
qed

section \<open>The ring as a list of messages\<close>

text \<open>
  A ring of \<open>n\<close> slots with read slot \<open>r\<close> and write slot \<open>w\<close> holds
  \<open>(w + n - r) mod n\<close> messages. \<open>wm\<close> tells which index of the header is the write index.
\<close>

definition ring_slots :: "msm_hw_fence_queue \<Rightarrow> nat" where
  "ring_slots q = unat (q_size_bytes q) div 64"

definition ring_rd :: "msm_hw_fence_queue \<Rightarrow> nat" where
  "ring_rd q = unat (qh_read_index (the (va_header q))) div 16"

definition ring_wr :: "bool \<Rightarrow> msm_hw_fence_queue \<Rightarrow> nat" where
  "ring_wr wm q = unat (wr_ptr_read wm (the (va_header q))) div 16"

definition ring_count :: "nat \<Rightarrow> nat \<Rightarrow> nat \<Rightarrow> nat" where
  "ring_count n r w = (w + n - r) mod n"

definition ring_wf :: "bool \<Rightarrow> msm_hw_fence_queue \<Rightarrow> bool" where
  "ring_wf wm q =
     (case va_header q of
        None \<Rightarrow> False
      | Some h \<Rightarrow>
          64 dvd unat (q_size_bytes q) \<and> 16 dvd unat (qh_read_index h) \<and>
          16 dvd unat (wr_ptr_read wm h) \<and>
          4 * unat (qh_read_index h) < unat (q_size_bytes q) \<and>
          4 * unat (wr_ptr_read wm h) < unat (q_size_bytes q))"

definition ring_contents :: "bool \<Rightarrow> msm_hw_fence_queue \<Rightarrow> queue_msg list" where
  "ring_contents wm q =
     map (\<lambda>k. msg_at (va_queue q) (16 * ((ring_rd q + k) mod ring_slots q)))
       [0..<ring_count (ring_slots q) (ring_rd q) (ring_wr wm q)]"

text \<open>The number of messages a ring takes: one slot always stays free.\<close>

definition ring_capacity :: "msm_hw_fence_queue \<Rightarrow> nat" where
  "ring_capacity q = ring_slots q - 1"

subsection \<open>Arithmetic of slots\<close>

lemma ring_wfE:
  assumes "ring_wf wm q"
  obtains h where "va_header q = Some h" "0 < ring_slots q"
    "unat (q_size_bytes q) = 64 * ring_slots q"
    "unat (qh_read_index h) = 16 * ring_rd q" "ring_rd q < ring_slots q"
    "unat (wr_ptr_read wm h) = 16 * ring_wr wm q" "ring_wr wm q < ring_slots q"
  using assms
  by (fastforce simp: ring_wf_def ring_slots_def ring_rd_def ring_wr_def split: option.splits)

lemma unat_q_size_u32:
  "unat (x div 4 :: u32) = unat x div 4"
  by (simp add: unat_div)

lemma unat_payload_size_u32 [simp]: "unat payload_size_u32 = 16"
  by (simp add: payload_size_u32_def hw_fence_consts unat_div)

text \<open>Advancing an index by one payload, with the wrap to 0 at the end of the queue.\<close>

definition next_index :: "u32 \<Rightarrow> u32 \<Rightarrow> u32" where
  "next_index q_bytes i = (if q_bytes div 4 \<le> i + payload_size_u32 then 0
     else i + payload_size_u32)"

lemma unat_next_index:
  assumes "unat b = 64 * n" "unat i = 16 * k" "k < n"
  shows "unat (next_index b i) = 16 * (Suc k mod n)"
proof -
  have b: "64 * n < 2 ^ 32" using assms(1) unat_u32_less [of b] by simp
  have i: "unat (i + payload_size_u32) = 16 * Suc k"
    using b assms by (simp add: unat_word_ariths)
  have le: "b div 4 \<le> i + payload_size_u32 \<longleftrightarrow> n \<le> Suc k"
    by (simp add: word_le_nat_alt unat_div assms(1) i) presburger
  show ?thesis
    using assms(3) i by (auto simp: next_index_def le mod_Suc)
qed

lemma ring_count_less: "0 < n \<Longrightarrow> ring_count n r w < n"
  by (simp add: ring_count_def)

lemma ring_count_empty: "r < n \<Longrightarrow> w < n \<Longrightarrow> ring_count n r w = 0 \<longleftrightarrow> r = w"
  by (auto simp: ring_count_def mod_if)

lemma ring_count_push:
  "r < n \<Longrightarrow> w < n \<Longrightarrow> Suc (ring_count n r w) < n \<Longrightarrow>
   ring_count n r (Suc w mod n) = Suc (ring_count n r w)"
  by (auto simp: ring_count_def mod_if split: if_splits)

lemma ring_count_pop:
  "r < n \<Longrightarrow> w < n \<Longrightarrow> r \<noteq> w \<Longrightarrow>
   Suc (ring_count n (Suc r mod n) w) = ring_count n r w"
  by (auto simp: ring_count_def mod_if split: if_splits)

lemma ring_count_wr:
  "r < n \<Longrightarrow> w < n \<Longrightarrow> (r + ring_count n r w) mod n = w"
  by (auto simp: ring_count_def mod_if split: if_splits)

lemma q_free_slots:
  assumes "unat b = 64 * n" "unat r = 16 * i" "i < n" "unat w = 16 * j" "j < n"
  shows "q_free_u32 (b div 4) r w \<le> payload_size_u32 \<longleftrightarrow> n \<le> Suc (ring_count n i j)"
proof -
  have b: "64 * n < 2 ^ 32" using assms(1) unat_u32_less [of b] by simp
  have bd: "unat (b div 4) = 16 * n" by (simp add: unat_div assms(1))
  have "unat (q_free_u32 (b div 4) r w) = 16 * (n - ring_count n i j)"
  proof (cases "i \<le> j")
    case True
    then have le: "r \<le> w" by (simp add: word_le_nat_alt assms)
    then have "w - r \<le> b div 4"
      using True assms by (simp add: word_le_nat_alt unat_sub bd)
    then have "unat (b div 4 - (w - r)) = 16 * n - (16 * j - 16 * i)"
      using le by (simp add: unat_sub bd assms)
    moreover have "ring_count n i j = j - i"
      using True assms by (simp add: ring_count_def mod_if)
    ultimately show ?thesis using le by (simp add: q_free_u32_def)
  next
    case False
    then have "\<not> r \<le> w" and "w \<le> r" by (simp_all add: word_le_nat_alt assms)
    moreover have "ring_count n i j = n - (i - j)"
      using False assms by (auto simp: ring_count_def mod_if)
    ultimately show ?thesis using False assms
      by (simp add: q_free_u32_def unat_sub)
  qed
  then show ?thesis
    using ring_count_less [of n i j] assms(3) by (simp add: word_le_nat_alt) arith
qed

subsection \<open>The operations on the list of messages\<close>

lemma queue_push_alt:
  "queue_push wm msg ts h q =
     (if q_free_u32 (q_size_bytes q div 4) (qh_read_index h) (wr_ptr_read wm h) \<le> payload_size_u32
      then Inl EINVAL
      else case msg of (ctxt_id, seqno, hash, flags, client_data, error) \<Rightarrow>
        Inr (q\<lparr>va_queue := write_payload (unat (wr_ptr_read wm h)) ctxt_id seqno hash flags
                 client_data error ts (va_queue q),
               va_header := Some (wr_ptr_write wm
                 (next_index (q_size_bytes q) (wr_ptr_read wm h)) h)\<rparr>))"
  by (cases msg) (simp add: queue_push_def next_index_def Let_def)

lemma wr_ptr_simps [simp]:
  "wr_ptr_read wm (wr_ptr_write wm v h) = v"
  "qh_read_index (wr_ptr_write wm v h) = qh_read_index h"
  "wr_ptr_read wm (h\<lparr>qh_read_index := v\<rparr>) = wr_ptr_read wm h"
  by (simp_all add: wr_ptr_read_def wr_ptr_write_def)

lemma queue_push_full:
  assumes "ring_wf wm q" "va_header q = Some h" "ring_capacity q \<le> length (ring_contents wm q)"
  shows "queue_push wm msg ts h q = Inl EINVAL"
proof -
  from assms(1) obtain h' where h': "va_header q = Some h'" "0 < ring_slots q"
    "unat (q_size_bytes q) = 64 * ring_slots q"
    "unat (qh_read_index h') = 16 * ring_rd q" "ring_rd q < ring_slots q"
    "unat (wr_ptr_read wm h') = 16 * ring_wr wm q" "ring_wr wm q < ring_slots q"
    by (rule ring_wfE)
  moreover have "h' = h" using h' assms(2) by simp
  ultimately show ?thesis
    using assms(3) q_free_slots [of "q_size_bytes q" "ring_slots q" "qh_read_index h" "ring_rd q"
        "wr_ptr_read wm h" "ring_wr wm q"]
    by (cases msg) (simp add: queue_push_alt ring_contents_def ring_capacity_def)
qed

lemma queue_push_fits:
  assumes wf: "ring_wf wm q" and h: "va_header q = Some h"
    and room: "length (ring_contents wm q) < ring_capacity q"
  shows "\<exists>q'. queue_push wm msg ts h q = Inr q' \<and> ring_wf wm q' \<and>
    ring_contents wm q' = ring_contents wm q @ [msg] \<and> q_size_bytes q' = q_size_bytes q \<and>
    (\<forall>j. unat (q_size_bytes q) div 4 \<le> j \<longrightarrow> va_queue q' j = va_queue q j)"
proof -
  obtain c s ha f d e where msg: "msg = (c, s, ha, f, d, e)" by (cases msg)
  define n r w where nrw: "n = ring_slots q" "r = ring_rd q" "w = ring_wr wm q"
  from wf h have n: "0 < n" "unat (q_size_bytes q) = 64 * n"
    "unat (qh_read_index h) = 16 * r" "r < n" "unat (wr_ptr_read wm h) = 16 * w" "w < n"
    by (auto simp: nrw elim!: ring_wfE)
  define q' where "q' = q\<lparr>va_queue := write_payload (16 * w) c s ha f d e ts (va_queue q),
    va_header := Some (wr_ptr_write wm (next_index (q_size_bytes q) (wr_ptr_read wm h)) h)\<rparr>"
  have room': "Suc (ring_count n r w) < n"
    using room by (simp add: ring_contents_def ring_capacity_def nrw)
  have push: "queue_push wm msg ts h q = Inr q'"
    using room' n q_free_slots [of "q_size_bytes q" n "qh_read_index h" r "wr_ptr_read wm h" w]
    by (simp add: queue_push_alt msg q'_def)
  have nx: "unat (next_index (q_size_bytes q) (wr_ptr_read wm h)) = 16 * (Suc w mod n)"
    using n by (intro unat_next_index) simp_all
  have "ring_slots q' = n" by (simp add: q'_def nrw ring_slots_def)
  moreover have "ring_rd q' = r" using h by (simp add: q'_def nrw ring_rd_def)
  moreover have "ring_wr wm q' = Suc w mod n" using nx by (simp add: q'_def ring_wr_def)
  ultimately have q': "ring_slots q' = n" "ring_rd q' = r" "ring_wr wm q' = Suc w mod n"
    by simp_all
  have wf': "ring_wf wm q'"
    using n nx by (simp add: ring_wf_def q'_def)
  have other: "msg_at (va_queue q') (16 * ((r + k) mod n)) = msg_at (va_queue q) (16 * ((r + k) mod n))"
    if "k < ring_count n r w" for k
  proof -
    have "(r + k) mod n \<noteq> w"
      using that room' n ring_count_wr [of r n w] probe_inj [of k n "ring_count n r w" r] by fastforce
    then show ?thesis by (simp add: q'_def msg_at_write_other)
  qed
  have "ring_contents wm q' = map (\<lambda>k. msg_at (va_queue q') (16 * ((r + k) mod n)))
      ([0..<ring_count n r w] @ [ring_count n r w])"
    using room' n by (simp add: ring_contents_def q' ring_count_push)
  also have "\<dots> = ring_contents wm q @ [msg]"
    using n other by (simp add: ring_contents_def nrw [symmetric] ring_count_wr q'_def msg)
  finally have "ring_contents wm q' = ring_contents wm q @ [msg]" .
  moreover have "va_queue q' j = va_queue q j" if "unat (q_size_bytes q) div 4 \<le> j" for j
    using that n by (simp add: q'_def write_payload_frame)
  ultimately show ?thesis using push wf' by (auto simp: q'_def)
qed

lemma queue_pop_empty:
  assumes "ring_wf False q" "va_header q = Some h" "ring_contents False q = []"
  shows "queue_pop h q p = (0, q, p)"
proof -
  have "ring_rd q = ring_wr False q"
    using assms by (auto simp: ring_contents_def ring_count_empty elim!: ring_wfE)
  then have "qh_read_index h = qh_write_index h"
    using assms by (auto simp: wr_ptr_read_def word_unat_eq_iff elim!: ring_wfE)
  then show ?thesis by (simp add: queue_pop_def Let_def)
qed

lemma queue_pop_cons:
  assumes wf: "ring_wf False q" and h: "va_header q = Some h"
    and cons: "ring_contents False q = msg # rest"
  shows "\<exists>q' p'. queue_pop h q p = (if rest = [] then 0 else 1, q', p') \<and>
    payload_msg p' = msg \<and> ring_wf False q' \<and> ring_contents False q' = rest \<and>
    q_size_bytes q' = q_size_bytes q \<and> va_queue q' = va_queue q"
proof -
  define n r w where nrw: "n = ring_slots q" "r = ring_rd q" "w = ring_wr False q"
  from wf h have n: "0 < n" "unat (q_size_bytes q) = 64 * n"
    "unat (qh_read_index h) = 16 * r" "r < n" "unat (qh_write_index h) = 16 * w" "w < n"
    by (auto simp: nrw wr_ptr_read_def elim!: ring_wfE)
  define i' where "i' = next_index (q_size_bytes q) (qh_read_index h)"
  have i': "unat i' = 16 * (Suc r mod n)"
    unfolding i'_def using n by (intro unat_next_index) simp_all
  have rw: "r \<noteq> w"
    using cons n ring_count_empty [of r n w] by (auto simp: ring_contents_def nrw)
  then have ne: "qh_read_index h \<noteq> qh_write_index h" using n by auto
  define q' where "q' = q\<lparr>va_header := Some (h\<lparr>qh_read_index := i'\<rparr>)\<rparr>"
  define k where "k = ring_count n (Suc r mod n) w"
  have k: "ring_count n r w = Suc k" using n rw by (simp add: k_def ring_count_pop)
  have "ring_slots q' = n" by (simp add: q'_def nrw ring_slots_def)
  moreover have "ring_rd q' = Suc r mod n" using i' by (simp add: q'_def ring_rd_def)
  moreover have "ring_wr False q' = w" using h by (simp add: q'_def nrw ring_wr_def)
  ultimately have q': "ring_slots q' = n" "ring_rd q' = Suc r mod n" "ring_wr False q' = w"
    by simp_all
  have sh: "(Suc r mod n + j) mod n = (r + Suc j) mod n" for j
    by (simp add: mod_add_left_eq)
  have "ring_contents False q = msg_at (va_queue q) (16 * r) # ring_contents False q'"
    using n by (simp add: ring_contents_def q' nrw [symmetric] k k_def [symmetric] sh
        upt_conv_Cons map_Suc_upt [symmetric] del: upt_Suc) (simp add: q'_def)
  then have msg: "msg = msg_at (va_queue q) (16 * r)" and rest: "rest = ring_contents False q'"
    using cons by simp_all
  have "rest = [] \<longleftrightarrow> Suc r mod n = w"
    using n by (simp add: rest ring_contents_def q' ring_count_empty)
  also have "\<dots> \<longleftrightarrow> i' = qh_write_index h"
    using i' n by (auto simp: word_unat_eq_iff)
  finally have last: "rest = [] \<longleftrightarrow> i' = qh_write_index h" .
  have "queue_pop h q p = (if rest = [] then 0 else 1, q', read_payload (va_queue q) (unat (qh_read_index h)) p)"
    using ne by (simp add: queue_pop_def Let_def last q'_def i'_def next_index_def)
  moreover have "ring_wf False q'"
    using n i' by (simp add: ring_wf_def q'_def wr_ptr_read_def)
  ultimately show ?thesis
    using n by (simp add: msg rest [symmetric]) (simp add: q'_def)
qed

section \<open>The interface of a bounded first-in first-out queue\<close>

locale bounded_fifo =
  fixes push :: "'a \<Rightarrow> 'q \<Rightarrow> 'q option"
    and pop :: "'q \<Rightarrow> ('a \<times> 'q) option"
    and contents :: "'q \<Rightarrow> 'a list"
    and capacity :: "'q \<Rightarrow> nat"
    and inv :: "'q \<Rightarrow> bool"
  assumes push_room: "inv q \<Longrightarrow> length (contents q) < capacity q \<Longrightarrow>
      \<exists>q'. push x q = Some q' \<and> inv q' \<and> contents q' = contents q @ [x] \<and> capacity q' = capacity q"
    and push_full: "inv q \<Longrightarrow> capacity q \<le> length (contents q) \<Longrightarrow> push x q = None"
    and pop_none: "inv q \<Longrightarrow> contents q = [] \<Longrightarrow> pop q = None"
    and pop_some: "inv q \<Longrightarrow> contents q = x # xs \<Longrightarrow>
      \<exists>q'. pop q = Some (x, q') \<and> inv q' \<and> contents q' = xs \<and> capacity q' = capacity q"
begin

primrec push_all :: "'a list \<Rightarrow> 'q \<Rightarrow> 'q option" where
  "push_all [] q = Some q"
| "push_all (x # xs) q = Option.bind (push x q) (push_all xs)"

primrec pop_n :: "nat \<Rightarrow> 'q \<Rightarrow> ('a list \<times> 'q) option" where
  "pop_n 0 q = Some ([], q)"
| "pop_n (Suc n) q =
     (case pop q of None \<Rightarrow> None
      | Some (x, q') \<Rightarrow> map_option (apfst (Cons x)) (pop_n n q'))"

lemma push_all_room:
  assumes "inv q" "length (contents q) + length xs \<le> capacity q"
  shows "\<exists>q'. push_all xs q = Some q' \<and> inv q' \<and> contents q' = contents q @ xs \<and>
    capacity q' = capacity q"
  using assms
proof (induction xs arbitrary: q)
  case Nil
  then show ?case by simp
next
  case (Cons x xs)
  from Cons.prems have "length (contents q) < capacity q" by simp
  with Cons.prems(1) obtain q1 where q1: "push x q = Some q1" "inv q1"
    "contents q1 = contents q @ [x]" "capacity q1 = capacity q"
    using push_room by blast
  with Cons.prems Cons.IH [of q1] show ?case by auto
qed

lemma pop_n_contents:
  assumes "inv q" "n \<le> length (contents q)"
  shows "\<exists>q'. pop_n n q = Some (take n (contents q), q') \<and> inv q' \<and>
    contents q' = drop n (contents q) \<and> capacity q' = capacity q"
  using assms
proof (induction n arbitrary: q)
  case 0
  then show ?case by simp
next
  case (Suc n)
  then obtain x xs where xs: "contents q = x # xs" by (cases "contents q") auto
  with Suc.prems(1) obtain q1 where q1: "pop q = Some (x, q1)" "inv q1" "contents q1 = xs"
    "capacity q1 = capacity q"
    using pop_some by blast
  with Suc.prems(2) Suc.IH [of q1] xs show ?case by auto
qed

text \<open>Everything that is pushed comes out, once and in order.\<close>

lemma fifo:
  assumes "inv q" "contents q = []" "length xs \<le> capacity q"
  shows "\<exists>q1 q2. push_all xs q = Some q1 \<and> pop_n (length xs) q1 = Some (xs, q2) \<and>
    contents q2 = [] \<and> inv q2"
proof -
  from assms obtain q1 where q1: "push_all xs q = Some q1" "inv q1" "contents q1 = xs"
    using push_all_room [of q xs] by auto
  moreover obtain q2 where "pop_n (length xs) q1 = Some (xs, q2)" "inv q2" "contents q2 = []"
    using pop_n_contents [of q1 "length xs"] q1 by auto
  ultimately show ?thesis by blast
qed

end

text \<open>The two operations of the driver, seen through this interface.\<close>

definition ring_push :: "u64 \<Rightarrow> queue_msg \<Rightarrow> msm_hw_fence_queue \<Rightarrow> msm_hw_fence_queue option" where
  "ring_push ts msg q =
     (case va_header q of None \<Rightarrow> None
      | Some h \<Rightarrow> (case queue_push False msg ts h q of Inl _ \<Rightarrow> None | Inr q' \<Rightarrow> Some q'))"

definition empty_payload :: msm_hw_fence_queue_payload where
  "empty_payload = \<lparr>pl_size = 0, pl_type = 0, pl_version = 0, pl_ctxt_id = 0, pl_seqno = 0,
     pl_hash = 0, pl_flags = 0, pl_client_data = 0, pl_error = 0, pl_timestamp_lo = 0,
     pl_timestamp_hi = 0, pl_reserve = 0\<rparr>"

definition ring_pop :: "msm_hw_fence_queue \<Rightarrow> (queue_msg \<times> msm_hw_fence_queue) option" where
  "ring_pop q =
     (case va_header q of None \<Rightarrow> None
      | Some h \<Rightarrow>
          if qh_read_index h = qh_write_index h then None
          else case queue_pop h q empty_payload of (_, q', p') \<Rightarrow> Some (payload_msg p', q'))"

lemma ring_contents_empty_iff:
  assumes "ring_wf False q" "va_header q = Some h"
  shows "ring_contents False q = [] \<longleftrightarrow> qh_read_index h = qh_write_index h"
  using assms
  by (auto simp: ring_contents_def ring_count_empty wr_ptr_read_def word_unat_eq_iff
      elim!: ring_wfE)

interpretation ring: bounded_fifo "ring_push ts" ring_pop "ring_contents False" ring_capacity
  "ring_wf False" for ts
proof
  fix q x
  assume wf: "ring_wf False q" and "length (ring_contents False q) < ring_capacity q"
  moreover from wf obtain h where h: "va_header q = Some h" by (rule ring_wfE)
  ultimately obtain q' where "queue_push False x ts h q = Inr q'" "ring_wf False q'"
    "ring_contents False q' = ring_contents False q @ [x]" "q_size_bytes q' = q_size_bytes q"
    using queue_push_fits [of False q h x ts] by blast
  with h show "\<exists>q'. ring_push ts x q = Some q' \<and> ring_wf False q' \<and>
      ring_contents False q' = ring_contents False q @ [x] \<and> ring_capacity q' = ring_capacity q"
    by (simp add: ring_push_def ring_capacity_def ring_slots_def)
next
  fix q x
  assume wf: "ring_wf False q" and full: "ring_capacity q \<le> length (ring_contents False q)"
  from wf obtain h where h: "va_header q = Some h" by (rule ring_wfE)
  with queue_push_full [OF wf h full, of x ts] show "ring_push ts x q = None"
    by (simp add: ring_push_def)
next
  fix q
  assume wf: "ring_wf False q" and e: "ring_contents False q = []"
  from wf obtain h where "va_header q = Some h" by (rule ring_wfE)
  with wf e show "ring_pop q = None" by (simp add: ring_pop_def ring_contents_empty_iff)
next
  fix q x xs
  assume wf: "ring_wf False q" and c: "ring_contents False q = x # xs"
  from wf obtain h where h: "va_header q = Some h" by (rule ring_wfE)
  moreover from wf h c have "qh_read_index h \<noteq> qh_write_index h"
    using ring_contents_empty_iff by fastforce
  ultimately show "\<exists>q'. ring_pop q = Some (x, q') \<and> ring_wf False q' \<and>
      ring_contents False q' = xs \<and> ring_capacity q' = ring_capacity q"
    using queue_pop_cons [OF wf h c, of empty_payload]
    by (auto simp: ring_pop_def ring_capacity_def ring_slots_def)
qed

section \<open>The queues of a client\<close>

text \<open>A client handle refers to a registered client whose structure is complete.\<close>

definition client_ok :: "hw_fence_driver_data \<Rightarrow> nat \<Rightarrow> bool" where
  "client_ok drv c \<longleftrightarrow> c < length (clients drv) \<and>
     (case clients drv ! c of None \<Rightarrow> False | Some cl \<Rightarrow> length (queues cl) = HW_FENCE_CLIENT_QUEUES)"

definition client_queue :: "hw_fence_driver_data \<Rightarrow> nat \<Rightarrow> nat \<Rightarrow> msm_hw_fence_queue" where
  "client_queue drv c queue_type = queues (client_at drv c) ! queue_type"

text \<open>The queue exists, its lock is in the lock table and its ring is well formed.\<close>

definition queue_ready :: "hw_fence_driver_data \<Rightarrow> nat \<Rightarrow> nat \<Rightarrow> bool" where
  "queue_ready drv c queue_type \<longleftrightarrow>
     client_ok drv c \<and> queue_type < HW_FENCE_CLIENT_QUEUES \<and>
     queue_type < unat (qs_queues_num (hw_fence_client_queue_size drv ! client_id (client_at drv c))) \<and>
     (lock_client_queue queue_type \<longrightarrow>
        (of_nat (client_id (client_at drv c)) - 1 :: u32) < client_lock_tbl_cnt drv) \<and>
     ring_wf (uses_tx_wm (client_at drv c) queue_type) (client_queue drv c queue_type)"

definition queue_messages :: "hw_fence_driver_data \<Rightarrow> nat \<Rightarrow> nat \<Rightarrow> queue_msg list" where
  "queue_messages drv c queue_type =
     ring_contents (uses_tx_wm (client_at drv c) queue_type) (client_queue drv c queue_type)"

lemma client_at_set_client [simp]:
  "c < length (clients drv) \<Longrightarrow> client_at (set_client c cl drv) c = cl"
  "c \<noteq> c' \<Longrightarrow> client_at (set_client c cl drv) c' = client_at drv c'"
  by (simp_all add: client_at_def set_client_def)

lemma set_client_fields [simp]:
  "hw_fence_client_queue_size (set_client c cl drv) = hw_fence_client_queue_size drv"
  "client_lock_tbl_cnt (set_client c cl drv) = client_lock_tbl_cnt drv"
  "hw_fences_tbl (set_client c cl drv) = hw_fences_tbl drv"
  "length (clients (set_client c cl drv)) = length (clients drv)"
  by (simp_all add: set_client_def)

lemma uses_tx_wm_queues [simp]: "uses_tx_wm (cl\<lparr>queues := qs\<rparr>) t = uses_tx_wm cl t"
  by (simp add: uses_tx_wm_def)

lemma update_queue_ready:
  assumes "queue_ready drv c t"
  shows "hw_fence_update_queue drv c msg t =
    (case queue_push (uses_tx_wm (client_at drv c) t) msg (hw_fence_get_qtime drv)
            (the (va_header (client_queue drv c t))) (client_queue drv c t) of
       Inl e \<Rightarrow> Inl e
     | Inr q \<Rightarrow> Inr (set_client c ((client_at drv c)\<lparr>queues :=
         (queues (client_at drv c))[t := q]\<rparr>) drv))"
  using assms
  by (auto simp: hw_fence_update_queue_def queue_ready_def client_queue_def Let_def
      elim!: ring_wfE split: sum.splits)

text \<open>The effect of a write in terms of the list of messages.\<close>

lemma update_queue_spec:
  assumes ready: "queue_ready drv c t"
  shows "case hw_fence_update_queue drv c msg t of
      Inl e \<Rightarrow> e = EINVAL \<and> ring_capacity (client_queue drv c t) \<le> length (queue_messages drv c t)
    | Inr drv' \<Rightarrow>
        length (queue_messages drv c t) < ring_capacity (client_queue drv c t) \<and>
        queue_messages drv' c t = queue_messages drv c t @ [msg] \<and>
        queue_ready drv' c t \<and>
        (\<forall>c' t'. (c', t') \<noteq> (c, t) \<longrightarrow> client_queue drv' c' t' = client_queue drv c' t') \<and>
        (\<forall>j. unat (q_size_bytes (client_queue drv c t)) div 4 \<le> j \<longrightarrow>
           va_queue (client_queue drv' c t) j = va_queue (client_queue drv c t) j)"
proof -
  let ?cl = "client_at drv c" and ?q = "client_queue drv c t"
  let ?wm = "uses_tx_wm ?cl t"
  from ready have wf: "ring_wf ?wm ?q" and c: "c < length (clients drv)"
    and cl: "clients drv ! c = Some ?cl" "length (queues ?cl) = HW_FENCE_CLIENT_QUEUES" "t < HW_FENCE_CLIENT_QUEUES"
    by (auto simp: queue_ready_def client_ok_def client_at_def split: option.splits)
  from wf obtain h where h: "va_header ?q = Some h" by (rule ring_wfE)
  show ?thesis
  proof (cases "length (queue_messages drv c t) < ring_capacity ?q")
    case True
    then obtain q' where q': "queue_push ?wm msg (hw_fence_get_qtime drv) h ?q = Inr q'"
      "ring_wf ?wm q'" "ring_contents ?wm q' = ring_contents ?wm ?q @ [msg]"
      "\<forall>j. unat (q_size_bytes ?q) div 4 \<le> j \<longrightarrow> va_queue q' j = va_queue ?q j"
      using queue_push_fits [OF wf h] unfolding queue_messages_def by blast
    let ?drv = "set_client c (?cl\<lparr>queues := (queues ?cl)[t := q']\<rparr>) drv"
    have "client_queue ?drv c t = q'" using c cl by (simp add: client_queue_def)
    moreover have "client_queue ?drv c' t' = client_queue drv c' t'" if "(c', t') \<noteq> (c, t)" for c' t'
      using that c by (cases "c' = c") (auto simp: client_queue_def)
    moreover have "queue_ready ?drv c t"
      using ready q' c cl by (simp add: queue_ready_def client_ok_def client_queue_def) (simp add: set_client_def)
    ultimately show ?thesis
      using True ready q' h c by (simp add: update_queue_ready queue_messages_def)
  next
    case False
    then have "queue_push ?wm msg (hw_fence_get_qtime drv) h ?q = Inl EINVAL"
      using queue_push_full [OF wf h] by (simp add: queue_messages_def)
    with False ready h show ?thesis by (simp add: update_queue_ready)
  qed
qed

text \<open>C1. Writing to a client queue is an append to the queue's list of messages: it succeeds
  exactly when the list is shorter than the capacity (one slot of the ring stays free) and
  returns \<open>-EINVAL\<close> otherwise; on success the message is last in the list, the queue is
  ready for the next write, every other queue and client is untouched, and no word of memory
  from the end of the queue on has changed.\<close>

theorem hw_fence_update_queue_appends:
  assumes ready: "queue_ready drv c t"
  shows "case hw_fence_update_queue drv c msg t of
      Inl e \<Rightarrow> e = EINVAL \<and> ring_capacity (client_queue drv c t) \<le> length (queue_messages drv c t)
    | Inr drv' \<Rightarrow>
        length (queue_messages drv c t) < ring_capacity (client_queue drv c t) \<and>
        queue_messages drv' c t = queue_messages drv c t @ [msg] \<and>
        queue_ready drv' c t \<and>
        (\<forall>c' t'. (c', t') \<noteq> (c, t) \<longrightarrow> client_queue drv' c' t' = client_queue drv c' t') \<and>
        (\<forall>j. unat (q_size_bytes (client_queue drv c t)) div 4 \<le> j \<longrightarrow>
           va_queue (client_queue drv' c t) j = va_queue (client_queue drv c t) j)"
  using ready by (rule update_queue_spec)

text \<open>C17. Reading a client queue takes the first message off the list, or leaves everything
  as it is when the list is empty; the return value is 1 exactly when messages are left, the
  caller's payload holds the message that was first, and neither the queue memory nor the
  client's other queue changes.\<close>

theorem hw_fence_read_queue_takes_first:
  assumes "length (queues cl) = HW_FENCE_CLIENT_QUEUES" and "t < HW_FENCE_CLIENT_QUEUES"
    and "ring_wf False (queues cl ! t)"
  shows "\<exists>cl' p'. hw_fence_read_queue (Some cl) (Some p) t =
      Inr (if length (ring_contents False (queues cl ! t)) \<le> 1 then 0 else 1, cl', p') \<and>
    (case ring_contents False (queues cl ! t) of
       [] \<Rightarrow> cl' = cl \<and> p' = p
     | msg # rest \<Rightarrow> payload_msg p' = msg \<and> ring_contents False (queues cl' ! t) = rest \<and>
         ring_wf False (queues cl' ! t) \<and> va_queue (queues cl' ! t) = va_queue (queues cl ! t) \<and>
         (\<forall>t'. t' \<noteq> t \<longrightarrow> queues cl' ! t' = queues cl ! t') \<and> length (queues cl') = length (queues cl))"
proof -
  from assms(3) obtain h where h: "va_header (queues cl ! t) = Some h" by (rule ring_wfE)
  show ?thesis
  proof (cases "ring_contents False (queues cl ! t)")
    case Nil
    with assms h queue_pop_empty [of "queues cl ! t" h p] show ?thesis
      by (simp add: hw_fence_read_queue_def)
  next
    case (Cons msg rest)
    with assms(3) h obtain q' p' where
      "queue_pop h (queues cl ! t) p = (if rest = [] then 0 else 1, q', p')"
      "payload_msg p' = msg" "ring_wf False q'" "ring_contents False q' = rest"
      "va_queue q' = va_queue (queues cl ! t)"
      using queue_pop_cons [of "queues cl ! t" h msg rest p] by blast
    with Cons assms h show ?thesis
      by (cases rest) (simp_all add: hw_fence_read_queue_def)
  qed
qed

text \<open>C18. The graphics loopback ends: on a well formed Rx queue its read loop returns, reports
  success and leaves the queue empty, however many messages were in it.\<close>

theorem gfx_read_loop_drains:
  assumes "length (queues cl) = HW_FENCE_CLIENT_QUEUES"
    and "ring_wf False (queues cl ! (HW_FENCE_RX_QUEUE - 1))"
  shows "\<exists>cl'. gfx_read_loop cl p = Some (Inr (), cl') \<and>
    ring_contents False (queues cl' ! (HW_FENCE_RX_QUEUE - 1)) = []"
  using assms
proof (induction "length (ring_contents False (queues cl ! (HW_FENCE_RX_QUEUE - 1)))"
    arbitrary: cl p rule: less_induct)
  case less
  let ?t = "HW_FENCE_RX_QUEUE - 1"
  have t: "?t < HW_FENCE_CLIENT_QUEUES" by (simp add: hw_fence_consts)
  from less.prems(2) obtain h where h: "va_header (queues cl ! ?t) = Some h" by (rule ring_wfE)
  show ?case
  proof (cases "ring_contents False (queues cl ! ?t)")
    case Nil
    with less.prems t h queue_pop_empty [of "queues cl ! ?t" h p] show ?thesis
      by (subst gfx_read_loop.simps) (simp add: hw_fence_read_queue_def)
  next
    case (Cons msg rest)
    with less.prems(2) h obtain q' p' where q':
      "queue_pop h (queues cl ! ?t) p = (if rest = [] then 0 else 1, q', p')"
      "ring_wf False q'" "ring_contents False q' = rest"
      using queue_pop_cons [of "queues cl ! ?t" h msg rest p] by blast
    let ?cl = "cl\<lparr>queues := (queues cl)[?t := q']\<rparr>"
    have step: "hw_fence_read_queue (Some cl) (Some p) ?t = Inr (if rest = [] then 0 else 1, ?cl, p')"
      using t h q' by (simp add: hw_fence_read_queue_def)
    have cl: "queues ?cl ! ?t = q'" "length (queues ?cl) = HW_FENCE_CLIENT_QUEUES"
      using less.prems(1) t by simp_all
    show ?thesis
    proof (cases rest)
      case Nil
      then show ?thesis using step cl q' by (subst gfx_read_loop.simps) simp
    next
      case (Cons m ms)
      have "gfx_read_loop cl p = gfx_read_loop ?cl p'"
        using step Cons by (subst gfx_read_loop.simps) simp
      moreover have "\<exists>cl'. gfx_read_loop ?cl p' = Some (Inr (), cl') \<and>
          ring_contents False (queues cl' ! ?t) = []"
        using less.hyps [of ?cl p'] \<open>ring_contents False (queues cl ! ?t) = msg # rest\<close> cl q'
        by simp
      ultimately show ?thesis by simp
    qed
  qed
qed

lemma ring_contents_same_index:
  "va_header q = Some h \<Longrightarrow> qh_write_index h = qh_read_index h \<Longrightarrow> ring_contents False q = []"
  by (simp add: ring_contents_def ring_rd_def ring_wr_def wr_ptr_read_def ring_count_def)

text \<open>Resetting the queues of a client empties its Tx queue, and its Rx queue when the
  client has one whose lock is in the lock table.\<close>

theorem hw_fence_utils_reset_queues_empties:
  assumes "client_ok drv c"
    and "va_header (client_queue drv c (HW_FENCE_TX_QUEUE - 1)) \<noteq> None"
    and "va_header (client_queue drv c (HW_FENCE_RX_QUEUE - 1)) \<noteq> None"
  shows "ring_contents False
      (client_queue (hw_fence_utils_reset_queues drv c) c (HW_FENCE_TX_QUEUE - 1)) = [] \<and>
    (update_rxq (client_at drv c) \<and>
       (of_nat (client_id (client_at drv c)) - 1 :: u32) < client_lock_tbl_cnt drv \<longrightarrow>
     ring_contents False
       (client_queue (hw_fence_utils_reset_queues drv c) c (HW_FENCE_RX_QUEUE - 1)) = [])"
proof -
  obtain h0 h1 where h:
    "va_header (queues (client_at drv c) ! 0) = Some h0"
    "va_header (queues (client_at drv c) ! Suc 0) = Some h1"
    using assms(2,3) by (auto simp: client_queue_def hw_fence_consts)
  have c: "c < length (clients drv)" "length (queues (client_at drv c)) = 2"
    using assms(1) by (auto simp: client_ok_def client_at_def hw_fence_consts split: option.splits)
  note defs = hw_fence_utils_reset_queues_def client_queue_def Let_def hw_fence_consts
  have "va_header (client_queue (hw_fence_utils_reset_queues drv c) c 0) =
      Some (h0\<lparr>qh_read_index := qh_write_index h0\<rparr>)"
    using c h by (simp add: defs)
  moreover have "va_header (client_queue (hw_fence_utils_reset_queues drv c) c (Suc 0)) =
      Some (h1\<lparr>qh_write_index := qh_read_index h1\<rparr>)"
    if "update_rxq (client_at drv c)"
      "(of_nat (client_id (client_at drv c)) - 1 :: u32) < client_lock_tbl_cnt drv"
    using c h that by (simp add: defs)
  ultimately show ?thesis
    by (auto simp: hw_fence_consts intro: ring_contents_same_index)
qed

section \<open>A sample driver\<close>

text \<open>
  A small concrete driver, used to show that the hypotheses of the theorems can hold
  together: a table of four clean entries and one registered client with id 1, whose two
  queues have four slots and are empty.
\<close>

definition sample_queue :: msm_hw_fence_queue where
  "sample_queue = \<lparr>va_queue = (\<lambda>_. 0), q_size_bytes = 256,
     va_header = Some \<lparr>qh_start_addr = 0, qh_type = 1, qh_queue_size = 256, qh_pkt_size = 64,
       qh_read_index = 0, qh_write_index = 0, qh_tx_wm = 0\<rparr>, pa_queue = 0\<rparr>"

definition sample_client :: msm_hw_fence_client where
  "sample_client = \<lparr>client_id = 1, client_id_ext = 1, queues = [sample_queue, sample_queue],
     ipc_signal_id = 0, ipc_client_vid = 9, ipc_client_pid = 9, update_rxq = True,
     send_ipc = True, skip_txq_wr_idx = False, val_signal = False\<rparr>"

definition clean_fence :: msm_hw_fence where
  "clean_fence = \<lparr>hf_valid = 0, hf_error = 0, hf_ctx_id = 0, hf_seq_id = 0,
     hf_wait_client_mask = 0, hf_fence_allocator = 0, hf_fence_signal_client = 0, hf_flags = 0,
     hf_parent_list = [0, 0, 0], hf_parents_cnt = 0, hf_pending_child_cnt = 0,
     hf_fence_create_time = 0, hf_fence_trigger_time = 0, hf_fence_wait_time = 0,
     hf_debug_refcount = 0, hf_client_data = [0, 0, 0, 0, 0]\<rparr>"

definition sample_drv :: hw_fence_driver_data where
  "sample_drv = \<lparr>resources_ready = True, vm_ready = True, ipcc_dpu_initialized = False,
     hw_fence_table_entries = 4, hw_fence_mem_fences_table_size = 640,
     hw_fence_queue_entries = 4, hw_fence_ctrl_queue_size = 96,
     hw_fence_mem_ctrl_queues_size = 256,
     hw_fence_client_queue_size =
       [\<lparr>qs_queues_num = 0, qs_queue_entries = 0, qs_mem_size = 0, qs_start_offset = 0,
         qs_skip_txq_wr_idx = False\<rparr>,
        \<lparr>qs_queues_num = 2, qs_queue_entries = 4, qs_mem_size = 4096, qs_start_offset = 4096,
         qs_skip_txq_wr_idx = False\<rparr>],
     hw_fence_client_types = [], rxq_clients_num = 1, clients_num = 2,
     hw_fences_tbl = [clean_fence, clean_fence, clean_fence, clean_fence],
     hw_fences_tbl_cnt = 4, client_lock_tbl_cnt = 1, ctrl_queues = [], res_start = 0,
     mem_size = 8192, used_mem_size = 8192, ipcc_client_vid = 8, ipcc_client_pid = 8,
     protocol_id = 2,
     ipc_clients_table = [], clients = [None, Some sample_client], qtime = 0, ipcc_log = [],
     ipcc_writes = []\<rparr>"

definition sample_abi :: hw_fence_abi where
  "sample_abi = \<lparr>HW_FENCE_CLIENT_ID_CTX0 = 1, HW_FENCE_CLIENT_ID_CTL0 = 2, HW_FENCE_CLIENT_ID_VAL0 = 8,
     HW_FENCE_CLIENT_ID_VAL1 = 9, HW_FENCE_CLIENT_ID_VAL6 = 14, HW_FENCE_CLIENT_ID_IPE = 15,
     HW_FENCE_CLIENT_ID_VPU = 16, HW_FENCE_CLIENT_ID_IFE = (\<lambda>n. 17 + 32 * n), HW_FENCE_CLIENT_MAX = 273,
     MSM_HW_FENCE_MAX_SIGNAL_PER_CLIENT = 32, MSM_HW_FENCE_RESET_WITHOUT_ERROR = 1,
     MSM_HW_FENCE_RESET_WITHOUT_DESTROY = 2, MSM_HW_FENCE_ERROR_RESET = 1,
     HW_FENCE_HFI_TABLE_HEADER_SIZE = 24, HW_FENCE_HFI_QUEUE_HEADER_SIZE = 96,
     conv_start_addr = (\<lambda>a. a)\<rparr>"

lemma sample_ring: "ring_wf wm sample_queue" "ring_contents wm sample_queue = []"
  "ring_capacity sample_queue = 3"
  by (simp_all add: ring_wf_def ring_contents_def ring_capacity_def ring_slots_def ring_rd_def ring_wr_def
      ring_count_def sample_queue_def wr_ptr_read_def)

lemma sample_drv_client: "client_at sample_drv 1 = sample_client" "client_at sample_drv (Suc 0) = sample_client"
  "client_ok sample_drv 1"
  by (simp_all add: client_at_def client_ok_def sample_drv_def sample_client_def hw_fence_consts)

lemma sample_queue_ready: "queue_ready sample_drv 1 1"
  using sample_drv_client(3)
  by (simp add: queue_ready_def client_queue_def sample_drv_client hw_fence_consts lock_client_queue_def
      uses_tx_wm_def sample_client_def sample_ring)
     (simp add: sample_drv_def)

theorem hw_fence_update_queue_appends_witness:
  "queue_ready sample_drv 1 1 \<and>
   (\<exists>drv'. hw_fence_update_queue sample_drv 1 (1, 2, 3, 0, 0, 5) 1 = Inr drv' \<and>
      queue_messages drv' 1 1 = [(1, 2, 3, 0, 0, 5)])"
proof -
  have "queue_messages sample_drv 1 1 = []" "ring_capacity (client_queue sample_drv 1 1) = 3"
    by (simp_all add: queue_messages_def client_queue_def sample_drv_client sample_ring sample_client_def)
  with hw_fence_update_queue_appends [OF sample_queue_ready, of "(1, 2, 3, 0, 0, 5)"]
  show ?thesis using sample_queue_ready
    by (cases "hw_fence_update_queue sample_drv 1 (1, 2, 3, 0, 0, 5) 1") simp_all
qed

theorem hw_fence_read_queue_takes_first_witness:
  "\<exists>cl' p'. hw_fence_read_queue (Some sample_client) (Some empty_payload) 1 = Inr (0, cl', p') \<and>
     cl' = sample_client \<and> p' = empty_payload"
  using hw_fence_read_queue_takes_first [of sample_client 1 empty_payload]
  by (simp add: sample_client_def hw_fence_consts sample_ring)

theorem gfx_read_loop_drains_witness:
  "\<exists>cl'. gfx_read_loop sample_client empty_payload = Some (Inr (), cl') \<and>
     ring_contents False (queues cl' ! 1) = []"
  using gfx_read_loop_drains [of sample_client empty_payload]
  by (simp add: sample_client_def hw_fence_consts sample_ring)

theorem hw_fence_utils_reset_queues_empties_witness:
  "ring_contents False (client_queue (hw_fence_utils_reset_queues sample_drv 1) 1 1) = []"
  using hw_fence_utils_reset_queues_empties [OF sample_drv_client(3)]
  by (simp add: client_queue_def sample_drv_client sample_client_def hw_fence_consts)
     (simp add: sample_drv_def sample_queue_def)

end
