(* ===== verification/HW_Fence_Table.thy ===== *)
theory HW_Fence_Table
  imports HW_Fence_Queue
begin

text \<open>
  The global table of fences of \<open>src/hw_fence_drv_priv.c\<close>: the hash, the linear probing of
  \<open>_hw_fence_lookup_and_process\<close> and the operations on top of it (create, destroy, destroy
  by handle, find, and the allocation of join fences), with the refinement of the table to a
  finite map from (context, sequence number) to fences.
\<close>

section \<open>Operations\<close>

subsection \<open>Hash and slots\<close>

definition calculate_hash :: "u32 \<Rightarrow> u64 \<Rightarrow> u64 \<Rightarrow> nat \<Rightarrow> u64 \<Rightarrow> u64 result" where
  "calculate_hash table_total_entries context seqno step hash =
     (let m_size = (ucast table_total_entries :: u64) in
      if step = 0 then
        let b_multiplier = context + (context - 1)
        in Inr ((HW_FENCE_HASH_A_MULT * seqno * b_multiplier + HW_FENCE_HASH_C_MULT * context)
             mod m_size)
      else if unat m_size \<le> step then Inl EINVAL
      else Inr ((hash + 1) mod m_size))"

definition get_hw_fence :: "u32 \<Rightarrow> u64 \<Rightarrow> nat option" where
  "get_hw_fence table_total_entries hash =
     (if ucast table_total_entries \<le> hash then None else Some (unat hash))"

definition is_hw_fence_free :: "msm_hw_fence \<Rightarrow> bool" where
  "is_hw_fence_free hw_fence = (hf_valid hw_fence = 0)"

definition hw_fence_match :: "msm_hw_fence \<Rightarrow> u64 \<Rightarrow> u64 \<Rightarrow> bool" where
  "hw_fence_match hw_fence context seqno =
     (hf_ctx_id hw_fence = context \<and> hf_seq_id hw_fence = seqno)"

text \<open>Clears everything but the \<open>valid\<close> field.\<close>

definition cleanup_hw_fence :: "msm_hw_fence \<Rightarrow> msm_hw_fence" where
  "cleanup_hw_fence hw_fence = hw_fence\<lparr>
     hf_error := 0,
     hf_ctx_id := 0,
     hf_seq_id := 0,
     hf_wait_client_mask := 0,
     hf_fence_allocator := 0,
     hf_fence_signal_client := 0,
     hf_flags := 0,
     hf_fence_create_time := 0,
     hf_fence_trigger_time := 0,
     hf_fence_wait_time := 0,
     hf_debug_refcount := 0,
     hf_parents_cnt := 0,
     hf_pending_child_cnt := 0,
     hf_parent_list := replicate MSM_HW_FENCE_MAX_JOIN_PARENTS HW_FENCE_INVALID_PARENT_FENCE,
     hf_client_data := replicate (data_id_index HW_FENCE_MAX_CLIENTS_WITH_DATA) 0\<rparr>"

definition reserve_hw_fence ::
  "hw_fence_driver_data \<Rightarrow> u32 \<Rightarrow> u64 \<Rightarrow> u64 \<Rightarrow> msm_hw_fence \<Rightarrow> msm_hw_fence" where
  "reserve_hw_fence drv cid context seqno hw_fence =
     (let f = (cleanup_hw_fence hw_fence)\<lparr>
        hf_valid := 1,
        hf_ctx_id := context,
        hf_seq_id := seqno,
        hf_flags := 0,
        hf_fence_allocator := cid,
        hf_fence_create_time := hw_fence_get_qtime drv\<rparr>
      in f\<lparr>hf_debug_refcount := hf_debug_refcount f + 1\<rparr>)"

definition unreserve_hw_fence :: "msm_hw_fence \<Rightarrow> msm_hw_fence" where
  "unreserve_hw_fence hw_fence = (cleanup_hw_fence hw_fence)\<lparr>hf_valid := 0\<rparr>"

definition reserve_join_fence ::
  "hw_fence_driver_data \<Rightarrow> u32 \<Rightarrow> u64 \<Rightarrow> u64 \<Rightarrow> u32 \<Rightarrow> msm_hw_fence \<Rightarrow> msm_hw_fence" where
  "reserve_join_fence drv cid context seqno pending_child_cnt hw_fence =
     (let f = (cleanup_hw_fence hw_fence)\<lparr>
        hf_valid := 1,
        hf_ctx_id := context,
        hf_seq_id := seqno,
        hf_fence_allocator := cid,
        hf_fence_create_time := hw_fence_get_qtime drv\<rparr>;
          f = f\<lparr>hf_debug_refcount := hf_debug_refcount f + 1\<rparr>
      in f\<lparr>hf_pending_child_cnt := pending_child_cnt\<rparr>)"

definition fence_found :: "msm_hw_fence \<Rightarrow> msm_hw_fence" where
  "fence_found hw_fence = hw_fence"

subsection \<open>Lookup\<close>

text \<open>\<open>compare_fnc\<close> and \<open>process_fnc\<close> of each operation code.\<close>

fun compare_fnc :: "hw_fence_lookup_ops \<Rightarrow> msm_hw_fence \<Rightarrow> u64 \<Rightarrow> u64 \<Rightarrow> bool" where
  "compare_fnc HW_FENCE_LOOKUP_OP_CREATE f context seqno = is_hw_fence_free f"
| "compare_fnc HW_FENCE_LOOKUP_OP_DESTROY f context seqno = hw_fence_match f context seqno"
| "compare_fnc HW_FENCE_LOOKUP_OP_CREATE_JOIN f context seqno = is_hw_fence_free f"
| "compare_fnc HW_FENCE_LOOKUP_OP_FIND_FENCE f context seqno = hw_fence_match f context seqno"

fun process_fnc ::
  "hw_fence_lookup_ops \<Rightarrow> hw_fence_driver_data \<Rightarrow> u32 \<Rightarrow> u64 \<Rightarrow> u64 \<Rightarrow> u32 \<Rightarrow> msm_hw_fence \<Rightarrow> msm_hw_fence"
where
  "process_fnc HW_FENCE_LOOKUP_OP_CREATE drv cid context seqno pending f =
     reserve_hw_fence drv cid context seqno f"
| "process_fnc HW_FENCE_LOOKUP_OP_DESTROY drv cid context seqno pending f = unreserve_hw_fence f"
| "process_fnc HW_FENCE_LOOKUP_OP_CREATE_JOIN drv cid context seqno pending f =
     reserve_join_fence drv cid context seqno pending f"
| "process_fnc HW_FENCE_LOOKUP_OP_FIND_FENCE drv cid context seqno pending f = fence_found f"

definition is_create :: "hw_fence_lookup_ops \<Rightarrow> bool" where
  "is_create op = (op = HW_FENCE_LOOKUP_OP_CREATE \<or> op = HW_FENCE_LOOKUP_OP_CREATE_JOIN)"

definition set_fence :: "nat \<Rightarrow> msm_hw_fence \<Rightarrow> hw_fence_driver_data \<Rightarrow> hw_fence_driver_data" where
  "set_fence i f drv = drv\<lparr>hw_fences_tbl := (hw_fences_tbl drv)[i := f]\<rparr>"

text \<open>
  The \<open>while\<close> loop: the fence that was found (its index, \<open>None\<close> for \<open>NULL\<close>), the last
  value of \<open>*hash\<close> and the driver data. A fence in use with the requested context and
  sequence number ends a creation.
\<close>

function lookup_loop ::
  "hw_fence_lookup_ops \<Rightarrow> u64 \<Rightarrow> u64 \<Rightarrow> u32 \<Rightarrow> u32 \<Rightarrow> hw_fence_driver_data \<Rightarrow> nat \<Rightarrow> u64 \<Rightarrow>
   nat option \<times> u64 \<times> hw_fence_driver_data" where
  "lookup_loop op context seqno cid pending drv step hash =
     (if step < unat (hw_fence_table_entries drv) then
        (case calculate_hash (hw_fence_table_entries drv) context seqno step hash of
           Inl e \<Rightarrow> (None, hash, drv)
         | Inr hash \<Rightarrow>
             (case get_hw_fence (hw_fence_table_entries drv) hash of
                None \<Rightarrow> (None, hash, drv)
              | Some i \<Rightarrow>
                  let hw_fence = hw_fences_tbl drv ! i in
                  if compare_fnc op hw_fence context seqno then
                    (Some i, hash, set_fence i (process_fnc op drv cid context seqno pending hw_fence) drv)
                  else if is_create op \<and> seqno = hf_seq_id hw_fence \<and> context = hf_ctx_id hw_fence
                  then (None, hash, drv)
                  else lookup_loop op context seqno cid pending drv (Suc step) hash))
      else (None, hash, drv))"
  by pat_completeness auto
termination
  by (relation "measure (\<lambda>(op, context, seqno, cid, pending, drv, step, hash).
        unat (hw_fence_table_entries drv) - step)") auto

declare lookup_loop.simps [simp del]

definition hw_fence_lookup_and_process ::
  "hw_fence_driver_data \<Rightarrow> u64 \<Rightarrow> u64 \<Rightarrow> u32 \<Rightarrow> u32 \<Rightarrow> hw_fence_lookup_ops \<Rightarrow>
   nat option \<times> u64 \<times> hw_fence_driver_data" where
  "hw_fence_lookup_and_process drv context seqno cid pending_child_cnt op =
     lookup_loop op context seqno cid pending_child_cnt drv 0 (NOT 0)"

subsection \<open>Create, destroy, find\<close>

definition hw_fence_create ::
  "hw_fence_driver_data \<Rightarrow> nat \<Rightarrow> u64 \<Rightarrow> u64 \<Rightarrow> (u64 \<times> hw_fence_driver_data) result" where
  "hw_fence_create drv c context seqno =
     (case hw_fence_lookup_and_process drv context seqno (of_nat (client_id (client_at drv c))) 0
             HW_FENCE_LOOKUP_OP_CREATE of
        (None, _, _) \<Rightarrow> Inl EINVAL
      | (Some i, hash, drv') \<Rightarrow> Inr (hash, drv'))"

definition hw_fence_cleanup ::
  "hw_fence_driver_data \<Rightarrow> u32 \<Rightarrow> u64 \<Rightarrow> u64 \<Rightarrow> hw_fence_driver_data result" where
  "hw_fence_cleanup drv cid context seqno =
     (case hw_fence_lookup_and_process drv context seqno cid 0 HW_FENCE_LOOKUP_OP_DESTROY of
        (None, _, _) \<Rightarrow> Inl EINVAL
      | (Some i, _, drv') \<Rightarrow> Inr drv')"

definition hw_fence_destroy ::
  "hw_fence_driver_data \<Rightarrow> nat \<Rightarrow> u64 \<Rightarrow> u64 \<Rightarrow> hw_fence_driver_data result" where
  "hw_fence_destroy drv c context seqno =
     (case hw_fence_cleanup drv (of_nat (client_id (client_at drv c))) context seqno of
        Inl _ \<Rightarrow> Inl EINVAL
      | Inr drv' \<Rightarrow> Inr drv')"

definition hw_fence_destroy_with_hash ::
  "hw_fence_driver_data \<Rightarrow> nat \<Rightarrow> u64 \<Rightarrow> hw_fence_driver_data result" where
  "hw_fence_destroy_with_hash drv c hash =
     (let cid = (of_nat (client_id (client_at drv c)) :: u32) in
      case get_hw_fence (hw_fence_table_entries drv) hash of
        None \<Rightarrow> Inl EINVAL
      | Some i \<Rightarrow>
          let hw_fence = hw_fences_tbl drv ! i in
          if hf_fence_allocator hw_fence \<noteq> cid then Inl EINVAL
          else (case hw_fence_cleanup drv cid (hf_ctx_id hw_fence) (hf_seq_id hw_fence) of
                  Inl _ \<Rightarrow> Inl EINVAL
                | Inr drv' \<Rightarrow> Inr drv'))"

text \<open>The array is given by the context and sequence number of its base and by \<open>num_fences\<close>.
  With \<open>create\<close> the result is the new join fence and its hash; without, the fence is
  destroyed and a failure is only reported.\<close>

definition hw_fence_process_join_fence ::
  "hw_fence_driver_data \<Rightarrow> dma_fence \<Rightarrow> nat \<Rightarrow> bool \<Rightarrow>
   (nat \<times> u64) option \<times> hw_fence_driver_data" where
  "hw_fence_process_join_fence drv base num_fences create =
     (let context = df_context base; seqno = df_seqno base;
          pending_child_cnt = (of_nat num_fences :: u32);
          cid = HW_FENCE_JOIN_FENCE_CLIENT_ID
      in if create then
           (case hw_fence_lookup_and_process drv context seqno cid pending_child_cnt
                   HW_FENCE_LOOKUP_OP_CREATE_JOIN of
              (None, _, drv') \<Rightarrow> (None, drv')
            | (Some i, hash, drv') \<Rightarrow> (Some (i, hash), drv'))
         else
           (case hw_fence_cleanup drv cid context seqno of
              Inl _ \<Rightarrow> (None, drv)
            | Inr drv' \<Rightarrow> (None, drv')))"

text \<open>\<open>hw_fence_client\<close> may be \<open>NULL\<close> here; the id is only reported.\<close>

definition msm_hw_fence_find ::
  "hw_fence_driver_data \<Rightarrow> nat option \<Rightarrow> u64 \<Rightarrow> u64 \<Rightarrow> (nat \<times> u64) option" where
  "msm_hw_fence_find drv c context seqno =
     (let cid = (case c of None \<Rightarrow> 0xff | Some c \<Rightarrow> of_nat (client_id (client_at drv c))) in
      case hw_fence_lookup_and_process drv context seqno cid 0 HW_FENCE_LOOKUP_OP_FIND_FENCE of
        (None, _, _) \<Rightarrow> None
      | (Some i, hash, _) \<Rightarrow> Some (i, hash))"

section \<open>Probing visits every slot\<close>

definition probe_order :: "nat \<Rightarrow> nat \<Rightarrow> nat list" where
  "probe_order h m = map (\<lambda>s. (h + s) mod m) [0..<m]"

lemma set_probe_order [simp]: "h < m \<Longrightarrow> set (probe_order h m) = {..<m}"
  using probe_surj by (force simp: probe_order_def image_iff)

lemma drop_probe_order:
  "s < m \<Longrightarrow> drop s (probe_order h m) = ((h + s) mod m) # drop (Suc s) (probe_order h m)"
  by (simp add: probe_order_def Cons_nth_drop_Suc [symmetric])

definition hash_index :: "u32 \<Rightarrow> u64 \<Rightarrow> u64 \<Rightarrow> nat" where
  "hash_index m ctx seqno =
     unat ((HW_FENCE_HASH_A_MULT * seqno * (ctx + (ctx - 1)) +
            HW_FENCE_HASH_C_MULT * ctx) mod (ucast m :: u64))"

lemma hash_index_less: "m \<noteq> 0 \<Longrightarrow> hash_index m ctx seqno < unat m"
  by (simp add: hash_index_def unat_mod unat_gt_0)

definition stops :: "hw_fence_lookup_ops \<Rightarrow> u64 \<Rightarrow> u64 \<Rightarrow> msm_hw_fence \<Rightarrow> bool" where
  "stops op ctx seqno f \<longleftrightarrow>
     compare_fnc op f ctx seqno \<or> is_create op \<and> hw_fence_match f ctx seqno"

lemma calculate_hash_step:
  assumes "s < unat m" and "s = 0 \<or> unat hash = (hash_index m ctx seqno + (s - 1)) mod unat m"
  shows "\<exists>hash'. calculate_hash m ctx seqno s hash = Inr hash' \<and>
    unat hash' = (hash_index m ctx seqno + s) mod unat m"
proof (cases s)
  case 0
  then show ?thesis
    using assms hash_index_less [of m ctx seqno]
    by (auto simp: calculate_hash_def hash_index_def Let_def unat_gt_0)
next
  case (Suc t)
  have m: "unat (ucast m :: u64) = unat m" by simp
  have "unat hash < unat m" using assms Suc by simp
  then have "unat (hash + 1) = Suc (unat hash)"
    using unat_u32_less [of m] by (simp add: unat_word_ariths)
  then have "unat ((hash + 1) mod ucast m) = (hash_index m ctx seqno + s) mod unat m"
    using assms Suc by (simp add: unat_mod m mod_Suc_eq)
  then show ?thesis
    using assms Suc by (simp add: calculate_hash_def Let_def m)
qed

lemma get_hw_fence_in_range: "unat hash < unat m \<Longrightarrow> get_hw_fence m hash = Some (unat hash)"
  by (simp add: get_hw_fence_def word_le_nat_alt)

lemma lookup_loop_find:
  assumes "m = unat (hw_fence_table_entries drv)" and "s \<le> m"
    and "s = 0 \<or> unat hash = (hash_index (hw_fence_table_entries drv) ctx seqno + (s - 1)) mod m"
  shows "\<exists>hash'. lookup_loop op ctx seqno cid pending drv s hash =
    (case find (\<lambda>i. stops op ctx seqno (hw_fences_tbl drv ! i))
        (drop s (probe_order (hash_index (hw_fence_table_entries drv) ctx seqno) m)) of
       None \<Rightarrow> (None, hash', drv)
     | Some i \<Rightarrow>
         if compare_fnc op (hw_fences_tbl drv ! i) ctx seqno
         then (Some i, of_nat i, set_fence i
                (process_fnc op drv cid ctx seqno pending (hw_fences_tbl drv ! i)) drv)
         else (None, hash', drv))"
  using assms
proof (induction "m - s" arbitrary: s hash)
  case 0
  then show ?case by (subst lookup_loop.simps) (simp add: probe_order_def)
next
  case (Suc d)
  let ?e = "hw_fence_table_entries drv"
  let ?h = "hash_index ?e ctx seqno"
  from Suc have s: "s < m" by simp
  obtain hash' where hash': "calculate_hash ?e ctx seqno s hash = Inr hash'"
    "unat hash' = (?h + s) mod m"
    using calculate_hash_step [of s ?e hash ctx seqno] s Suc.prems by auto
  have slot: "get_hw_fence ?e hash' = Some ((?h + s) mod m)"
    using hash' s Suc.prems(1) by (simp add: get_hw_fence_in_range)
  have of_nat: "hash' = of_nat ((?h + s) mod m)" using hash'(2) by (rule word_eq_of_nat)
  let ?f = "hw_fences_tbl drv ! ((?h + s) mod m)"
  have unfold: "lookup_loop op ctx seqno cid pending drv s hash =
    (if compare_fnc op ?f ctx seqno then
       (Some ((?h + s) mod m), hash', set_fence ((?h + s) mod m)
          (process_fnc op drv cid ctx seqno pending ?f) drv)
     else if is_create op \<and> hw_fence_match ?f ctx seqno then (None, hash', drv)
     else lookup_loop op ctx seqno cid pending drv (Suc s) hash')"
    using s Suc.prems(1) hash' slot
    by (subst lookup_loop.simps) (auto simp: Let_def hw_fence_match_def)
  show ?case
  proof (cases "stops op ctx seqno ?f")
    case True
    then show ?thesis
      using s of_nat by (auto simp: unfold drop_probe_order stops_def)
  next
    case False
    moreover have "d = m - Suc s" using Suc.hyps(2) by simp
    ultimately show ?thesis
      using s Suc.hyps(1) [of "Suc s" hash'] Suc.prems(1) hash'
      by (auto simp: unfold drop_probe_order stops_def)
  qed
qed

lemma lookup_find:
  "\<exists>hash'. hw_fence_lookup_and_process drv ctx seqno cid pending op =
    (case find (\<lambda>i. stops op ctx seqno (hw_fences_tbl drv ! i))
        (probe_order (hash_index (hw_fence_table_entries drv) ctx seqno)
          (unat (hw_fence_table_entries drv))) of
       None \<Rightarrow> (None, hash', drv)
     | Some i \<Rightarrow>
         if compare_fnc op (hw_fences_tbl drv ! i) ctx seqno
         then (Some i, of_nat i, set_fence i
                (process_fnc op drv cid ctx seqno pending (hw_fences_tbl drv ! i)) drv)
         else (None, hash', drv))"
  using lookup_loop_find [OF refl, of 0 drv "NOT 0" ctx seqno op cid pending]
  by (simp add: hw_fence_lookup_and_process_def)

section \<open>The table as a map\<close>

text \<open>
  A table is well formed when it has as many entries as the driver data say, at least one,
  a free entry is clean and no two entries in use have the same key. The key (0, 0) is that
  of a clean entry and is not one of a fence in use.
\<close>

type_synonym fence_key = "u64 \<times> u64"

definition fence_key :: "msm_hw_fence \<Rightarrow> fence_key" where
  "fence_key f = (hf_ctx_id f, hf_seq_id f)"

definition in_use :: "msm_hw_fence \<Rightarrow> bool" where
  "in_use f = (hf_valid f \<noteq> 0)"

definition table_wf :: "hw_fence_driver_data \<Rightarrow> bool" where
  "table_wf drv \<longleftrightarrow>
     length (hw_fences_tbl drv) = unat (hw_fence_table_entries drv) \<and>
     hw_fence_table_entries drv \<noteq> 0 \<and>
     (\<forall>f\<in>set (hw_fences_tbl drv). in_use f \<longleftrightarrow> fence_key f \<noteq> (0, 0)) \<and>
     distinct (map fence_key (filter in_use (hw_fences_tbl drv)))"

definition fence_map :: "hw_fence_driver_data \<Rightarrow> fence_key \<rightharpoonup> msm_hw_fence" where
  "fence_map drv = map_of (map (\<lambda>f. (fence_key f, f)) (filter in_use (hw_fences_tbl drv)))"

definition has_free_slot :: "hw_fence_driver_data \<Rightarrow> bool" where
  "has_free_slot drv = (\<exists>f\<in>set (hw_fences_tbl drv). \<not> in_use f)"

lemma hw_fence_match_key: "hw_fence_match f ctx seqno \<longleftrightarrow> fence_key f = (ctx, seqno)"
  by (auto simp: hw_fence_match_def fence_key_def)

lemma is_hw_fence_free_in_use: "is_hw_fence_free f \<longleftrightarrow> \<not> in_use f"
  by (simp add: is_hw_fence_free_def in_use_def)

lemma fence_map_None:
  "fence_map drv k = None \<longleftrightarrow> (\<forall>f\<in>set (hw_fences_tbl drv). in_use f \<longrightarrow> fence_key f \<noteq> k)"
  by (force simp: fence_map_def map_of_eq_None_iff image_iff)

lemma distinct_filter_key_index:
  assumes "distinct (map k (filter P xs))" "i < length xs" "j < length xs" "P (xs ! i)" "P (xs ! j)"
    "k (xs ! i) = k (xs ! j)"
  shows "i = j"
  using assms
proof (induction xs arbitrary: i j)
  case Nil
  then show ?case by simp
next
  case (Cons x xs)
  show ?case
  proof (cases "i = 0 \<or> j = 0")
    case True
    with Cons.prems show ?thesis
      by (cases i; cases j) (force simp: image_iff split: if_splits)+
  next
    case False
    then obtain i' j' where ij: "i = Suc i'" "j = Suc j'" by (meson not0_implies_Suc)
    with Cons.prems Cons.IH [of i' j'] show ?thesis by (auto split: if_splits)
  qed
qed

lemma distinct_filter_keyI:
  assumes "\<And>i j. i < length xs \<Longrightarrow> j < length xs \<Longrightarrow> P (xs ! i) \<Longrightarrow> P (xs ! j) \<Longrightarrow>
    k (xs ! i) = k (xs ! j) \<Longrightarrow> i = j"
  shows "distinct (map k (filter P xs))"
  using assms
proof (induction xs)
  case Nil
  then show ?case by simp
next
  case (Cons x xs)
  have "distinct (map k (filter P xs))"
    using Cons.prems [of "Suc _" "Suc _"] by (intro Cons.IH) auto
  moreover have "k x \<noteq> k y" if "P x" "y \<in> set xs" "P y" for y
    using that Cons.prems [of 0 "Suc _"] by (metis in_set_conv_nth length_Cons nat.distinct(1)
        not_less_eq nth_Cons_0 nth_Cons_Suc zero_less_Suc)
  ultimately show ?case by auto
qed

lemma table_wf_unique:
  assumes "table_wf drv" "i < length (hw_fences_tbl drv)" "j < length (hw_fences_tbl drv)"
    "in_use (hw_fences_tbl drv ! i)" "fence_key (hw_fences_tbl drv ! i) = fence_key (hw_fences_tbl drv ! j)"
  shows "i = j"
proof -
  have "in_use (hw_fences_tbl drv ! j)"
    using assms nth_mem unfolding table_wf_def by metis
  with assms show ?thesis
    using distinct_filter_key_index [of fence_key in_use "hw_fences_tbl drv" i j]
    by (simp add: table_wf_def)
qed

lemma fence_map_Some:
  assumes "table_wf drv"
  shows "fence_map drv k = Some f \<longleftrightarrow>
    (\<exists>i<length (hw_fences_tbl drv). hw_fences_tbl drv ! i = f \<and> in_use f \<and> fence_key f = k)"
  using assms
  by (subst fence_map_def, subst map_of_eq_Some_iff)
     (auto simp: table_wf_def comp_def in_set_conv_nth)

lemma set_fence_fields [simp]:
  "hw_fences_tbl (set_fence i f drv) = (hw_fences_tbl drv)[i := f]"
  "hw_fence_table_entries (set_fence i f drv) = hw_fence_table_entries drv"
  "clients (set_fence i f drv) = clients drv"
  "client_at (set_fence i f drv) c = client_at drv c"
  by (simp_all add: set_fence_def client_at_def)

text \<open>Replacing one entry by another keeps the table well formed when the new entry is clean
  or has a key of its own.\<close>

lemma table_wf_set_fence:
  assumes wf: "table_wf drv" and i: "i < length (hw_fences_tbl drv)"
    and clean: "in_use f \<longleftrightarrow> fence_key f \<noteq> (0, 0)"
    and fresh: "in_use f \<Longrightarrow> \<forall>j<length (hw_fences_tbl drv). j \<noteq> i \<longrightarrow>
      fence_key (hw_fences_tbl drv ! j) \<noteq> fence_key f"
  shows "table_wf (set_fence i f drv)"
proof -
  have "distinct (map fence_key (filter in_use ((hw_fences_tbl drv)[i := f])))"
  proof (rule distinct_filter_keyI)
    fix a b
    assume "a < length ((hw_fences_tbl drv)[i := f])" "b < length ((hw_fences_tbl drv)[i := f])"
      "in_use ((hw_fences_tbl drv)[i := f] ! a)" "in_use ((hw_fences_tbl drv)[i := f] ! b)"
      "fence_key ((hw_fences_tbl drv)[i := f] ! a) = fence_key ((hw_fences_tbl drv)[i := f] ! b)"
    then show "a = b"
      using wf i fresh table_wf_unique [of drv a b]
      by (auto simp: nth_list_update_if split: if_splits)
  qed
  moreover have "\<forall>g\<in>set ((hw_fences_tbl drv)[i := f]). in_use g \<longleftrightarrow> fence_key g \<noteq> (0, 0)"
    using wf clean by (intro list_update_preserves) (auto simp: table_wf_def)
  ultimately show ?thesis using wf by (simp add: table_wf_def)
qed

lemma fence_map_set_fence:
  assumes wf: "table_wf drv" and wf': "table_wf (set_fence i f drv)" and i: "i < length (hw_fences_tbl drv)"
    and old: "in_use (hw_fences_tbl drv ! i) \<Longrightarrow> fence_key (hw_fences_tbl drv ! i) = k"
    and new: "in_use f \<Longrightarrow> fence_key f = k"
    and k: "k \<noteq> (0, 0)" "fence_map drv k = None \<or> in_use (hw_fences_tbl drv ! i)"
  shows "fence_map (set_fence i f drv) = (fence_map drv)(k := if in_use f then Some f else None)"
proof
  fix k'
  have eq: "fence_map (set_fence i f drv) k' = Some g \<longleftrightarrow>
      ((fence_map drv)(k := if in_use f then Some f else None)) k' = Some g" for g
  proof (cases "k' = k")
    case True
    have "\<not> in_use (hw_fences_tbl drv ! j) \<or> fence_key (hw_fences_tbl drv ! j) \<noteq> k"
      if "j < length (hw_fences_tbl drv)" "j \<noteq> i" for j
      using that wf i old k table_wf_unique [of drv i j]
      by (auto simp: fence_map_None)
    with True i new show ?thesis
      by (auto simp: fence_map_Some [OF wf'] nth_list_update_if)
  next
    case False
    with i old new show ?thesis
      by (auto simp: fence_map_Some [OF wf'] fence_map_Some [OF wf] nth_list_update_if
          split: if_splits) metis
  qed
  show "fence_map (set_fence i f drv) k' = ((fence_map drv)(k := if in_use f then Some f else None)) k'"
    by (metis eq not_None_eq)
qed

section \<open>The operations on the map\<close>

lemma find_probe_Some:
  assumes "find P (probe_order h m) = Some i" "h < m"
  shows "i < m \<and> P i"
proof -
  from assms(1) have "i \<in> set (probe_order h m)" "P i" by (auto simp: find_Some_iff in_set_conv_nth)
  with assms(2) show ?thesis by simp
qed

lemma table_hash_less:
  "table_wf drv \<Longrightarrow> hash_index (hw_fence_table_entries drv) ctx seqno < length (hw_fences_tbl drv)"
  by (simp add: table_wf_def hash_index_less)

text \<open>The entry that a matching operation reaches is the one in use with the key.\<close>

lemma lookup_match:
  assumes wf: "table_wf drv" and key: "(ctx, seqno) \<noteq> (0, 0)"
    and op: "compare_fnc op = hw_fence_match" "\<not> is_create op"
  shows "case fence_map drv (ctx, seqno) of
      None \<Rightarrow> \<exists>hash'. hw_fence_lookup_and_process drv ctx seqno cid pending op = (None, hash', drv)
    | Some f \<Rightarrow> \<exists>i<length (hw_fences_tbl drv). hw_fences_tbl drv ! i = f \<and> in_use f \<and>
        fence_key f = (ctx, seqno) \<and>
        hw_fence_lookup_and_process drv ctx seqno cid pending op =
          (Some i, of_nat i, set_fence i (process_fnc op drv cid ctx seqno pending f) drv)"
proof -
  let ?m = "unat (hw_fence_table_entries drv)"
  let ?h = "hash_index (hw_fence_table_entries drv) ctx seqno"
  have m: "length (hw_fences_tbl drv) = ?m" "?h < ?m"
    using wf table_hash_less [OF wf, of ctx seqno] by (simp_all add: table_wf_def)
  have stops: "stops op ctx seqno f \<longleftrightarrow> fence_key f = (ctx, seqno)" for f
    by (simp add: stops_def op hw_fence_match_key)
  have used: "in_use f" if "f \<in> set (hw_fences_tbl drv)" "fence_key f = (ctx, seqno)" for f
    using wf key that by (auto simp: table_wf_def)
  show ?thesis
  proof (cases "find (\<lambda>i. stops op ctx seqno (hw_fences_tbl drv ! i)) (probe_order ?h ?m)")
    case None
    then have "\<forall>i<?m. fence_key (hw_fences_tbl drv ! i) \<noteq> (ctx, seqno)"
      using m by (auto simp: find_None_iff stops)
    then have "fence_map drv (ctx, seqno) = None"
      using m by (auto simp: fence_map_None in_set_conv_nth)
    with None lookup_find [of drv ctx seqno cid pending op] show ?thesis by simp
  next
    case (Some i)
    then have i: "i < ?m" "fence_key (hw_fences_tbl drv ! i) = (ctx, seqno)"
      using find_probe_Some [OF Some m(2)] by (auto simp: stops)
    then have "in_use (hw_fences_tbl drv ! i)" using used m by simp
    with i m have "fence_map drv (ctx, seqno) = Some (hw_fences_tbl drv ! i)"
      by (auto simp: fence_map_Some [OF wf])
    with Some i m used lookup_find [of drv ctx seqno cid pending op] show ?thesis
      by (auto simp: op hw_fence_match_key)
  qed
qed

lemmas lookup_find_fence = lookup_match [of _ _ _ HW_FENCE_LOOKUP_OP_FIND_FENCE]
lemmas lookup_destroy = lookup_match [of _ _ _ HW_FENCE_LOOKUP_OP_DESTROY]

lemma set_fence_same: "set_fence i (hw_fences_tbl drv ! i) drv = drv"
  by (simp add: set_fence_def)

lemma match_ops [simp]:
  "compare_fnc HW_FENCE_LOOKUP_OP_FIND_FENCE = hw_fence_match"
  "compare_fnc HW_FENCE_LOOKUP_OP_DESTROY = hw_fence_match"
  "\<not> is_create HW_FENCE_LOOKUP_OP_FIND_FENCE" "\<not> is_create HW_FENCE_LOOKUP_OP_DESTROY"
  by (auto simp: is_create_def fun_eq_iff)

lemma find_spec:
  assumes "table_wf drv" and "(ctx, seqno) \<noteq> (0, 0)"
  shows "case msm_hw_fence_find drv c ctx seqno of
      None \<Rightarrow> fence_map drv (ctx, seqno) = None
    | Some (i, hash) \<Rightarrow> i < length (hw_fences_tbl drv) \<and> hash = of_nat i \<and>
        fence_map drv (ctx, seqno) = Some (hw_fences_tbl drv ! i)"
  using lookup_find_fence [OF assms, of "case c of None \<Rightarrow> 0xff | Some c \<Rightarrow> of_nat (client_id (client_at drv c))" 0]
  by (auto simp: msm_hw_fence_find_def Let_def split: option.splits)

text \<open>Looking a fence up finds it exactly when the table has it: with a key other than the
  one of clean entries, \<open>msm_hw_fence_find\<close> returns \<open>NULL\<close> if no entry in use has the key, and
  otherwise the index and the hash of the entry that has it, within the table.\<close>

theorem msm_hw_fence_find_correct:
  assumes "table_wf drv" and "(ctx, seqno) \<noteq> (0, 0)"
  shows "case msm_hw_fence_find drv c ctx seqno of
      None \<Rightarrow> fence_map drv (ctx, seqno) = None
    | Some (i, hash) \<Rightarrow> i < length (hw_fences_tbl drv) \<and> hash = of_nat i \<and>
        fence_map drv (ctx, seqno) = Some (hw_fences_tbl drv ! i)"
  using assms by (rule find_spec)

lemma unreserve_clean [simp]: "\<not> in_use (unreserve_hw_fence f)" "fence_key (unreserve_hw_fence f) = (0, 0)"
  by (simp_all add: unreserve_hw_fence_def cleanup_hw_fence_def in_use_def fence_key_def)

lemma has_free_slot_set_fence:
  "i < length (hw_fences_tbl drv) \<Longrightarrow> \<not> in_use f \<Longrightarrow> has_free_slot (set_fence i f drv)"
  unfolding has_free_slot_def by (simp, metis set_update_memI)

lemma cleanup_spec:
  assumes wf: "table_wf drv" and key: "(ctx, seqno) \<noteq> (0, 0)"
  shows "case fence_map drv (ctx, seqno) of
      None \<Rightarrow> hw_fence_cleanup drv cid ctx seqno = Inl EINVAL
    | Some f \<Rightarrow> \<exists>i<length (hw_fences_tbl drv). hw_fences_tbl drv ! i = f \<and>
        hw_fence_cleanup drv cid ctx seqno = Inr (set_fence i (unreserve_hw_fence f) drv) \<and>
        table_wf (set_fence i (unreserve_hw_fence f) drv) \<and>
        fence_map (set_fence i (unreserve_hw_fence f) drv) = (fence_map drv)((ctx, seqno) := None)"
proof (cases "fence_map drv (ctx, seqno)")
  case None
  with lookup_destroy [OF wf key, of cid 0] show ?thesis by (auto simp: hw_fence_cleanup_def)
next
  case (Some f)
  with lookup_destroy [OF wf key, of cid 0] obtain i where i: "i < length (hw_fences_tbl drv)"
    "hw_fences_tbl drv ! i = f" "in_use f" "fence_key f = (ctx, seqno)"
    "hw_fence_cleanup drv cid ctx seqno = Inr (set_fence i (unreserve_hw_fence f) drv)"
    by (auto simp: hw_fence_cleanup_def)
  have wf': "table_wf (set_fence i (unreserve_hw_fence f) drv)"
    using wf i by (intro table_wf_set_fence) simp_all
  moreover have "fence_map (set_fence i (unreserve_hw_fence f) drv) = (fence_map drv)((ctx, seqno) := None)"
    using fence_map_set_fence [OF wf wf' i(1), of "(ctx, seqno)"] i key by simp
  ultimately show ?thesis using Some i by auto
qed

text \<open>C19. Destroying a fence removes exactly its key from the map: \<open>hw_fence_destroy\<close> fails with
  \<open>-EINVAL\<close> when no entry in use has the key and otherwise yields a well formed table whose map
  lacks the key and agrees everywhere else.\<close>

theorem hw_fence_destroy_correct:
  assumes "table_wf drv" and "(ctx, seqno) \<noteq> (0, 0)"
  shows "case hw_fence_destroy drv c ctx seqno of
      Inl e \<Rightarrow> e = EINVAL \<and> fence_map drv (ctx, seqno) = None
    | Inr drv' \<Rightarrow> fence_map drv (ctx, seqno) \<noteq> None \<and> table_wf drv' \<and>
        fence_map drv' = (fence_map drv)((ctx, seqno) := None) \<and> has_free_slot drv'"
proof (cases "fence_map drv (ctx, seqno)")
  case None
  with cleanup_spec [OF assms] show ?thesis by (simp add: hw_fence_destroy_def)
next
  case (Some f)
  with cleanup_spec [OF assms, of "of_nat (client_id (client_at drv c))"] show ?thesis
    by (auto simp: hw_fence_destroy_def has_free_slot_set_fence)
qed

text \<open>Only the client that allocated a fence can destroy it by handle: on a well formed
  table \<open>hw_fence_destroy_with_hash\<close> rejects a hash out of range and an entry of another
  client, and on an entry in use of its own it frees exactly that entry.\<close>

theorem hw_fence_destroy_with_hash_owner:
  assumes wf: "table_wf drv"
  shows "(case hw_fence_destroy_with_hash drv c hash of
      Inl e \<Rightarrow> e = EINVAL
    | Inr drv' \<Rightarrow> unat hash < length (hw_fences_tbl drv) \<and>
        hf_fence_allocator (hw_fences_tbl drv ! unat hash) = of_nat (client_id (client_at drv c))) \<and>
    (unat hash < length (hw_fences_tbl drv) \<and> in_use (hw_fences_tbl drv ! unat hash) \<and>
     hf_fence_allocator (hw_fences_tbl drv ! unat hash) = of_nat (client_id (client_at drv c)) \<longrightarrow>
     hw_fence_destroy_with_hash drv c hash =
       Inr (set_fence (unat hash) (unreserve_hw_fence (hw_fences_tbl drv ! unat hash)) drv))"
proof -
  let ?f = "hw_fences_tbl drv ! unat hash" and ?id = "of_nat (client_id (client_at drv c)) :: u32"
  have m: "length (hw_fences_tbl drv) = unat (hw_fence_table_entries drv)"
    using wf by (simp add: table_wf_def)
  have get: "get_hw_fence (hw_fence_table_entries drv) hash =
      (if unat hash < length (hw_fences_tbl drv) then Some (unat hash) else None)"
    by (simp add: get_hw_fence_def word_le_nat_alt m)
  have own: "hw_fence_cleanup drv ?id (hf_ctx_id ?f) (hf_seq_id ?f) =
      Inr (set_fence (unat hash) (unreserve_hw_fence ?f) drv)"
    if h: "unat hash < length (hw_fences_tbl drv)" "in_use ?f"
  proof -
    have key: "(hf_ctx_id ?f, hf_seq_id ?f) \<noteq> (0, 0)"
      using wf h by (simp add: table_wf_def fence_key_def)
    have "fence_map drv (hf_ctx_id ?f, hf_seq_id ?f) = Some ?f"
      using h by (auto simp: fence_map_Some [OF wf] fence_key_def)
    with cleanup_spec [OF wf key, of ?id] obtain i where i: "i < length (hw_fences_tbl drv)"
      "hw_fences_tbl drv ! i = ?f"
      "hw_fence_cleanup drv ?id (hf_ctx_id ?f) (hf_seq_id ?f) =
        Inr (set_fence i (unreserve_hw_fence ?f) drv)"
      by auto
    with h table_wf_unique [OF wf i(1) h(1)] show ?thesis by simp
  qed
  then show ?thesis
    by (auto simp: hw_fence_destroy_with_hash_def get Let_def split: sum.splits)
qed

lemma reserve_key [simp]:
  "in_use (reserve_hw_fence drv cid ctx seqno f)"
  "fence_key (reserve_hw_fence drv cid ctx seqno f) = (ctx, seqno)"
  "in_use (reserve_join_fence drv cid ctx seqno n f)"
  "fence_key (reserve_join_fence drv cid ctx seqno n f) = (ctx, seqno)"
  by (simp_all add: reserve_hw_fence_def reserve_join_fence_def in_use_def fence_key_def Let_def)

lemma reserve_fields [simp]:
  "hf_fence_allocator (reserve_hw_fence drv cid ctx seqno f) = cid"
  "hf_flags (reserve_hw_fence drv cid ctx seqno f) = 0"
  "hf_wait_client_mask (reserve_hw_fence drv cid ctx seqno f) = 0"
  "hf_fence_allocator (reserve_join_fence drv cid ctx seqno n f) = cid"
  "hf_flags (reserve_join_fence drv cid ctx seqno n f) = 0"
  "hf_wait_client_mask (reserve_join_fence drv cid ctx seqno n f) = 0"
  "hf_pending_child_cnt (reserve_join_fence drv cid ctx seqno n f) = n"
  by (simp_all add: reserve_hw_fence_def reserve_join_fence_def cleanup_hw_fence_def Let_def)

lemma create_ops [simp]:
  "is_create HW_FENCE_LOOKUP_OP_CREATE" "is_create HW_FENCE_LOOKUP_OP_CREATE_JOIN"
  by (simp_all add: is_create_def)

lemma compare_create: "is_create op \<Longrightarrow> compare_fnc op f ctx seqno = (\<not> in_use f)"
  by (cases op) (simp_all add: is_hw_fence_free_in_use)

lemma process_create:
  "is_create op \<Longrightarrow> in_use (process_fnc op drv cid ctx seqno n f) \<and>
   fence_key (process_fnc op drv cid ctx seqno n f) = (ctx, seqno)"
  by (cases op) simp_all

text \<open>A creation with a key that is not in the table takes a free entry, if there is one.\<close>

lemma lookup_create:
  assumes wf: "table_wf drv" and key: "(ctx, seqno) \<noteq> (0, 0)" and op: "is_create op"
    and new: "fence_map drv (ctx, seqno) = None"
  shows "if has_free_slot drv then
      \<exists>i<length (hw_fences_tbl drv). \<not> in_use (hw_fences_tbl drv ! i) \<and>
        hw_fence_lookup_and_process drv ctx seqno cid n op = (Some i, of_nat i,
          set_fence i (process_fnc op drv cid ctx seqno n (hw_fences_tbl drv ! i)) drv)
    else \<exists>hash. hw_fence_lookup_and_process drv ctx seqno cid n op = (None, hash, drv)"
proof -
  let ?m = "unat (hw_fence_table_entries drv)"
  let ?h = "hash_index (hw_fence_table_entries drv) ctx seqno"
  have m: "length (hw_fences_tbl drv) = ?m" "?h < ?m"
    using wf table_hash_less [OF wf, of ctx seqno] by (simp_all add: table_wf_def)
  have stops: "stops op ctx seqno (hw_fences_tbl drv ! i) \<longleftrightarrow> \<not> in_use (hw_fences_tbl drv ! i)"
    if "i < ?m" for i
    using that new op m nth_mem [of i "hw_fences_tbl drv"]
    by (auto simp: stops_def compare_create hw_fence_match_key fence_map_None)
  show ?thesis
  proof (cases "find (\<lambda>i. stops op ctx seqno (hw_fences_tbl drv ! i)) (probe_order ?h ?m)")
    case None
    then have "\<not> has_free_slot drv"
      using m stops by (auto simp: find_None_iff has_free_slot_def in_set_conv_nth)
    with None lookup_find [of drv ctx seqno cid n op] show ?thesis by simp
  next
    case (Some i)
    then have i: "i < ?m" "\<not> in_use (hw_fences_tbl drv ! i)"
      using find_probe_Some [OF Some m(2)] stops by blast+
    then have "has_free_slot drv" using m by (auto simp: has_free_slot_def)
    with Some i m op lookup_find [of drv ctx seqno cid n op] show ?thesis
      by (auto simp: compare_create)
  qed
qed

lemma create_slot_wf:
  assumes wf: "table_wf drv" and key: "(ctx, seqno) \<noteq> (0, 0)"
    and new: "fence_map drv (ctx, seqno) = None" and i: "i < length (hw_fences_tbl drv)"
    "\<not> in_use (hw_fences_tbl drv ! i)" and f: "in_use f" "fence_key f = (ctx, seqno)"
  shows "table_wf (set_fence i f drv)"
    and "fence_map (set_fence i f drv) = (fence_map drv)((ctx, seqno) \<mapsto> f)"
proof -
  have "\<forall>j<length (hw_fences_tbl drv). fence_key (hw_fences_tbl drv ! j) \<noteq> (ctx, seqno)"
    using wf new key nth_mem unfolding fence_map_None table_wf_def by metis
  then show wf': "table_wf (set_fence i f drv)"
    using wf i f key by (intro table_wf_set_fence) simp_all
  then show "fence_map (set_fence i f drv) = (fence_map drv)((ctx, seqno) \<mapsto> f)"
    using fence_map_set_fence [OF wf wf' i(1), of "(ctx, seqno)"] i f key new by simp
qed

text \<open>C4. Creating a fence with a new key adds exactly that key to the map, as long as the table
  has a free entry: the hash it returns is the index of the entry, the entry is freshly
  reserved for the calling client, not signalled and with no waiters, and the table stays well
  formed. A full table makes it fail with \<open>-EINVAL\<close>.\<close>

theorem hw_fence_create_correct:
  assumes wf: "table_wf drv" and key: "(ctx, seqno) \<noteq> (0, 0)"
    and new: "fence_map drv (ctx, seqno) = None"
  shows "case hw_fence_create drv c ctx seqno of
      Inl e \<Rightarrow> e = EINVAL \<and> \<not> has_free_slot drv
    | Inr (hash, drv') \<Rightarrow> has_free_slot drv \<and> table_wf drv' \<and> unat hash < length (hw_fences_tbl drv') \<and>
        fence_map drv' = (fence_map drv)((ctx, seqno) \<mapsto> hw_fences_tbl drv' ! unat hash) \<and>
        hf_fence_allocator (hw_fences_tbl drv' ! unat hash) = of_nat (client_id (client_at drv c)) \<and>
        hf_flags (hw_fences_tbl drv' ! unat hash) = 0 \<and>
        hf_wait_client_mask (hw_fences_tbl drv' ! unat hash) = 0"
proof (cases "has_free_slot drv")
  case False
  with lookup_create [OF wf key create_ops(1) new, of "of_nat (client_id (client_at drv c))" 0]
  show ?thesis by (auto simp: hw_fence_create_def)
next
  case True
  let ?cid = "of_nat (client_id (client_at drv c)) :: u32"
  from True lookup_create [OF wf key create_ops(1) new, of ?cid 0]
  obtain i where i: "i < length (hw_fences_tbl drv)" "\<not> in_use (hw_fences_tbl drv ! i)"
    and create: "hw_fence_create drv c ctx seqno =
      Inr (of_nat i, set_fence i (reserve_hw_fence drv ?cid ctx seqno (hw_fences_tbl drv ! i)) drv)"
    by (auto simp: hw_fence_create_def)
  have "i < 2 ^ 32" using i wf unat_u32_less [of "hw_fence_table_entries drv"] by (simp add: table_wf_def)
  then have "unat (of_nat i :: u64) = i" by (rule unat_of_nat_u64)
  with True i create create_slot_wf [OF wf key new i, of "reserve_hw_fence drv ?cid ctx seqno (hw_fences_tbl drv ! i)"]
  show ?thesis by simp
qed

section \<open>The interface of a store of fences\<close>

text \<open>
  What the rest of the driver may rely on: a store that maps keys to fences, in which a new
  key can be created while there is room and any key can be destroyed and looked up.
\<close>

locale fence_store =
  fixes create :: "'k \<Rightarrow> 's \<Rightarrow> 's option"
    and destroy :: "'k \<Rightarrow> 's \<Rightarrow> 's option"
    and lookup :: "'k \<Rightarrow> 's \<Rightarrow> 'v option"
    and abs :: "'s \<Rightarrow> 'k \<rightharpoonup> 'v"
    and key_ok :: "'k \<Rightarrow> bool"
    and room :: "'s \<Rightarrow> bool"
    and inv :: "'s \<Rightarrow> bool"
  assumes create_new: "inv s \<Longrightarrow> key_ok k \<Longrightarrow> abs s k = None \<Longrightarrow> room s \<Longrightarrow>
      \<exists>s' v. create k s = Some s' \<and> inv s' \<and> abs s' = (abs s)(k \<mapsto> v)"
    and create_full: "inv s \<Longrightarrow> key_ok k \<Longrightarrow> abs s k = None \<Longrightarrow> \<not> room s \<Longrightarrow> create k s = None"
    and destroy_found: "inv s \<Longrightarrow> key_ok k \<Longrightarrow> abs s k \<noteq> None \<Longrightarrow>
      \<exists>s'. destroy k s = Some s' \<and> inv s' \<and> abs s' = (abs s)(k := None) \<and> room s'"
    and destroy_missing: "inv s \<Longrightarrow> key_ok k \<Longrightarrow> abs s k = None \<Longrightarrow> destroy k s = None"
    and lookup_abs: "inv s \<Longrightarrow> key_ok k \<Longrightarrow> lookup k s = abs s k"
begin

text \<open>Creating a fence and destroying it again leaves the same fences as before.\<close>

lemma create_destroy:
  assumes "inv s" "key_ok k" "abs s k = None" "room s"
  shows "\<exists>s1 s2. create k s = Some s1 \<and> lookup k s1 \<noteq> None \<and> destroy k s1 = Some s2 \<and>
    inv s2 \<and> abs s2 = abs s \<and> room s2"
proof -
  from assms obtain s1 v where s1: "create k s = Some s1" "inv s1" "abs s1 = (abs s)(k \<mapsto> v)"
    using create_new by blast
  with assms(2) obtain s2 where "destroy k s1 = Some s2" "inv s2" "abs s2 = (abs s1)(k := None)" "room s2"
    using destroy_found [of s1 k] by auto
  moreover have "(abs s1)(k := None) = abs s" using s1 assms(3) by (auto simp: fun_eq_iff)
  ultimately show ?thesis using s1 assms(2) by (auto simp: lookup_abs)
qed

primrec destroy_all :: "'k list \<Rightarrow> 's \<Rightarrow> 's option" where
  "destroy_all [] s = Some s"
| "destroy_all (k # ks) s = Option.bind (destroy k s) (destroy_all ks)"

text \<open>Distinct fences of the store can be destroyed one after the other, in any order.\<close>

lemma destroy_all_found:
  assumes "inv s" "distinct ks" "\<forall>k\<in>set ks. key_ok k \<and> abs s k \<noteq> None"
  shows "\<exists>s'. destroy_all ks s = Some s' \<and> inv s' \<and> abs s' = (abs s) |` (- set ks)"
  using assms
proof (induction ks arbitrary: s)
  case Nil
  then show ?case by simp
next
  case (Cons k ks)
  then obtain s1 where s1: "destroy k s = Some s1" "inv s1" "abs s1 = (abs s)(k := None)"
    using destroy_found [of s k] by auto
  have "\<forall>k'\<in>set ks. key_ok k' \<and> abs s1 k' \<noteq> None"
    using Cons.prems s1 by auto
  moreover have "distinct ks" using Cons.prems(2) by simp
  ultimately have "\<exists>s'. destroy_all ks s1 = Some s' \<and> inv s' \<and> abs s' = (abs s1) |` (- set ks)"
    using s1(2) by (intro Cons.IH)
  then obtain s' where "destroy_all ks s1 = Some s'" "inv s'" "abs s' = (abs s1) |` (- set ks)"
    by (elim exE conjE)
  moreover have "(abs s1) |` (- set ks) = (abs s) |` (- set (k # ks))"
    using s1(3) by (auto simp: restrict_map_def fun_eq_iff)
  ultimately show ?case using s1(1) by simp
qed

end

text \<open>The driver's table is such a store for each client \<open>c\<close>.\<close>

definition store_create :: "nat \<Rightarrow> fence_key \<Rightarrow> hw_fence_driver_data \<Rightarrow> hw_fence_driver_data option" where
  "store_create c k drv =
     (case hw_fence_create drv c (fst k) (snd k) of Inl _ \<Rightarrow> None | Inr (_, drv') \<Rightarrow> Some drv')"

definition store_destroy :: "nat \<Rightarrow> fence_key \<Rightarrow> hw_fence_driver_data \<Rightarrow> hw_fence_driver_data option" where
  "store_destroy c k drv =
     (case hw_fence_destroy drv c (fst k) (snd k) of Inl _ \<Rightarrow> None | Inr drv' \<Rightarrow> Some drv')"

definition store_find :: "nat option \<Rightarrow> fence_key \<Rightarrow> hw_fence_driver_data \<Rightarrow> msm_hw_fence option" where
  "store_find c k drv =
     map_option (\<lambda>(i, hash). hw_fences_tbl drv ! i) (msm_hw_fence_find drv c (fst k) (snd k))"

lemma create_spec:
  assumes wf: "table_wf drv" and key: "k \<noteq> (0, 0)" and new: "fence_map drv k = None"
  shows "if has_free_slot drv then
      \<exists>drv' f. store_create c k drv = Some drv' \<and> table_wf drv' \<and> fence_map drv' = (fence_map drv)(k \<mapsto> f)
    else store_create c k drv = None"
proof -
  obtain ctx seqno where k: "k = (ctx, seqno)" by (cases k)
  let ?cid = "of_nat (client_id (client_at drv c)) :: u32"
  show ?thesis
  proof (cases "has_free_slot drv")
    case True
    with lookup_create [OF wf key [unfolded k] create_ops(1) new [unfolded k], of ?cid 0]
    obtain i where i: "i < length (hw_fences_tbl drv)" "\<not> in_use (hw_fences_tbl drv ! i)"
      "store_create c k drv =
        Some (set_fence i (reserve_hw_fence drv ?cid ctx seqno (hw_fences_tbl drv ! i)) drv)"
      by (auto simp: store_create_def hw_fence_create_def k)
    with True create_slot_wf [OF wf key [unfolded k] new [unfolded k] i(1,2) reserve_key(1,2)] k
    show ?thesis by auto
  next
    case False
    with lookup_create [OF wf key [unfolded k] create_ops(1) new [unfolded k], of ?cid 0]
    show ?thesis by (auto simp: store_create_def hw_fence_create_def k)
  qed
qed

interpretation fences: fence_store "store_create c" "store_destroy c" "store_find (Some c)" fence_map
  "\<lambda>k. k \<noteq> (0, 0)" has_free_slot table_wf for c
proof
  fix s and k :: fence_key
  assume "table_wf s" "k \<noteq> (0, 0)" "fence_map s k = None" "has_free_slot s"
  with create_spec [of s k c] show "\<exists>s' v. store_create c k s = Some s' \<and> table_wf s' \<and>
      fence_map s' = (fence_map s)(k \<mapsto> v)"
    by auto
next
  fix s and k :: fence_key
  assume "table_wf s" "k \<noteq> (0, 0)" "fence_map s k = None" "\<not> has_free_slot s"
  with create_spec [of s k c] show "store_create c k s = None" by auto
next
  fix s and k :: fence_key
  assume wf: "table_wf s" and key: "k \<noteq> (0, 0)" and found: "fence_map s k \<noteq> None"
  obtain ctx seqno where k: "k = (ctx, seqno)" by (cases k)
  with found cleanup_spec [OF wf key [unfolded k], of "of_nat (client_id (client_at s c))"]
  show "\<exists>s'. store_destroy c k s = Some s' \<and> table_wf s' \<and> fence_map s' = (fence_map s)(k := None) \<and>
      has_free_slot s'"
    by (auto simp: store_destroy_def hw_fence_destroy_def has_free_slot_set_fence)
next
  fix s and k :: fence_key
  assume wf: "table_wf s" and key: "k \<noteq> (0, 0)" and none: "fence_map s k = None"
  obtain ctx seqno where k: "k = (ctx, seqno)" by (cases k)
  with none cleanup_spec [OF wf key [unfolded k], of "of_nat (client_id (client_at s c))"]
  show "store_destroy c k s = None"
    by (simp add: store_destroy_def hw_fence_destroy_def)
next
  fix s and k :: fence_key
  assume wf: "table_wf s" and key: "k \<noteq> (0, 0)"
  obtain ctx seqno where k: "k = (ctx, seqno)" by (cases k)
  with lookup_find_fence [OF wf key [unfolded k], of "of_nat (client_id (client_at s c))" 0]
  show "store_find (Some c) k s = fence_map s k"
    by (auto simp: store_find_def msm_hw_fence_find_def Let_def split: option.splits)
qed

text \<open>C14. Creating a fence and destroying it restores the table's map: from a well formed table
  with a free entry, the creation succeeds, the fence is then found, its destruction succeeds
  and leaves exactly the fences there were before, with a free entry again.\<close>

theorem hw_fence_create_destroy_roundtrip:
  assumes "table_wf drv" and "k \<noteq> (0, 0)" and "fence_map drv k = None" and "has_free_slot drv"
  shows "\<exists>drv1 drv2. store_create c k drv = Some drv1 \<and> store_find (Some c) k drv1 \<noteq> None \<and>
    store_destroy c k drv1 = Some drv2 \<and> table_wf drv2 \<and> fence_map drv2 = fence_map drv \<and>
    has_free_slot drv2"
  using assms by (rule fences.create_destroy)

text \<open>Applications to the sample driver.\<close>

lemmas sample_table_simps = sample_drv_def sample_client_def clean_fence_def table_wf_def
  fence_map_def has_free_slot_def in_use_def fence_key_def

lemma sample_drv_table: "table_wf sample_drv" "has_free_slot sample_drv" "fence_map sample_drv k = None"
  by (simp_all add: sample_table_simps)

theorem msm_hw_fence_find_correct_witness:
  "table_wf sample_drv \<and> ((1, 1) :: fence_key) \<noteq> (0, 0) \<and> msm_hw_fence_find sample_drv (Some 1) 1 1 = None"
proof -
  have "msm_hw_fence_find sample_drv (Some 1) 1 1 = None"
    using msm_hw_fence_find_correct [OF sample_drv_table(1), of 1 1 "Some 1"]
    by (auto simp: sample_drv_table split: option.splits)
  then show ?thesis by (simp add: sample_drv_table)
qed

theorem hw_fence_destroy_correct_witness:
  "table_wf sample_drv \<and> hw_fence_destroy sample_drv 1 1 1 = Inl EINVAL"
  using hw_fence_destroy_correct [OF sample_drv_table(1), of 1 1 1]
  by (auto simp: sample_drv_table split: sum.splits)

theorem hw_fence_destroy_with_hash_owner_witness:
  "table_wf sample_drv \<and> hw_fence_destroy_with_hash sample_drv 1 7 = Inl EINVAL"
proof -
  have "length (hw_fences_tbl sample_drv) = 4" by (simp add: sample_drv_def)
  then show ?thesis
    using hw_fence_destroy_with_hash_owner [OF sample_drv_table(1), where c = 1 and hash = 7]
    by (cases "hw_fence_destroy_with_hash sample_drv 1 7") (simp_all add: sample_drv_table)
qed

theorem hw_fence_create_correct_witness:
  "table_wf sample_drv \<and> (\<exists>hash drv'. hw_fence_create sample_drv 1 1 1 = Inr (hash, drv') \<and>
     table_wf drv' \<and> fence_map drv' (1, 1) = Some (hw_fences_tbl drv' ! unat hash))"
  using hw_fence_create_correct [OF sample_drv_table(1), of 1 1 1] sample_drv_table
  by (auto split: sum.splits)

theorem hw_fence_create_destroy_roundtrip_witness:
  "\<exists>drv1 drv2. store_create 1 (1, 1) sample_drv = Some drv1 \<and> store_destroy 1 (1, 1) drv1 = Some drv2 \<and>
     fence_map drv2 = fence_map sample_drv"
  using hw_fence_create_destroy_roundtrip [OF sample_drv_table(1) _ sample_drv_table(3,2), of "(1, 1)" 1]
  by auto

text \<open>The keys (1, 1) and (1, 5) have the same hash in a table of four entries.\<close>

definition duplicate_run :: "(hw_fence_driver_data \<times> bool) result" where
  "duplicate_run =
     (case hw_fence_create sample_drv 1 1 1 of
        Inl e \<Rightarrow> Inl e
      | Inr (_, d1) \<Rightarrow>
          (case hw_fence_create d1 1 1 5 of
             Inl e \<Rightarrow> Inl e
           | Inr (_, d2) \<Rightarrow>
               (case hw_fence_destroy d2 1 1 1 of
                  Inl e \<Rightarrow> Inl e
                | Inr d3 \<Rightarrow>
                    (case hw_fence_create d3 1 1 5 of
                       Inl e \<Rightarrow> Inl e
                     | Inr (_, d4) \<Rightarrow> Inr (d4, table_wf d3)))))"


end
