(* ===== verification/HW_Fence_Wait.thy ===== *)
theory HW_Fence_Wait
  imports HW_Fence_Table
begin

text \<open>
  Waiting on fences and signalling the waiters (\<open>src/hw_fence_drv_priv.c\<close>): the registration
  of a client on a fence, the join fence of a fence array with the undoing of a failed one, the signal of all
  waiting clients and the cleanup of a fence at a client reset. The theorems show which messages
  and table entries each operation leaves behind.
\<close>

section \<open>Operations\<close>

subsection \<open>Signalling\<close>

definition hw_fence_ipcc_trigger_signal ::
  "hw_fence_driver_data \<Rightarrow> u32 \<Rightarrow> u32 \<Rightarrow> u32 \<Rightarrow> hw_fence_driver_data" where
  "hw_fence_ipcc_trigger_signal drv tx_client_pid rx_client_vid signal_id =
     (let val = push_bit 16 rx_client_vid OR signal_id
      in drv\<lparr>ipcc_log := ipcc_log drv @ [(tx_client_pid, val)]\<rparr>)"

text \<open>\<open>HW_FENCE_LOOPBACK_VAL_0\<close> and \<open>HW_FENCE_LOOPBACK_VAL_6\<close> are the ids of the first and the
  last validation client.\<close>

definition process_validation_client_loopback ::
  "hw_fence_abi \<Rightarrow> hw_fence_driver_data \<Rightarrow> nat \<Rightarrow> unit result \<times> hw_fence_driver_data" where
  "process_validation_client_loopback abi drv cid =
     (if cid < HW_FENCE_CLIENT_ID_VAL0 abi \<or> HW_FENCE_CLIENT_ID_VAL6 abi < cid
      then (Inl EINVAL, drv)
      else (case clients drv ! cid of
              None \<Rightarrow> (Inl EINVAL, drv)
            | Some cl \<Rightarrow> (Inr (), set_client cid (cl\<lparr>val_signal := True\<rparr>) drv)))"

text \<open>The message to the Rx queue, the interrupt and, for a validation client, the wake-up;
  the result of the queue update is ignored.\<close>

definition signal_rxq ::
  "hw_fence_driver_data \<Rightarrow> nat \<Rightarrow> msm_hw_fence \<Rightarrow> u64 \<Rightarrow> u64 \<Rightarrow> u64 \<Rightarrow> u32 \<Rightarrow> hw_fence_driver_data"
where
  "signal_rxq drv c hw_fence hash flags client_data error =
     (case hw_fence_update_queue drv c
             (hf_ctx_id hw_fence, hf_seq_id hw_fence, hash, flags, client_data, error)
             (HW_FENCE_RX_QUEUE - 1) of
        Inl _ \<Rightarrow> drv
      | Inr drv' \<Rightarrow> drv')"

definition fence_ctl_signal ::
  "hw_fence_abi \<Rightarrow> hw_fence_driver_data \<Rightarrow> nat \<Rightarrow> msm_hw_fence \<Rightarrow> u64 \<Rightarrow> u64 \<Rightarrow> u64 \<Rightarrow> u32 \<Rightarrow>
   hw_fence_driver_data" where
  "fence_ctl_signal abi drv c hw_fence hash flags client_data error =
     (let cl = client_at drv c;
          tx_client_id = ipcc_client_pid drv;
          rx_client_id = of_int (ipc_client_vid cl);
          drv = (if update_rxq cl then signal_rxq drv c hw_fence hash flags client_data error
                 else drv);
          drv = (if send_ipc cl
                 then hw_fence_ipcc_trigger_signal drv tx_client_id rx_client_id
                        (of_int (ipc_signal_id cl))
                 else drv)
      in if HW_FENCE_CLIENT_ID_VAL0 abi \<le> client_id cl \<and> client_id cl \<le> HW_FENCE_CLIENT_ID_VAL6 abi
         then snd (process_validation_client_loopback abi drv (client_id cl))
         else drv)"

definition hw_fence_get_client_data_id :: "hw_fence_abi \<Rightarrow> nat \<Rightarrow> hw_fence_client_data_id" where
  "hw_fence_get_client_data_id abi cid =
     (if cid = HW_FENCE_CLIENT_ID_CTX0 abi then HW_FENCE_CLIENT_DATA_ID_CTX0
      else if cid = HW_FENCE_CLIENT_ID_VAL0 abi then HW_FENCE_CLIENT_DATA_ID_VAL0
      else if cid = HW_FENCE_CLIENT_ID_VAL1 abi then HW_FENCE_CLIENT_DATA_ID_VAL1
      else if cid = HW_FENCE_CLIENT_ID_IPE abi then HW_FENCE_CLIENT_DATA_ID_IPE
      else if cid = HW_FENCE_CLIENT_ID_VPU abi then HW_FENCE_CLIENT_DATA_ID_VPU
      else HW_FENCE_MAX_CLIENTS_WITH_DATA)"

subsection \<open>Registration of a waiting client\<close>

text \<open>A client without a data id must not give client data.\<close>

definition client_data_refused :: "hw_fence_abi \<Rightarrow> hw_fence_driver_data \<Rightarrow> nat \<Rightarrow> u64 \<Rightarrow> bool" where
  "client_data_refused abi drv c client_data =
     (client_data \<noteq> 0 \<and>
      hw_fence_get_client_data_id abi (client_id (client_at drv c)) = HW_FENCE_MAX_CLIENTS_WITH_DATA)"

definition store_client_data ::
  "hw_fence_abi \<Rightarrow> hw_fence_driver_data \<Rightarrow> nat \<Rightarrow> u64 \<Rightarrow> msm_hw_fence \<Rightarrow> msm_hw_fence" where
  "store_client_data abi drv c client_data f =
     (if client_data \<noteq> 0 then
        f\<lparr>hf_client_data := (hf_client_data f)
            [data_id_index (hw_fence_get_client_data_id abi (client_id (client_at drv c))) := client_data]\<rparr>
      else f)"

text \<open>The result is the hash of the fence and whether the caller's fence, if there is one, was
  marked as signalled.\<close>

definition hw_fence_register_wait_client ::
  "hw_fence_abi \<Rightarrow> hw_fence_driver_data \<Rightarrow> bool \<Rightarrow> nat \<Rightarrow> u64 \<Rightarrow> u64 \<Rightarrow> u64 \<Rightarrow>
   ((u64 \<times> bool) \<times> hw_fence_driver_data) result" where
  "hw_fence_register_wait_client abi drv has_fence c context seqno client_data =
     (if client_data_refused abi drv c client_data then Inl EINVAL
      else
        case msm_hw_fence_find drv (Some c) context seqno of
          None \<Rightarrow> Inl EINVAL
        | Some (i, hash) \<Rightarrow>
            let f = hw_fences_tbl drv ! i;
                f = f\<lparr>hf_wait_client_mask := hf_wait_client_mask f OR BIT64 (client_id (client_at drv c)),
                      hf_fence_wait_time := hw_fence_get_qtime drv,
                      hf_debug_refcount := hf_debug_refcount f + 1\<rparr>;
                f = store_client_data abi drv c client_data f;
                drv = set_fence i f drv
            in if hf_flags f AND MSM_HW_FENCE_FLAG_SIGNAL \<noteq> 0
               then Inr ((hash, has_fence), fence_ctl_signal abi drv c f hash 0 client_data 0)
               else Inr ((hash, False), drv))"

definition hw_fence_process_fence ::
  "hw_fence_abi \<Rightarrow> hw_fence_driver_data \<Rightarrow> nat \<Rightarrow> dma_fence \<Rightarrow> u64 \<Rightarrow>
   ((u64 \<times> bool) \<times> hw_fence_driver_data) result" where
  "hw_fence_process_fence abi drv c fence client_data =
     (if \<not> df_hw_enabled fence then Inl EINVAL
      else hw_fence_register_wait_client abi drv True c (df_context fence) (df_seqno fence) client_data)"

subsection \<open>Fence arrays\<close>

fun dma_fence_of :: "dma_fence_obj \<Rightarrow> dma_fence" where
  "dma_fence_of (DmaFence d) = d"
| "dma_fence_of (DmaFenceArray d _) = d"

text \<open>The inner loop of the roll rolled: the entries of the parent list, the last first.\<close>

function clear_parents :: "u64 \<Rightarrow> nat \<Rightarrow> msm_hw_fence \<Rightarrow> msm_hw_fence" where
  "clear_parents hash_join_fence j f =
     (if j = 0 then f
      else
        let j = (if MSM_HW_FENCE_MAX_JOIN_PARENTS < j then MSM_HW_FENCE_MAX_JOIN_PARENTS else j);
            f = (if hf_parent_list f ! (j - 1) = hash_join_fence then
                   f\<lparr>hf_parent_list := (hf_parent_list f)[j - 1 := HW_FENCE_INVALID_PARENT_FENCE],
                     hf_parents_cnt := (if hf_parents_cnt f \<noteq> 0 then hf_parents_cnt f - 1
                                        else hf_parents_cnt f)\<rparr>
                 else f)
        in clear_parents hash_join_fence (j - 1) f)"
  by pat_completeness auto
termination
  by (relation "measure (\<lambda>(h, j, f). j)") (auto simp: hw_fence_consts)

declare clear_parents.simps [simp del]

text \<open>The loop counter is an \<open>int\<close> that starts at the unsigned \<open>parents_cnt\<close>.\<close>

definition remove_parent :: "u64 \<Rightarrow> msm_hw_fence \<Rightarrow> msm_hw_fence" where
  "remove_parent hash_join_fence f = clear_parents hash_join_fence (nat (sint (hf_parents_cnt f))) f"

definition cleanup_child ::
  "nat \<Rightarrow> u64 \<Rightarrow> dma_fence_obj list \<Rightarrow> nat \<Rightarrow> hw_fence_driver_data \<Rightarrow> hw_fence_driver_data" where
  "cleanup_child c hash_join_fence fences idx drv =
     (if length fences \<le> idx then drv
      else
        let child_fence = dma_fence_of (fences ! idx) in
        case msm_hw_fence_find drv (Some c) (df_context child_fence) (df_seqno child_fence) of
          None \<Rightarrow> drv
        | Some (i, _) \<Rightarrow> set_fence i (remove_parent hash_join_fence (hw_fences_tbl drv ! i)) drv)"

definition array_fences :: "dma_fence_obj list option \<Rightarrow> dma_fence_obj list" where
  "array_fences fences = (case fences of None \<Rightarrow> [] | Some fs \<Rightarrow> fs)"

definition num_fences :: "dma_fence_obj list option \<Rightarrow> nat" where
  "num_fences fences = length (array_fences fences)"

text \<open>
  A \<open>NULL\<close> array of pointers has nothing to roll rolled. An index at or past the end of the
  array, which an array without fences leads to, reads memory the array does not own; the
  model takes what it finds there for a \<open>NULL\<close> pointer, which the loop skips.
\<close>

definition cleanup_join_and_child_fences ::
  "nat \<Rightarrow> nat \<Rightarrow> dma_fence \<Rightarrow> dma_fence_obj list option \<Rightarrow> u64 \<Rightarrow> hw_fence_driver_data \<Rightarrow>
   hw_fence_driver_data" where
  "cleanup_join_and_child_fences c iteration base fences hash_join_fence drv =
     (let drv = (case fences of
                   None \<Rightarrow> drv
                 | Some fs \<Rightarrow> fold (cleanup_child c hash_join_fence fs) (rev [0..<Suc iteration]) drv)
      in snd (hw_fence_process_join_fence drv base (num_fences fences) False))"

text \<open>
  The loop over the children from index \<open>i\<close> on. The result is the index at which it failed,
  if it did, whether the last pending child was found signalled, and the driver data.
\<close>

fun array_loop ::
  "nat \<Rightarrow> nat \<Rightarrow> u64 \<Rightarrow> dma_fence_obj list \<Rightarrow> nat \<Rightarrow> bool \<Rightarrow> hw_fence_driver_data \<Rightarrow>
   nat option \<times> bool \<times> hw_fence_driver_data" where
  "array_loop c join hash_join_fence [] i signal_join_fence drv = (None, signal_join_fence, drv)"
| "array_loop c join hash_join_fence (DmaFenceArray _ _ # rest) i signal_join_fence drv =
     (Some i, signal_join_fence, drv)"
| "array_loop c join hash_join_fence (DmaFence child_fence # rest) i signal_join_fence drv =
     (if \<not> df_hw_enabled child_fence then (Some i, signal_join_fence, drv)
      else
        case msm_hw_fence_find drv (Some c) (df_context child_fence) (df_seqno child_fence) of
          None \<Rightarrow> (Some i, signal_join_fence, drv)
        | Some (k, hash) \<Rightarrow>
            let hw_fence_child = hw_fences_tbl drv ! k in
            if hf_flags hw_fence_child AND MSM_HW_FENCE_FLAG_SIGNAL \<noteq> 0 then
              let join_fence = hw_fences_tbl drv ! join;
                  pending = hf_pending_child_cnt join_fence - 1
              in array_loop c join hash_join_fence rest (Suc i) (signal_join_fence \<or> pending = 0)
                   (set_fence join (join_fence\<lparr>hf_pending_child_cnt := pending\<rparr>) drv)
            else
              let parents_cnt = hf_parents_cnt hw_fence_child + 1 in
              if of_nat MSM_HW_FENCE_MAX_JOIN_PARENTS \<le> parents_cnt \<or> parents_cnt < 1 then
                (Some i, signal_join_fence,
                 set_fence k (hw_fence_child\<lparr>hf_parents_cnt := parents_cnt - 1\<rparr>) drv)
              else array_loop c join hash_join_fence rest (Suc i) signal_join_fence
                (set_fence k (hw_fence_child\<lparr>hf_parents_cnt := parents_cnt,
                   hf_parent_list := (hf_parent_list hw_fence_child)
                     [unat (parents_cnt - 1) := hash_join_fence]\<rparr>) drv))"

text \<open>
  The result is the hash of the join fence and whether the array was marked as signalled.
  The last three arguments of the signal are the flags, the client data and the error; the
  source passes the client data in the place of the error.
\<close>

definition hw_fence_process_fence_array ::
  "hw_fence_abi \<Rightarrow> hw_fence_driver_data \<Rightarrow> nat \<Rightarrow> dma_fence \<Rightarrow> dma_fence_obj list option \<Rightarrow> u64 \<Rightarrow>
   (u64 \<times> bool) result \<times> hw_fence_driver_data" where
  "hw_fence_process_fence_array abi drv c base fences client_data =
     (if client_data_refused abi drv c client_data then (Inl EINVAL, drv)
      else
        case hw_fence_process_join_fence drv base (num_fences fences) True of
          (None, drv) \<Rightarrow> (Inl EINVAL, drv)
        | (Some (join, hash_join_fence), drv) \<Rightarrow>
            let join_fence = hw_fences_tbl drv ! join;
                drv = set_fence join (join_fence\<lparr>hf_wait_client_mask :=
                  hf_wait_client_mask join_fence OR BIT64 (client_id (client_at drv c))\<rparr>) drv
            in (case array_loop c join hash_join_fence (array_fences fences) 0 False drv of
                  (Some i, _, drv) \<Rightarrow>
                    (Inl EINVAL, cleanup_join_and_child_fences c i base fences hash_join_fence drv)
                | (None, signal_join_fence, drv) \<Rightarrow>
                    let join_fence = store_client_data abi drv c client_data (hw_fences_tbl drv ! join);
                        drv = set_fence join join_fence drv
                    in if signal_join_fence then
                         (Inr (hash_join_fence, True),
                          snd (hw_fence_process_join_fence
                            (fence_ctl_signal abi drv c join_fence hash_join_fence 0 0 (ucast client_data))
                            base (num_fences fences) False))
                       else if num_fences fences = 0 then
                         (Inl EINVAL,
                          cleanup_join_and_child_fences c 0 base fences hash_join_fence drv)
                       else (Inr (hash_join_fence, False), drv)))"

subsection \<open>Signalling the waiters of a fence\<close>

text \<open>The loop over the client ids; \<open>client_data\<close> keeps its value from one client to the next.\<close>

fun signal_loop ::
  "hw_fence_abi \<Rightarrow> msm_hw_fence \<Rightarrow> u64 \<Rightarrow> u32 \<Rightarrow> nat list \<Rightarrow> u64 \<Rightarrow> hw_fence_driver_data \<Rightarrow>
   hw_fence_driver_data" where
  "signal_loop abi hw_fence hash error [] client_data drv = drv"
| "signal_loop abi hw_fence hash error (wait_client_id # ids) client_data drv =
     (if hf_wait_client_mask hw_fence AND BIT64 wait_client_id \<noteq> 0 then
        let data_id = hw_fence_get_client_data_id abi wait_client_id;
            client_data = (if data_id \<noteq> HW_FENCE_MAX_CLIENTS_WITH_DATA
                           then hf_client_data hw_fence ! data_id_index data_id else client_data);
            drv = (case clients drv ! wait_client_id of
                     None \<Rightarrow> drv
                   | Some _ \<Rightarrow>
                       fence_ctl_signal abi drv wait_client_id hw_fence hash 0 client_data error)
        in signal_loop abi hw_fence hash error ids client_data drv
      else signal_loop abi hw_fence hash error ids client_data drv)"

definition signal_all_wait_clients ::
  "hw_fence_abi \<Rightarrow> hw_fence_driver_data \<Rightarrow> msm_hw_fence \<Rightarrow> u64 \<Rightarrow> u32 \<Rightarrow> hw_fence_driver_data" where
  "signal_all_wait_clients abi drv hw_fence hash error =
     signal_loop abi hw_fence hash error [0..<Suc (unat (rxq_clients_num drv))] 0 drv"

text \<open>The fence is given by its index, which is also its hash.\<close>

definition hw_fence_utils_cleanup_fence ::
  "hw_fence_abi \<Rightarrow> hw_fence_driver_data \<Rightarrow> nat \<Rightarrow> nat \<Rightarrow> u32 \<Rightarrow>
   unit result \<times> hw_fence_driver_data" where
  "hw_fence_utils_cleanup_fence abi drv c i reset_flags =
     (let error = (if reset_flags AND MSM_HW_FENCE_RESET_WITHOUT_ERROR abi \<noteq> 0 then 0
                   else MSM_HW_FENCE_ERROR_RESET abi);
          cid = client_id (client_at drv c);
          f = hw_fences_tbl drv ! i;
          f = (if hf_wait_client_mask f AND BIT64 cid \<noteq> 0
               then f\<lparr>hf_wait_client_mask := hf_wait_client_mask f AND NOT (BIT64 cid)\<rparr> else f);
          drv = set_fence i f drv
      in if hf_fence_allocator f = of_nat cid then
           let drv = (if hf_flags f AND MSM_HW_FENCE_FLAG_SIGNAL = 0
                      then signal_all_wait_clients abi drv f (of_nat i) error else drv)
           in if reset_flags AND MSM_HW_FENCE_RESET_WITHOUT_DESTROY abi \<noteq> 0 then (Inr (), drv)
              else (case hw_fence_destroy drv c (hf_ctx_id f) (hf_seq_id f) of
                      Inl e \<Rightarrow> (Inl e, drv)
                    | Inr drv' \<Rightarrow> (Inr (), drv'))
         else (Inr (), drv))"

section \<open>Parents of a child fence\<close>

text \<open>
  The parent list of a fence in use: its length, the range of its counter, and that the slots
  past the counter hold no parent. \<open>listed\<close> tells whether a join fence is among the parents.
\<close>

definition parents_shape :: "msm_hw_fence \<Rightarrow> bool" where
  "parents_shape f \<longleftrightarrow> length (hf_parent_list f) = MSM_HW_FENCE_MAX_JOIN_PARENTS \<and>
     unat (hf_parents_cnt f) < MSM_HW_FENCE_MAX_JOIN_PARENTS \<and>
     (\<forall>p\<in>set (drop (unat (hf_parents_cnt f)) (hf_parent_list f)). p = HW_FENCE_INVALID_PARENT_FENCE)"

definition listed :: "u64 \<Rightarrow> msm_hw_fence \<Rightarrow> bool" where
  "listed h f \<longleftrightarrow> h \<in> set (take (unat (hf_parents_cnt f)) (hf_parent_list f))"

definition add_parent :: "u64 \<Rightarrow> msm_hw_fence \<Rightarrow> msm_hw_fence" where
  "add_parent h f = f\<lparr>hf_parents_cnt := hf_parents_cnt f + 1,
     hf_parent_list := (hf_parent_list f)[unat (hf_parents_cnt f + 1 - 1) := h]\<rparr>"

lemma parents_cnt_cases:
  fixes x :: u32
  assumes "unat x < 3"
  shows "x = 0 \<or> x = 1 \<or> x = 2"
proof -
  from assms have "unat x = 0 \<or> unat x = 1 \<or> unat x = 2" by arith
  then show ?thesis by (auto dest: word_eq_of_nat)
qed

lemma parents_shapeE:
  assumes "parents_shape f"
  obtains (none) "hf_parents_cnt f = 0" "hf_parent_list f = [- 1, - 1, - 1]"
  | (one) a where "hf_parents_cnt f = 1" "hf_parent_list f = [a, - 1, - 1]"
  | (two) a b where "hf_parents_cnt f = 2" "hf_parent_list f = [a, b, - 1]"
proof -
  from assms obtain a b c where l: "hf_parent_list f = [a, b, c]"
    by (auto simp: parents_shape_def hw_fence_consts numeral_3_eq_3 length_Suc_conv)
  from assms have "unat (hf_parents_cnt f) < 3" by (simp add: parents_shape_def hw_fence_consts)
  then consider "hf_parents_cnt f = 0" | "hf_parents_cnt f = 1" | "hf_parents_cnt f = 2"
    using parents_cnt_cases by blast
  then show ?thesis
    by cases (use assms l that in \<open>auto simp: parents_shape_def hw_fence_consts\<close>)
qed

lemmas parents_simps = parents_shape_def listed_def add_parent_def remove_parent_def hw_fence_consts
  clear_parents.simps

lemma remove_parent_other: "parents_shape f \<Longrightarrow> \<not> listed h f \<Longrightarrow> remove_parent h f = f"
  by (erule parents_shapeE) (auto simp: parents_simps)

lemma add_parent_shape:
  "parents_shape f \<Longrightarrow> hf_parents_cnt f + 1 < 3 \<Longrightarrow> parents_shape (add_parent h f)"
  by (erule parents_shapeE) (simp_all add: parents_simps)

lemma add_parent_listed:
  "parents_shape f \<Longrightarrow> hf_parents_cnt f + 1 < 3 \<Longrightarrow> listed h (add_parent h f)"
  "parents_shape f \<Longrightarrow> hf_parents_cnt f + 1 < 3 \<Longrightarrow> listed h' f \<Longrightarrow> listed h' (add_parent h f)"
  by (erule parents_shapeE; simp add: parents_simps)+

lemma remove_add_parent:
  "parents_shape f \<Longrightarrow> hf_parents_cnt f + 1 < 3 \<Longrightarrow>
   remove_parent h (add_parent h f) = remove_parent h f"
  by (erule parents_shapeE) (simp_all add: parents_simps)

section \<open>Tables that differ in their parent lists\<close>

text \<open>The index of a fence in use, and the effect on the table of operations that keep keys.\<close>

lemma find_Some:
  assumes "table_wf drv" "(ctx, seqno) \<noteq> (0, 0)"
  shows "msm_hw_fence_find drv c ctx seqno = Some (k, hash) \<longleftrightarrow>
    k < length (hw_fences_tbl drv) \<and> in_use (hw_fences_tbl drv ! k) \<and>
    fence_key (hw_fences_tbl drv ! k) = (ctx, seqno) \<and> hash = of_nat k"
proof (cases "msm_hw_fence_find drv c ctx seqno")
  case None
  with find_spec [OF assms, of c] have "fence_map drv (ctx, seqno) = None" by simp
  with None show ?thesis by (auto simp: fence_map_None)
next
  case (Some r)
  obtain i h where r: "r = (i, h)" by (cases r)
  with Some find_spec [OF assms, of c] have i: "i < length (hw_fences_tbl drv)" "h = of_nat i"
    "fence_map drv (ctx, seqno) = Some (hw_fences_tbl drv ! i)"
    by simp_all
  then have use: "in_use (hw_fences_tbl drv ! i)" "fence_key (hw_fences_tbl drv ! i) = (ctx, seqno)"
    by (auto simp: fence_map_Some [OF assms(1)])
  have "k = i" if "k < length (hw_fences_tbl drv)" "fence_key (hw_fences_tbl drv ! k) = (ctx, seqno)"
    using table_wf_unique [OF assms(1) i(1) that(1)] use that(2) by simp
  with Some r i use show ?thesis by auto
qed

lemma table_wf_cong:
  assumes "table_wf drv" "length T = length (hw_fences_tbl drv)"
    and "\<And>k. k < length T \<Longrightarrow> fence_key (T ! k) = fence_key (hw_fences_tbl drv ! k) \<and>
      in_use (T ! k) = in_use (hw_fences_tbl drv ! k)"
  shows "table_wf (drv\<lparr>hw_fences_tbl := T\<rparr>)"
proof -
  have "distinct (map fence_key (filter in_use T))"
  proof (rule distinct_filter_keyI)
    fix i j
    assume "i < length T" "j < length T" "in_use (T ! i)" "in_use (T ! j)"
      "fence_key (T ! i) = fence_key (T ! j)"
    with assms table_wf_unique [OF assms(1), of i j] show "i = j" by simp
  qed
  moreover have "\<forall>f\<in>set T. in_use f \<longleftrightarrow> fence_key f \<noteq> (0, 0)"
  proof
    fix f
    assume "f \<in> set T"
    then obtain k where "k < length T" "f = T ! k" by (auto simp: in_set_conv_nth)
    with assms nth_mem [of k "hw_fences_tbl drv"] show "in_use f \<longleftrightarrow> fence_key f \<noteq> (0, 0)"
      by (auto simp: table_wf_def)
  qed
  ultimately show ?thesis using assms(1,2) by (simp add: table_wf_def)
qed

text \<open>Replacing a fence by another with the same key.\<close>

lemma fence_update:
  assumes wf: "table_wf drv" and i: "i < length (hw_fences_tbl drv)" "in_use (hw_fences_tbl drv ! i)"
    and g: "in_use g" "fence_key g = fence_key (hw_fences_tbl drv ! i)"
  shows "table_wf (set_fence i g drv)"
    and "fence_map (set_fence i g drv) = (fence_map drv)(fence_key g \<mapsto> g)"
proof -
  have key: "fence_key g \<noteq> (0, 0)" using wf i g nth_mem [OF i(1)] by (auto simp: table_wf_def)
  have "fence_key (hw_fences_tbl drv ! j) \<noteq> fence_key g" if "j < length (hw_fences_tbl drv)" "j \<noteq> i" for j
    using table_wf_unique [OF wf i(1) that(1) i(2)] that(2) g(2) by auto
  then show wf': "table_wf (set_fence i g drv)"
    using key g(1) by (intro table_wf_set_fence [OF wf i(1)]) auto
  show "fence_map (set_fence i g drv) = (fence_map drv)(fence_key g \<mapsto> g)"
    using fence_map_set_fence [OF wf wf' i(1) _ _ key] i g by simp
qed

lemma set_fence_tbl [simp]:
  "set_fence i f (drv\<lparr>hw_fences_tbl := T\<rparr>) = drv\<lparr>hw_fences_tbl := T[i := f]\<rparr>"
  by (simp add: set_fence_def)

lemma store_client_data_tbl [simp]:
  "store_client_data abi (drv\<lparr>hw_fences_tbl := T\<rparr>) c client_data f = store_client_data abi drv c client_data f"
  by (simp add: store_client_data_def client_at_def)

lemma tbl_update_inject [simp]:
  "drv\<lparr>hw_fences_tbl := T\<rparr> = drv\<lparr>hw_fences_tbl := T'\<rparr> \<longleftrightarrow> T = T'"
  by (cases drv) simp

lemma client_at_tbl [simp]: "client_at (drv\<lparr>hw_fences_tbl := T\<rparr>) c = client_at drv c"
  by (simp add: client_at_def)

definition signalled :: "msm_hw_fence \<Rightarrow> bool" where
  "signalled f \<longleftrightarrow> hf_flags f AND MSM_HW_FENCE_FLAG_SIGNAL \<noteq> 0"

text \<open>
  \<open>parents_wf\<close>: in every fence in use the parent list has its shape and the parents listed are
  entries in use. \<open>join_inv h join K T0 T\<close>: the table \<open>T\<close> arises from \<open>T0\<close> by changes to the
  entry \<open>join\<close> and by adding \<open>h\<close> as a parent of fences whose key is in \<open>K\<close>.
\<close>

definition parents_wf :: "hw_fence_driver_data \<Rightarrow> bool" where
  "parents_wf drv \<longleftrightarrow> (\<forall>f\<in>set (hw_fences_tbl drv). in_use f \<longrightarrow> parents_shape f \<and>
     (\<forall>p\<in>set (take (unat (hf_parents_cnt f)) (hf_parent_list f)).
        unat p < length (hw_fences_tbl drv) \<and> in_use (hw_fences_tbl drv ! unat p)))"

definition same_fence :: "msm_hw_fence \<Rightarrow> msm_hw_fence \<Rightarrow> bool" where
  "same_fence f g \<longleftrightarrow> fence_key f = fence_key g \<and> in_use f = in_use g \<and> signalled f = signalled g"

definition join_inv ::
  "u64 \<Rightarrow> nat \<Rightarrow> fence_key set \<Rightarrow> msm_hw_fence list \<Rightarrow> msm_hw_fence list \<Rightarrow> bool" where
  "join_inv h join K T0 T \<longleftrightarrow> length T = length T0 \<and>
     (\<forall>k<length T0. same_fence (T ! k) (T0 ! k) \<and>
        (k \<noteq> join \<longrightarrow> (in_use (T0 ! k) \<longrightarrow> parents_shape (T ! k) \<and> remove_parent h (T ! k) = T0 ! k) \<and>
           (fence_key (T0 ! k) \<notin> K \<longrightarrow> T ! k = T0 ! k)))"

definition join_base :: "u64 \<Rightarrow> nat \<Rightarrow> msm_hw_fence list \<Rightarrow> bool" where
  "join_base h join T0 \<longleftrightarrow>
     (\<forall>k<length T0. k \<noteq> join \<longrightarrow> in_use (T0 ! k) \<longrightarrow> parents_shape (T0 ! k) \<and> \<not> listed h (T0 ! k))"

lemma same_fence_simps [simp]:
  "same_fence f f"
  "same_fence (f\<lparr>hf_pending_child_cnt := n\<rparr>) g = same_fence f g"
  "same_fence (f\<lparr>hf_wait_client_mask := m\<rparr>) g = same_fence f g"
  "same_fence (f\<lparr>hf_client_data := d\<rparr>) g = same_fence f g"
  "same_fence (add_parent h f) g = same_fence f g"
  by (simp_all add: same_fence_def fence_key_def in_use_def signalled_def add_parent_def)

lemma same_fence_store [simp]: "same_fence (store_client_data abi drv c client_data f) g = same_fence f g"
  by (simp add: store_client_data_def)

lemma listed_store [simp]: "listed h (store_client_data abi drv c client_data f) = listed h f"
  by (simp add: store_client_data_def listed_def)

lemma same_fence_trans: "same_fence f g \<Longrightarrow> same_fence g h \<Longrightarrow> same_fence f h"
  by (simp add: same_fence_def)

lemma same_fence_in_use: "same_fence f g \<Longrightarrow> in_use f = in_use g"
  by (simp add: same_fence_def)

lemma clear_parents_same: "same_fence (clear_parents h j f) f"
proof (induction h j f rule: clear_parents.induct)
  case (1 h j f)
  then show ?case
    by (subst clear_parents.simps)
       (auto simp: Let_def same_fence_def fence_key_def in_use_def signalled_def split: if_splits)
qed

lemma remove_parent_same: "same_fence (remove_parent h f) f"
  by (simp add: remove_parent_def clear_parents_same)

lemma join_inv_wf:
  "join_inv h join K T0 T \<Longrightarrow> table_wf (drv\<lparr>hw_fences_tbl := T0\<rparr>) \<Longrightarrow> table_wf (drv\<lparr>hw_fences_tbl := T\<rparr>)"
  using table_wf_cong [of "drv\<lparr>hw_fences_tbl := T0\<rparr>" T] by (simp add: join_inv_def same_fence_def)

lemma join_inv_mono: "join_inv h join K T0 T \<Longrightarrow> K \<subseteq> K' \<Longrightarrow> join_inv h join K' T0 T"
  unfolding join_inv_def by blast

lemma join_inv_join:
  assumes "join_inv h join K T0 T" "same_fence f (T ! join)" "join < length T"
  shows "join_inv h join K T0 (T[join := f])"
  using assms by (auto simp: join_inv_def nth_list_update_if intro: same_fence_trans)

lemma join_inv_add:
  assumes "join_inv h join K T0 T" "k < length T" "in_use (T ! k)" "hf_parents_cnt (T ! k) + 1 < 3"
    "fence_key (T ! k) \<in> K"
  shows "join_inv h join K T0 (T[k := add_parent h (T ! k)])"
  using assms
  by (auto simp: join_inv_def nth_list_update add_parent_shape remove_add_parent
      dest: same_fence_in_use)

lemma join_inv_remove:
  assumes inv: "join_inv h join K T0 T" and base: "join_base h join T0"
    and wf: "table_wf (drv\<lparr>hw_fences_tbl := T0\<rparr>)" and k: "k < length T" "in_use (T ! k)"
  shows "join_inv h join (K - {fence_key (T ! k)}) T0 (T[k := remove_parent h (T ! k)])"
proof -
  have same: "same_fence (T ! k) (T0 ! k)" and len: "length T = length T0"
    using inv k by (auto simp: join_inv_def)
  have other: "fence_key (T0 ! l) \<noteq> fence_key (T ! k)" if "l < length T0" "l \<noteq> k" for l
    using that same len k table_wf_unique [OF wf, of k l] by (auto simp: same_fence_def)
  have used: "in_use (T0 ! k)" using same k by (simp add: same_fence_def)
  have same': "same_fence (remove_parent h (T ! k)) (T0 ! k)"
    using remove_parent_same same by (rule same_fence_trans)
  have eq: "remove_parent h (T ! k) = T0 ! k \<and> parents_shape (T0 ! k) \<and> remove_parent h (T0 ! k) = T0 ! k"
    if "k \<noteq> join"
    using that inv base k len used by (auto simp: join_inv_def join_base_def remove_parent_other)
  show ?thesis
    unfolding join_inv_def
  proof (intro conjI allI impI)
    show "length (T[k := remove_parent h (T ! k)]) = length T0" using len by simp
  next
    fix l
    assume l: "l < length T0"
    let ?T = "T[k := remove_parent h (T ! k)]"
    have nth: "?T ! l = (if l = k then remove_parent h (T ! k) else T ! l)"
      using k l by (simp add: nth_list_update_if)
    show "same_fence (?T ! l) (T0 ! l)" using inv l same' unfolding nth by (simp add: join_inv_def)
    assume "l \<noteq> join"
    then show "in_use (T0 ! l) \<Longrightarrow> parents_shape (?T ! l)"
      "in_use (T0 ! l) \<Longrightarrow> remove_parent h (?T ! l) = T0 ! l"
      using inv l eq unfolding nth by (auto simp: join_inv_def)
    show "?T ! l = T0 ! l" if "fence_key (T0 ! l) \<notin> K - {fence_key (T ! k)}"
      using that inv l eq other \<open>l \<noteq> join\<close> unfolding nth by (auto simp: join_inv_def)
  qed
qed

lemma join_inv_missing:
  assumes inv: "join_inv h join K T0 T" and wf: "table_wf (drv\<lparr>hw_fences_tbl := T\<rparr>)"
    and k: "fence_map (drv\<lparr>hw_fences_tbl := T\<rparr>) k = None" "k \<noteq> (0, 0)"
  shows "join_inv h join (K - {k}) T0 T"
proof -
  have "fence_key (T0 ! l) \<noteq> k" if l: "l < length T0" for l
  proof -
    have T: "T ! l \<in> set T" "fence_key (T ! l) = fence_key (T0 ! l)"
      using inv l by (auto simp: join_inv_def same_fence_def)
    with wf have "in_use (T ! l) \<longleftrightarrow> fence_key (T0 ! l) \<noteq> (0, 0)" by (auto simp: table_wf_def)
    with T k show ?thesis by (auto simp: fence_map_None)
  qed
  with inv show ?thesis by (simp add: join_inv_def)
qed

lemma join_inv_done: "join_inv h join {} T0 T \<Longrightarrow> join < length T \<Longrightarrow> T = T0[join := T ! join]"
  by (rule nth_equalityI) (auto simp: join_inv_def nth_list_update)

section \<open>The join fence of an array\<close>

definition child_key :: "dma_fence_obj \<Rightarrow> fence_key" where
  "child_key d = (df_context (dma_fence_of d), df_seqno (dma_fence_of d))"

text \<open>The roll rolled: stripping the children up to the failing one leaves no trace of the join
  fence outside its own entry.\<close>

lemma cleanup_children:
  assumes base: "join_base h join T0" and wf: "table_wf (drv\<lparr>hw_fences_tbl := T0\<rparr>)"
    and keys: "\<forall>d\<in>set fs. child_key d \<noteq> (0, 0)"
    and inv: "join_inv h join K T0 T" "K \<subseteq> child_key ` set (take n fs)"
  shows "\<exists>T'. fold (cleanup_child c h fs) (rev [0..<n]) (drv\<lparr>hw_fences_tbl := T\<rparr>) =
      drv\<lparr>hw_fences_tbl := T'\<rparr> \<and> join_inv h join {} T0 T'"
  using inv
proof (induction n arbitrary: K T)
  case 0
  then show ?case by auto
next
  case (Suc n)
  show ?case
  proof (cases "length fs \<le> n")
    case True
    with Suc.prems Suc.IH [of K T] show ?thesis by (simp add: cleanup_child_def)
  next
    case False
    then have n: "n < length fs" by simp
    let ?k = "child_key (fs ! n)"
    let ?d = "drv\<lparr>hw_fences_tbl := T\<rparr>"
    have wf': "table_wf ?d" using Suc.prems(1) wf by (rule join_inv_wf)
    have key: "(fst ?k, snd ?k) \<noteq> (0, 0)" using keys n by simp
    have sub: "K - {?k} \<subseteq> child_key ` set (take n fs)"
      using Suc.prems(2) n by (auto simp: take_Suc_conv_app_nth)
    show ?thesis
    proof (cases "msm_hw_fence_find ?d (Some c) (fst ?k) (snd ?k)")
      case None
      with find_spec [OF wf' key, of "Some c"] have "fence_map ?d ?k = None" by simp
      then have "join_inv h join (K - {?k}) T0 T"
        using Suc.prems(1) wf' keys n by (intro join_inv_missing [of _ _ _ _ _ drv]) simp_all
      with None n sub Suc.IH show ?thesis by (auto simp: cleanup_child_def Let_def child_key_def)
    next
      case (Some r)
      then obtain k hash where r: "msm_hw_fence_find ?d (Some c) (fst ?k) (snd ?k) = Some (k, hash)"
        by (cases r) simp
      then have "k < length T" "in_use (T ! k)" "fence_key (T ! k) = ?k"
        by (simp_all add: find_Some [OF wf' key])
      with join_inv_remove [OF Suc.prems(1) base wf, of k]
      have "join_inv h join (K - {?k}) T0 (T[k := remove_parent h (T ! k)])" by simp
      with r n sub Suc.IH show ?thesis by (auto simp: cleanup_child_def Let_def child_key_def)
    qed
  qed
qed

text \<open>One turn of the loop over the children: it fails and leaves the table as it was, or it
  goes on after counting a signalled child down or entering the join fence as a parent.\<close>

lemma array_stepE:
  assumes wf: "table_wf (drv\<lparr>hw_fences_tbl := T\<rparr>)" and key: "child_key d \<noteq> (0, 0)"
  obtains (fail) "array_loop c join h (d # rest) i sig (drv\<lparr>hw_fences_tbl := T\<rparr>) =
      (Some i, sig, drv\<lparr>hw_fences_tbl := T\<rparr>)"
  | (down) k where "k < length T" "in_use (T ! k)" "fence_key (T ! k) = child_key d" "signalled (T ! k)"
      "array_loop c join h (d # rest) i sig (drv\<lparr>hw_fences_tbl := T\<rparr>) =
       array_loop c join h rest (Suc i) (sig \<or> hf_pending_child_cnt (T ! join) - 1 = 0)
         (drv\<lparr>hw_fences_tbl := T[join := (T ! join)
            \<lparr>hf_pending_child_cnt := hf_pending_child_cnt (T ! join) - 1\<rparr>]\<rparr>)"
  | (add) k where "k < length T" "in_use (T ! k)" "fence_key (T ! k) = child_key d" "\<not> signalled (T ! k)"
      "hf_parents_cnt (T ! k) + 1 < 3"
      "array_loop c join h (d # rest) i sig (drv\<lparr>hw_fences_tbl := T\<rparr>) =
       array_loop c join h rest (Suc i) sig (drv\<lparr>hw_fences_tbl := T[k := add_parent h (T ! k)]\<rparr>)"
proof (cases d)
  case (DmaFenceArray b fs)
  then show ?thesis by (intro fail) simp
next
  case (DmaFence b)
  let ?d = "drv\<lparr>hw_fences_tbl := T\<rparr>"
  show ?thesis
  proof (cases "df_hw_enabled b \<and> msm_hw_fence_find ?d (Some c) (df_context b) (df_seqno b) \<noteq> None")
    case False
    with DmaFence show ?thesis by (intro fail) (auto split: option.splits)
  next
    case True
    then obtain k hash where k: "df_hw_enabled b"
      "msm_hw_fence_find ?d (Some c) (df_context b) (df_seqno b) = Some (k, hash)"
      by auto
    then have slot: "k < length T" "in_use (T ! k)" "fence_key (T ! k) = child_key d"
      using find_Some [OF wf, of "df_context b" "df_seqno b" "Some c" k hash] key DmaFence
      by (simp_all add: child_key_def)
    let ?n = "hf_parents_cnt (T ! k) + 1"
    consider "signalled (T ! k)" | "\<not> signalled (T ! k)" "3 \<le> ?n \<or> ?n < 1"
      | "\<not> signalled (T ! k)" "\<not> (3 \<le> ?n \<or> ?n < 1)" "?n < 3"
      using leI by blast
    then show ?thesis
    proof cases
      case 1
      with k slot DmaFence show ?thesis by (intro down) (simp_all add: signalled_def Let_def)
    next
      case 2
      with k DmaFence show ?thesis
        by (intro fail) (auto simp: signalled_def Let_def hw_fence_consts)
    next
      case 3
      with k slot DmaFence show ?thesis
        by (intro add) (simp_all add: signalled_def Let_def add_parent_def hw_fence_consts)
    qed
  qed
qed

lemma array_loop_inv:
  assumes wf: "table_wf (drv\<lparr>hw_fences_tbl := T0\<rparr>)" and keys: "\<forall>d\<in>set fs. child_key d \<noteq> (0, 0)"
    and inv: "join_inv h join K T0 T" and join: "join < length T0"
  shows "\<exists>r s T'. array_loop c join h fs i sig (drv\<lparr>hw_fences_tbl := T\<rparr>) = (r, s, drv\<lparr>hw_fences_tbl := T'\<rparr>) \<and>
    (case r of
       None \<Rightarrow> join_inv h join (K \<union> child_key ` set fs) T0 T'
     | Some n \<Rightarrow> i \<le> n \<and> n < i + length fs \<and> join_inv h join (K \<union> child_key ` set (take (n - i) fs)) T0 T')"
  using keys inv
proof (induction fs arbitrary: i sig K T)
  case Nil
  then show ?case by (intro exI [of _ None] exI [of _ sig] exI [of _ T]) simp
next
  case (Cons d fs)
  let ?goal = "\<lambda>r T'. case r of
       None \<Rightarrow> join_inv h join (K \<union> child_key ` set (d # fs)) T0 T'
     | Some n \<Rightarrow> i \<le> n \<and> n < i + length (d # fs) \<and>
         join_inv h join (K \<union> child_key ` set (take (n - i) (d # fs))) T0 T'"
  have len: "length T = length T0" using Cons.prems(2) by (simp add: join_inv_def)
  have next_turn: "\<exists>r s T'. array_loop c join h fs (Suc i) sig' (drv\<lparr>hw_fences_tbl := T1\<rparr>) =
      (r, s, drv\<lparr>hw_fences_tbl := T'\<rparr>) \<and> ?goal r T'"
    if T1: "join_inv h join (insert (child_key d) K) T0 T1" for T1 sig'
  proof -
    have "\<forall>d\<in>set fs. child_key d \<noteq> (0, 0)" using Cons.prems(1) by simp
    from Cons.IH [OF this T1, of "Suc i" sig'] obtain r s T' where
      r: "array_loop c join h fs (Suc i) sig' (drv\<lparr>hw_fences_tbl := T1\<rparr>) = (r, s, drv\<lparr>hw_fences_tbl := T'\<rparr>)"
      "case r of None \<Rightarrow> join_inv h join (insert (child_key d) K \<union> child_key ` set fs) T0 T'
       | Some n \<Rightarrow> Suc i \<le> n \<and> n < Suc i + length fs \<and>
           join_inv h join (insert (child_key d) K \<union> child_key ` set (take (n - Suc i) fs)) T0 T'"
      by blast
    then have "?goal r T'"
      by (cases r) (auto simp: take_Cons' Suc_diff_Suc Suc_le_eq)
    with r show ?thesis by blast
  qed
  have grow: "join_inv h join (insert (child_key d) K) T0 T"
    using Cons.prems(2) by (rule join_inv_mono) auto
  have "table_wf (drv\<lparr>hw_fences_tbl := T\<rparr>)" using Cons.prems(2) wf by (rule join_inv_wf)
  moreover have "child_key d \<noteq> (0, 0)" using Cons.prems(1) by simp
  ultimately show ?case
  proof (cases rule: array_stepE [where c = c and join = join and h = h and rest = fs and i = i and sig = sig])
    case fail
    with Cons.prems(2) show ?thesis
      by (intro exI [of _ "Some i"] exI [of _ sig] exI [of _ T]) simp
  next
    case (down k)
    have "join_inv h join (insert (child_key d) K) T0
        (T[join := (T ! join)\<lparr>hf_pending_child_cnt := hf_pending_child_cnt (T ! join) - 1\<rparr>])"
      using grow join len by (intro join_inv_join) simp_all
    from next_turn [OF this] show ?thesis unfolding down(5) .
  next
    case (add k)
    then have "join_inv h join (insert (child_key d) K) T0 (T[k := add_parent h (T ! k)])"
      using grow by (intro join_inv_add) simp_all
    from next_turn [OF this] show ?thesis unfolding add(6) .
  qed
qed

text \<open>What the loop has done when it ends without an error: the pending count of the join fence
  is down by the number of signalled children, and the other children list the join fence.\<close>

definition child_signalled :: "msm_hw_fence list \<Rightarrow> dma_fence_obj \<Rightarrow> bool" where
  "child_signalled T d \<longleftrightarrow> (\<exists>f\<in>set T. in_use f \<and> fence_key f = child_key d \<and> signalled f)"

definition child_listed :: "u64 \<Rightarrow> msm_hw_fence list \<Rightarrow> dma_fence_obj \<Rightarrow> bool" where
  "child_listed h T d \<longleftrightarrow> (\<exists>f\<in>set T. in_use f \<and> fence_key f = child_key d \<and> (signalled f \<or> listed h f))"

definition counted_down :: "msm_hw_fence list \<Rightarrow> dma_fence_obj list \<Rightarrow> msm_hw_fence \<Rightarrow> msm_hw_fence" where
  "counted_down T0 fs f = f\<lparr>hf_pending_child_cnt :=
     hf_pending_child_cnt f - of_nat (length (filter (child_signalled T0) fs))\<rparr>"

lemma child_signalled_slot:
  assumes "table_wf (drv\<lparr>hw_fences_tbl := T0\<rparr>)" "k < length T0" "in_use (T0 ! k)" "fence_key (T0 ! k) = child_key d"
  shows "child_signalled T0 d \<longleftrightarrow> signalled (T0 ! k)"
proof -
  have "f = T0 ! k" if "f \<in> set T0" "in_use f" "fence_key f = child_key d" for f
  proof -
    from that(1) obtain l where "l < length T0" "f = T0 ! l" by (auto simp: in_set_conv_nth)
    with that assms table_wf_unique [OF assms(1), of k l] show ?thesis by simp
  qed
  with assms show ?thesis by (auto simp: child_signalled_def)
qed

lemma child_listed_mono:
  assumes "child_listed h T d" "length T' = length T"
    "\<And>k. k < length T \<Longrightarrow> same_fence (T' ! k) (T ! k) \<and> (listed h (T ! k) \<longrightarrow> listed h (T' ! k))"
  shows "child_listed h T' d"
proof -
  from assms(1) obtain k where k: "k < length T" "in_use (T ! k)" "fence_key (T ! k) = child_key d"
    "signalled (T ! k) \<or> listed h (T ! k)"
    by (auto simp: child_listed_def in_set_conv_nth)
  with assms(3) [OF k(1)] have "in_use (T' ! k) \<and> fence_key (T' ! k) = child_key d \<and>
      (signalled (T' ! k) \<or> listed h (T' ! k))"
    by (auto simp: same_fence_def)
  with k(1) assms(2) show ?thesis unfolding child_listed_def by (metis nth_mem)
qed

definition loop_done ::
  "u64 \<Rightarrow> nat \<Rightarrow> msm_hw_fence list \<Rightarrow> dma_fence_obj list \<Rightarrow> bool \<Rightarrow> bool \<Rightarrow> msm_hw_fence list \<Rightarrow>
   msm_hw_fence list \<Rightarrow> bool" where
  "loop_done h join T0 fs sig s T T' \<longleftrightarrow> length T' = length T \<and>
     T' ! join = counted_down T0 fs (T ! join) \<and>
     (s \<longleftrightarrow> sig \<or> fs \<noteq> [] \<and> unat (hf_pending_child_cnt (T ! join)) = length fs \<and>
       (\<forall>d\<in>set fs. child_signalled T0 d)) \<and>
     (\<forall>k<length T. same_fence (T' ! k) (T ! k) \<and> (listed h (T ! k) \<longrightarrow> listed h (T' ! k))) \<and>
     (\<forall>d\<in>set fs. child_listed h T' d) \<and>
     (\<forall>k<length T. k \<noteq> join \<longrightarrow> (\<forall>d\<in>set fs. child_signalled T0 d) \<longrightarrow> T' ! k = T ! k)"

text \<open>One more child: signalled, it is counted down; otherwise the join fence becomes its parent.\<close>

lemma loop_done_down:
  fixes T :: "msm_hw_fence list" and join :: nat
  defines "p \<equiv> hf_pending_child_cnt (T ! join)"
  defines "T1 \<equiv> T[join := (T ! join)\<lparr>hf_pending_child_cnt := p - 1\<rparr>]"
  assumes join: "join < length T" and room: "Suc (length fs) \<le> unat p" and sd: "child_signalled T0 d"
    and listed: "child_listed h T d" and rest: "loop_done h join T0 fs (sig \<or> p - 1 = 0) s T1 T'"
  shows "loop_done h join T0 (d # fs) sig s T T'"
proof -
  have "p \<noteq> 0" using room by auto
  then have p: "unat (p - 1) = unat p - 1" "0 < unat p" by (simp_all add: unat_minus_one unat_gt_0)
  then have one: "p - 1 = 0 \<longleftrightarrow> unat p = 1" by (auto simp: unat_eq_0)
  have frame: "same_fence (T1 ! l) (T ! l) \<and> (listed h (T ! l) \<longrightarrow> listed h (T1 ! l))" if "l < length T" for l
    using that join by (simp add: T1_def nth_list_update_if listed_def)
  have cl: "child_listed h T' d"
    using listed rest frame by (elim child_listed_mono) (auto simp: loop_done_def T1_def intro: same_fence_trans)
  show ?thesis
    unfolding loop_done_def
  proof (intro conjI)
    show "T' ! join = counted_down T0 (d # fs) (T ! join)"
      using rest sd join by (simp add: loop_done_def counted_down_def T1_def p_def)
    show "s \<longleftrightarrow> sig \<or> d # fs \<noteq> [] \<and> unat (hf_pending_child_cnt (T ! join)) = length (d # fs) \<and>
        (\<forall>d\<in>set (d # fs). child_signalled T0 d)"
      using rest sd p one join room by (cases fs) (auto simp: loop_done_def T1_def p_def)
  qed (use rest cl frame in \<open>auto simp: loop_done_def T1_def intro: same_fence_trans\<close>)
qed

lemma loop_done_add:
  assumes kj: "k \<noteq> join" and room: "Suc (length fs) \<le> unat (hf_pending_child_cnt (T ! join))"
    and sd: "\<not> child_signalled T0 d" and listed: "child_listed h (T[k := f]) d"
    and frame: "\<And>l. l < length T \<Longrightarrow> same_fence (T[k := f] ! l) (T ! l) \<and> (listed h (T ! l) \<longrightarrow> listed h (T[k := f] ! l))"
    and rest: "loop_done h join T0 fs sig s (T[k := f]) T'"
  shows "loop_done h join T0 (d # fs) sig s T T'"
proof -
  have cl: "child_listed h T' d" using listed rest by (elim child_listed_mono) (simp_all add: loop_done_def)
  show ?thesis
    unfolding loop_done_def
  proof (intro conjI)
    show "T' ! join = counted_down T0 (d # fs) (T ! join)"
      using rest sd kj by (simp add: loop_done_def counted_down_def)
    show "s \<longleftrightarrow> sig \<or> d # fs \<noteq> [] \<and> unat (hf_pending_child_cnt (T ! join)) = length (d # fs) \<and>
        (\<forall>d\<in>set (d # fs). child_signalled T0 d)"
      using rest sd kj room by (auto simp: loop_done_def)
  qed (use rest cl frame sd in \<open>auto simp: loop_done_def intro: same_fence_trans\<close>)
qed

lemma array_loop_done:
  assumes wf: "table_wf (drv\<lparr>hw_fences_tbl := T0\<rparr>)" and join: "join < length T0"
    and loop: "array_loop c join h fs i sig (drv\<lparr>hw_fences_tbl := T\<rparr>) = (None, s, drv')"
    and keys: "\<forall>d\<in>set fs. child_key d \<noteq> (0, 0) \<and> child_key d \<noteq> fence_key (T0 ! join)"
    and inv: "join_inv h join K T0 T" and room: "length fs \<le> unat (hf_pending_child_cnt (T ! join))"
  shows "\<exists>T'. drv' = drv\<lparr>hw_fences_tbl := T'\<rparr> \<and> loop_done h join T0 fs sig s T T'"
  using loop keys inv room
proof (induction fs arbitrary: i sig K T)
  case Nil
  then show ?case by (intro exI [of _ T]) (auto simp: loop_done_def counted_down_def)
next
  case (Cons d fs)
  have keys': "\<forall>d\<in>set fs. child_key d \<noteq> (0, 0) \<and> child_key d \<noteq> fence_key (T0 ! join)"
    using Cons.prems(2) by simp
  have len: "length T = length T0" and jkey: "fence_key (T ! join) = fence_key (T0 ! join)"
    using Cons.prems(3) join by (simp_all add: join_inv_def same_fence_def)
  have jT: "join < length T" and room': "Suc (length fs) \<le> unat (hf_pending_child_cnt (T ! join))"
    using join len Cons.prems(4) by simp_all
  have grow: "join_inv h join (insert (child_key d) K) T0 T"
    using Cons.prems(3) by (rule join_inv_mono) auto
  have "table_wf (drv\<lparr>hw_fences_tbl := T\<rparr>)" using Cons.prems(3) wf by (rule join_inv_wf)
  moreover have "child_key d \<noteq> (0, 0)" using Cons.prems(2) by simp
  ultimately show ?case
  proof (cases rule: array_stepE [where c = c and join = join and h = h and rest = fs and i = i and sig = sig])
    case fail
    with Cons.prems(1) show ?thesis by simp
  next
    case (down k)
    let ?p = "hf_pending_child_cnt (T ! join)"
    let ?T = "T[join := (T ! join)\<lparr>hf_pending_child_cnt := ?p - 1\<rparr>]"
    have inv': "join_inv h join (insert (child_key d) K) T0 ?T"
      using grow join len by (intro join_inv_join) simp_all
    have "?p \<noteq> 0" using room' by auto
    then have "length fs \<le> unat (hf_pending_child_cnt (?T ! join))"
      using room' jT by (simp add: unat_minus_one)
    from Cons.IH [OF Cons.prems(1) [unfolded down(5)] keys' inv' this]
    obtain T' where T': "drv' = drv\<lparr>hw_fences_tbl := T'\<rparr>" "loop_done h join T0 fs (sig \<or> ?p - 1 = 0) s ?T T'"
      by blast
    have "in_use (T0 ! k)" "fence_key (T0 ! k) = child_key d" "signalled (T0 ! k)" "k < length T0"
      using down Cons.prems(3) len by (auto simp: join_inv_def same_fence_def)
    then have "child_signalled T0 d" using wf by (simp add: child_signalled_slot)
    moreover have "child_listed h T d" using down by (auto simp: child_listed_def)
    ultimately show ?thesis using loop_done_down [OF jT room' _ _ T'(2)] T'(1) by blast
  next
    case (add k)
    have kj: "k \<noteq> join" using add(3) jkey Cons.prems(2) by auto
    let ?T = "T[k := add_parent h (T ! k)]"
    have inv': "join_inv h join (insert (child_key d) K) T0 ?T" using grow add by (intro join_inv_add) simp_all
    have "length fs \<le> unat (hf_pending_child_cnt (?T ! join))" using room' kj by simp
    from Cons.IH [OF Cons.prems(1) [unfolded add(6)] keys' inv' this]
    obtain T' where T': "drv' = drv\<lparr>hw_fences_tbl := T'\<rparr>" "loop_done h join T0 fs sig s ?T T'"
      by blast
    have slot: "in_use (T0 ! k)" "fence_key (T0 ! k) = child_key d" "\<not> signalled (T0 ! k)" "k < length T0"
      "parents_shape (T ! k)"
      using add Cons.prems(3) len kj by (auto simp: join_inv_def same_fence_def)
    then have sd: "\<not> child_signalled T0 d" using wf by (simp add: child_signalled_slot)
    have frame: "same_fence (?T ! l) (T ! l) \<and> (listed h (T ! l) \<longrightarrow> listed h (?T ! l))" if "l < length T" for l
      using that add slot(5) by (auto simp: nth_list_update_if add_parent_listed)
    have "child_listed h ?T d"
      using add(1,2,3,5) slot(5) set_update_memI [of k T "add_parent h (T ! k)"]
      by (auto simp: child_listed_def add_parent_listed intro!: bexI [of _ "add_parent h (T ! k)"])
         (simp_all add: add_parent_def in_use_def fence_key_def)
    then show ?thesis using loop_done_add [OF kj room' sd _ frame T'(2)] T'(1) by blast
  qed
qed

lemma child_signalled_create:
  assumes "i < length T" "\<not> in_use (T ! i)" "fence_key f \<noteq> child_key d"
  shows "child_signalled (T[i := f]) d \<longleftrightarrow> child_signalled T d"
  using assms unfolding child_signalled_def
  by (metis in_set_conv_nth length_list_update nth_list_update_if)

text \<open>The table after the join fence was created: its entry is new and nothing refers to it.\<close>

lemma join_created:
  assumes wf: "table_wf drv" and parents: "parents_wf drv"
    and key: "(df_context base, df_seqno base) \<noteq> (0, 0)"
    and new: "fence_map drv (df_context base, df_seqno base) = None"
    and create: "hw_fence_process_join_fence drv base n True = (Some (join, h), drv1)"
    and f: "f = (hw_fences_tbl drv1 ! join)\<lparr>hf_wait_client_mask := m\<rparr>"
    and T0: "T0 = (hw_fences_tbl drv)[join := f]"
  shows "join < length (hw_fences_tbl drv)" "\<not> in_use (hw_fences_tbl drv ! join)" "h = of_nat join"
    "set_fence join f drv1 = drv\<lparr>hw_fences_tbl := T0\<rparr>" "in_use f"
    "fence_key f = (df_context base, df_seqno base)" "hf_pending_child_cnt f = of_nat n"
    "hf_fence_allocator f = HW_FENCE_JOIN_FENCE_CLIENT_ID" "\<not> signalled f"
    "hf_wait_client_mask (hw_fences_tbl drv1 ! join) = 0"
    "table_wf (drv\<lparr>hw_fences_tbl := T0\<rparr>)" "join_base h join T0" "join_inv h join {} T0 T0"
proof -
  let ?g = "reserve_join_fence drv HW_FENCE_JOIN_FENCE_CLIENT_ID (df_context base) (df_seqno base) (of_nat n)"
  from lookup_create [OF wf key create_ops(2) new, of HW_FENCE_JOIN_FENCE_CLIENT_ID "of_nat n"] create
  have join: "join < length (hw_fences_tbl drv)" "\<not> in_use (hw_fences_tbl drv ! join)" "h = of_nat join"
    "drv1 = set_fence join (?g (hw_fences_tbl drv ! join)) drv"
    by (auto simp: hw_fence_process_join_fence_def Let_def split: if_splits)
  then show "join < length (hw_fences_tbl drv)" "\<not> in_use (hw_fences_tbl drv ! join)" "h = of_nat join" by simp_all
  have fg: "f = (?g (hw_fences_tbl drv ! join))\<lparr>hf_wait_client_mask := m\<rparr>" using f join by simp
  then show use: "in_use f" and fkey: "fence_key f = (df_context base, df_seqno base)"
    and "hf_pending_child_cnt f = of_nat n" "hf_fence_allocator f = HW_FENCE_JOIN_FENCE_CLIENT_ID"
    "\<not> signalled f"
    using reserve_key(3,4) by (simp_all add: in_use_def fence_key_def signalled_def)
  show "hf_wait_client_mask (hw_fences_tbl drv1 ! join) = 0" using join by simp
  show "set_fence join f drv1 = drv\<lparr>hw_fences_tbl := T0\<rparr>"
    using join T0 by (simp add: set_fence_def)
  show "table_wf (drv\<lparr>hw_fences_tbl := T0\<rparr>)"
    using create_slot_wf(1) [OF wf key new join(1,2) use fkey] T0 by (simp add: set_fence_def)
  have "join < 2 ^ 32"
    using join(1) wf unat_u32_less [of "hw_fence_table_entries drv"] by (simp add: table_wf_def)
  then have h: "unat h = join" using join(3) by (simp add: unat_of_nat_u64)
  have unlisted: "parents_shape (T0 ! k) \<and> \<not> listed h (T0 ! k)"
    if k: "k < length T0" "k \<noteq> join" "in_use (T0 ! k)" for k
  proof -
    have T0k: "T0 ! k = hw_fences_tbl drv ! k" "hw_fences_tbl drv ! k \<in> set (hw_fences_tbl drv)"
      using k T0 by simp_all
    with k(3) parents have "parents_shape (T0 ! k)"
      "\<forall>p\<in>set (take (unat (hf_parents_cnt (T0 ! k))) (hf_parent_list (T0 ! k))).
        in_use (hw_fences_tbl drv ! unat p)"
      by (auto simp: parents_wf_def)
    with h join(2) show ?thesis by (auto simp: listed_def)
  qed
  then show "join_base h join T0" by (simp add: join_base_def)
  show "join_inv h join {} T0 T0" using unlisted by (auto simp: join_inv_def remove_parent_other)
qed

lemma table_wf_same: "hw_fences_tbl d = hw_fences_tbl d' \<Longrightarrow>
    hw_fence_table_entries d = hw_fence_table_entries d' \<Longrightarrow> table_wf d = table_wf d'"
  by (simp add: table_wf_def)

lemma fence_map_same: "hw_fences_tbl d = hw_fences_tbl d' \<Longrightarrow> fence_map d = fence_map d'"
  by (simp add: fence_map_def)

text \<open>Destroying the join fence, when it is the only difference to a table without it.\<close>

lemma join_destroyed:
  assumes wf: "table_wf drv" and new: "fence_map drv (df_context base, df_seqno base) = None"
    and key: "(df_context base, df_seqno base) \<noteq> (0, 0)"
    and join: "join < length (hw_fences_tbl drv)" "\<not> in_use (hw_fences_tbl drv ! join)"
    and g: "in_use g" "fence_key g = (df_context base, df_seqno base)"
    and d: "hw_fences_tbl d = (hw_fences_tbl drv)[join := g]" "hw_fence_table_entries d = hw_fence_table_entries drv"
  shows "snd (hw_fence_process_join_fence d base n False) =
      d\<lparr>hw_fences_tbl := (hw_fences_tbl drv)[join := unreserve_hw_fence g]\<rparr>"
    and "table_wf (snd (hw_fence_process_join_fence d base n False))"
    and "fence_map (snd (hw_fence_process_join_fence d base n False)) = fence_map drv"
proof -
  let ?k = "(df_context base, df_seqno base)" and ?u = "unreserve_hw_fence g"
  have "table_wf (set_fence join g drv)" by (rule create_slot_wf(1) [OF wf key new join g])
  then have wf': "table_wf d" using d by (simp add: table_wf_same [of d "set_fence join g drv"])
  have gd: "hw_fences_tbl d ! join = g" "join < length (hw_fences_tbl d)" using d join by simp_all
  then have "fence_map d ?k = Some g" using g by (auto simp: fence_map_Some [OF wf'])
  with cleanup_spec [OF wf' key, of HW_FENCE_JOIN_FENCE_CLIENT_ID] obtain k where k:
    "k < length (hw_fences_tbl d)" "hw_fences_tbl d ! k = g"
    "hw_fence_cleanup d HW_FENCE_JOIN_FENCE_CLIENT_ID (df_context base) (df_seqno base) = Inr (set_fence k ?u d)"
    by auto
  have "k = join" using table_wf_unique [OF wf' k(1) gd(2)] k gd g by simp
  with k d show eq: "snd (hw_fence_process_join_fence d base n False) =
      d\<lparr>hw_fences_tbl := (hw_fences_tbl drv)[join := ?u]\<rparr>"
    by (simp add: hw_fence_process_join_fence_def Let_def set_fence_def)
  have wfu: "table_wf (set_fence join ?u drv)" using wf join by (intro table_wf_set_fence) simp_all
  have "table_wf (d\<lparr>hw_fences_tbl := (hw_fences_tbl drv)[join := ?u]\<rparr>) = table_wf (set_fence join ?u drv)"
    by (rule table_wf_same) (simp_all add: d)
  with wfu show "table_wf (snd (hw_fence_process_join_fence d base n False))" unfolding eq by simp
  have "fence_map (set_fence join ?u drv) = fence_map drv"
    using fence_map_set_fence [OF wf wfu join(1) _ _ key] join new by (simp add: fun_upd_idem)
  moreover have "fence_map (d\<lparr>hw_fences_tbl := (hw_fences_tbl drv)[join := ?u]\<rparr>) = fence_map (set_fence join ?u drv)"
    by (rule fence_map_same) simp
  ultimately show "fence_map (snd (hw_fence_process_join_fence d base n False)) = fence_map drv"
    unfolding eq by simp
qed

lemma array_rollback:
  assumes wf: "table_wf drv" and new: "fence_map drv (df_context base, df_seqno base) = None"
    and key: "(df_context base, df_seqno base) \<noteq> (0, 0)"
    and join: "join < length (hw_fences_tbl drv)" "\<not> in_use (hw_fences_tbl drv ! join)"
    and f: "in_use f" "fence_key f = (df_context base, df_seqno base)"
    and T0: "T0 = (hw_fences_tbl drv)[join := f]"
    and wf0: "table_wf (drv\<lparr>hw_fences_tbl := T0\<rparr>)" and base: "join_base h join T0"
    and keys: "\<forall>d\<in>set (array_fences fences). child_key d \<noteq> (0, 0)"
    and inv: "join_inv h join K T0 T" "K \<subseteq> child_key ` set (take (Suc i) (array_fences fences))"
  shows "\<exists>g. cleanup_join_and_child_fences c i base fences h (drv\<lparr>hw_fences_tbl := T\<rparr>) = set_fence join g drv \<and>
    \<not> in_use g \<and> table_wf (set_fence join g drv) \<and> fence_map (set_fence join g drv) = fence_map drv"
proof -
  have len: "length T0 = length (hw_fences_tbl drv)" using T0 by simp
  obtain T' where T': "(case fences of None \<Rightarrow> drv\<lparr>hw_fences_tbl := T\<rparr> | Some fs \<Rightarrow>
      fold (cleanup_child c h fs) (rev [0..<Suc i]) (drv\<lparr>hw_fences_tbl := T\<rparr>)) = drv\<lparr>hw_fences_tbl := T'\<rparr>"
    "join_inv h join {} T0 T'"
  proof (cases fences)
    case None
    with inv that [of T] show ?thesis by (simp add: array_fences_def)
  next
    case (Some fs)
    with cleanup_children [OF base wf0, of fs K T "Suc i" c] keys inv
    obtain T' where "fold (cleanup_child c h fs) (rev [0..<Suc i]) (drv\<lparr>hw_fences_tbl := T\<rparr>) =
        drv\<lparr>hw_fences_tbl := T'\<rparr>" "join_inv h join {} T0 T'"
      by (auto simp: array_fences_def)
    with Some that [of T'] show ?thesis by simp
  qed
  have len': "length T' = length T0" and same: "same_fence (T' ! join) f"
    using T'(2) join T0 by (auto simp: join_inv_def)
  have eq: "T' = (hw_fences_tbl drv)[join := T' ! join]"
    using join_inv_done [OF T'(2)] len' len join T0 by simp
  have use: "in_use (T' ! join)" "fence_key (T' ! join) = (df_context base, df_seqno base)"
    using same f by (simp_all add: same_fence_def)
  let ?d = "drv\<lparr>hw_fences_tbl := T'\<rparr>" and ?g = "unreserve_hw_fence (T' ! join)"
  have "cleanup_join_and_child_fences c i base fences h (drv\<lparr>hw_fences_tbl := T\<rparr>) =
      snd (hw_fence_process_join_fence ?d base (num_fences fences) False)"
    using T'(1) by (simp add: cleanup_join_and_child_fences_def)
  moreover have "hw_fences_tbl ?d = (hw_fences_tbl drv)[join := T' ! join]"
    by (rule trans [OF _ eq]) simp
  note join_destroyed [OF wf new key join use this, of "num_fences fences"]
  ultimately show ?thesis by (intro exI [of _ ?g]) (simp add: set_fence_def)
qed


section \<open>Signals change queues only\<close>

text \<open>
  \<open>queues_only drv drv'\<close>: nothing differs but the contents of client queues, the wake-up flags
  of validation clients and the log of interrupts.
\<close>

definition client_core :: "msm_hw_fence_client \<Rightarrow> msm_hw_fence_client" where
  "client_core cl = cl\<lparr>queues := [], val_signal := False\<rparr>"

definition queues_only :: "hw_fence_driver_data \<Rightarrow> hw_fence_driver_data \<Rightarrow> bool" where
  "queues_only drv drv' \<longleftrightarrow> (\<exists>cs log. drv' = drv\<lparr>clients := cs, ipcc_log := log\<rparr> \<and>
     map (map_option client_core) cs = map (map_option client_core) (clients drv))"

lemma client_core_eqD:
  assumes "client_core a = client_core b"
  shows "client_id a = client_id b" "update_rxq a = update_rxq b" "send_ipc a = send_ipc b"
    "ipc_client_vid a = ipc_client_vid b" "ipc_signal_id a = ipc_signal_id b"
    "skip_txq_wr_idx a = skip_txq_wr_idx b"
  using assms by (cases a, cases b, simp add: client_core_def)+

lemma queues_only_refl [simp]: "queues_only drv drv"
  unfolding queues_only_def by (rule exI [of _ "clients drv"], rule exI [of _ "ipcc_log drv"]) simp

lemma queues_only_trans:
  assumes "queues_only a b" "queues_only b c"
  shows "queues_only a c"
proof -
  from assms(1) obtain cs l where b: "b = a\<lparr>clients := cs, ipcc_log := l\<rparr>"
    "map (map_option client_core) cs = map (map_option client_core) (clients a)"
    unfolding queues_only_def by blast
  from assms(2) obtain cs' l' where "c = b\<lparr>clients := cs', ipcc_log := l'\<rparr>"
    "map (map_option client_core) cs' = map (map_option client_core) (clients b)"
    unfolding queues_only_def by blast
  with b have "c = a\<lparr>clients := cs', ipcc_log := l'\<rparr>"
    "map (map_option client_core) cs' = map (map_option client_core) (clients a)"
    by simp_all
  then show ?thesis unfolding queues_only_def by blast
qed

lemma queues_only_fields:
  assumes "queues_only drv drv'"
  shows "hw_fences_tbl drv' = hw_fences_tbl drv" "hw_fence_table_entries drv' = hw_fence_table_entries drv"
    "rxq_clients_num drv' = rxq_clients_num drv" "length (clients drv') = length (clients drv)"
    "hw_fence_client_queue_size drv' = hw_fence_client_queue_size drv"
    "client_lock_tbl_cnt drv' = client_lock_tbl_cnt drv" "ipcc_client_pid drv' = ipcc_client_pid drv"
  using assms by (auto simp: queues_only_def dest: map_eq_imp_length_eq)

lemma queues_only_client:
  assumes "queues_only drv drv'" "c < length (clients drv)"
  shows "clients drv' ! c = None \<longleftrightarrow> clients drv ! c = None"
    and "clients drv ! c \<noteq> None \<Longrightarrow> client_core (client_at drv' c) = client_core (client_at drv c)"
proof -
  have "map (map_option client_core) (clients drv') ! c = map (map_option client_core) (clients drv) ! c"
    using assms(1) by (auto simp: queues_only_def)
  then have eq: "map_option client_core (clients drv' ! c) = map_option client_core (clients drv ! c)"
    using assms queues_only_fields(4) [OF assms(1)] by simp
  then show none: "clients drv' ! c = None \<longleftrightarrow> clients drv ! c = None" by (metis map_option_is_None)
  show "client_core (client_at drv' c) = client_core (client_at drv c)" if "clients drv ! c \<noteq> None"
    using eq that none by (auto simp: client_at_def)
qed

text \<open>A handle refers to a registered client whose id is its index.\<close>

definition registered :: "hw_fence_driver_data \<Rightarrow> nat \<Rightarrow> bool" where
  "registered drv c \<longleftrightarrow> c < length (clients drv) \<and> clients drv ! c \<noteq> None \<and> client_id (client_at drv c) = c"

lemma queues_only_set_client:
  assumes "c < length (clients drv)" "clients drv ! c = Some cl" "client_core cl' = client_core cl"
  shows "queues_only drv (set_client c cl' drv)"
proof -
  have "map (map_option client_core) ((clients drv)[c := Some cl']) = map (map_option client_core) (clients drv)"
    using assms by (auto simp: map_update list_update_same_conv)
  then show ?thesis
    unfolding queues_only_def set_client_def
    by (intro exI [of _ "(clients drv)[c := Some cl']"] exI [of _ "ipcc_log drv"]) simp
qed

lemma update_queue_only:
  assumes "registered drv c" "hw_fence_update_queue drv c msg t = Inr drv'"
  shows "queues_only drv drv'"
proof -
  from assms(1) obtain cl where cl: "c < length (clients drv)" "clients drv ! c = Some cl"
    by (auto simp: registered_def)
  then have "client_at drv c = cl" by (simp add: client_at_def)
  with assms(2) obtain qs where "drv' = set_client c (cl\<lparr>queues := qs\<rparr>) drv"
    by (auto simp: hw_fence_update_queue_def Let_def split: if_splits option.splits sum.splits)
  with cl show ?thesis by (simp add: queues_only_set_client client_core_def)
qed

lemma registered_queues_only:
  assumes "queues_only drv drv'"
  shows "registered drv' c = registered drv c"
proof (cases "c < length (clients drv) \<and> clients drv ! c \<noteq> None")
  case True
  with queues_only_client [OF assms, of c] queues_only_fields(4) [OF assms]
  have "client_core (client_at drv' c) = client_core (client_at drv c)" by simp
  then have "client_id (client_at drv' c) = client_id (client_at drv c)" by (rule client_core_eqD)
  with True queues_only_client(1) [OF assms, of c] queues_only_fields(4) [OF assms] show ?thesis
    by (simp add: registered_def)
next
  case False
  with queues_only_client(1) [OF assms, of c] queues_only_fields(4) [OF assms] show ?thesis
    by (auto simp: registered_def)
qed

lemma fence_ctl_signal_only:
  assumes "registered drv c"
  shows "queues_only drv (fence_ctl_signal abi drv c f hash flags client_data error)"
proof -
  let ?cl = "client_at drv c"
  let ?d1 = "if update_rxq ?cl then signal_rxq drv c f hash flags client_data error else drv"
  have q1: "queues_only drv ?d1"
    using update_queue_only [OF assms] by (auto simp: signal_rxq_def split: sum.splits)
  have trig: "queues_only d (hw_fence_ipcc_trigger_signal d x y z)" for d x y z
    unfolding queues_only_def hw_fence_ipcc_trigger_signal_def Let_def
    by (intro exI [of _ "clients d"] exI) simp
  have val: "queues_only d (snd (process_validation_client_loopback abi d c))"
    if "queues_only drv d" for d
  proof -
    have "registered d c" using that assms by (simp add: registered_queues_only)
    then show ?thesis
      by (auto simp: process_validation_client_loopback_def registered_def client_core_def
          intro!: queues_only_set_client)
  qed
  let ?d2 = "if send_ipc ?cl then hw_fence_ipcc_trigger_signal ?d1 (ipcc_client_pid drv)
      (of_int (ipc_client_vid ?cl)) (of_int (ipc_signal_id ?cl)) else ?d1"
  have "queues_only drv ?d2" using q1 trig by (auto intro: queues_only_trans)
  moreover have "client_id ?cl = c" using assms by (simp add: registered_def)
  ultimately show ?thesis
    unfolding fence_ctl_signal_def Let_def using val by (auto intro: queues_only_trans)
qed

lemma of_nat_filter_compl:
  "(of_nat (length xs) :: u32) - of_nat (length (filter P xs)) = of_nat (length (filter (\<lambda>x. \<not> P x) xs))"
  using sum_length_filter_compl [of P xs] by (metis add_diff_cancel_left' of_nat_add)

text \<open>An accepted array: the entry of the join fence, the table the loop leaves, and what
  becomes of it.\<close>

lemma array_acceptedE:
  assumes wf: "table_wf drv" and parents: "parents_wf drv"
    and key: "(df_context base, df_seqno base) \<noteq> (0, 0)"
    and new: "fence_map drv (df_context base, df_seqno base) = None"
    and keys: "\<forall>d\<in>set (array_fences fences). child_key d \<noteq> (0, 0) \<and>
      child_key d \<noteq> (df_context base, df_seqno base)"
    and small: "num_fences fences < 2 ^ 32" and reg: "registered drv c"
    and ok: "hw_fence_process_fence_array abi drv c base fences client_data = (Inr (h, s), drv')"
  obtains join f T g where "join < length (hw_fences_tbl drv)" "\<not> in_use (hw_fences_tbl drv ! join)"
    "unat h = join" "table_wf (drv\<lparr>hw_fences_tbl := (hw_fences_tbl drv)[join := f]\<rparr>)"
    "loop_done h join ((hw_fences_tbl drv)[join := f]) (array_fences fences) False s
       ((hw_fences_tbl drv)[join := f]) T"
    "table_wf (drv\<lparr>hw_fences_tbl := T[join := g]\<rparr>)"
    "in_use g" "fence_key g = (df_context base, df_seqno base)"
    "g = store_client_data abi drv c client_data (counted_down ((hw_fences_tbl drv)[join := f]) (array_fences fences) f)"
    "hf_pending_child_cnt f = of_nat (length (array_fences fences))"
    "hf_fence_allocator f = HW_FENCE_JOIN_FENCE_CLIENT_ID" "hf_wait_client_mask f = BIT64 c"
    "\<And>d. d \<in> set (array_fences fences) \<Longrightarrow>
      child_signalled ((hw_fences_tbl drv)[join := f]) d = child_signalled (hw_fences_tbl drv) d"
    "drv' = (if s then snd (hw_fence_process_join_fence (fence_ctl_signal abi (drv\<lparr>hw_fences_tbl := T[join := g]\<rparr>) c
        g h 0 0 (ucast client_data)) base (num_fences fences) False) else drv\<lparr>hw_fences_tbl := T[join := g]\<rparr>)"
proof -
  let ?fs = "array_fences fences" and ?k = "(df_context base, df_seqno base)"
  from ok obtain join h' drv1 where create:
    "hw_fence_process_join_fence drv base (num_fences fences) True = (Some (join, h'), drv1)"
    and refused: "\<not> client_data_refused abi drv c client_data"
    by (cases "hw_fence_process_join_fence drv base (num_fences fences) True")
       (auto simp: hw_fence_process_fence_array_def split: if_splits option.splits)
  let ?m = "hf_wait_client_mask (hw_fences_tbl drv1 ! join) OR BIT64 (client_id (client_at drv1 c))"
  let ?f = "(hw_fences_tbl drv1 ! join)\<lparr>hf_wait_client_mask := ?m\<rparr>"
  let ?Tj = "(hw_fences_tbl drv)[join := ?f]"
  note made = join_created [where m = ?m, OF wf parents key new create refl refl]
  have keys0: "\<forall>d\<in>set ?fs. child_key d \<noteq> (0, 0)" using keys by simp
  obtain r s' T where loop: "array_loop c join h' ?fs 0 False (drv\<lparr>hw_fences_tbl := ?Tj\<rparr>) =
      (r, s', drv\<lparr>hw_fences_tbl := T\<rparr>)"
    "r = None \<longrightarrow> join_inv h' join (child_key ` set ?fs) ?Tj T"
    using array_loop_inv [OF made(11) keys0 made(13), of c 0 False] made(1)
    by (auto split: option.splits)
  let ?T = "T[join := store_client_data abi drv c client_data (T ! join)]"
  have r: "r = None" "h = h'" "s = s'"
    "drv' = (if s then snd (hw_fence_process_join_fence (fence_ctl_signal abi (drv\<lparr>hw_fences_tbl := ?T\<rparr>) c
        (store_client_data abi drv c client_data (T ! join)) h 0 0 (ucast client_data))
        base (num_fences fences) False) else drv\<lparr>hw_fences_tbl := ?T\<rparr>)"
    using ok loop(1) refused create made(4)
    by (auto simp: hw_fence_process_fence_array_def Let_def split: if_splits option.splits)
  have lens: "length T = length (hw_fences_tbl drv)" "join_inv h join (child_key ` set ?fs) ?Tj T"
    using loop(2) r by (simp_all add: join_inv_def)
  have jb: "?Tj ! join = ?f" "fence_key ?f = ?k" "unat (hf_pending_child_cnt ?f) = length ?fs"
    using made(1,6,7) small by (simp_all add: unat_of_nat_u32 num_fences_def)
  have "\<exists>T'. drv\<lparr>hw_fences_tbl := T\<rparr> = drv\<lparr>hw_fences_tbl := T'\<rparr> \<and> loop_done h join ?Tj ?fs False s ?Tj T'"
  proof (rule array_loop_done [OF made(11)])
    show "array_loop c join h ?fs 0 False (drv\<lparr>hw_fences_tbl := ?Tj\<rparr>) = (None, s, drv\<lparr>hw_fences_tbl := T\<rparr>)"
      using loop(1) r by simp
    show "join_inv h join {} ?Tj ?Tj" using made(13) r by simp
  qed (use made(1) keys jb in simp_all)
  then have dn: "loop_done h join ?Tj ?fs False s ?Tj T" by auto
  have csig: "child_signalled ?Tj d \<longleftrightarrow> child_signalled (hw_fences_tbl drv) d" if "d \<in> set ?fs" for d
    using that keys made(1,2,6) by (intro child_signalled_create) auto
  let ?g = "store_client_data abi drv c client_data (T ! join)"
  have gT: "T ! join = counted_down ?Tj ?fs ?f" using dn jb by (simp add: loop_done_def)
  then have "same_fence ?g ?f" by (simp add: counted_down_def)
  then have g: "in_use ?g" "fence_key ?g = ?k" using made(5,6) by (simp_all add: same_fence_def)
  have "client_at (set_fence join ?f drv1) c = client_at drv c" unfolding made(4) by simp
  then have mask: "?m = BIT64 c" using made(10) reg by (simp add: registered_def)
  have wfT: "table_wf (drv\<lparr>hw_fences_tbl := ?T\<rparr>)"
    using join_inv_wf [OF join_inv_join [OF lens(2)] made(11)] made(1) lens(1) by simp
  have "join < 2 ^ 32"
    using made(1) wf unat_u32_less [of "hw_fence_table_entries drv"] by (simp add: table_wf_def)
  then have h: "unat h = join" using made(3) r(2) by (simp add: unat_of_nat_u64)
  show thesis
    by (rule that [of join ?f T ?g, OF made(1,2) h made(11) dn wfT g])
       (use gT made(7,8) mask csig r(4) in \<open>simp_all add: num_fences_def\<close>)
qed

text \<open>C3. A fence array that is accepted waits for exactly its unsignalled children: either every
  child was signalled, the array is reported as signalled and the table has the same fences as
  before, or the table has a new join fence for the array, owned by the join client id, with the
  calling client as its only waiter and with a pending count equal to the number of unsignalled
  children, every one of which lists the join fence among its parents.\<close>

theorem hw_fence_process_fence_array_joins:
  assumes wf: "table_wf drv" and parents: "parents_wf drv"
    and key: "(df_context base, df_seqno base) \<noteq> (0, 0)"
    and new: "fence_map drv (df_context base, df_seqno base) = None"
    and keys: "\<forall>d\<in>set (array_fences fences). child_key d \<noteq> (0, 0) \<and>
      child_key d \<noteq> (df_context base, df_seqno base)"
    and small: "num_fences fences < 2 ^ 32" and reg: "registered drv c"
    and ok: "hw_fence_process_fence_array abi drv c base fences client_data = (Inr (h, s), drv')"
  shows "if s then (\<forall>d\<in>set (array_fences fences). child_signalled (hw_fences_tbl drv) d) \<and>
      table_wf drv' \<and> fence_map drv' = fence_map drv
    else \<exists>f. table_wf drv' \<and> fence_map drv' (df_context base, df_seqno base) = Some f \<and>
      hf_fence_allocator f = HW_FENCE_JOIN_FENCE_CLIENT_ID \<and> hf_wait_client_mask f = BIT64 c \<and>
      hf_pending_child_cnt f = of_nat (length (filter (\<lambda>d. \<not> child_signalled (hw_fences_tbl drv) d)
        (array_fences fences))) \<and> unat h < length (hw_fences_tbl drv') \<and> hw_fences_tbl drv' ! unat h = f \<and>
      (\<forall>d\<in>set (array_fences fences). child_listed h (hw_fences_tbl drv') d)"
proof (rule array_acceptedE [OF assms])
  let ?fs = "array_fences fences" and ?k = "(df_context base, df_seqno base)" and ?tbl = "hw_fences_tbl drv"
  fix join f T g
  assume made: "join < length ?tbl" "\<not> in_use (?tbl ! join)" "unat h = join"
    and wfj: "table_wf (drv\<lparr>hw_fences_tbl := ?tbl[join := f]\<rparr>)"
    and loop: "loop_done h join (?tbl[join := f]) ?fs False s (?tbl[join := f]) T"
    and wfT: "table_wf (drv\<lparr>hw_fences_tbl := T[join := g]\<rparr>)"
    and g: "in_use g" "fence_key g = ?k"
      "g = store_client_data abi drv c client_data (counted_down (?tbl[join := f]) ?fs f)"
    and f: "hf_pending_child_cnt f = of_nat (length ?fs)" "hf_fence_allocator f = HW_FENCE_JOIN_FENCE_CLIENT_ID"
      "hf_wait_client_mask f = BIT64 c"
    and csig: "\<And>d. d \<in> set ?fs \<Longrightarrow> child_signalled (?tbl[join := f]) d = child_signalled ?tbl d"
    and drv': "drv' = (if s then snd (hw_fence_process_join_fence (fence_ctl_signal abi
        (drv\<lparr>hw_fences_tbl := T[join := g]\<rparr>) c g h 0 0 (ucast client_data)) base (num_fences fences) False)
        else drv\<lparr>hw_fences_tbl := T[join := g]\<rparr>)"
  have len: "length T = length ?tbl" using loop by (simp add: loop_done_def)
  show ?thesis
  proof (cases s)
    case True
    then have all: "\<forall>d\<in>set ?fs. child_signalled (?tbl[join := f]) d"
      and rest: "\<forall>k<length T. k \<noteq> join \<longrightarrow> T ! k = ?tbl[join := f] ! k"
      using loop len by (auto simp: loop_done_def)
    have T: "T[join := g] = ?tbl[join := g]"
      using rest len made(1) by (intro nth_equalityI) (auto simp: nth_list_update_if)
    let ?d = "fence_ctl_signal abi (drv\<lparr>hw_fences_tbl := T[join := g]\<rparr>) c g h 0 0 (ucast client_data)"
    have "registered (drv\<lparr>hw_fences_tbl := T[join := g]\<rparr>) c" using reg by (simp add: registered_def)
    from queues_only_fields(1,2) [OF fence_ctl_signal_only [OF this]]
    have "hw_fences_tbl ?d = ?tbl[join := g]" "hw_fence_table_entries ?d = hw_fence_table_entries drv"
      using T by simp_all
    from join_destroyed(2,3) [OF wf new key made(1,2) g(1,2) this, of "num_fences fences"] True drv' all csig
    show ?thesis by simp
  next
    case False
    have "filter (child_signalled (?tbl[join := f])) ?fs = filter (child_signalled ?tbl) ?fs"
      using csig by (intro filter_cong) auto
    with f(1) g(3) have pend: "hf_pending_child_cnt g =
        of_nat (length (filter (\<lambda>d. \<not> child_signalled ?tbl d) ?fs))"
      by (simp add: store_client_data_def counted_down_def of_nat_filter_compl)
    have fields: "hf_fence_allocator g = HW_FENCE_JOIN_FENCE_CLIENT_ID" "hf_wait_client_mask g = BIT64 c"
      using g(3) f(2,3) by (simp_all add: store_client_data_def counted_down_def)
    have "fence_map (drv\<lparr>hw_fences_tbl := T[join := g]\<rparr>) ?k = Some g"
      using g(1,2) made(1) len by (auto simp: fence_map_Some [OF wfT] intro!: exI [of _ join])
    moreover have "child_listed h (T[join := g]) d" if "d \<in> set ?fs" for d
    proof (rule child_listed_mono [of h T])
      show "child_listed h T d" using loop that by (simp add: loop_done_def)
    next
      have "T ! join = counted_down (?tbl[join := f]) ?fs f" using made(1) loop by (simp add: loop_done_def)
      then show "same_fence (T[join := g] ! k) (T ! k) \<and> (listed h (T ! k) \<longrightarrow> listed h (T[join := g] ! k))"
        if "k < length T" for k
        using g(3) that made(1) len by (auto simp: nth_list_update_if)
    qed simp
    ultimately show ?thesis
      using False drv' wfT pend fields made(1,3) len by simp
  qed
qed

section \<open>Messages to waiting clients\<close>

text \<open>A signal to one client leaves the others alone, and the queues of a client depend on its
  own structure only.\<close>

lemma fence_ctl_signal_other:
  assumes "registered drv c" "c' \<noteq> c"
  shows "clients (fence_ctl_signal abi drv c f hash flags client_data error) ! c' = clients drv ! c'"
proof -
  have rxq: "clients (signal_rxq drv c f hash flags client_data error) ! c' = clients drv ! c'"
    using assms(2)
    by (auto simp: signal_rxq_def hw_fence_update_queue_def Let_def set_client_def
        split: sum.splits if_splits option.splits)
  have "client_id (client_at drv c) = c" using assms(1) by (simp add: registered_def)
  then show ?thesis
    using assms(2) rxq
    by (auto simp: fence_ctl_signal_def process_validation_client_loopback_def set_client_def
        hw_fence_ipcc_trigger_signal_def Let_def split: option.splits)
qed

lemma queue_view_cong:
  assumes "queues_only drv d" "clients d ! c = clients drv ! c"
  shows "queue_ready d c t = queue_ready drv c t" "queue_messages d c t = queue_messages drv c t"
    "client_queue d c t = client_queue drv c t" "client_at d c = client_at drv c"
proof -
  show at: "client_at d c = client_at drv c" using assms(2) by (simp add: client_at_def)
  show "client_queue d c t = client_queue drv c t" "queue_messages d c t = queue_messages drv c t"
    by (simp_all add: client_queue_def queue_messages_def at)
  show "queue_ready d c t = queue_ready drv c t"
    using assms queue_ready_def client_ok_def
    by (simp add: queue_ready_def client_ok_def client_queue_def at queues_only_fields [OF assms(1)])
qed

definition rxq_idx :: nat where
  "rxq_idx = HW_FENCE_RX_QUEUE - 1"

text \<open>A signal to a client with room in its Rx queue appends one message to it.\<close>

lemma fence_ctl_signal_message:
  assumes reg: "registered drv c" and rxq: "update_rxq (client_at drv c)" and ready: "queue_ready drv c rxq_idx"
    and room: "length (queue_messages drv c rxq_idx) < ring_capacity (client_queue drv c rxq_idx)"
  shows "queue_messages (fence_ctl_signal abi drv c f hash flags client_data error) c rxq_idx =
    queue_messages drv c rxq_idx @ [(hf_ctx_id f, hf_seq_id f, hash, flags, client_data, error)]"
proof -
  let ?msg = "(hf_ctx_id f, hf_seq_id f, hash, flags, client_data, error)"
  from update_queue_spec [OF ready, of ?msg] room obtain d where d:
    "hw_fence_update_queue drv c ?msg rxq_idx = Inr d"
    "queue_messages d c rxq_idx = queue_messages drv c rxq_idx @ [?msg]"
    by (cases "hw_fence_update_queue drv c ?msg rxq_idx") auto
  then have sr: "signal_rxq drv c f hash flags client_data error = d"
    by (simp add: signal_rxq_def rxq_idx_def)
  have "registered d c" using update_queue_only [OF reg d(1)] reg by (simp add: registered_queues_only)
  then have "queue_messages (snd (process_validation_client_loopback abi e c)) c rxq_idx =
      queue_messages e c rxq_idx" if "clients e = clients d" for e
    using that by (auto simp: process_validation_client_loopback_def queue_messages_def client_queue_def
        registered_def client_at_def set_client_def uses_tx_wm_def split: option.splits)
  moreover have "queue_messages (hw_fence_ipcc_trigger_signal d x y z) c rxq_idx = queue_messages d c rxq_idx"
    "clients (hw_fence_ipcc_trigger_signal d x y z) = clients d" for x y z
    by (simp_all add: hw_fence_ipcc_trigger_signal_def queue_messages_def client_queue_def client_at_def Let_def)
  moreover have "client_id (client_at drv c) = c" using reg by (simp add: registered_def)
  ultimately show ?thesis
    using d(2) rxq by (simp add: fence_ctl_signal_def sr Let_def)
qed

lemma lookup_clients: "clients (snd (snd (hw_fence_lookup_and_process drv ctx seqno cid n op))) = clients drv"
  using lookup_find [of drv ctx seqno cid n op] by (auto split: option.splits if_splits)

lemma cleanup_clients: "hw_fence_cleanup drv cid ctx seqno = Inr d \<Longrightarrow> clients d = clients drv"
  using lookup_clients [of drv ctx seqno cid 0 HW_FENCE_LOOKUP_OP_DESTROY]
  by (auto simp: hw_fence_cleanup_def split: prod.splits option.splits)

text \<open>C16. Waiting on a single fence: the request fails with \<open>-EINVAL\<close>, changing nothing, exactly when
  the client gives data it must not give or the table has no such fence. Otherwise only that
  fence changes, by the client's bit in its wait mask and its time, count and client data; if
  the fence was already signalled the client is told at once, by a message with the fence's key,
  its hash and the client data when its Rx queue has room, and if it was not, no queue is
  touched.\<close>

theorem hw_fence_register_wait_client_correct:
  assumes wf: "table_wf drv" and key: "(ctx, seqno) \<noteq> (0, 0)" and reg: "registered drv c"
  shows "case hw_fence_register_wait_client abi drv has_fence c ctx seqno client_data of
      Inl e \<Rightarrow> e = EINVAL \<and> (client_data_refused abi drv c client_data \<or> fence_map drv (ctx, seqno) = None)
    | Inr ((hash, s), drv') \<Rightarrow> \<not> client_data_refused abi drv c client_data \<and>
        (\<exists>f f'. fence_map drv (ctx, seqno) = Some f \<and> table_wf drv' \<and>
          fence_map drv' = (fence_map drv)((ctx, seqno) \<mapsto> f') \<and>
          hf_wait_client_mask f' = hf_wait_client_mask f OR BIT64 c \<and>
          hf_parent_list f' = hf_parent_list f \<and> hf_fence_allocator f' = hf_fence_allocator f \<and>
          s = (has_fence \<and> signalled f) \<and>
          (if signalled f then
             update_rxq (client_at drv c) \<and> queue_ready drv c rxq_idx \<and>
             length (queue_messages drv c rxq_idx) < ring_capacity (client_queue drv c rxq_idx) \<longrightarrow>
             queue_messages drv' c rxq_idx = queue_messages drv c rxq_idx @ [(ctx, seqno, hash, 0, client_data, 0)]
           else clients drv' = clients drv \<and> ipcc_log drv' = ipcc_log drv))"
proof (cases "client_data_refused abi drv c client_data \<or> fence_map drv (ctx, seqno) = None")
  case True
  with find_spec [OF wf key, of "Some c"] show ?thesis
    by (auto simp: hw_fence_register_wait_client_def split: option.splits)
next
  case False
  then obtain f where f: "fence_map drv (ctx, seqno) = Some f" by auto
  then obtain i where i: "i < length (hw_fences_tbl drv)" "hw_fences_tbl drv ! i = f" "in_use f"
    "fence_key f = (ctx, seqno)"
    by (auto simp: fence_map_Some [OF wf])
  then have find: "msm_hw_fence_find drv (Some c) ctx seqno = Some (i, of_nat i)"
    by (simp add: find_Some [OF wf key])
  have cid: "client_id (client_at drv c) = c" using reg by (simp add: registered_def)
  let ?f = "store_client_data abi drv c client_data (f\<lparr>hf_wait_client_mask := hf_wait_client_mask f OR BIT64 c,
    hf_fence_wait_time := hw_fence_get_qtime drv, hf_debug_refcount := hf_debug_refcount f + 1\<rparr>)"
  let ?d = "set_fence i ?f drv"
  have same: "in_use ?f" "fence_key ?f = (ctx, seqno)" "signalled ?f = signalled f"
    "hf_wait_client_mask ?f = hf_wait_client_mask f OR BIT64 c" "hf_parent_list ?f = hf_parent_list f"
    "hf_fence_allocator ?f = hf_fence_allocator f" "hf_ctx_id ?f = ctx" "hf_seq_id ?f = seqno"
    using i by (auto simp: store_client_data_def in_use_def fence_key_def signalled_def)
  have wfd: "table_wf ?d" and map: "fence_map ?d = (fence_map drv)((ctx, seqno) \<mapsto> ?f)"
    using fence_update [OF wf i(1), of ?f] i same by simp_all
  let ?s = "fence_ctl_signal abi ?d c ?f (of_nat i) 0 client_data 0"
  have flag: "hf_flags ?f AND MSM_HW_FENCE_FLAG_SIGNAL \<noteq> 0 \<longleftrightarrow> signalled f"
    by (simp add: signalled_def store_client_data_def)
  have eval: "hw_fence_register_wait_client abi drv has_fence c ctx seqno client_data =
      Inr ((of_nat i, has_fence \<and> signalled f), if signalled f then ?s else ?d)"
    using False find i flag by (simp add: hw_fence_register_wait_client_def Let_def cid)
  have regd: "registered ?d c" using reg by (simp add: registered_def)
  note only = queues_only_fields [OF fence_ctl_signal_only [OF regd]]
  have "table_wf ?s = table_wf ?d" by (rule table_wf_same) (rule only(1), rule only(2))
  moreover have "fence_map ?s = fence_map ?d" by (rule fence_map_same) (rule only(1))
  moreover have "queue_ready ?d c rxq_idx = queue_ready drv c rxq_idx"
    "queue_messages ?d c rxq_idx = queue_messages drv c rxq_idx"
    "client_queue ?d c rxq_idx = client_queue drv c rxq_idx"
    by (simp_all add: queue_ready_def client_ok_def queue_messages_def client_queue_def)
       (simp add: set_fence_def)
  moreover have "ipcc_log ?d = ipcc_log drv" by (simp add: set_fence_def)
  ultimately show ?thesis
    using False f wfd map same fence_ctl_signal_message [OF regd, of abi ?f "of_nat i" 0 client_data 0]
    unfolding eval by (auto intro!: exI [of _ ?f])
qed

definition handles_ok :: "hw_fence_driver_data \<Rightarrow> nat set \<Rightarrow> bool" where
  "handles_ok drv C \<longleftrightarrow> (\<forall>c\<in>C. c < length (clients drv) \<and> (clients drv ! c = None \<or> registered drv c))"

definition waits_on :: "msm_hw_fence \<Rightarrow> nat \<Rightarrow> bool" where
  "waits_on f c \<longleftrightarrow> hf_wait_client_mask f AND BIT64 c \<noteq> 0"

lemma handles_ok_queues_only: "queues_only drv d \<Longrightarrow> handles_ok drv C \<Longrightarrow> handles_ok d C"
  by (auto simp: handles_ok_def registered_queues_only queues_only_client(1) queues_only_fields(4))

definition signal_one ::
  "hw_fence_abi \<Rightarrow> msm_hw_fence \<Rightarrow> u64 \<Rightarrow> u32 \<Rightarrow> u64 \<Rightarrow> nat \<Rightarrow> hw_fence_driver_data \<Rightarrow> hw_fence_driver_data" where
  "signal_one abi f hash error client_data c drv =
     (if clients drv ! c = None then drv else fence_ctl_signal abi drv c f hash 0 client_data error)"

lemma signal_loop_Cons:
  "signal_loop abi f hash error (c # ids) client_data drv =
     (if waits_on f c then
        (let client_data = (if hw_fence_get_client_data_id abi c \<noteq> HW_FENCE_MAX_CLIENTS_WITH_DATA
           then hf_client_data f ! data_id_index (hw_fence_get_client_data_id abi c) else client_data)
         in signal_loop abi f hash error ids client_data (signal_one abi f hash error client_data c drv))
      else signal_loop abi f hash error ids client_data drv)"
  by (simp add: waits_on_def signal_one_def Let_def split: option.splits)

lemma signal_one_only:
  assumes "handles_ok drv (insert c C)"
  shows "queues_only drv (signal_one abi f hash error client_data c drv)"
    "handles_ok (signal_one abi f hash error client_data c drv) C"
    "c' \<noteq> c \<Longrightarrow> clients (signal_one abi f hash error client_data c drv) ! c' = clients drv ! c'"
proof -
  have reg: "clients drv ! c \<noteq> None \<Longrightarrow> registered drv c" using assms by (auto simp: handles_ok_def)
  then show only: "queues_only drv (signal_one abi f hash error client_data c drv)"
    by (auto simp: signal_one_def fence_ctl_signal_only)
  show "handles_ok (signal_one abi f hash error client_data c drv) C"
    using handles_ok_queues_only [OF only assms] by (simp add: handles_ok_def)
  show "clients (signal_one abi f hash error client_data c drv) ! c' = clients drv ! c'" if "c' \<noteq> c"
    using reg that by (auto simp: signal_one_def fence_ctl_signal_other)
qed

lemma signal_loop_only:
  assumes "handles_ok drv (set ids)"
  shows "queues_only drv (signal_loop abi f hash error ids client_data drv)"
    and "c \<notin> set ids \<or> \<not> waits_on f c \<Longrightarrow>
      clients (signal_loop abi f hash error ids client_data drv) ! c = clients drv ! c"
  using assms
proof (induction ids arbitrary: client_data drv)
  case Nil
  { case 1 then show ?case by simp }
  { case 2 then show ?case by simp }
next
  case (Cons a ids)
  have one: "handles_ok drv (insert a (set ids))" if "handles_ok drv (set (a # ids))" for drv
    using that by simp
  have rest: "handles_ok drv (set ids)" if "handles_ok drv (set (a # ids))" for drv
    using that by (simp add: handles_ok_def)
  { case 1
    show ?case
      using Cons.IH(1) [OF rest [OF 1]]
        queues_only_trans [OF signal_one_only(1) [OF one [OF 1]] Cons.IH(1) [OF signal_one_only(2) [OF one [OF 1]]]]
      by (simp add: signal_loop_Cons Let_def del: signal_loop.simps) }
  { case 2
    then have "waits_on f a \<Longrightarrow> c \<noteq> a" "c \<notin> set ids \<or> \<not> waits_on f c" by auto
    with Cons.IH(2) [OF _ rest [OF 2(2)]] Cons.IH(2) [OF _ signal_one_only(2) [OF one [OF 2(2)]]]
      signal_one_only(3) [OF one [OF 2(2)], of c]
    show ?case by (simp add: signal_loop_Cons Let_def del: signal_loop.simps) }
qed

lemma signal_loop_message:
  assumes "handles_ok drv (set ids)" "distinct ids" "c \<in> set ids" "waits_on f c"
    and "registered drv c" "update_rxq (client_at drv c)" "queue_ready drv c rxq_idx"
    and "length (queue_messages drv c rxq_idx) < ring_capacity (client_queue drv c rxq_idx)"
  shows "\<exists>cd. queue_messages (signal_loop abi f hash error ids client_data drv) c rxq_idx =
      queue_messages drv c rxq_idx @ [(hf_ctx_id f, hf_seq_id f, hash, 0, cd, error)] \<and>
    (hw_fence_get_client_data_id abi c \<noteq> HW_FENCE_MAX_CLIENTS_WITH_DATA \<longrightarrow>
      cd = hf_client_data f ! data_id_index (hw_fence_get_client_data_id abi c))"
  using assms
proof (induction ids arbitrary: client_data drv)
  case Nil
  then show ?case by simp
next
  case (Cons a ids)
  have one: "handles_ok drv (insert a (set ids))" using Cons.prems(1) by simp
  then have rest: "handles_ok drv (set ids)" by (simp add: handles_ok_def)
  define cd where "cd = (if hw_fence_get_client_data_id abi a \<noteq> HW_FENCE_MAX_CLIENTS_WITH_DATA
    then hf_client_data f ! data_id_index (hw_fence_get_client_data_id abi a) else client_data)"
  let ?d = "signal_one abi f hash error cd a drv"
  have step: "waits_on f a \<Longrightarrow>
      signal_loop abi f hash error (a # ids) client_data drv = signal_loop abi f hash error ids cd ?d"
    by (simp add: signal_loop_Cons Let_def cd_def del: signal_loop.simps)
  show ?case
  proof (cases "a = c")
    case True
    then have "c \<notin> set ids" using Cons.prems(2) by simp
    with signal_loop_only [OF signal_one_only(2) [OF one]]
    have "queue_messages (signal_loop abi f hash error ids cd ?d) c rxq_idx = queue_messages ?d c rxq_idx"
      by (intro queue_view_cong(2)) simp_all
    moreover have "?d = fence_ctl_signal abi drv c f hash 0 cd error"
      using True Cons.prems(5) by (auto simp: signal_one_def registered_def)
    ultimately show ?thesis
      using True step Cons.prems(4) fence_ctl_signal_message [OF Cons.prems(5-8), of abi f hash 0 cd error]
      by (intro exI [of _ cd]) (simp add: cd_def del: signal_loop.simps)
  next
    case False
    have same: "clients ?d ! c = clients drv ! c" and only: "queues_only drv ?d"
      using signal_one_only(1,3) [OF one] False by auto
    note view = queue_view_cong [OF only same]
    have "registered ?d c" using Cons.prems(5) by (simp add: registered_queues_only [OF only])
    with False Cons.prems Cons.IH [OF signal_one_only(2) [OF one], of abi f hash error cd cd]
    have "waits_on f a \<Longrightarrow> ?thesis" by (simp add: step view del: signal_loop.simps)
    moreover have "\<not> waits_on f a \<Longrightarrow> ?thesis"
      using False Cons.prems Cons.IH [OF rest, of client_data]
      by (simp add: signal_loop_Cons del: signal_loop.simps)
    ultimately show ?thesis by blast
  qed
qed

text \<open>C15. Signalling the waiters of a fence reaches every one of them once and nobody else: each
  registered client up to the last Rx client that waits on the fence and has room in its Rx
  queue gets exactly one message, with the fence's key, the hash and the error, and with the
  data stored for it if it is a client with data; clients that do not wait on the fence keep
  their structure, and the table of fences is untouched.\<close>

theorem signal_all_wait_clients_delivers:
  assumes handles: "handles_ok drv {..unat (rxq_clients_num drv)}"
  shows "hw_fences_tbl (signal_all_wait_clients abi drv f hash error) = hw_fences_tbl drv \<and>
    (\<forall>c. \<not> waits_on f c \<longrightarrow> clients (signal_all_wait_clients abi drv f hash error) ! c = clients drv ! c) \<and>
    (\<forall>c\<le>unat (rxq_clients_num drv). waits_on f c \<and> registered drv c \<and> update_rxq (client_at drv c) \<and>
       queue_ready drv c rxq_idx \<and>
       length (queue_messages drv c rxq_idx) < ring_capacity (client_queue drv c rxq_idx) \<longrightarrow>
       (\<exists>cd. queue_messages (signal_all_wait_clients abi drv f hash error) c rxq_idx =
            queue_messages drv c rxq_idx @ [(hf_ctx_id f, hf_seq_id f, hash, 0, cd, error)] \<and>
          (hw_fence_get_client_data_id abi c \<noteq> HW_FENCE_MAX_CLIENTS_WITH_DATA \<longrightarrow>
             cd = hf_client_data f ! data_id_index (hw_fence_get_client_data_id abi c))))"
proof -
  let ?ids = "[0..<Suc (unat (rxq_clients_num drv))]"
  have ids: "set ?ids = {..unat (rxq_clients_num drv)}" by auto
  then have ok: "handles_ok drv (set ?ids)" using handles by simp
  show ?thesis
    unfolding signal_all_wait_clients_def
    using queues_only_fields(1) [OF signal_loop_only(1) [OF ok]] signal_loop_only(2) [OF ok]
      signal_loop_message [OF ok distinct_upt]
    by (auto simp: ids simp del: signal_loop.simps upt_Suc)
qed

section \<open>Examples\<close>

text \<open>Two waiting clients: the first has a data id and stored data, the second has none.\<close>

definition two_clients_drv :: hw_fence_driver_data where
  "two_clients_drv = sample_drv\<lparr>
     clients := [None, Some sample_client, Some (sample_client\<lparr>client_id := 2\<rparr>)],
     hw_fence_client_queue_size := replicate 3 \<lparr>qs_queues_num = 2, qs_queue_entries = 4,
       qs_mem_size = 4096, qs_start_offset = 4096, qs_skip_txq_wr_idx = False\<rparr>,
     rxq_clients_num := 2, clients_num := 3, client_lock_tbl_cnt := 2\<rparr>"

definition waited_fence :: msm_hw_fence where
  "waited_fence = clean_fence\<lparr>hf_valid := 1, hf_ctx_id := 3, hf_seq_id := 4, hf_wait_client_mask := 6,
     hf_client_data := [77, 0, 0, 0, 0]\<rparr>"

text \<open>A client without a data id receives the data of another client: the loop that signals
  the waiters keeps the client data of the last client that had some, so that the second of the
  two waiting clients, for which no data can be stored, gets the value 77 that the first one
  registered.\<close>

theorem signal_all_wait_clients_stale_data:
  "hw_fence_get_client_data_id sample_abi 2 = HW_FENCE_MAX_CLIENTS_WITH_DATA \<and>
   queue_messages (signal_all_wait_clients sample_abi two_clients_drv waited_fence 0 1) 2 rxq_idx =
     [(3, 4, 0, 0, 77, 1)]"
  by code_simp

definition signalled_child_drv :: hw_fence_driver_data where
  "signalled_child_drv = set_fence 0 (clean_fence\<lparr>hf_valid := 1, hf_ctx_id := 3, hf_seq_id := 4,
     hf_flags := MSM_HW_FENCE_FLAG_SIGNAL, hf_parent_list := [- 1, - 1, - 1]\<rparr>) sample_drv"

definition hw_dma_fence :: "u64 \<Rightarrow> u64 \<Rightarrow> dma_fence" where
  "hw_dma_fence ctx seqno = \<lparr>df_context = ctx, df_seqno = seqno, df_hw_enabled = True, df_hw_signaled = False\<rparr>"

lemma sample_registered: "registered sample_drv 1" "registered signalled_child_drv 1"
  using sample_drv_client(1)
  by (simp_all add: registered_def signalled_child_drv_def sample_client_def) (simp_all add: sample_drv_def)

lemma signalled_child_table: "table_wf signalled_child_drv" "parents_wf signalled_child_drv"
  by (simp_all add: signalled_child_drv_def set_fence_def sample_table_simps parents_wf_def parents_shape_def
      hw_fence_consts BIT64_def numeral_3_eq_3)

lemma signalled_child_map: "fence_map signalled_child_drv (8, 1) = None"
  by (simp add: signalled_child_drv_def set_fence_def sample_table_simps)

lemma signalled_child_queue: "queue_ready signalled_child_drv 1 rxq_idx"
  "queue_messages signalled_child_drv 1 rxq_idx = []" "ring_capacity (client_queue signalled_child_drv 1 rxq_idx) = 3"
  "update_rxq (client_at signalled_child_drv 1)"
proof -
  have "client_at signalled_child_drv 1 = sample_client"
    by (simp add: signalled_child_drv_def sample_drv_client)
  moreover have "rxq_idx = 1" by (simp add: rxq_idx_def hw_fence_consts)
  ultimately show "queue_messages signalled_child_drv 1 rxq_idx = []"
    "ring_capacity (client_queue signalled_child_drv 1 rxq_idx) = 3" "update_rxq (client_at signalled_child_drv 1)"
    by (simp_all add: queue_messages_def client_queue_def sample_ring sample_client_def)
  show "queue_ready signalled_child_drv 1 rxq_idx"
    using sample_queue_ready \<open>rxq_idx = 1\<close>
    by (simp add: queue_ready_def client_ok_def client_queue_def signalled_child_drv_def) (simp add: set_fence_def)
qed

definition sample_array :: "bool \<Rightarrow> (u64 \<times> bool) result \<times> hw_fence_driver_data" where
  "sample_array enabled = hw_fence_process_fence_array sample_abi signalled_child_drv 1 (hw_dma_fence 8 1)
     (Some [DmaFence ((hw_dma_fence 3 4)\<lparr>df_hw_enabled := enabled\<rparr>)]) 77"

lemma sample_array_result: "\<exists>h drv'. sample_array True = (Inr (h, True), drv')"
  "\<exists>e drv'. sample_array False = (Inl e, drv')"
proof -
  have "case sample_array True of (Inr (h, s), drv') \<Rightarrow> s | _ \<Rightarrow> False"
    "case sample_array False of (Inl e, drv') \<Rightarrow> True | _ \<Rightarrow> False"
    by code_simp+
  then show "\<exists>h drv'. sample_array True = (Inr (h, True), drv')" "\<exists>e drv'. sample_array False = (Inl e, drv')"
    by (auto split: prod.splits sum.splits)
qed

lemma sample_array_keys:
  "(df_context (hw_dma_fence 8 1), df_seqno (hw_dma_fence 8 1)) \<noteq> (0, 0)"
  "fence_map signalled_child_drv (df_context (hw_dma_fence 8 1), df_seqno (hw_dma_fence 8 1)) = None"
  "\<forall>d\<in>set (array_fences (Some [DmaFence ((hw_dma_fence 3 4)\<lparr>df_hw_enabled := b\<rparr>)])). child_key d \<noteq> (0, 0) \<and>
     child_key d \<noteq> (df_context (hw_dma_fence 8 1), df_seqno (hw_dma_fence 8 1))"
  "num_fences (Some [DmaFence ((hw_dma_fence 3 4)\<lparr>df_hw_enabled := b\<rparr>)]) < 2 ^ 32"
  by (simp_all add: hw_dma_fence_def child_key_def array_fences_def num_fences_def signalled_child_map)


theorem hw_fence_process_fence_array_joins_witness:
  "\<exists>h drv'. sample_array True = (Inr (h, True), drv') \<and> fence_map drv' = fence_map signalled_child_drv"
proof -
  obtain h drv' where r: "sample_array True = (Inr (h, True), drv')" using sample_array_result(1) by blast
  with hw_fence_process_fence_array_joins [OF signalled_child_table sample_array_keys sample_registered(2)
      r [unfolded sample_array_def]]
  show ?thesis by auto
qed

text \<open>The client data of a fence array whose children are all signalled reach the client as
  an error: the message appended to the client's Rx queue has the key of the array and the hash
  of the join fence, but its data are 0 and its error is the client data cut to 32 bits.\<close>

theorem hw_fence_process_fence_array_data_as_error:
  assumes wf: "table_wf drv" and parents: "parents_wf drv"
    and key: "(df_context base, df_seqno base) \<noteq> (0, 0)"
    and new: "fence_map drv (df_context base, df_seqno base) = None"
    and keys: "\<forall>d\<in>set (array_fences fences). child_key d \<noteq> (0, 0) \<and>
      child_key d \<noteq> (df_context base, df_seqno base)"
    and small: "num_fences fences < 2 ^ 32" and reg: "registered drv c"
    and ok: "hw_fence_process_fence_array abi drv c base fences client_data = (Inr (h, True), drv')"
    and ready: "update_rxq (client_at drv c)" "queue_ready drv c rxq_idx"
      "length (queue_messages drv c rxq_idx) < ring_capacity (client_queue drv c rxq_idx)"
  shows "queue_messages drv' c rxq_idx = queue_messages drv c rxq_idx @
    [(df_context base, df_seqno base, h, 0, 0, ucast client_data)]"
proof (rule array_acceptedE [OF wf parents key new keys small reg ok])
  fix join f T g
  let ?d = "drv\<lparr>hw_fences_tbl := T[join := g]\<rparr>"
  assume g: "fence_key g = (df_context base, df_seqno base)"
    and drv': "drv' = (if True then snd (hw_fence_process_join_fence (fence_ctl_signal abi ?d c g h 0 0
        (ucast client_data)) base (num_fences fences) False) else ?d)"
  have "queue_messages (snd (hw_fence_process_join_fence e base n False)) c rxq_idx = queue_messages e c rxq_idx"
    for e n
    using cleanup_clients
    by (auto simp: hw_fence_process_join_fence_def Let_def queue_messages_def client_queue_def client_at_def
        split: sum.splits)
  moreover have "registered ?d c" "queue_ready ?d c rxq_idx" "queue_messages ?d c rxq_idx = queue_messages drv c rxq_idx"
    "client_queue ?d c rxq_idx = client_queue drv c rxq_idx"
    using reg ready(2)
    by (simp_all add: registered_def queue_ready_def client_ok_def queue_messages_def client_queue_def)
  ultimately show ?thesis
    using fence_ctl_signal_message [of ?d c abi g h 0 0 "ucast client_data"] ready g drv'
    by (simp add: fence_key_def)
qed

theorem hw_fence_process_fence_array_data_as_error_witness:
  "\<exists>h drv'. sample_array True = (Inr (h, True), drv') \<and> queue_messages drv' 1 rxq_idx = [(8, 1, h, 0, 0, 77)]"
proof -
  obtain h drv' where r: "sample_array True = (Inr (h, True), drv')" using sample_array_result(1) by blast
  with hw_fence_process_fence_array_data_as_error [OF signalled_child_table sample_array_keys sample_registered(2)
      r [unfolded sample_array_def] signalled_child_queue(4,1)]
  show ?thesis by (simp add: signalled_child_queue [unfolded One_nat_def] hw_dma_fence_def)
qed

theorem hw_fence_register_wait_client_correct_witness:
  "\<exists>hash drv'. hw_fence_register_wait_client sample_abi signalled_child_drv True 1 3 4 77 = Inr ((hash, True), drv') \<and>
     queue_messages drv' 1 rxq_idx = [(3, 4, hash, 0, 77, 0)]"
proof -
  have "\<exists>f. fence_map signalled_child_drv (3, 4) = Some f \<and> signalled f"
    by (simp add: signalled_child_drv_def set_fence_def sample_table_simps signalled_def hw_fence_consts BIT64_def)
  moreover have "\<not> client_data_refused sample_abi signalled_child_drv 1 77"
    using sample_registered(2)
    by (simp add: client_data_refused_def registered_def hw_fence_get_client_data_id_def sample_abi_def)
  ultimately show ?thesis
    using hw_fence_register_wait_client_correct [OF signalled_child_table(1) _ sample_registered(2),
        where ctx = 3 and seqno = 4 and abi = sample_abi and has_fence = True and client_data = 77]
      signalled_child_queue
    by (cases "hw_fence_register_wait_client sample_abi signalled_child_drv True 1 3 4 77") auto
qed

theorem signal_all_wait_clients_delivers_witness:
  "handles_ok sample_drv {..unat (rxq_clients_num sample_drv)} \<and>
   (\<exists>cd. queue_messages (signal_all_wait_clients sample_abi sample_drv
      (clean_fence\<lparr>hf_wait_client_mask := 2\<rparr>) 0 1) 1 rxq_idx = [(0, 0, 0, 0, cd, 1)])"
proof -
  let ?f = "clean_fence\<lparr>hf_wait_client_mask := 2\<rparr>"
  have r: "unat (rxq_clients_num sample_drv) = 1" "clients sample_drv ! 0 = None" "length (clients sample_drv) = 2"
    by (simp_all add: sample_drv_def)
  have "{..1::nat} = {0, 1}" by auto
  with r sample_registered(1) have ok: "handles_ok sample_drv {..unat (rxq_clients_num sample_drv)}"
    by (simp add: handles_ok_def)
  have idx: "rxq_idx = 1" by (simp add: rxq_idx_def hw_fence_consts)
  have "queue_messages sample_drv 1 rxq_idx = []" "ring_capacity (client_queue sample_drv 1 rxq_idx) = 3"
    "update_rxq (client_at sample_drv 1)" "queue_ready sample_drv 1 rxq_idx"
    using sample_queue_ready
    by (simp_all add: idx queue_messages_def client_queue_def sample_drv_client sample_ring sample_client_def)
  moreover have "waits_on ?f 1" by (simp add: waits_on_def BIT64_def)
  moreover have "hf_ctx_id ?f = 0" "hf_seq_id ?f = 0" by (simp_all add: clean_fence_def)
  ultimately show ?thesis
    using ok r(1) sample_registered(1) signal_all_wait_clients_delivers [OF ok, of sample_abi ?f 0 1]
    by (auto simp del: One_nat_def)
qed

end
