(* ===== verification/HW_Fence_Mem.thy ===== *)
theory HW_Fence_Mem
  imports HW_Fence_Queue
begin

text \<open>
  The shared memory of the hardware fence driver: the device tree properties that size it, the
  numbering of clients and the offsets of their queues (\<open>src/hw_fence_drv_utils.c\<close>), and the
  initialisation of queues, locks and table in it (\<open>src/hw_fence_drv_priv.c\<close>). The theorems show
  that the regions do not overlap and stay within the memory that is used, and where the 32-bit
  arithmetic of the layout breaks down.
\<close>

section \<open>Operations\<close>

subsection \<open>Constants\<close>

definition HW_FENCE_MAX_CLIENT_TYPE_STATIC :: nat where
  "HW_FENCE_MAX_CLIENT_TYPE_STATIC = 5"

definition HW_FENCE_MAX_CLIENT_TYPE_CONFIGURABLE :: nat where
  "HW_FENCE_MAX_CLIENT_TYPE_CONFIGURABLE = 8"

definition HW_FENCE_MIN_RXQ_CLIENT_TYPE :: nat where
  "HW_FENCE_MIN_RXQ_CLIENT_TYPE = 3"

definition MAX_CLIENT_QUEUE_MEM_SIZE :: nat where
  "MAX_CLIENT_QUEUE_MEM_SIZE = 0x100000"

definition HW_FENCE_MAX_STATIC_CLIENTS_INDEX :: "hw_fence_abi \<Rightarrow> nat" where
  "HW_FENCE_MAX_STATIC_CLIENTS_INDEX abi = HW_FENCE_CLIENT_ID_IFE abi 0"

definition HW_FENCE_MIN_RXQ_CLIENTS :: "hw_fence_abi \<Rightarrow> nat" where
  "HW_FENCE_MIN_RXQ_CLIENTS abi = HW_FENCE_CLIENT_ID_VAL6 abi"

text \<open>\<open>sizeof(struct msm_hw_fence)\<close>: twenty 64-bit words.\<close>

definition sizeof_msm_hw_fence :: nat where
  "sizeof_msm_hw_fence = 160"

text \<open>Sizes are of type \<open>size_t\<close>, 64 bits wide; sums and products of values below 2 to the 32
  are exact there, so they are natural numbers here.\<close>

definition HW_FENCE_HFI_CLIENT_HEADERS_SIZE :: "hw_fence_abi \<Rightarrow> nat \<Rightarrow> nat" where
  "HW_FENCE_HFI_CLIENT_HEADERS_SIZE abi queues_num =
     unat (HW_FENCE_HFI_TABLE_HEADER_SIZE abi) + unat (HW_FENCE_HFI_QUEUE_HEADER_SIZE abi) * queues_num"

definition HW_FENCE_HFI_CTRL_HEADERS_SIZE :: "hw_fence_abi \<Rightarrow> nat" where
  "HW_FENCE_HFI_CTRL_HEADERS_SIZE abi =
     unat (HW_FENCE_HFI_TABLE_HEADER_SIZE abi) + unat (HW_FENCE_HFI_QUEUE_HEADER_SIZE abi) * HW_FENCE_CTRL_QUEUES"

definition HW_FENCE_MEM_LOCKS_SIZE :: "u32 \<Rightarrow> nat" where
  "HW_FENCE_MEM_LOCKS_SIZE n = 8 * unat n"

definition PAGE_ALIGN :: "nat \<Rightarrow> nat" where
  "PAGE_ALIGN n = (n + 4095) div 4096 * 4096"

lemmas hw_fence_mem_consts =
  HW_FENCE_MAX_CLIENT_TYPE_STATIC_def HW_FENCE_MAX_CLIENT_TYPE_CONFIGURABLE_def
  HW_FENCE_MIN_RXQ_CLIENT_TYPE_def MAX_CLIENT_QUEUE_MEM_SIZE_def
  HW_FENCE_MAX_STATIC_CLIENTS_INDEX_def HW_FENCE_MIN_RXQ_CLIENTS_def sizeof_msm_hw_fence_def
  HW_FENCE_HFI_CLIENT_HEADERS_SIZE_def HW_FENCE_HFI_CTRL_HEADERS_SIZE_def HW_FENCE_MEM_LOCKS_SIZE_def

subsection \<open>Environment\<close>

text \<open>
  The device tree and the allocator, which the driver calls: a property read gives an error or
  the value, and an allocation, named by what it is for, succeeds or not.
\<close>

record hw_fence_env =
  of_property_read_u32 :: "string \<Rightarrow> u32 result"
  of_property_read_u32_array :: "string \<Rightarrow> u32 list option"
  kzalloc_ok :: "string \<Rightarrow> bool"

definition client_type ::
  "string \<Rightarrow> nat \<Rightarrow> u32 \<Rightarrow> u32 \<Rightarrow> u32 \<Rightarrow> bool \<Rightarrow> hw_fence_client_type_desc" where
  "client_type name init_id max_num num queues_num skip =
     \<lparr>ct_name = name, ct_init_id = init_id, ct_max_clients_num = max_num,
      ct_clients_num = num, ct_queues_num = queues_num, ct_queue_entries = 0,
      ct_mem_size = 0, ct_skip_txq_wr_idx = skip\<rparr>"

definition hw_fence_client_types_table :: "hw_fence_abi \<Rightarrow> hw_fence_client_type_desc list" where
  "hw_fence_client_types_table abi =
     [client_type ''gpu'' (HW_FENCE_CLIENT_ID_CTX0 abi) 1 1 2 False,
      client_type ''dpu'' (HW_FENCE_CLIENT_ID_CTL0 abi) 6 6 2 False,
      client_type ''val'' (HW_FENCE_CLIENT_ID_VAL0 abi) 7 7 2 False,
      client_type ''ipe'' (HW_FENCE_CLIENT_ID_IPE abi) 1 0 2 False,
      client_type ''vpu'' (HW_FENCE_CLIENT_ID_VPU abi) 1 0 2 False,
      client_type ''ife0'' (HW_FENCE_CLIENT_ID_IFE abi 0) 32 0 1 True,
      client_type ''ife1'' (HW_FENCE_CLIENT_ID_IFE abi 1) 32 0 1 True,
      client_type ''ife2'' (HW_FENCE_CLIENT_ID_IFE abi 2) 32 0 1 True,
      client_type ''ife3'' (HW_FENCE_CLIENT_ID_IFE abi 3) 32 0 1 True,
      client_type ''ife4'' (HW_FENCE_CLIENT_ID_IFE abi 4) 32 0 1 True,
      client_type ''ife5'' (HW_FENCE_CLIENT_ID_IFE abi 5) 32 0 1 True,
      client_type ''ife6'' (HW_FENCE_CLIENT_ID_IFE abi 6) 32 0 1 True,
      client_type ''ife7'' (HW_FENCE_CLIENT_ID_IFE abi 7) 32 0 1 True]"

subsection \<open>Client numbers\<close>

definition hw_fence_utils_get_client_id_priv ::
  "hw_fence_abi \<Rightarrow> hw_fence_client_type_desc list \<Rightarrow> nat \<Rightarrow> nat" where
  "hw_fence_utils_get_client_id_priv abi types cid =
     (let base = HW_FENCE_MAX_STATIC_CLIENTS_INDEX abi in
      if cid < base then cid
      else
        let ctype = HW_FENCE_MAX_CLIENT_TYPE_STATIC + (cid - base) div MSM_HW_FENCE_MAX_SIGNAL_PER_CLIENT abi;
            offset = (cid - base) mod MSM_HW_FENCE_MAX_SIGNAL_PER_CLIENT abi
        in if unat (ct_clients_num (types ! ctype)) \<le> offset then HW_FENCE_CLIENT_MAX abi
           else base + offset +
             sum_list (map (\<lambda>i. unat (ct_clients_num (types ! i))) [HW_FENCE_MAX_CLIENT_TYPE_STATIC..<ctype]))"

definition hw_fence_utils_skips_txq_wr_idx :: "hw_fence_driver_data \<Rightarrow> nat \<Rightarrow> bool" where
  "hw_fence_utils_skips_txq_wr_idx drv cid =
     (cid < unat (clients_num drv) \<and> qs_skip_txq_wr_idx (hw_fence_client_queue_size drv ! cid))"

subsection \<open>Device tree properties\<close>

definition read_client_type ::
  "hw_fence_env \<Rightarrow> u32 \<Rightarrow> hw_fence_client_type_desc \<Rightarrow> hw_fence_client_type_desc result" where
  "read_client_type env queue_entries desc =
     (case of_property_read_u32_array env (take 30 (''qcom,hw-fence-client-type-'' @ ct_name desc)) of
        None \<Rightarrow> Inr (desc\<lparr>ct_queue_entries := queue_entries\<rparr>)
      | Some tmp \<Rightarrow>
          if 1 < tmp ! 3 then Inl EINVAL
          else Inr (desc\<lparr>ct_clients_num := tmp ! 0, ct_queues_num := tmp ! 1, ct_queue_entries := tmp ! 2,
                 ct_skip_txq_wr_idx := (tmp ! 3 \<noteq> 0)\<rparr>))"

definition parse_client_queue_dt_props_indv ::
  "hw_fence_abi \<Rightarrow> hw_fence_env \<Rightarrow> u32 \<Rightarrow> hw_fence_client_type_desc \<Rightarrow> hw_fence_client_type_desc result" where
  "parse_client_queue_dt_props_indv abi env queue_entries desc =
     (case read_client_type env queue_entries desc of
        Inl e \<Rightarrow> Inl e
      | Inr desc \<Rightarrow>
          if ct_max_clients_num desc < ct_clients_num desc \<or> ct_queues_num desc = 0 \<or>
             of_nat HW_FENCE_CLIENT_QUEUES < ct_queues_num desc \<or> ct_queue_entries desc = 0
          then Inl EINVAL
          else if U32_MAX div HW_FENCE_CLIENT_QUEUE_PAYLOAD \<le> ct_queue_entries desc then Inl EINVAL
          else
            let queue_size = HW_FENCE_CLIENT_QUEUE_PAYLOAD * ct_queue_entries desc;
                queues_num = unat (ct_queues_num desc);
                headers = HW_FENCE_HFI_CLIENT_HEADERS_SIZE abi queues_num
            in if (0xFFFFF000 - headers) div queues_num \<le> unat queue_size then Inl EINVAL
               else
                 let msize = (of_nat (PAGE_ALIGN (headers + unat (queue_size * ct_queues_num desc))) :: u32)
                 in if MAX_CLIENT_QUEUE_MEM_SIZE < unat msize then Inl EINVAL
                    else Inr (desc\<lparr>ct_mem_size := msize\<rparr>))"

text \<open>The first loop: all client types, with the running number of Rx clients and of
  configurable clients.\<close>

fun parse_types ::
  "hw_fence_abi \<Rightarrow> hw_fence_env \<Rightarrow> u32 \<Rightarrow> nat \<Rightarrow> u32 \<Rightarrow> nat \<Rightarrow> hw_fence_client_type_desc list \<Rightarrow>
   (hw_fence_client_type_desc list \<times> u32 \<times> nat) result" where
  "parse_types abi env queue_entries i rxq configurable [] = Inr ([], rxq, configurable)"
| "parse_types abi env queue_entries i rxq configurable (desc # descs) =
     (case parse_client_queue_dt_props_indv abi env queue_entries desc of
        Inl e \<Rightarrow> Inl e
      | Inr desc \<Rightarrow>
          let rxq = (if HW_FENCE_MIN_RXQ_CLIENT_TYPE \<le> i \<and> ct_queues_num desc = of_nat HW_FENCE_CLIENT_QUEUES
                     then rxq + ct_clients_num desc else rxq);
              configurable = (if HW_FENCE_MAX_CLIENT_TYPE_STATIC \<le> i
                              then configurable + unat (ct_clients_num desc) else configurable)
          in (case parse_types abi env queue_entries (Suc i) rxq configurable descs of
                Inl e \<Rightarrow> Inl e
              | Inr (descs', rxq', conf') \<Rightarrow> Inr (desc # descs', rxq', conf')))"

definition place_client ::
  "hw_fence_abi \<Rightarrow> hw_fence_client_type_desc list \<Rightarrow> hw_fence_client_type_desc \<Rightarrow> nat \<Rightarrow>
   hw_fence_client_queue_size_desc list \<times> u32 \<Rightarrow> hw_fence_client_queue_size_desc list \<times> u32" where
  "place_client abi types desc j st =
     (let (sizes, start_offset) = st;
          cid = hw_fence_utils_get_client_id_priv abi types (ct_init_id desc + j)
      in (sizes[cid := \<lparr>qs_queues_num = ct_queues_num desc, qs_queue_entries = ct_queue_entries desc,
            qs_mem_size = ct_mem_size desc, qs_start_offset = start_offset,
            qs_skip_txq_wr_idx = ct_skip_txq_wr_idx desc\<rparr>],
          start_offset + ct_mem_size desc))"

definition place_clients ::
  "hw_fence_abi \<Rightarrow> hw_fence_client_type_desc list \<Rightarrow>
   hw_fence_client_queue_size_desc list \<times> u32 \<Rightarrow> hw_fence_client_queue_size_desc list \<times> u32" where
  "place_clients abi types =
     fold (\<lambda>desc. fold (place_client abi types desc) [0..<unat (ct_clients_num desc)]) types"

definition no_queue_desc :: hw_fence_client_queue_size_desc where
  "no_queue_desc = \<lparr>qs_queues_num = 0, qs_queue_entries = 0, qs_mem_size = 0, qs_start_offset = 0,
     qs_skip_txq_wr_idx = False\<rparr>"

definition parse_client_queue_dt_props ::
  "hw_fence_abi \<Rightarrow> hw_fence_env \<Rightarrow> hw_fence_driver_data \<Rightarrow> hw_fence_driver_data result" where
  "parse_client_queue_dt_props abi env drv =
     (case parse_types abi env (hw_fence_queue_entries drv) 0 (of_nat (HW_FENCE_MIN_RXQ_CLIENTS abi)) 0
             (hw_fence_client_types_table abi) of
        Inl e \<Rightarrow> Inl e
      | Inr (types, rxq, configurable) \<Rightarrow>
          let num = HW_FENCE_MAX_STATIC_CLIENTS_INDEX abi + configurable
          in if \<not> kzalloc_ok env ''client queue sizes'' then Inl ENOMEM
             else
               let start_offset = of_nat (PAGE_ALIGN (unat (hw_fence_mem_ctrl_queues_size drv) +
                     HW_FENCE_MEM_LOCKS_SIZE rxq + unat (hw_fence_mem_fences_table_size drv)));
                   (sizes, used) = place_clients abi types (replicate num no_queue_desc, start_offset)
               in Inr (drv\<lparr>rxq_clients_num := rxq, hw_fence_client_types := types,
                      clients_num := of_nat num, hw_fence_client_queue_size := sizes,
                      used_mem_size := used\<rparr>))"

definition hw_fence_utils_parse_dt_props ::
  "hw_fence_abi \<Rightarrow> hw_fence_env \<Rightarrow> hw_fence_driver_data \<Rightarrow> hw_fence_driver_data result" where
  "hw_fence_utils_parse_dt_props abi env drv =
     (case of_property_read_u32 env ''qcom,hw-fence-table-entries'' of
        Inl e \<Rightarrow> Inl e
      | Inr table_entries \<Rightarrow>
     if table_entries = 0 then Inr drv
     else if U32_MAX div of_nat sizeof_msm_hw_fence \<le> table_entries then Inl EINVAL
     else
       (case of_property_read_u32 env ''qcom,hw-fence-queue-entries'' of
          Inl e \<Rightarrow> Inl e
        | Inr queue_entries \<Rightarrow>
       let drv = drv\<lparr>hw_fence_table_entries := table_entries,
             hw_fence_mem_fences_table_size := of_nat sizeof_msm_hw_fence * table_entries\<rparr>
       in if queue_entries = 0 then Inr drv
       else if U32_MAX div HW_FENCE_CTRL_QUEUE_PAYLOAD \<le> queue_entries then Inl EINVAL
       else
         let ctrl_queue_size = HW_FENCE_CTRL_QUEUE_PAYLOAD * queue_entries
         in if (unat U32_MAX - HW_FENCE_HFI_CTRL_HEADERS_SIZE abi) div HW_FENCE_CTRL_QUEUES \<le> unat ctrl_queue_size
            then Inl EINVAL
            else
              let drv = drv\<lparr>hw_fence_queue_entries := queue_entries,
                    hw_fence_ctrl_queue_size := ctrl_queue_size,
                    hw_fence_mem_ctrl_queues_size := of_nat (HW_FENCE_HFI_CTRL_HEADERS_SIZE abi +
                      HW_FENCE_CTRL_QUEUES * unat ctrl_queue_size)\<rparr>
              in (case parse_client_queue_dt_props abi env drv of
                    Inl _ \<Rightarrow> Inl EINVAL
                  | Inr drv \<Rightarrow>
                      if \<not> kzalloc_ok env ''clients'' then Inl ENOMEM
                      else Inr (drv\<lparr>clients := replicate (unat (clients_num drv)) None\<rparr>))))"

subsection \<open>Reservation of memory\<close>

text \<open>The physical address, the offset from the start of the memory and the size of a region; all
  offsets and sizes are 32 bits wide, and so is their sum in the check against the size of the
  memory.\<close>

definition mem_region :: "hw_fence_driver_data \<Rightarrow> hw_fence_mem_reserve \<Rightarrow> nat \<Rightarrow> (u32 \<times> u32) result" where
  "mem_region drv mtype cid =
     (case mtype of
        HW_FENCE_MEM_RESERVE_CTRL_QUEUE \<Rightarrow> Inr (0, hw_fence_mem_ctrl_queues_size drv)
      | HW_FENCE_MEM_RESERVE_LOCKS_REGION \<Rightarrow>
          Inr (hw_fence_mem_ctrl_queues_size drv, of_nat (HW_FENCE_MEM_LOCKS_SIZE (rxq_clients_num drv)))
      | HW_FENCE_MEM_RESERVE_TABLE \<Rightarrow>
          Inr (hw_fence_mem_ctrl_queues_size drv + of_nat (HW_FENCE_MEM_LOCKS_SIZE (rxq_clients_num drv)),
               hw_fence_mem_fences_table_size drv)
      | HW_FENCE_MEM_RESERVE_CLIENT_QUEUE \<Rightarrow>
          if unat (clients_num drv) \<le> cid then Inl EINVAL
          else Inr (qs_start_offset (hw_fence_client_queue_size drv ! cid),
                    qs_mem_size (hw_fence_client_queue_size drv ! cid)))"

definition hw_fence_utils_reserve_mem ::
  "hw_fence_driver_data \<Rightarrow> hw_fence_mem_reserve \<Rightarrow> nat \<Rightarrow> (u64 \<times> u32 \<times> u32) result" where
  "hw_fence_utils_reserve_mem drv mtype cid =
     (case mem_region drv mtype cid of
        Inl e \<Rightarrow> Inl e
      | Inr (start_offset, sz) \<Rightarrow>
          if mem_size drv < ucast (start_offset + sz) then Inl ENOMEM
          else if mtype = HW_FENCE_MEM_RESERVE_CLIENT_QUEUE \<and> sz = 0 then Inl EINVAL
          else Inr (res_start drv + ucast start_offset, start_offset, sz))"

record msm_hw_fence_mem_addr =
  virtual_addr :: u32
  device_addr :: u64
  md_size :: u32

text \<open>
  The mapped memory at the time of an initialisation: \<open>io_words\<close> gives the 32-bit word at each
  index and \<open>io_header\<close> the queue header at each byte offset. Virtual addresses are byte offsets
  from \<open>io_mem_base\<close>.
\<close>

record hw_fence_io_mem =
  io_words :: words
  io_header :: "nat \<Rightarrow> msm_hw_fence_hfi_queue_header"

record msm_hw_fence_hfi_queue_table_header =
  th_version :: u32
  th_size :: u32
  th_qhdr0_offset :: u32
  th_qhdr_size :: u32
  th_num_q :: u32
  th_num_active_q :: u32

definition null_queue :: msm_hw_fence_queue where
  "null_queue = \<lparr>va_queue = (\<lambda>_. 0), q_size_bytes = 0, va_header = None, pa_queue = 0\<rparr>"

definition init_queue ::
  "hw_fence_abi \<Rightarrow> hw_fence_io_mem \<Rightarrow> u64 \<Rightarrow> u32 \<Rightarrow> u32 \<Rightarrow> u32 \<Rightarrow> u32 \<Rightarrow> nat \<Rightarrow> msm_hw_fence_queue" where
  "init_queue abi io phys ptr headers_size queue_size payload_size i =
     (let start_queue_offset = headers_size + of_nat i * queue_size;
          qphys = phys + ucast start_queue_offset;
          hdr = unat ptr + unat (HW_FENCE_HFI_TABLE_HEADER_SIZE abi) + i * unat (HW_FENCE_HFI_QUEUE_HEADER_SIZE abi)
      in \<lparr>va_queue = (\<lambda>k. io_words io (unat (ptr + start_queue_offset) div 4 + k)),
          q_size_bytes = queue_size,
          va_header = Some ((io_header io hdr)\<lparr>qh_start_addr := conv_start_addr abi qphys,
            qh_type := of_nat (if i = 0 then HW_FENCE_TX_QUEUE else HW_FENCE_RX_QUEUE),
            qh_queue_size := queue_size, qh_pkt_size := payload_size\<rparr>),
          pa_queue = qphys\<rparr>)"

text \<open>The queue array of the caller has \<open>HW_FENCE_CLIENT_QUEUES\<close> entries; those past
  \<open>queues_num\<close> keep their \<open>NULL\<close> pointers.\<close>

definition init_hw_fences_queues ::
  "hw_fence_abi \<Rightarrow> hw_fence_io_mem \<Rightarrow> hw_fence_driver_data \<Rightarrow> hw_fence_mem_reserve \<Rightarrow> nat \<Rightarrow> nat \<Rightarrow>
   (msm_hw_fence_mem_addr \<times> msm_hw_fence_hfi_queue_table_header \<times> msm_hw_fence_queue list) result" where
  "init_hw_fences_queues abi io drv mem_reserve_id queues_num cid =
     (let cfg = (case mem_reserve_id of
            HW_FENCE_MEM_RESERVE_CTRL_QUEUE \<Rightarrow>
              Inr (of_nat (HW_FENCE_HFI_CTRL_HEADERS_SIZE abi), hw_fence_ctrl_queue_size drv, HW_FENCE_CTRL_QUEUE_PAYLOAD)
          | HW_FENCE_MEM_RESERVE_CLIENT_QUEUE \<Rightarrow>
              if unat (clients_num drv) \<le> cid then Inl EINVAL
              else Inr (of_nat (HW_FENCE_HFI_CLIENT_HEADERS_SIZE abi queues_num),
                     HW_FENCE_CLIENT_QUEUE_PAYLOAD * qs_queue_entries (hw_fence_client_queue_size drv ! cid),
                     HW_FENCE_CLIENT_QUEUE_PAYLOAD)
          | _ \<Rightarrow> Inl EINVAL)
      in case cfg of
           Inl e \<Rightarrow> Inl e
         | Inr (headers_size, queue_size, payload_size) \<Rightarrow>
             (case hw_fence_utils_reserve_mem drv mem_reserve_id cid of
                Inl _ \<Rightarrow> Inl ENOMEM
              | Inr (phys, ptr, sz) \<Rightarrow>
                  Inr (\<lparr>virtual_addr = ptr, device_addr = phys, md_size = sz\<rparr>,
                       \<lparr>th_version = 0, th_size = sz, th_qhdr0_offset = HW_FENCE_HFI_TABLE_HEADER_SIZE abi,
                        th_qhdr_size = HW_FENCE_HFI_QUEUE_HEADER_SIZE abi, th_num_q = of_nat queues_num,
                        th_num_active_q = of_nat queues_num\<rparr>,
                       map (\<lambda>i. if i < queues_num
                                then init_queue abi io phys ptr headers_size queue_size payload_size i
                                else null_queue)
                         [0..<HW_FENCE_CLIENT_QUEUES])))"

definition init_ctrl_queue ::
  "hw_fence_abi \<Rightarrow> hw_fence_io_mem \<Rightarrow> hw_fence_driver_data \<Rightarrow> hw_fence_driver_data result" where
  "init_ctrl_queue abi io drv =
     (case init_hw_fences_queues abi io drv HW_FENCE_MEM_RESERVE_CTRL_QUEUE HW_FENCE_CTRL_QUEUES 0 of
        Inl e \<Rightarrow> Inl e
      | Inr (_, _, qs) \<Rightarrow> Inr (drv\<lparr>ctrl_queues := qs\<rparr>))"

definition init_global_locks :: "hw_fence_driver_data \<Rightarrow> hw_fence_driver_data result" where
  "init_global_locks drv =
     (case hw_fence_utils_reserve_mem drv HW_FENCE_MEM_RESERVE_LOCKS_REGION 0 of
        Inl _ \<Rightarrow> Inl ENOMEM
      | Inr (_, _, sz) \<Rightarrow> Inr (drv\<lparr>client_lock_tbl_cnt := sz div 8\<rparr>))"

text \<open>The table is the memory seen as an array of fences; \<open>io_fences\<close> gives the entry at each
  index.\<close>

definition init_hw_fences_table ::
  "(nat \<Rightarrow> msm_hw_fence) \<Rightarrow> hw_fence_driver_data \<Rightarrow> hw_fence_driver_data result" where
  "init_hw_fences_table io_fences drv =
     (case hw_fence_utils_reserve_mem drv HW_FENCE_MEM_RESERVE_TABLE 0 of
        Inl _ \<Rightarrow> Inl ENOMEM
      | Inr (_, _, sz) \<Rightarrow>
          let cnt = unat sz div sizeof_msm_hw_fence
          in Inr (drv\<lparr>hw_fences_tbl := map io_fences [0..<cnt], hw_fences_tbl_cnt := of_nat cnt\<rparr>))"

definition hw_fence_alloc_client_resources ::
  "hw_fence_abi \<Rightarrow> hw_fence_io_mem \<Rightarrow> hw_fence_driver_data \<Rightarrow> msm_hw_fence_client \<Rightarrow>
   (msm_hw_fence_mem_addr \<times> msm_hw_fence_hfi_queue_table_header \<times> msm_hw_fence_client) result" where
  "hw_fence_alloc_client_resources abi io drv cl =
     (case init_hw_fences_queues abi io drv HW_FENCE_MEM_RESERVE_CLIENT_QUEUE
             (unat (qs_queues_num (hw_fence_client_queue_size drv ! client_id cl))) (client_id cl) of
        Inl e \<Rightarrow> Inl e
      | Inr (desc, table, qs) \<Rightarrow> Inr (desc, table, cl\<lparr>queues := qs\<rparr>))"

section \<open>What the driver relies on in the kernel's header\<close>

text \<open>
  The order of the client ids, the distance between the ids of two image front ends, room for
  all sub-clients of one of them, and header structures that are a multiple of four bytes and
  at most a page.
\<close>

definition abi_ok :: "hw_fence_abi \<Rightarrow> bool" where
  "abi_ok abi \<longleftrightarrow>
     (\<forall>i. HW_FENCE_CLIENT_ID_IFE abi i = HW_FENCE_CLIENT_ID_IFE abi 0 + i * MSM_HW_FENCE_MAX_SIGNAL_PER_CLIENT abi) \<and>
     32 \<le> MSM_HW_FENCE_MAX_SIGNAL_PER_CLIENT abi \<and> HW_FENCE_CLIENT_ID_IFE abi 0 < 2 ^ 16 \<and>
     HW_FENCE_CLIENT_MAX abi = HW_FENCE_CLIENT_ID_IFE abi 8 \<and>
     unat (HW_FENCE_HFI_TABLE_HEADER_SIZE abi) \<le> 4096 \<and> unat (HW_FENCE_HFI_QUEUE_HEADER_SIZE abi) \<le> 4096 \<and>
     4 dvd unat (HW_FENCE_HFI_TABLE_HEADER_SIZE abi) \<and> 4 dvd unat (HW_FENCE_HFI_QUEUE_HEADER_SIZE abi)"

lemma abi_okD:
  assumes "abi_ok abi"
  shows "32 \<le> MSM_HW_FENCE_MAX_SIGNAL_PER_CLIENT abi" "HW_FENCE_CLIENT_ID_IFE abi 0 < 2 ^ 16"
    "HW_FENCE_CLIENT_MAX abi = HW_FENCE_CLIENT_ID_IFE abi 0 + 8 * MSM_HW_FENCE_MAX_SIGNAL_PER_CLIENT abi"
    "unat (HW_FENCE_HFI_TABLE_HEADER_SIZE abi) \<le> 4096" "unat (HW_FENCE_HFI_QUEUE_HEADER_SIZE abi) \<le> 4096"
    "4 dvd unat (HW_FENCE_HFI_TABLE_HEADER_SIZE abi)" "4 dvd unat (HW_FENCE_HFI_QUEUE_HEADER_SIZE abi)"
proof -
  note ok = assms [unfolded abi_ok_def]
  have "HW_FENCE_CLIENT_MAX abi = HW_FENCE_CLIENT_ID_IFE abi 8" using ok by (elim conjE)
  also have "\<dots> = HW_FENCE_CLIENT_ID_IFE abi 0 + 8 * MSM_HW_FENCE_MAX_SIGNAL_PER_CLIENT abi"
    using conjunct1 [OF ok] by (rule spec)
  finally show "HW_FENCE_CLIENT_MAX abi =
    HW_FENCE_CLIENT_ID_IFE abi 0 + 8 * MSM_HW_FENCE_MAX_SIGNAL_PER_CLIENT abi" .
qed (use assms [unfolded abi_ok_def] in blast)+

section \<open>Client numbers\<close>

text \<open>\<open>type_sum types t\<close>: the number of sub-clients of the first \<open>t\<close> configurable types.\<close>

definition type_sum :: "hw_fence_client_type_desc list \<Rightarrow> nat \<Rightarrow> nat" where
  "type_sum types t = sum_list (map (\<lambda>i. unat (ct_clients_num (types ! i)))
     [HW_FENCE_MAX_CLIENT_TYPE_STATIC..<HW_FENCE_MAX_CLIENT_TYPE_STATIC + t])"

lemma type_sum_Suc:
  "type_sum types (Suc t) = type_sum types t + unat (ct_clients_num (types ! (HW_FENCE_MAX_CLIENT_TYPE_STATIC + t)))"
  by (simp add: type_sum_def)

lemma type_sum_mono: "t \<le> t' \<Longrightarrow> type_sum types t \<le> type_sum types t'"
  by (induction t' rule: dec_induct) (simp_all add: type_sum_Suc)

text \<open>The private id of a configurable client, in terms of its type and its offset in the type.\<close>

lemma get_client_id_priv_configurable:
  assumes "HW_FENCE_CLIENT_ID_IFE abi 0 \<le> cid"
    and "t = (cid - HW_FENCE_CLIENT_ID_IFE abi 0) div MSM_HW_FENCE_MAX_SIGNAL_PER_CLIENT abi"
    and "off = (cid - HW_FENCE_CLIENT_ID_IFE abi 0) mod MSM_HW_FENCE_MAX_SIGNAL_PER_CLIENT abi"
  shows "hw_fence_utils_get_client_id_priv abi types cid =
    (if off < unat (ct_clients_num (types ! (HW_FENCE_MAX_CLIENT_TYPE_STATIC + t)))
     then HW_FENCE_CLIENT_ID_IFE abi 0 + (type_sum types t + off) else HW_FENCE_CLIENT_MAX abi)"
  using assms
  by (simp add: hw_fence_utils_get_client_id_priv_def Let_def HW_FENCE_MAX_STATIC_CLIENTS_INDEX_def type_sum_def)

text \<open>Every external id that is accepted is either static, and kept, or a sub-client of one of the
  eight configurable types.\<close>

lemma get_client_id_priv_static:
  "cid < HW_FENCE_CLIENT_ID_IFE abi 0 \<Longrightarrow> hw_fence_utils_get_client_id_priv abi types cid = cid"
  by (simp add: hw_fence_utils_get_client_id_priv_def HW_FENCE_MAX_STATIC_CLIENTS_INDEX_def)

lemma get_client_id_priv_conf:
  assumes abi: "abi_ok abi" and c: "HW_FENCE_CLIENT_ID_IFE abi 0 \<le> cid" "cid < HW_FENCE_CLIENT_MAX abi"
    and valid: "hw_fence_utils_get_client_id_priv abi types cid \<noteq> HW_FENCE_CLIENT_MAX abi"
  obtains t off where "t < 8"
    "cid - HW_FENCE_CLIENT_ID_IFE abi 0 = t * MSM_HW_FENCE_MAX_SIGNAL_PER_CLIENT abi + off"
    "hw_fence_utils_get_client_id_priv abi types cid = HW_FENCE_CLIENT_ID_IFE abi 0 + (type_sum types t + off)"
    "type_sum types t + off < type_sum types (Suc t)"
proof -
  let ?b = "HW_FENCE_CLIENT_ID_IFE abi 0" and ?m = "MSM_HW_FENCE_MAX_SIGNAL_PER_CLIENT abi"
  let ?t = "(cid - ?b) div ?m" and ?o = "(cid - ?b) mod ?m"
  show thesis
  proof (rule that [of ?t ?o])
    show "?t < 8" using c abi_okD [OF abi] by (simp add: less_mult_imp_div_less)
    show "cid - ?b = ?t * ?m + ?o" by simp
    show "hw_fence_utils_get_client_id_priv abi types cid = ?b + (type_sum types ?t + ?o)"
      "type_sum types ?t + ?o < type_sum types (Suc ?t)"
      using get_client_id_priv_configurable [OF c(1) refl refl, of types] valid
      by (simp_all add: type_sum_Suc split: if_splits)
  qed
qed

lemma get_client_id_priv_less:
  assumes abi: "abi_ok abi" and cid: "cid < HW_FENCE_CLIENT_MAX abi"
    and valid: "hw_fence_utils_get_client_id_priv abi types cid \<noteq> HW_FENCE_CLIENT_MAX abi"
  shows "hw_fence_utils_get_client_id_priv abi types cid < HW_FENCE_CLIENT_ID_IFE abi 0 + type_sum types 8"
proof (cases "cid < HW_FENCE_CLIENT_ID_IFE abi 0")
  case True
  then show ?thesis by (simp add: get_client_id_priv_static)
next
  case False
  then have "HW_FENCE_CLIENT_ID_IFE abi 0 \<le> cid" by simp
  from get_client_id_priv_conf [OF abi this cid valid] obtain t off where "t < 8"
    "hw_fence_utils_get_client_id_priv abi types cid = HW_FENCE_CLIENT_ID_IFE abi 0 + (type_sum types t + off)"
    "type_sum types t + off < type_sum types (Suc t)" by blast
  with type_sum_mono [of "Suc t" 8 types] show ?thesis by simp
qed

text \<open>C20. Private client ids number the configured clients without gaps or clashes: an external id
  that the mapping accepts gets a private id below the number of static clients plus the number
  of configured sub-clients, and two different external ids that it accepts never get the same
  private id.\<close>

theorem hw_fence_utils_get_client_id_priv_injective:
  assumes abi: "abi_ok abi"
    and cid: "cid < HW_FENCE_CLIENT_MAX abi" "cid' < HW_FENCE_CLIENT_MAX abi"
    and valid: "hw_fence_utils_get_client_id_priv abi types cid \<noteq> HW_FENCE_CLIENT_MAX abi"
      "hw_fence_utils_get_client_id_priv abi types cid' \<noteq> HW_FENCE_CLIENT_MAX abi"
  shows "hw_fence_utils_get_client_id_priv abi types cid < HW_FENCE_CLIENT_ID_IFE abi 0 + type_sum types 8 \<and>
    (hw_fence_utils_get_client_id_priv abi types cid = hw_fence_utils_get_client_id_priv abi types cid' \<longrightarrow>
       cid = cid')"
proof -
  let ?b = "HW_FENCE_CLIENT_ID_IFE abi 0" and ?m = "MSM_HW_FENCE_MAX_SIGNAL_PER_CLIENT abi"
  let ?p = "hw_fence_utils_get_client_id_priv abi types"
  have "cid = cid'" if eq: "?p cid = ?p cid'"
  proof (cases "?b \<le> cid \<and> ?b \<le> cid'")
    case False
    have "?b \<le> ?p c" if "?b \<le> c" "c < HW_FENCE_CLIENT_MAX abi" "?p c \<noteq> HW_FENCE_CLIENT_MAX abi" for c
      using get_client_id_priv_conf [OF abi that] by (metis le_add1)
    with False eq get_client_id_priv_static cid valid show ?thesis by (metis not_le)
  next
    case True
    from True get_client_id_priv_conf [OF abi _ cid(1) valid(1)] obtain t off where
      t: "cid - ?b = t * ?m + off" "?p cid = ?b + (type_sum types t + off)" "type_sum types t + off < type_sum types (Suc t)"
      by metis
    from True get_client_id_priv_conf [OF abi _ cid(2) valid(2)] obtain t' off' where
      t': "cid' - ?b = t' * ?m + off'" "?p cid' = ?b + (type_sum types t' + off')"
        "type_sum types t' + off' < type_sum types (Suc t')"
      by metis
    have "t = t'"
    proof (rule linorder_cases [of t t'])
      assume "t < t'"
      then show ?thesis using t t' eq type_sum_mono [of "Suc t" t' types] by simp
    next
      assume "t' < t"
      then show ?thesis using t t' eq type_sum_mono [of "Suc t'" t types] by simp
    qed
    with t t' eq have "cid - ?b = cid' - ?b" by simp
    with True show ?thesis by (simp add: eq_diff_iff)
  qed
  with get_client_id_priv_less [OF abi cid(1) valid(1)] show ?thesis by blast
qed

section \<open>Client types\<close>

lemma PAGE_ALIGN_props: "n \<le> PAGE_ALIGN n" "PAGE_ALIGN n < n + 4096" "4096 dvd PAGE_ALIGN n"
proof -
  have "(n + 4095) div 4096 * 4096 + (n + 4095) mod 4096 = n + 4095" by (rule div_mult_mod_eq)
  moreover have "(n + 4095) mod 4096 < 4096" by simp
  ultimately show "n \<le> PAGE_ALIGN n" "PAGE_ALIGN n < n + 4096" unfolding PAGE_ALIGN_def by linarith+
  show "4096 dvd PAGE_ALIGN n" by (simp add: PAGE_ALIGN_def)
qed

text \<open>
  A client type that was accepted: its queues and their headers fit into the memory of one
  client, which is a whole number of pages and at most a megabyte.
\<close>

definition type_ok :: "hw_fence_abi \<Rightarrow> hw_fence_client_type_desc \<Rightarrow> bool" where
  "type_ok abi d \<longleftrightarrow> ct_clients_num d \<le> ct_max_clients_num d \<and>
     unat (ct_queues_num d) \<in> {1, 2} \<and> 0 < unat (ct_queue_entries d) \<and>
     HW_FENCE_HFI_CLIENT_HEADERS_SIZE abi (unat (ct_queues_num d)) +
       64 * unat (ct_queue_entries d) * unat (ct_queues_num d) \<le> unat (ct_mem_size d) \<and>
     4096 dvd unat (ct_mem_size d) \<and> unat (ct_mem_size d) \<le> MAX_CLIENT_QUEUE_MEM_SIZE"

definition same_type :: "hw_fence_client_type_desc \<Rightarrow> hw_fence_client_type_desc \<Rightarrow> bool" where
  "same_type d d' \<longleftrightarrow> ct_name d = ct_name d' \<and> ct_init_id d = ct_init_id d' \<and>
     ct_max_clients_num d = ct_max_clients_num d'"

lemma read_client_type_same: "read_client_type env qe d = Inr d' \<Longrightarrow> same_type d' d"
  by (auto simp: read_client_type_def same_type_def split: option.splits if_splits)

lemma queue_size_fits:
  fixes entries q :: u32
  assumes "entries < U32_MAX div 64" and q: "unat q \<in> {1, 2}"
    and room: "unat (64 * entries) < (0xFFFFF000 - h) div unat q"
  shows "unat (64 * entries) = 64 * unat entries"
    "h + unat (64 * entries * q) = h + 64 * unat entries * unat q"
    "unat (of_nat (PAGE_ALIGN (h + unat (64 * entries * q))) :: u32) = PAGE_ALIGN (h + 64 * unat entries * unat q)"
proof -
  have "unat entries < unat (U32_MAX div 64)" using assms(1) by (simp add: word_less_nat_alt)
  then have e: "unat entries < 67108863" by (simp add: U32_MAX_def unat_div)
  then show s: "unat (64 * entries) = 64 * unat entries"
    by (simp add: unat_word_ariths)
  have "Suc (unat (64 * entries)) \<le> (0xFFFFF000 - h) div unat q" using room by simp
  then have "Suc (unat (64 * entries)) * unat q \<le> 0xFFFFF000 - h"
    using q by (metis le_trans div_times_less_eq_dividend mult_le_mono1)
  then have b: "64 * unat entries * unat q + h < 0xFFFFF000" using q s by auto
  then have p: "unat (64 * entries * q) = 64 * unat entries * unat q"
    using s by (simp add: unat_word_ariths(2) [of "64 * entries"])
  then show "h + unat (64 * entries * q) = h + 64 * unat entries * unat q" by simp
  have "PAGE_ALIGN (h + 64 * unat entries * unat q) < 2 ^ 32"
    using b PAGE_ALIGN_props(2) [of "h + 64 * unat entries * unat q"] by simp
  then show "unat (of_nat (PAGE_ALIGN (h + unat (64 * entries * q))) :: u32) =
      PAGE_ALIGN (h + 64 * unat entries * unat q)"
    unfolding p by (rule unat_of_nat_u32)
qed

lemma parse_indv_ok:
  assumes "parse_client_queue_dt_props_indv abi env qe desc = Inr d"
  shows "type_ok abi d \<and> same_type d desc"
proof -
  from assms obtain d0 where d0: "read_client_type env qe desc = Inr d0"
    by (auto simp: parse_client_queue_dt_props_indv_def split: sum.splits)
  let ?h = "HW_FENCE_HFI_CLIENT_HEADERS_SIZE abi (unat (ct_queues_num d0))"
  let ?m = "of_nat (PAGE_ALIGN (?h + unat (64 * ct_queue_entries d0 * ct_queues_num d0))) :: u32"
  from assms d0 have c: "ct_clients_num d0 \<le> ct_max_clients_num d0" "ct_queues_num d0 \<noteq> 0"
    "ct_queues_num d0 \<le> 2" "ct_queue_entries d0 \<noteq> 0" "ct_queue_entries d0 < U32_MAX div 64"
    "unat (64 * ct_queue_entries d0) < (0xFFFFF000 - ?h) div unat (ct_queues_num d0)"
    "unat ?m \<le> MAX_CLIENT_QUEUE_MEM_SIZE" "d = d0\<lparr>ct_mem_size := ?m\<rparr>"
    by (auto simp: parse_client_queue_dt_props_indv_def Let_def hw_fence_consts not_less not_le split: if_splits)
  have "unat (ct_queues_num d0) \<le> 2" using c(3) by (simp add: word_le_nat_alt)
  then have q: "unat (ct_queues_num d0) \<in> {1, 2}" using c(2) by (auto simp: le_Suc_eq numeral_2_eq_2 unat_eq_0)
  note fits = queue_size_fits [OF c(5) q c(6)]
  have "?h + 64 * unat (ct_queue_entries d0) * unat (ct_queues_num d0) \<le> unat ?m" "4096 dvd unat ?m"
    unfolding fits(3) by (rule PAGE_ALIGN_props)+
  with c q show ?thesis
    using read_client_type_same [OF d0] by (auto simp: type_ok_def same_type_def unat_gt_0)
qed

lemma parse_types_ok:
  assumes "parse_types abi env qe i rxq conf descs = Inr (types, rxq', conf')"
  shows "list_all2 (\<lambda>d d0. type_ok abi d \<and> same_type d d0) types descs"
    and "conf' = conf + sum_list (map (\<lambda>j. if HW_FENCE_MAX_CLIENT_TYPE_STATIC \<le> i + j
      then unat (ct_clients_num (types ! j)) else 0) [0..<length types])"
  using assms
proof (induction descs arbitrary: i rxq conf types rxq' conf')
  case Nil
  { case 1 with Nil show ?case by simp }
  { case 2 with Nil show ?case by simp }
next
  case (Cons desc descs)
  have step: "\<exists>d ts rxq1 conf1. types = d # ts \<and> type_ok abi d \<and> same_type d desc \<and>
      parse_types abi env qe (Suc i) rxq1 conf1 descs = Inr (ts, rxq', conf') \<and>
      conf1 = conf + (if HW_FENCE_MAX_CLIENT_TYPE_STATIC \<le> i then unat (ct_clients_num d) else 0)"
    if "parse_types abi env qe i rxq conf (desc # descs) = Inr (types, rxq', conf')"
    for i rxq conf types rxq' conf'
  proof -
    from that obtain d where d: "parse_client_queue_dt_props_indv abi env qe desc = Inr d"
      by (auto split: sum.splits)
    let ?conf = "conf + (if HW_FENCE_MAX_CLIENT_TYPE_STATIC \<le> i then unat (ct_clients_num d) else 0)"
    let ?rxq = "if HW_FENCE_MIN_RXQ_CLIENT_TYPE \<le> i \<and> ct_queues_num d = of_nat HW_FENCE_CLIENT_QUEUES
      then rxq + ct_clients_num d else rxq"
    have "\<exists>ts. parse_types abi env qe (Suc i) ?rxq ?conf descs = Inr (ts, rxq', conf') \<and> types = d # ts"
      using that d by (cases "HW_FENCE_MAX_CLIENT_TYPE_STATIC \<le> i") (auto simp: Let_def split: sum.splits)
    with parse_indv_ok [OF d] show ?thesis by blast
  qed
  { case 1
    from step [OF this] show ?case by (auto dest: Cons.IH(1)) }
  { case 2
    from step [OF this] obtain d ts rxq1 conf1 where d: "types = d # ts"
      "parse_types abi env qe (Suc i) rxq1 conf1 descs = Inr (ts, rxq', conf')"
      "conf1 = conf + (if HW_FENCE_MAX_CLIENT_TYPE_STATIC \<le> i then unat (ct_clients_num d) else 0)"
      by blast
    have "[0..<length types] = 0 # map Suc [0..<length ts]"
      using d(1) by (simp add: upt_conv_Cons map_Suc_upt del: upt_Suc)
    then show ?case
      using Cons.IH(2) [OF d(2)] unfolding d(1,3) by (simp only: list.map map_map comp_def sum_list.Cons nth_Cons_0
        nth_Cons_Suc add_0_right add_Suc_right add_Suc add.assoc) }
qed

section \<open>Placement of the client queues\<close>

text \<open>
  \<open>placed abi lo hi sizes\<close>: the regions of all clients that have one lie between \<open>lo\<close> and
  \<open>hi\<close>, start at a page boundary, hold the queues they are for and do not overlap.
\<close>

definition region_ok :: "hw_fence_abi \<Rightarrow> nat \<Rightarrow> nat \<Rightarrow> hw_fence_client_queue_size_desc \<Rightarrow> bool" where
  "region_ok abi lo hi s \<longleftrightarrow> lo \<le> unat (qs_start_offset s) \<and>
     unat (qs_start_offset s) + unat (qs_mem_size s) \<le> hi \<and> 4096 dvd unat (qs_start_offset s) \<and>
     unat (qs_queues_num s) \<in> {1, 2} \<and> 0 < unat (qs_queue_entries s) \<and>
     HW_FENCE_HFI_CLIENT_HEADERS_SIZE abi (unat (qs_queues_num s)) +
       64 * unat (qs_queue_entries s) * unat (qs_queues_num s) \<le> unat (qs_mem_size s) \<and>
     unat (qs_mem_size s) \<le> MAX_CLIENT_QUEUE_MEM_SIZE"

definition disjoint_regions :: "hw_fence_client_queue_size_desc \<Rightarrow> hw_fence_client_queue_size_desc \<Rightarrow> bool" where
  "disjoint_regions s t \<longleftrightarrow>
     unat (qs_start_offset s) + unat (qs_mem_size s) \<le> unat (qs_start_offset t) \<or>
     unat (qs_start_offset t) + unat (qs_mem_size t) \<le> unat (qs_start_offset s)"

definition placed :: "hw_fence_abi \<Rightarrow> nat \<Rightarrow> nat \<Rightarrow> hw_fence_client_queue_size_desc list \<Rightarrow> bool" where
  "placed abi lo hi sizes \<longleftrightarrow>
     (\<forall>c<length sizes. qs_mem_size (sizes ! c) \<noteq> 0 \<longrightarrow> region_ok abi lo hi (sizes ! c) \<and>
        (\<forall>c'<length sizes. c' \<noteq> c \<and> qs_mem_size (sizes ! c') \<noteq> 0 \<longrightarrow>
           disjoint_regions (sizes ! c) (sizes ! c')))"

lemma region_ok_mono: "region_ok abi lo hi s \<Longrightarrow> hi \<le> hi' \<Longrightarrow> region_ok abi lo hi' s"
  by (auto simp: region_ok_def)

lemma placed_update:
  assumes "placed abi lo hi sizes" "region_ok abi hi hi' s" "lo \<le> hi" "hi \<le> hi'"
  shows "placed abi lo hi' (sizes[cid := s])"
proof -
  have new: "region_ok abi lo hi' s" using assms(2,3) by (auto simp: region_ok_def)
  have old: "region_ok abi lo hi' (sizes ! c) \<and> disjoint_regions (sizes ! c) s \<and> disjoint_regions s (sizes ! c)"
    if "c < length sizes" "qs_mem_size (sizes ! c) \<noteq> 0" for c
  proof -
    have "region_ok abi lo hi (sizes ! c)" using assms(1) that by (auto simp: placed_def)
    then show ?thesis
      using assms(2,4) region_ok_mono [of abi lo hi "sizes ! c" hi'] by (auto simp: region_ok_def disjoint_regions_def)
  qed
  show ?thesis
    unfolding placed_def
  proof (intro allI impI conjI)
    fix c
    assume c: "c < length (sizes[cid := s])" "qs_mem_size (sizes[cid := s] ! c) \<noteq> 0"
    then show "region_ok abi lo hi' (sizes[cid := s] ! c)"
      using new old by (cases "c = cid") auto
    fix c'
    assume "c' < length (sizes[cid := s])" "c' \<noteq> c \<and> qs_mem_size (sizes[cid := s] ! c') \<noteq> 0"
    with c show "disjoint_regions (sizes[cid := s] ! c) (sizes[cid := s] ! c')"
      using old assms(1) by (cases "c = cid"; cases "c' = cid") (auto simp: placed_def)
  qed
qed

definition layout_inv ::
  "hw_fence_abi \<Rightarrow> nat \<Rightarrow> nat \<Rightarrow> nat \<Rightarrow> hw_fence_client_queue_size_desc list \<times> u32 \<Rightarrow> bool" where
  "layout_inv abi lo len hi st \<longleftrightarrow> placed abi lo hi (fst st) \<and> unat (snd st) = hi \<and> lo \<le> hi \<and> 4096 dvd hi \<and>
     length (fst st) = len"

lemma place_client_inv:
  assumes inv: "layout_inv abi lo len hi st" and d: "type_ok abi d" and room: "hi + unat (ct_mem_size d) < 2 ^ 32"
  shows "layout_inv abi lo len (hi + unat (ct_mem_size d)) (place_client abi types d j st)"
proof -
  obtain sizes off where st: "st = (sizes, off)" by (cases st)
  have off: "unat (off + ct_mem_size d) = hi + unat (ct_mem_size d)"
    using inv room by (simp add: st layout_inv_def unat_word_ariths)
  let ?s = "\<lparr>qs_queues_num = ct_queues_num d, qs_queue_entries = ct_queue_entries d,
    qs_mem_size = ct_mem_size d, qs_start_offset = off, qs_skip_txq_wr_idx = ct_skip_txq_wr_idx d\<rparr>"
  have "region_ok abi hi (hi + unat (ct_mem_size d)) ?s"
    using inv d by (auto simp: st layout_inv_def region_ok_def type_ok_def)
  with inv have "placed abi lo (hi + unat (ct_mem_size d)) (sizes[cid := ?s])" for cid
    by (intro placed_update [of _ _ hi]) (auto simp: st layout_inv_def)
  with inv d off show ?thesis
    by (auto simp: st layout_inv_def place_client_def Let_def type_ok_def)
qed

lemma place_type_inv:
  assumes "layout_inv abi lo len hi st" "type_ok abi d" "hi + length js * unat (ct_mem_size d) < 2 ^ 32"
  shows "layout_inv abi lo len (hi + length js * unat (ct_mem_size d)) (fold (place_client abi types d) js st)"
  using assms
proof (induction js arbitrary: hi st)
  case Nil
  then show ?case by simp
next
  case (Cons j js)
  then have "layout_inv abi lo len (hi + unat (ct_mem_size d)) (place_client abi types d j st)"
    by (intro place_client_inv) simp_all
  from Cons.IH [OF this Cons.prems(2)] Cons.prems(3) show ?case by (simp add: add.assoc)
qed

lemma place_clients_inv:
  assumes "layout_inv abi lo len hi st" "\<forall>d\<in>set ds. type_ok abi d"
    "hi + sum_list (map (\<lambda>d. unat (ct_clients_num d) * unat (ct_mem_size d)) ds) < 2 ^ 32"
  shows "layout_inv abi lo len (hi + sum_list (map (\<lambda>d. unat (ct_clients_num d) * unat (ct_mem_size d)) ds))
    (fold (\<lambda>d. fold (place_client abi types d) [0..<unat (ct_clients_num d)]) ds st)"
  using assms
proof (induction ds arbitrary: hi st)
  case Nil
  then show ?case by simp
next
  case (Cons d ds)
  let ?n = "unat (ct_clients_num d) * unat (ct_mem_size d)"
  have "layout_inv abi lo len (hi + ?n) (fold (place_client abi types d) [0..<unat (ct_clients_num d)] st)"
    using place_type_inv [OF Cons.prems(1), of d "[0..<unat (ct_clients_num d)]" types] Cons.prems(2,3) by simp
  from Cons.IH [OF this] Cons.prems(2,3) show ?case by (simp add: add.assoc)
qed

lemma types_total:
  assumes "list_all2 (\<lambda>d d0. type_ok abi d \<and> same_type d d0) types descs"
  shows "sum_list (map (\<lambda>d. unat (ct_clients_num d) * unat (ct_mem_size d)) types)
    \<le> sum_list (map (\<lambda>d. unat (ct_max_clients_num d)) descs) * MAX_CLIENT_QUEUE_MEM_SIZE"
  using assms
proof (induction rule: list_all2_induct)
  case (Cons d ds d0 ds0)
  have "unat (ct_clients_num d) * unat (ct_mem_size d) \<le> unat (ct_max_clients_num d0) * MAX_CLIENT_QUEUE_MEM_SIZE"
    using Cons.hyps(1) by (auto simp: type_ok_def same_type_def word_le_nat_alt intro!: mult_le_mono)
  with Cons.IH show ?case by (simp add: distrib_right)
qed simp

lemma max_clients_total:
  "sum_list (map (\<lambda>d. unat (ct_max_clients_num d)) (hw_fence_client_types_table abi)) = 272"
  by (simp add: hw_fence_client_types_table_def client_type_def)

text \<open>\<open>fixed_size drv\<close>: what the control queues, the locks and the fence table take.\<close>

definition fixed_size :: "hw_fence_driver_data \<Rightarrow> nat" where
  "fixed_size drv = unat (hw_fence_mem_ctrl_queues_size drv) + HW_FENCE_MEM_LOCKS_SIZE (rxq_clients_num drv) +
     unat (hw_fence_mem_fences_table_size drv)"

lemma parse_client_queue_dt_propsE:
  assumes "parse_client_queue_dt_props abi env drv = Inr drv'"
  obtains types rxq conf sizes used where
    "parse_types abi env (hw_fence_queue_entries drv) 0 (of_nat (HW_FENCE_MIN_RXQ_CLIENTS abi)) 0
       (hw_fence_client_types_table abi) = Inr (types, rxq, conf)"
    "place_clients abi types (replicate (HW_FENCE_MAX_STATIC_CLIENTS_INDEX abi + conf) no_queue_desc,
       of_nat (PAGE_ALIGN (fixed_size drv'))) = (sizes, used)"
    "drv' = drv\<lparr>rxq_clients_num := rxq, hw_fence_client_types := types,
       clients_num := of_nat (HW_FENCE_MAX_STATIC_CLIENTS_INDEX abi + conf),
       hw_fence_client_queue_size := sizes, used_mem_size := used\<rparr>"
  using assms unfolding parse_client_queue_dt_props_def
  by (auto simp: Let_def fixed_size_def split: sum.splits if_splits prod.splits)

text \<open>C23. The layout of the shared memory. Where the device tree properties are accepted and the
  control queues, the locks and the fence table leave room for all clients below the 32-bit
  limit, the region of every client lies above them and below \<open>used_mem_size\<close>, starts at a page
  boundary, holds the headers and the entries of its queues, and overlaps no other client's;
  \<open>used_mem_size\<close> is exactly the page-aligned sum of all regions.\<close>

theorem parse_client_queue_dt_props_layout:
  assumes parsed: "parse_client_queue_dt_props abi env drv = Inr drv'"
    and room: "fixed_size drv' + 4096 + 272 * MAX_CLIENT_QUEUE_MEM_SIZE \<le> 2 ^ 32"
  shows "placed abi (fixed_size drv') (unat (used_mem_size drv')) (hw_fence_client_queue_size drv') \<and>
    length (hw_fence_client_queue_size drv') =
      HW_FENCE_MAX_STATIC_CLIENTS_INDEX abi + type_sum (hw_fence_client_types drv') 8 \<and>
    unat (used_mem_size drv') = PAGE_ALIGN (fixed_size drv') +
      sum_list (map (\<lambda>d. unat (ct_clients_num d) * unat (ct_mem_size d)) (hw_fence_client_types drv'))"
proof -
  let ?lo = "fixed_size drv'" and ?hi = "PAGE_ALIGN (fixed_size drv')"
  let ?used = "\<lambda>ds. sum_list (map (\<lambda>d. unat (ct_clients_num d) * unat (ct_mem_size d)) ds)"
  from parsed obtain types rxq conf sizes used where
    types: "parse_types abi env (hw_fence_queue_entries drv) 0 (of_nat (HW_FENCE_MIN_RXQ_CLIENTS abi)) 0
       (hw_fence_client_types_table abi) = Inr (types, rxq, conf)"
    and place: "place_clients abi types (replicate (HW_FENCE_MAX_STATIC_CLIENTS_INDEX abi + conf) no_queue_desc,
       of_nat ?hi) = (sizes, used)"
    and drv': "drv' = drv\<lparr>rxq_clients_num := rxq, hw_fence_client_types := types,
       clients_num := of_nat (HW_FENCE_MAX_STATIC_CLIENTS_INDEX abi + conf),
       hw_fence_client_queue_size := sizes, used_mem_size := used\<rparr>"
    by (rule parse_client_queue_dt_propsE)
  note all = parse_types_ok(1) [OF types]
  have used: "?used types \<le> 272 * MAX_CLIENT_QUEUE_MEM_SIZE"
    using types_total [OF all] unfolding max_clients_total .
  have ok: "\<forall>d\<in>set types. type_ok abi d"
    using all by (auto simp: list_all2_conv_all_nth in_set_conv_nth)
  have hi: "?lo \<le> ?hi" "?hi + ?used types < 2 ^ 32"
    using PAGE_ALIGN_props(1,2) [of ?lo] used room by simp_all
  have len: "length types = 13"
    using list_all2_lengthD [OF all] by (simp add: hw_fence_client_types_table_def)
  have "conf = type_sum types 8"
    using parse_types_ok(2) [OF types]
    by (simp add: len type_sum_def HW_FENCE_MAX_CLIENT_TYPE_STATIC_def upt_rec [of 5] upt_rec [of 0]
      numeral_eq_Suc)
  moreover have "layout_inv abi ?lo (HW_FENCE_MAX_STATIC_CLIENTS_INDEX abi + conf) ?hi
      (replicate (HW_FENCE_MAX_STATIC_CLIENTS_INDEX abi + conf) no_queue_desc, of_nat ?hi)"
    using hi PAGE_ALIGN_props(3)
    by (auto simp: layout_inv_def placed_def no_queue_desc_def unat_of_nat_u32)
  from place_clients_inv [OF this, of types types] have
    "layout_inv abi ?lo (HW_FENCE_MAX_STATIC_CLIENTS_INDEX abi + conf) (?hi + ?used types) (sizes, used)"
    using ok hi(2) place by (simp add: place_clients_def)
  ultimately show ?thesis by (simp add: drv' layout_inv_def)
qed

section \<open>Initialisation of the client queues\<close>

text \<open>The byte offset of queue \<open>i\<close> of a client from the start of the memory.\<close>

definition queue_offset :: "hw_fence_abi \<Rightarrow> hw_fence_client_queue_size_desc \<Rightarrow> nat \<Rightarrow> nat" where
  "queue_offset abi s i = unat (qs_start_offset s) + HW_FENCE_HFI_CLIENT_HEADERS_SIZE abi (unat (qs_queues_num s)) +
     i * (64 * unat (qs_queue_entries s))"

lemma init_queue_region:
  assumes s: "region_ok abi lo hi s" and hi: "hi < 2 ^ 32" and i: "i < unat (qs_queues_num s)"
    and q_def: "q = init_queue abi io phys (qs_start_offset s)
    (of_nat (HW_FENCE_HFI_CLIENT_HEADERS_SIZE abi (unat (qs_queues_num s)))) (64 * qs_queue_entries s) ps i"
  shows "unat (q_size_bytes q) = 64 * unat (qs_queue_entries s)"
    and "va_queue q = (\<lambda>k. io_words io (queue_offset abi s i div 4 + k))"
    and "queue_offset abi s i + unat (q_size_bytes q) \<le> unat (qs_start_offset s) + unat (qs_mem_size s)"
proof -
  let ?h = "HW_FENCE_HFI_CLIENT_HEADERS_SIZE abi (unat (qs_queues_num s))" and ?e = "unat (qs_queue_entries s)"
  have fits: "unat (qs_start_offset s) + (?h + 64 * ?e * unat (qs_queues_num s)) < 2 ^ 32"
    "?h + 64 * ?e * unat (qs_queues_num s) \<le> unat (qs_mem_size s)"
    and n: "unat (qs_queues_num s) \<in> {1, 2}"
    using s hi by (auto simp: region_ok_def)
  then have q: "unat (64 * qs_queue_entries s :: u32) = 64 * ?e" by (auto simp: unat_word_ariths)
  then show "unat (q_size_bytes q) = 64 * ?e" by (simp add: q_def init_queue_def Let_def)
  then show "queue_offset abi s i + unat (q_size_bytes q) \<le> unat (qs_start_offset s) + unat (qs_mem_size s)"
    using fits(2) n i by (auto simp: queue_offset_def less_Suc_eq numeral_2_eq_2)
  have "i = 0 \<or> i = 1" using n i by auto
  then have i': "unat (of_nat i * (64 * qs_queue_entries s) :: u32) = i * (64 * ?e)" using q by auto
  have h': "unat (of_nat ?h :: u32) = ?h" using fits by (intro unat_of_nat_u32) simp
  have "i * (64 * ?e) \<le> 64 * ?e * unat (qs_queues_num s)" using n i by auto
  then have room: "unat (qs_start_offset s) + (?h + i * (64 * ?e)) < 2 ^ 32" using fits(1) by linarith
  then have "unat (of_nat ?h + of_nat i * (64 * qs_queue_entries s) :: u32) = ?h + i * (64 * ?e)"
    using i' h' by (subst unat_add_u32) linarith+
  with room have "unat (qs_start_offset s + (of_nat ?h + of_nat i * (64 * qs_queue_entries s))) = queue_offset abi s i"
    by (subst unat_add_u32) (simp_all add: queue_offset_def)
  then show "va_queue q = (\<lambda>k. io_words io (queue_offset abi s i div 4 + k))"
    by (simp add: q_def init_queue_def Let_def)
qed

text \<open>C24. A client whose region is part of the layout gets its queues: the allocation succeeds, each
  configured queue has the configured number of entries and reads and writes the words of a
  range inside the client's region, and a queue whose header indices are zero in memory is a
  well-formed, empty ring.\<close>

theorem hw_fence_alloc_client_resources_queues:
  assumes layout: "placed abi lo hi (hw_fence_client_queue_size drv)" "hi < 2 ^ 32" "hi \<le> unat (mem_size drv)"
    and cid: "client_id cl < unat (clients_num drv)" "unat (clients_num drv) = length (hw_fence_client_queue_size drv)"
    and s: "s = hw_fence_client_queue_size drv ! client_id cl" "qs_mem_size s \<noteq> 0"
    and fresh: "\<forall>a. qh_read_index (io_header io a) = 0 \<and> qh_write_index (io_header io a) = 0 \<and>
      qh_tx_wm (io_header io a) = 0"
  shows "\<exists>desc table qs. hw_fence_alloc_client_resources abi io drv cl = Inr (desc, table, cl\<lparr>queues := qs\<rparr>) \<and>
    length qs = HW_FENCE_CLIENT_QUEUES \<and>
    (\<forall>i<unat (qs_queues_num s). ring_slots (qs ! i) = unat (qs_queue_entries s) \<and>
       va_queue (qs ! i) = (\<lambda>k. io_words io (queue_offset abi s i div 4 + k)) \<and>
       unat (qs_start_offset s) \<le> queue_offset abi s i \<and>
       queue_offset abi s i + unat (q_size_bytes (qs ! i)) \<le> unat (qs_start_offset s) + unat (qs_mem_size s) \<and>
       ring_wf wm (qs ! i) \<and> ring_contents wm (qs ! i) = [])"
proof -
  have ok: "region_ok abi lo hi s" using layout(1) cid s by (auto simp: placed_def)
  then have n: "unat (qs_queues_num s) \<in> {1, 2}" "0 < unat (qs_queue_entries s)"
    "unat (qs_start_offset s) + unat (qs_mem_size s) \<le> hi"
    by (simp_all add: region_ok_def)
  then have "unat (qs_start_offset s + qs_mem_size s) = unat (qs_start_offset s) + unat (qs_mem_size s)"
    using layout(2) by (simp add: unat_word_ariths)
  then have "\<not> mem_size drv < ucast (qs_start_offset s + qs_mem_size s)"
    using n(3) layout(3) by (simp add: word_less_nat_alt)
  then have "\<exists>desc table. hw_fence_alloc_client_resources abi io drv cl = Inr (desc, table, cl\<lparr>queues :=
      map (\<lambda>i. if i < unat (qs_queues_num s) then init_queue abi io (res_start drv + ucast (qs_start_offset s))
        (qs_start_offset s) (of_nat (HW_FENCE_HFI_CLIENT_HEADERS_SIZE abi (unat (qs_queues_num s))))
        (64 * qs_queue_entries s) 64 i else null_queue) [0..<HW_FENCE_CLIENT_QUEUES]\<rparr>)"
    using cid s by (simp add: hw_fence_alloc_client_resources_def init_hw_fences_queues_def Let_def
      hw_fence_utils_reserve_mem_def mem_region_def HW_FENCE_CLIENT_QUEUE_PAYLOAD_def)
  then obtain desc table qs where qs: "hw_fence_alloc_client_resources abi io drv cl = Inr (desc, table, cl\<lparr>queues := qs\<rparr>)"
    "length qs = HW_FENCE_CLIENT_QUEUES"
    "\<And>i. i < unat (qs_queues_num s) \<Longrightarrow> qs ! i = init_queue abi io (res_start drv + ucast (qs_start_offset s))
        (qs_start_offset s) (of_nat (HW_FENCE_HFI_CLIENT_HEADERS_SIZE abi (unat (qs_queues_num s))))
        (64 * qs_queue_entries s) 64 i"
    using n(1) by (fastforce simp: HW_FENCE_CLIENT_QUEUES_def)
  have "ring_slots (qs ! i) = unat (qs_queue_entries s) \<and> ring_wf wm (qs ! i) \<and> ring_contents wm (qs ! i) = []"
    if "i < unat (qs_queues_num s)" for i
    using init_queue_region(1) [OF ok layout(2) that qs(3) [OF that]] n(2) fresh unfolding qs(3) [OF that]
    by (auto simp: ring_slots_def ring_wf_def ring_contents_def ring_rd_def ring_wr_def ring_count_def
      init_queue_def Let_def wr_ptr_read_def unat_gt_0)
  with qs(1,2) show ?thesis
    using init_queue_region(2,3) [OF ok layout(2) _ qs(3)] by (intro exI [of _ desc] exI [of _ table] exI [of _ qs])
      (auto simp: queue_offset_def)
qed

section \<open>Examples\<close>

text \<open>A device tree that has none of the optional properties.\<close>

definition sample_env :: hw_fence_env where
  "sample_env = \<lparr>of_property_read_u32 = (\<lambda>_. Inr 4), of_property_read_u32_array = (\<lambda>_. None),
     kzalloc_ok = (\<lambda>_. True)\<rparr>"

lemma sample_abi_ok: "abi_ok sample_abi"
  by (simp add: abi_ok_def sample_abi_def)

theorem hw_fence_utils_get_client_id_priv_injective_witness:
  "abi_ok sample_abi \<and>
   hw_fence_utils_get_client_id_priv sample_abi (hw_fence_client_types_table sample_abi) 3 < 17 \<and>
   hw_fence_utils_get_client_id_priv sample_abi (hw_fence_client_types_table sample_abi) 3 \<noteq>
     hw_fence_utils_get_client_id_priv sample_abi (hw_fence_client_types_table sample_abi) 4"
proof -
  have "hw_fence_utils_get_client_id_priv sample_abi types c = c" if "c < 17" for types c
    using that by (simp add: hw_fence_utils_get_client_id_priv_def HW_FENCE_MAX_STATIC_CLIENTS_INDEX_def sample_abi_def)
  moreover have "HW_FENCE_CLIENT_MAX sample_abi = 273" by (simp add: sample_abi_def)
  ultimately show ?thesis
    using hw_fence_utils_get_client_id_priv_injective [OF sample_abi_ok, of 3 4] sample_abi_ok by simp
qed

lemma sample_indv:
  assumes "num \<le> mx" "q = 1 \<or> q = 2"
  shows "parse_client_queue_dt_props_indv sample_abi sample_env 4 (client_type n i mx num q skip) =
    Inr ((client_type n i mx num q skip)\<lparr>ct_queue_entries := 4, ct_mem_size := 4096\<rparr>)"
  using assms
  by (auto simp: parse_client_queue_dt_props_indv_def read_client_type_def sample_env_def client_type_def
    sample_abi_def hw_fence_consts hw_fence_mem_consts Let_def U32_MAX_def PAGE_ALIGN_def)

lemma client_type_simps:
  "ct_clients_num (client_type n i mx num q skip) = num" "ct_queues_num (client_type n i mx num q skip) = q"
  by (simp_all add: client_type_def)

lemma sample_parse_types:
  "parse_types sample_abi sample_env 4 0 14 0 (hw_fence_client_types_table sample_abi) =
     Inr (map (\<lambda>d. d\<lparr>ct_queue_entries := 4, ct_mem_size := 4096\<rparr>) (hw_fence_client_types_table sample_abi), 14, 0)"
  by (simp add: hw_fence_client_types_table_def sample_indv client_type_simps HW_FENCE_MIN_RXQ_CLIENT_TYPE_def
    HW_FENCE_MAX_CLIENT_TYPE_STATIC_def)

theorem parse_client_queue_dt_props_layout_witness:
  "\<exists>drv'. parse_client_queue_dt_props sample_abi sample_env sample_drv = Inr drv' \<and>
     placed sample_abi 1008 61440 (hw_fence_client_queue_size drv')"
proof -
  have c: "of_nat (HW_FENCE_MIN_RXQ_CLIENTS sample_abi) = (14 :: u32)" "hw_fence_queue_entries sample_drv = 4"
    "kzalloc_ok sample_env n" "hw_fence_mem_ctrl_queues_size sample_drv = 256"
    "hw_fence_mem_fences_table_size sample_drv = 640" for n
    by (simp_all add: HW_FENCE_MIN_RXQ_CLIENTS_def sample_abi_def sample_env_def sample_drv_def)
  obtain drv' where drv': "parse_client_queue_dt_props sample_abi sample_env sample_drv = Inr drv'"
    by (simp add: parse_client_queue_dt_props_def c sample_parse_types Let_def case_prod_beta)
  moreover have "fixed_size drv' = 1008" "hw_fence_client_types drv' =
      map (\<lambda>d. d\<lparr>ct_queue_entries := 4, ct_mem_size := 4096\<rparr>) (hw_fence_client_types_table sample_abi)"
    using drv' by (auto simp: parse_client_queue_dt_props_def c sample_parse_types Let_def fixed_size_def
      HW_FENCE_MEM_LOCKS_SIZE_def split: prod.splits)
  moreover note drv' = calculation
  have "sum_list (map (\<lambda>d. unat (ct_clients_num d) * unat (ct_mem_size d)) (hw_fence_client_types drv')) = 57344"
    by (simp add: drv'(3) hw_fence_client_types_table_def client_type_simps)
  with parse_client_queue_dt_props_layout [OF drv'(1)] drv'(1,2) show ?thesis
    by (auto simp: MAX_CLIENT_QUEUE_MEM_SIZE_def PAGE_ALIGN_def)
qed

definition sample_io :: hw_fence_io_mem where
  "sample_io = \<lparr>io_words = (\<lambda>_. 0), io_header = (\<lambda>_. \<lparr>qh_start_addr = 0, qh_type = 0, qh_queue_size = 0,
     qh_pkt_size = 0, qh_read_index = 0, qh_write_index = 0, qh_tx_wm = 0\<rparr>)\<rparr>"

theorem hw_fence_alloc_client_resources_queues_witness:
  "placed sample_abi 4096 8192 (hw_fence_client_queue_size sample_drv) \<and>
   (\<exists>desc table qs. hw_fence_alloc_client_resources sample_abi sample_io sample_drv sample_client =
      Inr (desc, table, sample_client\<lparr>queues := qs\<rparr>) \<and> ring_slots (qs ! 1) = 4 \<and> ring_wf False (qs ! 1))"
proof -
  have "placed sample_abi 4096 8192 (hw_fence_client_queue_size sample_drv)"
    by (auto simp: placed_def sample_drv_def dest!: less_2_cases [unfolded numeral_2_eq_2])
       (simp_all add: region_ok_def sample_abi_def hw_fence_mem_consts)
  note layout = this
  let ?s = "hw_fence_client_queue_size sample_drv ! 1"
  have c: "client_id sample_client = 1" "clients_num sample_drv = 2" "mem_size sample_drv = 8192"
    "length (hw_fence_client_queue_size sample_drv) = 2" "qs_mem_size ?s \<noteq> 0" "qs_queues_num ?s = 2"
    "qs_queue_entries ?s = 4"
    by (simp_all add: sample_drv_def sample_client_def)
  from hw_fence_alloc_client_resources_queues [OF layout, of sample_client ?s sample_io False] c
  obtain desc table qs where "hw_fence_alloc_client_resources sample_abi sample_io sample_drv sample_client =
      Inr (desc, table, sample_client\<lparr>queues := qs\<rparr>)"
    "\<forall>i<2. ring_slots (qs ! i) = 4 \<and> ring_wf False (qs ! i)"
    by (auto simp: sample_io_def)
  with layout show ?thesis by (intro conjI exI) auto
qed

end
