(* ===== verification/HW_Fence_Ipc.thy ===== *)
theory HW_Fence_Ipc
  imports HW_Fence_Mem
begin

text \<open>
  The interrupt controller of the hardware fence driver (\<open>src/hw_fence_drv_ipc.c\<close>): the tables
  that map clients to virtual and physical ids and signals, their initialisation for each
  hardware revision, and the enabling of signals. The theorems show that the table built for
  configurable clients agrees with the numbering of clients of \<open>src/hw_fence_drv_utils.c\<close>.
  \<open>CONFIG_DEBUG_FS\<close> and \<open>HW_DPU_IPCC\<close> are enabled, the latter by \<open>hw_fence_drv_priv.h\<close>.
\<close>

section \<open>Operations\<close>

subsection \<open>Ids\<close>

definition HW_FENCE_IPC_CLIENT_ID_APPS_VID :: int where
  "HW_FENCE_IPC_CLIENT_ID_APPS_VID = 8"

definition HW_FENCE_IPC_CLIENT_ID_GPU_VID :: int where
  "HW_FENCE_IPC_CLIENT_ID_GPU_VID = 9"

definition HW_FENCE_IPC_CLIENT_ID_IPE_VID :: int where
  "HW_FENCE_IPC_CLIENT_ID_IPE_VID = 11"

definition HW_FENCE_IPC_CLIENT_ID_VPU_VID :: int where
  "HW_FENCE_IPC_CLIENT_ID_VPU_VID = 12"

definition HW_FENCE_IPC_CLIENT_ID_DPU_VID :: int where
  "HW_FENCE_IPC_CLIENT_ID_DPU_VID = 25"

definition HW_FENCE_IPC_CLIENT_ID_IFE_VID :: "nat \<Rightarrow> int" where
  "HW_FENCE_IPC_CLIENT_ID_IFE_VID n = [128, 129, 130, 131, 132, 133, 134, 135] ! n"

definition HW_FENCE_IPC_CLIENT_ID_APPS_PID :: int where
  "HW_FENCE_IPC_CLIENT_ID_APPS_PID = 3"

definition HW_FENCE_IPC_CLIENT_ID_GPU_PID :: int where
  "HW_FENCE_IPC_CLIENT_ID_GPU_PID = 4"

definition HW_FENCE_IPC_CLIENT_ID_IPE_PID :: int where
  "HW_FENCE_IPC_CLIENT_ID_IPE_PID = 5"

definition HW_FENCE_IPC_CLIENT_ID_VPU_PID :: int where
  "HW_FENCE_IPC_CLIENT_ID_VPU_PID = 8"

definition HW_FENCE_IPC_CLIENT_ID_DPU_PID :: int where
  "HW_FENCE_IPC_CLIENT_ID_DPU_PID = 9"

definition HW_FENCE_IPC_CLIENT_ID_IFE_PID :: "nat \<Rightarrow> int" where
  "HW_FENCE_IPC_CLIENT_ID_IFE_PID n = [11, 12, 13, 14, 15, 16, 17, 18] ! n"

lemmas ipc_ids = HW_FENCE_IPC_CLIENT_ID_APPS_VID_def HW_FENCE_IPC_CLIENT_ID_GPU_VID_def
  HW_FENCE_IPC_CLIENT_ID_IPE_VID_def HW_FENCE_IPC_CLIENT_ID_VPU_VID_def HW_FENCE_IPC_CLIENT_ID_DPU_VID_def
  HW_FENCE_IPC_CLIENT_ID_IFE_VID_def HW_FENCE_IPC_CLIENT_ID_APPS_PID_def HW_FENCE_IPC_CLIENT_ID_GPU_PID_def
  HW_FENCE_IPC_CLIENT_ID_IPE_PID_def HW_FENCE_IPC_CLIENT_ID_VPU_PID_def HW_FENCE_IPC_CLIENT_ID_DPU_PID_def
  HW_FENCE_IPC_CLIENT_ID_IFE_PID_def

subsection \<open>Tables\<close>

definition HW_FENCE_IPC_MAP_MAX :: "hw_fence_abi \<Rightarrow> nat" where
  "HW_FENCE_IPC_MAP_MAX abi = HW_FENCE_MAX_STATIC_CLIENTS_INDEX abi + HW_FENCE_MAX_CLIENT_TYPE_CONFIGURABLE"

definition ipc_row :: "int \<Rightarrow> int \<Rightarrow> int \<Rightarrow> bool \<Rightarrow> bool \<Rightarrow> hw_fence_client_ipc_map" where
  "ipc_row vid pid signal_id rxq ipc = \<lparr>map_client_id_virt = vid, map_client_id_phys = pid,
     map_signal_id = signal_id, map_update_rxq = rxq, map_send_ipc = ipc\<rparr>"

text \<open>An array initialiser that is shorter than the array leaves zeros.\<close>

definition ipc_table :: "hw_fence_abi \<Rightarrow> hw_fence_client_ipc_map list \<Rightarrow> hw_fence_client_ipc_map list" where
  "ipc_table abi rows = rows @ replicate (HW_FENCE_IPC_MAP_MAX abi - length rows) (ipc_row 0 0 0 False False)"

definition hw_fence_clients_ipc_map_no_dpu :: "hw_fence_abi \<Rightarrow> hw_fence_client_ipc_map list" where
  "hw_fence_clients_ipc_map_no_dpu abi = ipc_table abi
     ([ipc_row HW_FENCE_IPC_CLIENT_ID_APPS_VID HW_FENCE_IPC_CLIENT_ID_APPS_VID 1 True True,
       ipc_row HW_FENCE_IPC_CLIENT_ID_GPU_VID HW_FENCE_IPC_CLIENT_ID_GPU_VID 0 False False] @
      map (\<lambda>s. ipc_row HW_FENCE_IPC_CLIENT_ID_APPS_VID HW_FENCE_IPC_CLIENT_ID_APPS_VID s False True)
        [14, 15, 16, 17, 18, 19] @
      map (\<lambda>s. ipc_row HW_FENCE_IPC_CLIENT_ID_APPS_VID HW_FENCE_IPC_CLIENT_ID_APPS_VID s True False)
        [21, 22, 23, 24, 25, 26, 27])"

definition hw_fence_clients_ipc_map :: "hw_fence_abi \<Rightarrow> hw_fence_client_ipc_map list" where
  "hw_fence_clients_ipc_map abi = ipc_table abi
     ([ipc_row HW_FENCE_IPC_CLIENT_ID_APPS_VID HW_FENCE_IPC_CLIENT_ID_APPS_VID 1 True True,
       ipc_row HW_FENCE_IPC_CLIENT_ID_GPU_VID HW_FENCE_IPC_CLIENT_ID_GPU_VID 0 False False] @
      map (\<lambda>s. ipc_row HW_FENCE_IPC_CLIENT_ID_DPU_VID HW_FENCE_IPC_CLIENT_ID_DPU_VID s False True)
        [0, 1, 2, 3, 4, 5] @
      map (\<lambda>s. ipc_row HW_FENCE_IPC_CLIENT_ID_APPS_VID HW_FENCE_IPC_CLIENT_ID_APPS_VID s True False)
        [21, 22, 23, 24, 25, 26, 27] @
      [ipc_row HW_FENCE_IPC_CLIENT_ID_IPE_VID HW_FENCE_IPC_CLIENT_ID_IPE_VID 0 True True,
       ipc_row HW_FENCE_IPC_CLIENT_ID_VPU_VID HW_FENCE_IPC_CLIENT_ID_VPU_VID 0 True True])"

definition hw_fence_clients_ipc_map_v2 :: "hw_fence_abi \<Rightarrow> hw_fence_client_ipc_map list" where
  "hw_fence_clients_ipc_map_v2 abi = ipc_table abi
     ([ipc_row HW_FENCE_IPC_CLIENT_ID_APPS_VID HW_FENCE_IPC_CLIENT_ID_APPS_PID 1 True True,
       ipc_row HW_FENCE_IPC_CLIENT_ID_GPU_VID HW_FENCE_IPC_CLIENT_ID_GPU_PID 0 False False] @
      map (\<lambda>s. ipc_row HW_FENCE_IPC_CLIENT_ID_DPU_VID HW_FENCE_IPC_CLIENT_ID_DPU_PID s False True)
        [0, 1, 2, 3, 4, 5] @
      map (\<lambda>s. ipc_row HW_FENCE_IPC_CLIENT_ID_APPS_VID HW_FENCE_IPC_CLIENT_ID_APPS_PID s True False)
        [21, 22, 23, 24, 25, 26, 27] @
      [ipc_row HW_FENCE_IPC_CLIENT_ID_IPE_VID HW_FENCE_IPC_CLIENT_ID_IPE_PID 0 True True,
       ipc_row HW_FENCE_IPC_CLIENT_ID_VPU_VID HW_FENCE_IPC_CLIENT_ID_VPU_PID 0 True True] @
      map (\<lambda>n. ipc_row (HW_FENCE_IPC_CLIENT_ID_IFE_VID n) (HW_FENCE_IPC_CLIENT_ID_IFE_PID n) 0 False True)
        [0, 1, 2, 3, 4, 5, 6, 7])"

subsection \<open>Queries\<close>

text \<open>\<open>Inl\<close> is a negative return value. The driver data and the id are never \<open>NULL\<close> or negative
  at a call.\<close>

definition hw_fence_ipcc_get_client_virt_id :: "hw_fence_driver_data \<Rightarrow> nat \<Rightarrow> int result" where
  "hw_fence_ipcc_get_client_virt_id drv cid =
     (if unat (clients_num drv) \<le> cid then Inl EINVAL
      else Inr (map_client_id_virt (ipc_clients_table drv ! cid)))"

definition hw_fence_ipcc_get_client_phys_id :: "hw_fence_driver_data \<Rightarrow> nat \<Rightarrow> int result" where
  "hw_fence_ipcc_get_client_phys_id drv cid =
     (if unat (clients_num drv) \<le> cid then Inl EINVAL
      else Inr (map_client_id_phys (ipc_clients_table drv ! cid)))"

definition hw_fence_ipcc_get_signal_id :: "hw_fence_driver_data \<Rightarrow> nat \<Rightarrow> int result" where
  "hw_fence_ipcc_get_signal_id drv cid =
     (if unat (clients_num drv) \<le> cid then Inl EINVAL
      else Inr (map_signal_id (ipc_clients_table drv ! cid)))"

definition hw_fence_ipcc_needs_rxq_update :: "hw_fence_driver_data \<Rightarrow> nat \<Rightarrow> bool" where
  "hw_fence_ipcc_needs_rxq_update drv cid =
     (if unat (clients_num drv) \<le> cid then False else map_update_rxq (ipc_clients_table drv ! cid))"

text \<open>The bound is the number of external ids, not the size of the table.\<close>

definition hw_fence_ipcc_needs_ipc_irq :: "hw_fence_abi \<Rightarrow> hw_fence_driver_data \<Rightarrow> nat \<Rightarrow> bool" where
  "hw_fence_ipcc_needs_ipc_irq abi drv cid =
     (if HW_FENCE_CLIENT_MAX abi \<le> cid then False else map_send_ipc (ipc_clients_table drv ! cid))"

subsection \<open>Initialisation\<close>

text \<open>The loops over the configurable types and over the sub-clients of one, with the index of the
  next entry.\<close>

fun map_subclients ::
  "nat \<Rightarrow> hw_fence_client_ipc_map \<Rightarrow> nat list \<Rightarrow> nat \<times> hw_fence_client_ipc_map list \<Rightarrow>
   (nat \<times> hw_fence_client_ipc_map list) result" where
  "map_subclients num row [] st = Inr st"
| "map_subclients num row (j # js) (map_idx, table) =
     (if num \<le> map_idx then Inl EINVAL
      else map_subclients num row js (Suc map_idx, table[map_idx := row\<lparr>map_signal_id := int j\<rparr>]))"

fun map_client_types ::
  "hw_fence_abi \<Rightarrow> hw_fence_driver_data \<Rightarrow> hw_fence_client_ipc_map list \<Rightarrow> nat list \<Rightarrow>
   nat \<times> hw_fence_client_ipc_map list \<Rightarrow> (nat \<times> hw_fence_client_ipc_map list) result" where
  "map_client_types abi drv base_table [] st = Inr st"
| "map_client_types abi drv base_table (i # is) st =
     (let num = nat (sint (ct_clients_num (hw_fence_client_types drv ! (HW_FENCE_MAX_CLIENT_TYPE_STATIC + i))))
      in case map_subclients (unat (clients_num drv)) (base_table ! (HW_FENCE_MAX_STATIC_CLIENTS_INDEX abi + i))
                [0..<num] st of
           Inl e \<Rightarrow> Inl e
         | Inr st \<Rightarrow> map_client_types abi drv base_table is st)"

definition hw_fence_ipcc_init_map_with_configurable_clients ::
  "hw_fence_abi \<Rightarrow> hw_fence_env \<Rightarrow> hw_fence_driver_data \<Rightarrow> hw_fence_client_ipc_map list \<Rightarrow>
   hw_fence_driver_data result" where
  "hw_fence_ipcc_init_map_with_configurable_clients abi env drv base_table =
     (if \<not> kzalloc_ok env ''ipc clients table'' then Inl ENOMEM
      else
        let static = HW_FENCE_MAX_STATIC_CLIENTS_INDEX abi;
            table = take static base_table @
              replicate (unat (clients_num drv) - static) (ipc_row 0 0 0 False False)
        in (case map_client_types abi drv base_table [0..<HW_FENCE_MAX_CLIENT_TYPE_CONFIGURABLE] (static, table) of
              Inl e \<Rightarrow> Inl e
            | Inr (_, table) \<Rightarrow> Inr (drv\<lparr>ipc_clients_table := table\<rparr>)))"

text \<open>An unknown revision gives the return value -1, which is \<open>-EPERM\<close>.\<close>

definition hw_fence_ipcc_hwrev_init ::
  "hw_fence_abi \<Rightarrow> hw_fence_env \<Rightarrow> hw_fence_driver_data \<Rightarrow> u32 \<Rightarrow> hw_fence_driver_data result" where
  "hw_fence_ipcc_hwrev_init abi env drv hwrev =
     (let ids = (\<lambda>vid pid protocol drv. drv\<lparr>ipcc_client_vid := of_int vid, ipcc_client_pid := of_int pid,
            protocol_id := protocol\<rparr>)
      in if hwrev = 0x00010000 then
           Inr ((ids HW_FENCE_IPC_CLIENT_ID_APPS_VID HW_FENCE_IPC_CLIENT_ID_APPS_VID 2 drv)
             \<lparr>ipc_clients_table := hw_fence_clients_ipc_map_no_dpu abi\<rparr>)
         else if hwrev = 0x00010100 then
           Inr ((ids HW_FENCE_IPC_CLIENT_ID_APPS_VID HW_FENCE_IPC_CLIENT_ID_APPS_VID 1 drv)
             \<lparr>ipc_clients_table := hw_fence_clients_ipc_map_no_dpu abi\<rparr>)
         else if hwrev = 0x00010700 then
           Inr ((ids HW_FENCE_IPC_CLIENT_ID_APPS_VID HW_FENCE_IPC_CLIENT_ID_APPS_VID 2 drv)
             \<lparr>ipc_clients_table := hw_fence_clients_ipc_map abi\<rparr>)
         else if hwrev = 0x00020003 then
           hw_fence_ipcc_init_map_with_configurable_clients abi env
             (ids HW_FENCE_IPC_CLIENT_ID_APPS_VID HW_FENCE_IPC_CLIENT_ID_APPS_PID 4 drv)
             (hw_fence_clients_ipc_map_v2 abi)
         else Inl EPERM)"

definition IPC_PROTOCOLp_CLIENTc_CONFIG :: "u32 \<Rightarrow> u32 \<Rightarrow> u32" where
  "IPC_PROTOCOLp_CLIENTc_CONFIG p c = 0x8 + 0x40000 * p + 0x1000 * c"

definition IPC_PROTOCOLp_CLIENTc_RECV_SIGNAL_ENABLE :: "u32 \<Rightarrow> u32 \<Rightarrow> u32" where
  "IPC_PROTOCOLp_CLIENTc_RECV_SIGNAL_ENABLE p c = 0x14 + 0x40000 * p + 0x1000 * c"

definition ipcc_write :: "u32 \<Rightarrow> u32 \<Rightarrow> hw_fence_driver_data \<Rightarrow> hw_fence_driver_data" where
  "ipcc_write reg val drv = drv\<lparr>ipcc_writes := ipcc_writes drv @ [(reg, val)]\<rparr>"

text \<open>\<open>version\<close> is the value of the version register, read when the device tree does not give one.\<close>

definition hw_fence_ipcc_enable_signaling ::
  "hw_fence_abi \<Rightarrow> hw_fence_env \<Rightarrow> u32 \<Rightarrow> hw_fence_driver_data \<Rightarrow> hw_fence_driver_data result" where
  "hw_fence_ipcc_enable_signaling abi env version drv =
     (let val = (case of_property_read_u32 env ''qcom,hw-fence-ipc-ver'' of
            Inl _ \<Rightarrow> version
          | Inr val \<Rightarrow> if val = 0 then version else val)
      in case hw_fence_ipcc_hwrev_init abi env drv val of
           Inl _ \<Rightarrow> Inl EINVAL
         | Inr drv \<Rightarrow>
             let drv = ipcc_write (IPC_PROTOCOLp_CLIENTc_CONFIG (protocol_id drv) (ipcc_client_pid drv)) 0 drv
             in Inr (ipcc_write (IPC_PROTOCOLp_CLIENTc_RECV_SIGNAL_ENABLE (protocol_id drv) (ipcc_client_pid drv))
                  0x80000 drv))"

fun dpu_signals ::
  "u32 \<Rightarrow> bool \<Rightarrow> hw_fence_client_ipc_map list \<Rightarrow> hw_fence_driver_data \<Rightarrow> hw_fence_driver_data" where
  "dpu_signals protocol protocol_enabled [] drv = drv"
| "dpu_signals protocol protocol_enabled (cl # cls) drv =
     (if map_client_id_virt cl \<noteq> HW_FENCE_IPC_CLIENT_ID_DPU_VID then dpu_signals protocol protocol_enabled cls drv
      else
        let pid = of_int (map_client_id_phys cl);
            drv = (if \<not> protocol_enabled then ipcc_write (IPC_PROTOCOLp_CLIENTc_CONFIG protocol pid) 1 drv else drv);
            val = push_bit 16 (of_int HW_FENCE_IPC_CLIENT_ID_APPS_VID) OR (of_int (map_signal_id cl) AND 0xFFFF);
            drv = ipcc_write (IPC_PROTOCOLp_CLIENTc_RECV_SIGNAL_ENABLE protocol pid) val drv
        in dpu_signals protocol True cls drv)"

text \<open>The caller ignores the return value -1 of the first check.\<close>

definition hw_fence_ipcc_enable_dpu_signaling :: "hw_fence_driver_data \<Rightarrow> hw_fence_driver_data" where
  "hw_fence_ipcc_enable_dpu_signaling drv =
     (if protocol_id drv = 0 \<or> ipc_clients_table drv = [] then drv
      else dpu_signals (protocol_id drv) False (take (unat (clients_num drv)) (ipc_clients_table drv)) drv)"

section \<open>The table agrees with the client numbers\<close>

lemma map_subclients_spec:
  assumes "k + length js \<le> num" "num \<le> length table"
  shows "\<exists>table'. map_subclients num row js (k, table) = Inr (k + length js, table') \<and>
    length table' = length table \<and> (\<forall>i. i < k \<or> k + length js \<le> i \<longrightarrow> table' ! i = table ! i) \<and>
    (\<forall>i<length js. table' ! (k + i) = row\<lparr>map_signal_id := int (js ! i)\<rparr>)"
  using assms
proof (induction js arbitrary: k table)
  case Nil
  then show ?case by simp
next
  case (Cons j js)
  let ?t = "table[k := row\<lparr>map_signal_id := int j\<rparr>]"
  from Cons.IH [of "Suc k" ?t] Cons.prems obtain table' where
    t: "map_subclients num row js (Suc k, ?t) = Inr (Suc k + length js, table')" "length table' = length table"
      "\<forall>i. i < Suc k \<or> Suc k + length js \<le> i \<longrightarrow> table' ! i = ?t ! i"
      "\<forall>i<length js. table' ! (Suc k + i) = row\<lparr>map_signal_id := int (js ! i)\<rparr>"
    by auto
  have "table' ! (k + i) = row\<lparr>map_signal_id := int ((j # js) ! i)\<rparr>" if "i < Suc (length js)" for i
  proof (cases i)
    case 0
    then show ?thesis using t(3) Cons.prems by simp
  next
    case (Suc i')
    then show ?thesis using t(4) that by simp
  qed
  with t Cons.prems show ?case by simp
qed

lemma map_client_types_spec:
  fixes abi drv base
  defines "types \<equiv> hw_fence_client_types drv" and "b \<equiv> HW_FENCE_MAX_STATIC_CLIENTS_INDEX abi"
  assumes num: "unat (clients_num drv) = b + type_sum types n"
    and small: "\<And>t. t < n \<Longrightarrow> unat (ct_clients_num (types ! (HW_FENCE_MAX_CLIENT_TYPE_STATIC + t))) \<le> 32"
    and a: "a \<le> n" and len: "unat (clients_num drv) \<le> length table"
  shows "\<exists>k table'. map_client_types abi drv base [a..<n] (b + type_sum types a, table) = Inr (k, table') \<and>
    (\<forall>i<b + type_sum types a. table' ! i = table ! i) \<and>
    (\<forall>t j. a \<le> t \<and> t < n \<and> j < unat (ct_clients_num (types ! (HW_FENCE_MAX_CLIENT_TYPE_STATIC + t))) \<longrightarrow>
       table' ! (b + type_sum types t + j) = (base ! (b + t))\<lparr>map_signal_id := int j\<rparr>)"
  using a len
proof (induction "n - a" arbitrary: a table)
  case 0
  then show ?case by auto
next
  case (Suc d)
  let ?n = "\<lambda>t. unat (ct_clients_num (types ! (HW_FENCE_MAX_CLIENT_TYPE_STATIC + t)))"
  from Suc.hyps(2) have a: "a < n" by simp
  have sint: "nat (sint (ct_clients_num (types ! (HW_FENCE_MAX_CLIENT_TYPE_STATIC + a)))) = ?n a"
    using small [OF a] by (simp add: sint_u32_small)
  have next_sum: "type_sum types (Suc a) = type_sum types a + ?n a" by (rule type_sum_Suc)
  with type_sum_mono [of "Suc a" n types] a have room: "b + type_sum types a + ?n a \<le> unat (clients_num drv)"
    by (simp add: num)
  obtain t1 where t1: "map_subclients (unat (clients_num drv)) (base ! (b + a)) [0..<?n a] (b + type_sum types a, table) =
      Inr (b + type_sum types (Suc a), t1)" "length t1 = length table"
    "\<forall>i<b + type_sum types a. t1 ! i = table ! i"
    "\<forall>j<?n a. t1 ! (b + type_sum types a + j) = (base ! (b + a))\<lparr>map_signal_id := int j\<rparr>"
    using map_subclients_spec [of "b + type_sum types a" "[0..<?n a]" "unat (clients_num drv)" table "base ! (b + a)"]
      room Suc.prems(2)
    by (auto simp: next_sum)
  have "d = n - Suc a" "Suc a \<le> n" "unat (clients_num drv) \<le> length t1"
    using Suc.hyps(2) Suc.prems(2) a t1(2) by simp_all
  from Suc.hyps(1) [OF this] obtain k t2 where
    t2: "map_client_types abi drv base [Suc a..<n] (b + type_sum types (Suc a), t1) = Inr (k, t2)"
      "\<forall>i<b + type_sum types (Suc a). t2 ! i = t1 ! i"
      "\<forall>t j. Suc a \<le> t \<and> t < n \<and> j < ?n t \<longrightarrow>
         t2 ! (b + type_sum types t + j) = (base ! (b + t))\<lparr>map_signal_id := int j\<rparr>"
    by blast
  have "map_client_types abi drv base [a..<n] (b + type_sum types a, table) = Inr (k, t2)"
    using t1(1) t2(1) sint a by (simp add: upt_conv_Cons types_def b_def)
  moreover have "t2 ! (b + type_sum types t + j) = (base ! (b + t))\<lparr>map_signal_id := int j\<rparr>"
    if "a \<le> t" "t < n" "j < ?n t" for t j
    using that t1(4) t2(2,3) next_sum by (cases "t = a") auto
  ultimately show ?case using t1(3) t2(2) next_sum by auto
qed

text \<open>The private id of sub-client \<open>j\<close> of image front end \<open>t\<close>.\<close>

lemma get_client_id_priv_ife:
  assumes "abi_ok abi" "j < unat (ct_clients_num (types ! (HW_FENCE_MAX_CLIENT_TYPE_STATIC + t)))" "j < 32"
  shows "hw_fence_utils_get_client_id_priv abi types (HW_FENCE_CLIENT_ID_IFE abi t + j) =
    HW_FENCE_CLIENT_ID_IFE abi 0 + type_sum types t + j"
proof -
  have "HW_FENCE_CLIENT_ID_IFE abi t = HW_FENCE_CLIENT_ID_IFE abi 0 + t * MSM_HW_FENCE_MAX_SIGNAL_PER_CLIENT abi"
    "32 \<le> MSM_HW_FENCE_MAX_SIGNAL_PER_CLIENT abi"
    using assms(1) abi_okD(1) unfolding abi_ok_def by blast+
  then show ?thesis
    using get_client_id_priv_configurable [of abi "HW_FENCE_CLIENT_ID_IFE abi t + j" t j types] assms(2,3)
    by (simp add: add.assoc)
qed

text \<open>C25. The interrupt table of the latest hardware revision agrees with the numbering of clients.
  When the base table's rows are where its comment puts them (static clients by their id,
  image front ends after them), the initialisation succeeds, the static clients have the rows
  of the base table, and the entry at the private id of sub-client \<open>j\<close> of image front end \<open>t\<close>
  has the virtual and physical id of that front end and signal \<open>j\<close>.\<close>

theorem hw_fence_ipcc_init_map_matches_ids:
  assumes abi: "abi_ok abi" "HW_FENCE_MAX_STATIC_CLIENTS_INDEX abi = 17" and mem: "kzalloc_ok env ''ipc clients table''"
    and num: "unat (clients_num drv) = 17 + type_sum (hw_fence_client_types drv) 8"
    and small: "\<forall>t<8. unat (ct_clients_num (hw_fence_client_types drv ! (HW_FENCE_MAX_CLIENT_TYPE_STATIC + t))) \<le> 32"
  shows "\<exists>drv'. hw_fence_ipcc_init_map_with_configurable_clients abi env drv (hw_fence_clients_ipc_map_v2 abi) = Inr drv' \<and>
    (\<forall>cid<17. ipc_clients_table drv' ! cid = hw_fence_clients_ipc_map_v2 abi ! cid) \<and>
    (\<forall>t<8. \<forall>j<unat (ct_clients_num (hw_fence_client_types drv ! (HW_FENCE_MAX_CLIENT_TYPE_STATIC + t))).
       let cid = hw_fence_utils_get_client_id_priv abi (hw_fence_client_types drv') (HW_FENCE_CLIENT_ID_IFE abi t + j)
       in hw_fence_ipcc_get_client_virt_id drv' cid = Inr (HW_FENCE_IPC_CLIENT_ID_IFE_VID t) \<and>
          hw_fence_ipcc_get_client_phys_id drv' cid = Inr (HW_FENCE_IPC_CLIENT_ID_IFE_PID t) \<and>
          hw_fence_ipcc_get_signal_id drv' cid = Inr (int j))"
proof -
  let ?types = "hw_fence_client_types drv" and ?base = "hw_fence_clients_ipc_map_v2 abi"
  let ?n = "\<lambda>t. unat (ct_clients_num (?types ! (HW_FENCE_MAX_CLIENT_TYPE_STATIC + t)))"
  let ?table = "take 17 ?base @ replicate (unat (clients_num drv) - 17) (ipc_row 0 0 0 False False)"
  have len: "length ?base = 25"
    by (simp add: hw_fence_clients_ipc_map_v2_def ipc_table_def HW_FENCE_IPC_MAP_MAX_def abi(2)
      HW_FENCE_MAX_CLIENT_TYPE_CONFIGURABLE_def)
  have row: "?base ! (17 + t) = ipc_row (HW_FENCE_IPC_CLIENT_ID_IFE_VID t) (HW_FENCE_IPC_CLIENT_ID_IFE_PID t) 0 False True"
    if "t < 8" for t
  proof -
    have "t \<in> {0, 1, 2, 3, 4, 5, 6, 7}" using that by auto
    then show ?thesis
      by (auto simp: hw_fence_clients_ipc_map_v2_def ipc_table_def HW_FENCE_IPC_MAP_MAX_def abi(2) nth_append)
  qed
  have sum0: "type_sum ?types 0 = 0" by (simp add: type_sum_def)
  obtain k table where t: "map_client_types abi drv ?base [0..<8] (17, ?table) = Inr (k, table)"
    "\<forall>i<17. table ! i = ?table ! i"
    "\<forall>t j. t < 8 \<and> j < ?n t \<longrightarrow> table ! (17 + type_sum ?types t + j) = (?base ! (17 + t))\<lparr>map_signal_id := int j\<rparr>"
    using map_client_types_spec [of drv abi 8 0 ?table ?base] num small len by (auto simp: abi(2) sum0)
  let ?drv = "drv\<lparr>ipc_clients_table := table\<rparr>"
  have init: "hw_fence_ipcc_init_map_with_configurable_clients abi env drv ?base = Inr ?drv"
    using t(1) mem by (simp add: hw_fence_ipcc_init_map_with_configurable_clients_def abi(2)
      HW_FENCE_MAX_CLIENT_TYPE_CONFIGURABLE_def)
  have ids: "hw_fence_utils_get_client_id_priv abi ?types (HW_FENCE_CLIENT_ID_IFE abi t + j) = 17 + type_sum ?types t + j"
    "\<not> unat (clients_num drv) \<le> 17 + type_sum ?types t + j" if "t < 8" "j < ?n t" for t j
  proof -
    have "type_sum ?types t + j < type_sum ?types (Suc t)" using that by (simp add: type_sum_Suc)
    also have "\<dots> \<le> type_sum ?types 8" using that by (intro type_sum_mono) simp
    finally show "\<not> unat (clients_num drv) \<le> 17 + type_sum ?types t + j" using num by simp
    show "hw_fence_utils_get_client_id_priv abi ?types (HW_FENCE_CLIENT_ID_IFE abi t + j) = 17 + type_sum ?types t + j"
      using get_client_id_priv_ife [OF abi(1) that(2)] small that abi(2) order_less_le_trans
      by (fastforce simp: HW_FENCE_MAX_STATIC_CLIENTS_INDEX_def)
  qed
  show ?thesis
    using t init row len ids by (intro exI [of _ ?drv]) (auto simp: Let_def hw_fence_ipcc_get_client_virt_id_def
      hw_fence_ipcc_get_client_phys_id_def hw_fence_ipcc_get_signal_id_def ipc_row_def nth_append)
qed

theorem hw_fence_ipcc_init_map_matches_ids_witness:
  "abi_ok sample_abi \<and> (\<exists>drv'. hw_fence_ipcc_init_map_with_configurable_clients sample_abi sample_env
      (sample_drv\<lparr>clients_num := 20, hw_fence_client_types := (hw_fence_client_types_table sample_abi)
        [6 := client_type ''ife1'' 49 32 3 1 True]\<rparr>) (hw_fence_clients_ipc_map_v2 sample_abi) = Inr drv' \<and>
      hw_fence_ipcc_get_client_virt_id drv' (hw_fence_utils_get_client_id_priv sample_abi (hw_fence_client_types drv') 51) =
        Inr 129)"
proof -
  let ?drv = "sample_drv\<lparr>clients_num := 20, hw_fence_client_types := (hw_fence_client_types_table sample_abi)
    [6 := client_type ''ife1'' 49 32 3 1 True]\<rparr>"
  have types: "type_sum (hw_fence_client_types ?drv) 8 = 3"
    by (simp add: type_sum_def hw_fence_client_types_table_def client_type_def HW_FENCE_MAX_CLIENT_TYPE_STATIC_def)
  have small: "unat (ct_clients_num (hw_fence_client_types ?drv ! (HW_FENCE_MAX_CLIENT_TYPE_STATIC + t))) =
      (if t = 1 then 3 else 0)" if "t < 8" for t
  proof -
    have "t \<in> {0, 1, 2, 3, 4, 5, 6, 7}" using that by auto
    then show ?thesis
      by (auto simp: hw_fence_client_types_table_def client_type_def HW_FENCE_MAX_CLIENT_TYPE_STATIC_def)
  qed
  have static: "HW_FENCE_MAX_STATIC_CLIENTS_INDEX sample_abi = 17" "kzalloc_ok sample_env ''ipc clients table''"
    "HW_FENCE_CLIENT_ID_IFE sample_abi 1 = 49" "HW_FENCE_IPC_CLIENT_ID_IFE_VID 1 = 129"
    by (simp_all add: HW_FENCE_MAX_STATIC_CLIENTS_INDEX_def sample_abi_def sample_env_def ipc_ids)
  have num: "unat (clients_num ?drv) = 17 + type_sum (hw_fence_client_types ?drv) 8" using types by simp
  have le: "\<forall>t<8. unat (ct_clients_num (hw_fence_client_types ?drv ! (HW_FENCE_MAX_CLIENT_TYPE_STATIC + t))) \<le> 32"
    using small by simp
  obtain drv' where drv': "hw_fence_ipcc_init_map_with_configurable_clients sample_abi sample_env ?drv
      (hw_fence_clients_ipc_map_v2 sample_abi) = Inr drv'"
    and ids: "\<forall>t<8. \<forall>j<unat (ct_clients_num (hw_fence_client_types ?drv ! (HW_FENCE_MAX_CLIENT_TYPE_STATIC + t))).
       let cid = hw_fence_utils_get_client_id_priv sample_abi (hw_fence_client_types drv')
             (HW_FENCE_CLIENT_ID_IFE sample_abi t + j)
       in hw_fence_ipcc_get_client_virt_id drv' cid = Inr (HW_FENCE_IPC_CLIENT_ID_IFE_VID t) \<and>
          hw_fence_ipcc_get_client_phys_id drv' cid = Inr (HW_FENCE_IPC_CLIENT_ID_IFE_PID t) \<and>
          hw_fence_ipcc_get_signal_id drv' cid = Inr (int j)"
    using hw_fence_ipcc_init_map_matches_ids [OF sample_abi_ok static(1,2) num le] by (elim exE conjE)
  have "2 < unat (ct_clients_num (hw_fence_client_types ?drv ! (HW_FENCE_MAX_CLIENT_TYPE_STATIC + 1)))"
    using small [of 1] by simp
  from ids [rule_format, OF _ this] have
    "hw_fence_ipcc_get_client_virt_id drv' (hw_fence_utils_get_client_id_priv sample_abi
        (hw_fence_client_types drv') 51) = Inr 129"
    using static(3,4) by (simp add: Let_def)
  with drv' sample_abi_ok show ?thesis by (intro conjI exI [of _ drv'])
qed

end
