(* ===== verification/HW_Fence_Api.thy ===== *)
theory HW_Fence_Api
  imports HW_Fence_Wait HW_Fence_Ipc
begin

text \<open>
  The functions that the hardware fence driver exports to its clients
  (\<open>src/msm_hw_fence.c\<close>), with the client cleanup and the signal initialisation they call
  (\<open>src/hw_fence_drv_priv.c\<close>) and the doorbell (\<open>src/hw_fence_drv_utils.c\<close>). The theorems show
  what a reset does to the table, that a registration that fails or is undone leaves the list
  of clients as it was, and that every sequence of calls keeps the driver well formed.
  \<open>hw_fence_drv_data\<close> is the driver data the functions get and return; that pointer being
  \<open>NULL\<close> or an error value has the outcome of a driver whose resources are not ready. A client
  handle is the index of its client, \<open>None\<close> for \<open>NULL\<close> or an error value.
\<close>

section \<open>Operations\<close>

subsection \<open>Clients\<close>

definition hw_fence_cleanup_client :: "hw_fence_driver_data \<Rightarrow> nat \<Rightarrow> hw_fence_driver_data" where
  "hw_fence_cleanup_client drv c = drv\<lparr>clients := (clients drv)[client_id (client_at drv c) := None]\<rparr>"

definition hw_fence_init_controller_signal ::
  "hw_fence_abi \<Rightarrow> hw_fence_driver_data \<Rightarrow> msm_hw_fence_client \<Rightarrow> hw_fence_driver_data result" where
  "hw_fence_init_controller_signal abi drv cl =
     (let cid = client_id cl in
      if cid = HW_FENCE_CLIENT_ID_CTX0 abi then Inr drv
      else if HW_FENCE_CLIENT_ID_VAL0 abi \<le> cid \<and> cid \<le> HW_FENCE_CLIENT_ID_VAL6 abi then Inr drv
      else if HW_FENCE_CLIENT_ID_CTL0 abi \<le> cid \<and> cid \<le> HW_FENCE_CLIENT_ID_CTL0 abi + 5 then
        (if \<not> ipcc_dpu_initialized drv
         then Inr (hw_fence_ipcc_enable_dpu_signaling (drv\<lparr>ipcc_dpu_initialized := True\<rparr>)) else Inr drv)
      else if cid = HW_FENCE_CLIENT_ID_IPE abi \<or> cid = HW_FENCE_CLIENT_ID_VPU abi then Inr drv
      else if HW_FENCE_CLIENT_ID_IFE abi 0 \<le> cid \<and>
              cid \<le> HW_FENCE_CLIENT_ID_IFE abi 7 + MSM_HW_FENCE_MAX_SIGNAL_PER_CLIENT abi - 1 then Inr drv
      else Inl EINVAL)"

definition hw_fence_init_controller_resources :: "msm_hw_fence_client \<Rightarrow> unit result" where
  "hw_fence_init_controller_resources cl = Inr ()"

definition zero_client :: msm_hw_fence_client where
  "zero_client = \<lparr>client_id = 0, client_id_ext = 0, queues = replicate HW_FENCE_CLIENT_QUEUES null_queue,
     ipc_signal_id = 0, ipc_client_vid = 0, ipc_client_pid = 0, update_rxq = False, send_ipc = False,
     skip_txq_wr_idx = False, val_signal = False\<rparr>"

text \<open>The part of the registration after the client is in the list; each error goes to the label
  \<open>error\<close>. A negative id is the error of its query.\<close>

definition register_setup ::
  "hw_fence_abi \<Rightarrow> hw_fence_io_mem \<Rightarrow> hw_fence_driver_data \<Rightarrow> msm_hw_fence_client \<Rightarrow>
   (msm_hw_fence_mem_addr \<times> msm_hw_fence_client \<times> hw_fence_driver_data) result" where
  "register_setup abi io drv cl =
     (let cid = client_id cl in
      case (hw_fence_ipcc_get_client_virt_id drv cid, hw_fence_ipcc_get_client_phys_id drv cid) of
        (Inr vid, Inr pid) \<Rightarrow>
          if vid \<le> 0 \<or> pid \<le> 0 then Inl EINVAL
          else
            (case hw_fence_ipcc_get_signal_id drv cid of
               Inl _ \<Rightarrow> Inl EINVAL
             | Inr signal_id \<Rightarrow>
                 if signal_id < 0 then Inl EINVAL
                 else
                   let cl = cl\<lparr>ipc_client_vid := vid, ipc_client_pid := pid, ipc_signal_id := signal_id,
                         update_rxq := hw_fence_ipcc_needs_rxq_update drv cid\<rparr>
                   in if update_rxq cl \<and>
                         qs_queues_num (hw_fence_client_queue_size drv ! cid) < of_nat HW_FENCE_CLIENT_QUEUES
                      then Inl EINVAL
                      else
                        let cl = cl\<lparr>send_ipc := hw_fence_ipcc_needs_ipc_irq abi drv cid,
                              skip_txq_wr_idx := hw_fence_utils_skips_txq_wr_idx drv cid\<rparr>
                        in (case hw_fence_alloc_client_resources abi io drv cl of
                              Inl e \<Rightarrow> Inl e
                            | Inr (desc, _, cl) \<Rightarrow>
                                (case hw_fence_init_controller_signal abi drv cl of
                                   Inl e \<Rightarrow> Inl e
                                 | Inr drv \<Rightarrow>
                                     (case hw_fence_init_controller_resources cl of
                                        Inl e \<Rightarrow> Inl e
                                      | Inr () \<Rightarrow> Inr (desc, cl, drv)))))
      | _ \<Rightarrow> Inl EINVAL)"

definition msm_hw_fence_register ::
  "hw_fence_abi \<Rightarrow> hw_fence_env \<Rightarrow> hw_fence_io_mem \<Rightarrow> hw_fence_driver_data \<Rightarrow> nat \<Rightarrow> bool \<Rightarrow>
   (nat \<times> msm_hw_fence_mem_addr) result \<times> hw_fence_driver_data" where
  "msm_hw_fence_register abi env io drv id_ext has_mem_descriptor =
     (if \<not> resources_ready drv then (Inl EAGAIN, drv)
      else if \<not> has_mem_descriptor \<or> HW_FENCE_CLIENT_MAX abi \<le> id_ext then (Inl EINVAL, drv)
      else
        let cid = hw_fence_utils_get_client_id_priv abi (hw_fence_client_types drv) id_ext
        in if HW_FENCE_CLIENT_MAX abi \<le> cid then (Inl EINVAL, drv)
           else if \<not> kzalloc_ok env ''client'' then (Inl ENOMEM, drv)
           else if clients drv ! cid \<noteq> None then (Inl EINVAL, drv)
           else
             let cl = zero_client\<lparr>client_id := cid, client_id_ext := id_ext\<rparr>;
                 drv = set_client cid cl drv
             in (case register_setup abi io drv cl of
                   Inl e \<Rightarrow> (Inl e, hw_fence_cleanup_client drv cid)
                 | Inr (desc, cl, drv) \<Rightarrow> (Inr (cid, desc), set_client cid cl drv)))"

definition msm_hw_fence_deregister ::
  "hw_fence_driver_data \<Rightarrow> nat option \<Rightarrow> unit result \<times> hw_fence_driver_data" where
  "msm_hw_fence_deregister drv client_handle =
     (case client_handle of
        None \<Rightarrow> (Inl EINVAL, drv)
      | Some c \<Rightarrow>
          if unat (clients_num drv) \<le> client_id (client_at drv c) then (Inl EINVAL, drv)
          else (Inr (), hw_fence_cleanup_client drv c))"

subsection \<open>Fences\<close>

text \<open>A fence pointer is \<open>None\<close> for \<open>NULL\<close>; \<open>has_handle\<close> tells whether \<open>params\<close> and its \<open>handle\<close>
  pointer are given. The result is the handle, the changed fence and the driver data.\<close>

definition msm_hw_fence_create ::
  "hw_fence_driver_data \<Rightarrow> nat option \<Rightarrow> dma_fence_obj option \<Rightarrow> bool \<Rightarrow>
   ((u64 \<times> dma_fence) \<times> hw_fence_driver_data) result" where
  "msm_hw_fence_create drv client_handle fence has_handle =
     (case (client_handle, fence) of
        (Some c, Some f) \<Rightarrow>
          if \<not> has_handle then Inl EINVAL
          else if \<not> vm_ready drv then Inl EAGAIN
          else
            (case f of
               DmaFenceArray _ _ \<Rightarrow> Inl EINVAL
             | DmaFence d \<Rightarrow>
                 if df_hw_enabled d then Inl EINVAL
                 else
                   (case hw_fence_create drv c (df_context d) (df_seqno d) of
                      Inl e \<Rightarrow> Inl e
                    | Inr (hash, drv) \<Rightarrow> Inr ((hash, d\<lparr>df_hw_enabled := True\<rparr>), drv)))
      | _ \<Rightarrow> Inl EINVAL)"

definition msm_hw_fence_destroy ::
  "hw_fence_driver_data \<Rightarrow> nat option \<Rightarrow> dma_fence_obj option \<Rightarrow> (dma_fence \<times> hw_fence_driver_data) result" where
  "msm_hw_fence_destroy drv client_handle fence =
     (case (client_handle, fence) of
        (Some c, Some f) \<Rightarrow>
          (case f of
             DmaFenceArray _ _ \<Rightarrow> Inl EINVAL
           | DmaFence d \<Rightarrow>
               if \<not> df_hw_enabled d then Inl EINVAL
               else
                 (case hw_fence_destroy drv c (df_context d) (df_seqno d) of
                    Inl e \<Rightarrow> Inl e
                  | Inr drv \<Rightarrow> Inr (d\<lparr>df_hw_enabled := False\<rparr>, drv)))
      | _ \<Rightarrow> Inl EINVAL)"

definition msm_hw_fence_destroy_with_handle ::
  "hw_fence_driver_data \<Rightarrow> nat option \<Rightarrow> u64 \<Rightarrow> hw_fence_driver_data result" where
  "msm_hw_fence_destroy_with_handle drv client_handle handle =
     (case client_handle of
        None \<Rightarrow> Inl EINVAL
      | Some c \<Rightarrow>
          if unat (clients_num drv) \<le> client_id (client_at drv c) then Inl EINVAL
          else hw_fence_destroy_with_hash drv c handle)"

text \<open>The loop over the fence list. The result is the error, if any, the handles and signalled
  marks of the fences before it, and the driver data.\<close>

fun wait_loop ::
  "hw_fence_abi \<Rightarrow> nat \<Rightarrow> (dma_fence_obj \<times> u64) list \<Rightarrow> hw_fence_driver_data \<Rightarrow>
   unit result \<times> (u64 \<times> bool) list \<times> hw_fence_driver_data" where
  "wait_loop abi c [] drv = (Inr (), [], drv)"
| "wait_loop abi c ((fence, client_data) # rest) drv =
     (case (case fence of
              DmaFenceArray base fences \<Rightarrow> hw_fence_process_fence_array abi drv c base fences client_data
            | DmaFence d \<Rightarrow>
                (case hw_fence_process_fence abi drv c d client_data of
                   Inl e \<Rightarrow> (Inl e, drv)
                 | Inr (r, drv) \<Rightarrow> (Inr r, drv))) of
        (Inl e, drv) \<Rightarrow> (Inl e, [], drv)
      | (Inr r, drv) \<Rightarrow>
          let (res, rs, drv) = wait_loop abi c rest drv in (res, r # rs, drv))"

text \<open>\<open>fence_list\<close> is \<open>None\<close> when the pointer or its first entry is \<open>NULL\<close>; the caller's arrays
  have at least \<open>num_fences\<close> entries.\<close>

definition msm_hw_fence_wait_update_v2 ::
  "hw_fence_abi \<Rightarrow> hw_fence_driver_data \<Rightarrow> nat option \<Rightarrow> dma_fence_obj list option \<Rightarrow> u64 list option \<Rightarrow> nat \<Rightarrow>
   unit result \<times> (u64 \<times> bool) list \<times> hw_fence_driver_data" where
  "msm_hw_fence_wait_update_v2 abi drv client_handle fence_list client_data_list num =
     (case (client_handle, fence_list) of
        (Some c, Some fs) \<Rightarrow>
          if \<not> vm_ready drv then (Inl EAGAIN, [], drv)
          else
            let cid = client_id (client_at drv c) in
            if client_data_list \<noteq> None \<and> hw_fence_get_client_data_id abi cid = HW_FENCE_MAX_CLIENTS_WITH_DATA
            then (Inl EINVAL, [], drv)
            else if unat (rxq_clients_num drv) < cid then (Inl EINVAL, [], drv)
            else wait_loop abi c
              (zip (take num fs) (case client_data_list of None \<Rightarrow> replicate num 0 | Some ds \<Rightarrow> ds)) drv
      | _ \<Rightarrow> (Inl EINVAL, [], drv))"

definition msm_hw_fence_wait_update ::
  "hw_fence_abi \<Rightarrow> hw_fence_driver_data \<Rightarrow> nat option \<Rightarrow> dma_fence_obj list option \<Rightarrow> nat \<Rightarrow>
   unit result \<times> (u64 \<times> bool) list \<times> hw_fence_driver_data" where
  "msm_hw_fence_wait_update abi drv client_handle fence_list num =
     msm_hw_fence_wait_update_v2 abi drv client_handle fence_list None num"

subsection \<open>Reset and signals\<close>

definition reset_fences ::
  "hw_fence_abi \<Rightarrow> nat \<Rightarrow> u32 \<Rightarrow> nat list \<Rightarrow> hw_fence_driver_data \<Rightarrow> hw_fence_driver_data" where
  "reset_fences abi c reset_flags =
     fold (\<lambda>i drv. snd (hw_fence_utils_cleanup_fence abi drv c i reset_flags))"

definition msm_hw_fence_reset_client ::
  "hw_fence_abi \<Rightarrow> hw_fence_driver_data \<Rightarrow> nat option \<Rightarrow> u32 \<Rightarrow> unit result \<times> hw_fence_driver_data" where
  "msm_hw_fence_reset_client abi drv client_handle reset_flags =
     (case client_handle of
        None \<Rightarrow> (Inl EINVAL, drv)
      | Some c \<Rightarrow>
          if \<not> vm_ready drv then (Inl EAGAIN, drv)
          else
            let drv = reset_fences abi c reset_flags [0..<unat (hw_fences_tbl_cnt drv)] drv
            in (Inr (), hw_fence_utils_reset_queues drv c))"

definition msm_hw_fence_reset_client_by_id ::
  "hw_fence_abi \<Rightarrow> hw_fence_driver_data \<Rightarrow> nat \<Rightarrow> u32 \<Rightarrow> unit result \<times> hw_fence_driver_data" where
  "msm_hw_fence_reset_client_by_id abi drv id_ext reset_flags =
     (if HW_FENCE_CLIENT_MAX abi \<le> id_ext then (Inl EINVAL, drv)
      else
        let cid = hw_fence_utils_get_client_id_priv abi (hw_fence_client_types drv) id_ext
        in if HW_FENCE_CLIENT_MAX abi \<le> cid then (Inl EINVAL, drv)
           else msm_hw_fence_reset_client abi drv
             (case clients drv ! cid of None \<Rightarrow> None | Some _ \<Rightarrow> Some cid) reset_flags)"

text \<open>The result of the queue update is ignored.\<close>

definition msm_hw_fence_update_txq ::
  "hw_fence_driver_data \<Rightarrow> nat option \<Rightarrow> u64 \<Rightarrow> u64 \<Rightarrow> u32 \<Rightarrow> unit result \<times> hw_fence_driver_data" where
  "msm_hw_fence_update_txq drv client_handle handle flags error =
     (if \<not> resources_ready drv \<or> \<not> vm_ready drv then (Inl EAGAIN, drv)
      else
        case client_handle of
          None \<Rightarrow> (Inl EINVAL, drv)
        | Some c \<Rightarrow>
            if ucast (hw_fences_tbl_cnt drv) \<le> handle then (Inl EINVAL, drv)
            else
              let f = hw_fences_tbl drv ! unat handle
              in (Inr (), case hw_fence_update_queue drv c (hf_ctx_id f, hf_seq_id f, handle, flags, 0, error)
                           (HW_FENCE_TX_QUEUE - 1) of
                        Inl _ \<Rightarrow> drv
                      | Inr drv \<Rightarrow> drv))"

definition msm_hw_fence_trigger_signal ::
  "hw_fence_driver_data \<Rightarrow> nat option \<Rightarrow> u32 \<Rightarrow> u32 \<Rightarrow> u32 \<Rightarrow> unit result \<times> hw_fence_driver_data" where
  "msm_hw_fence_trigger_signal drv client_handle tx_client_pid rx_client_vid signal_id =
     (if \<not> resources_ready drv \<or> \<not> vm_ready drv then (Inl EAGAIN, drv)
      else
        case client_handle of
          None \<Rightarrow> (Inl EINVAL, drv)
        | Some c \<Rightarrow> (Inr (), hw_fence_ipcc_trigger_signal drv tx_client_pid rx_client_vid signal_id))"

subsection \<open>Doorbell\<close>

text \<open>The ids of \<open>enum hw_fence_loopback_id\<close>: six display paths, the graphics context, and the
  validation clients under their client ids. \<open>ctl_start\<close> tells which display registers are
  mapped; the write to such a register is disabled in the source.\<close>

definition process_dpu_client_loopback :: "(nat \<Rightarrow> bool) \<Rightarrow> nat \<Rightarrow> unit result" where
  "process_dpu_client_loopback ctl_start ctl_id =
     (if 5 < ctl_id then Inl EINVAL else if \<not> ctl_start ctl_id then Inl EINVAL else Inr ())"

definition process_doorbell_client ::
  "hw_fence_abi \<Rightarrow> (nat \<Rightarrow> bool) \<Rightarrow> hw_fence_driver_data \<Rightarrow> nat \<Rightarrow>
   (unit result \<times> hw_fence_driver_data) option" where
  "process_doorbell_client abi ctl_start drv cid =
     (if cid \<le> 5 then Some (process_dpu_client_loopback ctl_start cid, drv)
      else if cid = 6 then process_gfx_client_loopback abi drv empty_payload
      else if HW_FENCE_CLIENT_ID_VAL0 abi \<le> cid \<and> cid \<le> HW_FENCE_CLIENT_ID_VAL0 abi + 6
      then Some (process_validation_client_loopback abi drv cid)
      else Some (Inl EINVAL, drv))"

text \<open>The loop over the ids; a pending id is served and cleared, and the loop ends early when
  nothing is pending. \<open>None\<close> is a loopback that does not return.\<close>

fun doorbell_loop ::
  "hw_fence_abi \<Rightarrow> (nat \<Rightarrow> bool) \<Rightarrow> nat list \<Rightarrow> u64 \<Rightarrow> hw_fence_driver_data \<Rightarrow> hw_fence_driver_data option" where
  "doorbell_loop abi ctl_start [] db_flags drv = Some drv"
| "doorbell_loop abi ctl_start (cid # ids) db_flags drv =
     (if BIT64 cid AND db_flags \<noteq> 0 then
        (case process_doorbell_client abi ctl_start drv cid of
           None \<Rightarrow> None
         | Some (_, drv) \<Rightarrow>
             let db_flags = db_flags AND NOT (BIT64 cid)
             in if db_flags = 0 then Some drv else doorbell_loop abi ctl_start ids db_flags drv)
      else doorbell_loop abi ctl_start ids db_flags drv)"

definition hw_fence_utils_process_doorbell_mask ::
  "hw_fence_abi \<Rightarrow> (nat \<Rightarrow> bool) \<Rightarrow> hw_fence_driver_data \<Rightarrow> u64 \<Rightarrow> hw_fence_driver_data option" where
  "hw_fence_utils_process_doorbell_mask abi ctl_start drv db_flags =
     doorbell_loop abi ctl_start [0..<HW_FENCE_CLIENT_ID_VAL0 abi + 7] db_flags drv"

definition msm_hw_fence_driver_doorbell_sim ::
  "hw_fence_abi \<Rightarrow> (nat \<Rightarrow> bool) \<Rightarrow> hw_fence_driver_data \<Rightarrow> u64 \<Rightarrow>
   (unit result \<times> hw_fence_driver_data) option" where
  "msm_hw_fence_driver_doorbell_sim abi ctl_start drv db_mask =
     (if \<not> resources_ready drv then Some (Inl EAGAIN, drv)
      else map_option (\<lambda>drv. (Inr (), drv)) (hw_fence_utils_process_doorbell_mask abi ctl_start drv db_mask))"

section \<open>Reset of a client\<close>

text \<open>What a reset makes of one entry: the client no longer waits on it, and an entry the client
  allocated is freed unless the caller asked to keep it.\<close>

definition clear_wait :: "nat \<Rightarrow> msm_hw_fence \<Rightarrow> msm_hw_fence" where
  "clear_wait c f = f\<lparr>hf_wait_client_mask := hf_wait_client_mask f AND NOT (BIT64 c)\<rparr>"

definition reset_entry :: "hw_fence_abi \<Rightarrow> nat \<Rightarrow> u32 \<Rightarrow> msm_hw_fence \<Rightarrow> msm_hw_fence" where
  "reset_entry abi c reset_flags f =
     (if hf_fence_allocator f = of_nat c \<and> reset_flags AND MSM_HW_FENCE_RESET_WITHOUT_DESTROY abi = 0
      then unreserve_hw_fence (clear_wait c f) else clear_wait c f)"

text \<open>A free entry belongs to nobody, and no client has the id 0.\<close>

definition free_clean :: "hw_fence_driver_data \<Rightarrow> bool" where
  "free_clean drv \<longleftrightarrow> (\<forall>f\<in>set (hw_fences_tbl drv). \<not> in_use f \<longrightarrow> hf_fence_allocator f = 0)"

text \<open>\<open>beside_table drv d\<close>: apart from the table, only queues, wake-up flags and the log differ.\<close>

definition beside_table :: "hw_fence_driver_data \<Rightarrow> hw_fence_driver_data \<Rightarrow> bool" where
  "beside_table drv d \<longleftrightarrow> queues_only drv (d\<lparr>hw_fences_tbl := hw_fences_tbl drv\<rparr>)"

lemma and_not_absent:
  assumes "(m :: u64) AND b = 0"
  shows "m AND NOT b = m"
proof -
  have "m = (m AND b) OR (m AND NOT b)" by (simp flip: bit.conj_disj_distrib)
  with assms show ?thesis by simp
qed

lemma clear_wait_if:
  "(if hf_wait_client_mask f AND BIT64 c \<noteq> 0
    then f\<lparr>hf_wait_client_mask := hf_wait_client_mask f AND NOT (BIT64 c)\<rparr> else f) = clear_wait c f"
  by (simp add: clear_wait_def and_not_absent)

lemma clear_wait_simps [simp]:
  "fence_key (clear_wait c f) = fence_key f" "in_use (clear_wait c f) = in_use f"
  "hf_fence_allocator (clear_wait c f) = hf_fence_allocator f" "hf_flags (clear_wait c f) = hf_flags f"
  "hf_ctx_id (clear_wait c f) = hf_ctx_id f" "hf_seq_id (clear_wait c f) = hf_seq_id f"
  by (simp_all add: clear_wait_def fence_key_def in_use_def)

lemma clear_wait_waits [simp]: "\<not> waits_on (clear_wait c f) c"
  by (simp add: clear_wait_def waits_on_def and.assoc)

lemma beside_table_tbl:
  assumes "queues_only (drv\<lparr>hw_fences_tbl := T\<rparr>) d"
  shows "beside_table drv d" "hw_fences_tbl d = T"
proof -
  from assms obtain cs l where d: "d = drv\<lparr>hw_fences_tbl := T\<rparr>\<lparr>clients := cs, ipcc_log := l\<rparr>"
    "map (map_option client_core) cs = map (map_option client_core) (clients (drv\<lparr>hw_fences_tbl := T\<rparr>))"
    unfolding queues_only_def by blast
  then have "d\<lparr>hw_fences_tbl := hw_fences_tbl drv\<rparr> = drv\<lparr>clients := cs, ipcc_log := l\<rparr>" by (cases drv) simp
  with d show "beside_table drv d"
    unfolding beside_table_def queues_only_def by (intro exI [of _ cs] exI [of _ l]) simp
  show "hw_fences_tbl d = T" by (simp add: d)
qed

lemma beside_table_update [simp]:
  "beside_table drv (set_fence i f d) = beside_table drv d"
  "beside_table drv (d\<lparr>hw_fences_tbl := T\<rparr>) = beside_table drv d"
  by (simp_all add: beside_table_def set_fence_def)

lemma registered_tbl [simp]: "registered (d\<lparr>hw_fences_tbl := T\<rparr>) c = registered d c"
  by (simp add: registered_def)

lemma handles_ok_tbl [simp]: "handles_ok (d\<lparr>hw_fences_tbl := T\<rparr>) C = handles_ok d C"
  by (simp add: handles_ok_def)

lemma beside_tableD:
  assumes "beside_table drv d"
  shows "registered d c = registered drv c" "handles_ok drv C \<Longrightarrow> handles_ok d C"
    "hw_fence_table_entries d = hw_fence_table_entries drv" "rxq_clients_num d = rxq_clients_num drv"
  using registered_queues_only [OF assms [unfolded beside_table_def]]
    handles_ok_queues_only [OF assms [unfolded beside_table_def]]
    queues_only_fields [OF assms [unfolded beside_table_def]]
  by simp_all

lemma beside_table_trans:
  assumes "beside_table a b" "beside_table b c"
  shows "beside_table a c"
proof -
  from assms(2) have "queues_only (b\<lparr>hw_fences_tbl := hw_fences_tbl a\<rparr>) (c\<lparr>hw_fences_tbl := hw_fences_tbl a\<rparr>)"
    unfolding beside_table_def queues_only_def by (elim exE conjE, cases b, cases c) auto
  with assms(1) show ?thesis unfolding beside_table_def by (rule queues_only_trans)
qed

lemma cleanup_fence_step:
  assumes wf: "table_wf drv" and reg: "registered drv c" and handles: "handles_ok drv {..unat (rxq_clients_num drv)}"
    and i: "i < length (hw_fences_tbl drv)"
    and free: "\<not> in_use (hw_fences_tbl drv ! i) \<Longrightarrow> hf_fence_allocator (hw_fences_tbl drv ! i) \<noteq> of_nat c"
    and d_def: "d = snd (hw_fence_utils_cleanup_fence abi drv c i reset_flags)"
  shows "hw_fences_tbl d = (hw_fences_tbl drv)[i := reset_entry abi c reset_flags (hw_fences_tbl drv ! i)]"
    and "table_wf d" and "beside_table drv d"
proof -
  let ?f = "clear_wait c (hw_fences_tbl drv ! i)" and ?T = "hw_fences_tbl drv"
  let ?drv1 = "drv\<lparr>hw_fences_tbl := ?T[i := ?f]\<rparr>"
  let ?error = "if reset_flags AND MSM_HW_FENCE_RESET_WITHOUT_ERROR abi \<noteq> 0 then 0 else MSM_HW_FENCE_ERROR_RESET abi"
  let ?drv2 = "if hf_flags (?T ! i) AND MSM_HW_FENCE_FLAG_SIGNAL = 0
    then signal_all_wait_clients abi ?drv1 ?f (of_nat i) ?error else ?drv1"
  let ?own = "hf_fence_allocator (?T ! i) = of_nat c"
  let ?keep = "reset_flags AND MSM_HW_FENCE_RESET_WITHOUT_DESTROY abi \<noteq> 0"
  have cid: "client_id (client_at drv c) = c" using reg by (simp add: registered_def)
  have d: "d = (if \<not> ?own then ?drv1 else if ?keep then ?drv2
      else case hw_fence_destroy ?drv2 c (hf_ctx_id (?T ! i)) (hf_seq_id (?T ! i)) of Inl e \<Rightarrow> ?drv2 | Inr d \<Rightarrow> d)"
    unfolding d_def hw_fence_utils_cleanup_fence_def Let_def cid clear_wait_if set_fence_def
    by (simp split: sum.splits)
  have wf1: "table_wf ?drv1" using wf i by (intro table_wf_cong) (auto simp: nth_list_update)
  have "handles_ok ?drv1 (set [0..<Suc (unat (rxq_clients_num ?drv1))])"
    using handles by (simp add: handles_ok_def atMost_Suc lessThan_Suc_atMost atLeast0LessThan)
  then have "queues_only ?drv1 ?drv2"
    unfolding signal_all_wait_clients_def by (simp add: signal_loop_only(1))
  note b2 = beside_table_tbl [OF this]
  have wf2: "table_wf ?drv2" using wf1 by (rule table_wf_same [THEN iffD1, rotated 2]) (use b2 beside_tableD(3) in auto)
  have destroy: "hw_fence_destroy ?drv2 c (hf_ctx_id (?T ! i)) (hf_seq_id (?T ! i)) =
      Inr (set_fence i (unreserve_hw_fence ?f) ?drv2) \<and> table_wf (set_fence i (unreserve_hw_fence ?f) ?drv2)" if ?own
  proof -
    have use: "in_use ?f" using free that by auto
    have key: "(hf_ctx_id (?T ! i), hf_seq_id (?T ! i)) \<noteq> (0, 0)"
      using wf i use nth_mem [OF i] by (auto simp: table_wf_def fence_key_def)
    have at_i: "hw_fences_tbl ?drv2 ! i = ?f" "i < length (hw_fences_tbl ?drv2)" using b2(2) i by simp_all
    then have "fence_map ?drv2 (hf_ctx_id (?T ! i), hf_seq_id (?T ! i)) = Some ?f"
      using use by (auto simp: fence_map_Some [OF wf2] fence_key_def)
    with cleanup_spec [OF wf2 key, of "of_nat (client_id (client_at ?drv2 c))"] obtain j where
      j: "j < length (hw_fences_tbl ?drv2)" "hw_fences_tbl ?drv2 ! j = ?f"
        "hw_fence_cleanup ?drv2 (of_nat (client_id (client_at ?drv2 c))) (hf_ctx_id (?T ! i)) (hf_seq_id (?T ! i)) =
           Inr (set_fence j (unreserve_hw_fence ?f) ?drv2)"
        "table_wf (set_fence j (unreserve_hw_fence ?f) ?drv2)"
      by auto
    then have "j = i" using table_wf_unique [OF wf2 j(1) at_i(2)] at_i(1) use by simp
    with j show ?thesis by (simp add: hw_fence_destroy_def)
  qed
  have b1: "beside_table drv ?drv1" by (simp add: beside_table_def)
  show "hw_fences_tbl d = ?T[i := reset_entry abi c reset_flags (?T ! i)]" "table_wf d" "beside_table drv d"
    using destroy wf1 wf2 b1 b2 by (auto simp: d reset_entry_def)
qed

lemma reset_fences_spec:
  assumes wf: "table_wf drv" and reg: "registered drv c" and handles: "handles_ok drv {..unat (rxq_clients_num drv)}"
    and free: "\<And>f. f \<in> set (hw_fences_tbl drv) \<Longrightarrow> \<not> in_use f \<Longrightarrow> hf_fence_allocator f \<noteq> of_nat c"
    and k: "k \<le> length (hw_fences_tbl drv)"
  shows "hw_fences_tbl (reset_fences abi c reset_flags [0..<k] drv) =
      map (reset_entry abi c reset_flags) (take k (hw_fences_tbl drv)) @ drop k (hw_fences_tbl drv) \<and>
    table_wf (reset_fences abi c reset_flags [0..<k] drv) \<and>
    beside_table drv (reset_fences abi c reset_flags [0..<k] drv)"
  using k
proof (induction k)
  case 0
  then show ?case using wf by (simp add: reset_fences_def beside_table_def)
next
  case (Suc k)
  let ?T = "hw_fences_tbl drv" and ?r = "reset_entry abi c reset_flags"
  let ?d = "reset_fences abi c reset_flags [0..<k] drv"
  from Suc have IH: "hw_fences_tbl ?d = map ?r (take k ?T) @ drop k ?T" "table_wf ?d" "beside_table drv ?d"
    and k: "k < length ?T"
    by simp_all
  note same = beside_tableD [OF IH(3)]
  have at_k: "hw_fences_tbl ?d ! k = ?T ! k" "k < length (hw_fences_tbl ?d)"
    using k by (simp_all add: IH(1) nth_append)
  note step = cleanup_fence_step [OF IH(2) _ _ at_k(2) _ refl, of c abi reset_flags, unfolded at_k(1)]
  have "reset_fences abi c reset_flags [0..<Suc k] drv = snd (hw_fence_utils_cleanup_fence abi ?d c k reset_flags)"
    by (simp add: reset_fences_def)
  moreover have "(map ?r (take k ?T) @ drop k ?T)[k := ?r (?T ! k)] = map ?r (take (Suc k) ?T) @ drop (Suc k) ?T"
    using k by (simp add: list_update_append take_Suc_conv_app_nth Cons_nth_drop_Suc [symmetric])
  ultimately show ?case
    using step beside_table_trans [OF IH(3)] same reg handles free k by (simp add: IH(1))
qed

lemma reset_queues_table [simp]:
  "hw_fences_tbl (hw_fence_utils_reset_queues drv c) = hw_fences_tbl drv"
  "hw_fence_table_entries (hw_fence_utils_reset_queues drv c) = hw_fence_table_entries drv"
  by (simp_all add: hw_fence_utils_reset_queues_def Let_def set_client_def)

lemma reset_entry_in_use:
  "in_use (reset_entry abi c reset_flags f) \<longleftrightarrow> in_use f \<and>
     \<not> (hf_fence_allocator f = of_nat c \<and> reset_flags AND MSM_HW_FENCE_RESET_WITHOUT_DESTROY abi = 0)"
  by (simp add: reset_entry_def)

lemma fence_map_reset:
  assumes wf: "table_wf drv" "table_wf drv'"
    and tbl: "hw_fences_tbl drv' = map (reset_entry abi c reset_flags) (hw_fences_tbl drv)"
  shows "fence_map drv' = (\<lambda>key. case fence_map drv key of
        None \<Rightarrow> None
      | Some f \<Rightarrow>
          if hf_fence_allocator f = of_nat c \<and> reset_flags AND MSM_HW_FENCE_RESET_WITHOUT_DESTROY abi = 0 then None
          else Some (clear_wait c f))"
proof
  fix key
  let ?T = "hw_fences_tbl drv" and ?r = "reset_entry abi c reset_flags"
  let ?gone = "\<lambda>f. hf_fence_allocator f = of_nat c \<and> reset_flags AND MSM_HW_FENCE_RESET_WITHOUT_DESTROY abi = 0"
  show "fence_map drv' key = (case fence_map drv key of None \<Rightarrow> None | Some f \<Rightarrow> if ?gone f then None else Some (clear_wait c f))"
  proof (cases "fence_map drv key")
    case None
    then have "fence_map drv' key = None"
      by (auto simp: fence_map_None tbl reset_entry_in_use) (auto simp: reset_entry_def split: if_splits)
    with None show ?thesis by simp
  next
    case (Some f)
    then obtain i where i: "i < length ?T" "?T ! i = f" "in_use f" "fence_key f = key"
      by (auto simp: fence_map_Some [OF wf(1)])
    show ?thesis
    proof (cases "?gone f")
      case True
      have "fence_key (?r g) \<noteq> key" if "g \<in> set ?T" "in_use (?r g)" for g
      proof
        assume "fence_key (?r g) = key"
        with that(2) have g: "fence_key g = fence_key f" "in_use g"
          using i(4) by (auto simp: reset_entry_def split: if_splits)
        from that(1) obtain j where "j < length ?T" "?T ! j = g" by (auto simp: in_set_conv_nth)
        with table_wf_unique [OF wf(1) _ i(1), of j] g i(2) have "g = f" by auto
        with that(2) True show False by (simp add: reset_entry_in_use)
      qed
      then have "fence_map drv' key = None" by (auto simp: fence_map_None tbl)
      with Some True show ?thesis by simp
    next
      case False
      then have "fence_map drv' key = Some (clear_wait c f)"
        using i by (auto simp: fence_map_Some [OF wf(2)] tbl reset_entry_def intro!: exI [of _ i])
      with Some False show ?thesis by auto
    qed
  qed
qed

text \<open>C22. The reset of a client on a well formed driver: it succeeds, and afterwards the map of the
  table has lost exactly the fences the client allocated, unless the caller asked not to
  destroy them; no fence has the client among its waiters, and every fence that is left is
  otherwise as before.\<close>

theorem msm_hw_fence_reset_client_correct:
  assumes wf: "table_wf drv" "free_clean drv" and reg: "registered drv c" and id: "0 < c" "c < 2 ^ 32"
    and handles: "handles_ok drv {..unat (rxq_clients_num drv)}" and vm: "vm_ready drv"
    and cnt: "hw_fences_tbl_cnt drv = hw_fence_table_entries drv"
    and reset: "msm_hw_fence_reset_client abi drv (Some c) reset_flags = (res, drv')"
  shows "res = Inr () \<and> table_wf drv' \<and>
    fence_map drv' = (\<lambda>key. case fence_map drv key of
        None \<Rightarrow> None
      | Some f \<Rightarrow>
          if hf_fence_allocator f = of_nat c \<and> reset_flags AND MSM_HW_FENCE_RESET_WITHOUT_DESTROY abi = 0 then None
          else Some (clear_wait c f))"
proof -
  let ?T = "hw_fences_tbl drv" and ?r = "reset_entry abi c reset_flags"
  let ?d = "reset_fences abi c reset_flags [0..<unat (hw_fences_tbl_cnt drv)] drv"
  have "(of_nat c :: u32) \<noteq> 0"
    using id unat_of_nat_u32 [of c] by (metis less_numeral_extra(3) unat_0)
  then have free: "hf_fence_allocator f \<noteq> of_nat c" if "f \<in> set ?T" "\<not> in_use f" for f
    using wf(2) that by (auto simp: free_clean_def)
  have len: "unat (hw_fences_tbl_cnt drv) = length ?T" using wf(1) cnt by (simp add: table_wf_def)
  have d: "hw_fences_tbl ?d = map ?r ?T" "table_wf ?d"
    using reset_fences_spec [OF wf(1) reg handles free order.refl, of abi reset_flags] by (simp_all add: len)
  have drv': "res = Inr ()" "drv' = hw_fence_utils_reset_queues ?d c"
    using reset vm by (simp_all add: msm_hw_fence_reset_client_def Let_def)
  have wf': "table_wf drv'" using d(2) by (simp add: drv'(2) table_wf_same [of "hw_fence_utils_reset_queues ?d c" ?d])
  have tbl: "hw_fences_tbl drv' = map ?r ?T" using d(1) by (simp add: drv'(2))
  from drv'(1) wf' fence_map_reset [OF wf(1) wf' tbl] show ?thesis by blast
qed

section \<open>Registration\<close>

lemma dpu_signals_only: "\<exists>ws. dpu_signals protocol e cls drv = drv\<lparr>ipcc_writes := ws\<rparr>"
proof (induction cls arbitrary: e drv)
  case Nil
  show ?case by (intro exI [of _ "ipcc_writes drv"]) simp
next
  case (Cons cl cls)
  have "\<exists>ws. d = drv\<lparr>ipcc_writes := ws\<rparr> \<Longrightarrow> \<exists>ws. dpu_signals protocol e cls d = drv\<lparr>ipcc_writes := ws\<rparr>" for d e
    using Cons.IH [of e d] by auto
  then show ?case using Cons.IH by (auto simp: Let_def ipcc_write_def)
qed

text \<open>What the rest of a registration changes: fields of the new client and the initialisation of
  the display's signals.\<close>

lemma init_controller_signal_only:
  assumes "hw_fence_init_controller_signal abi drv cl = Inr drv'"
  obtains b ws where "drv' = drv\<lparr>ipcc_dpu_initialized := b, ipcc_writes := ws\<rparr>"
proof -
  have same: "drv = drv\<lparr>ipcc_dpu_initialized := ipcc_dpu_initialized drv, ipcc_writes := ipcc_writes drv\<rparr>" by simp
  have "\<exists>ws. hw_fence_ipcc_enable_dpu_signaling (drv\<lparr>ipcc_dpu_initialized := True\<rparr>) =
      drv\<lparr>ipcc_dpu_initialized := True, ipcc_writes := ws\<rparr>"
    using dpu_signals_only [of "protocol_id drv" False _ "drv\<lparr>ipcc_dpu_initialized := True\<rparr>"]
    by (auto simp: hw_fence_ipcc_enable_dpu_signaling_def intro!: exI [of _ "ipcc_writes drv"])
  moreover have "drv' = drv \<or> drv' = hw_fence_ipcc_enable_dpu_signaling (drv\<lparr>ipcc_dpu_initialized := True\<rparr>)"
    using assms by (auto simp: hw_fence_init_controller_signal_def Let_def split: if_splits)
  ultimately show thesis using same that by metis
qed

lemma register_setup_only:
  assumes "register_setup abi io drv cl = Inr (desc, cl', drv')"
  shows "client_id cl' = client_id cl" "client_id_ext cl' = client_id_ext cl"
    "\<exists>b ws. drv' = drv\<lparr>ipcc_dpu_initialized := b, ipcc_writes := ws\<rparr>"
    "\<exists>r. hw_fence_utils_reserve_mem drv HW_FENCE_MEM_RESERVE_CLIENT_QUEUE (client_id cl) = Inr r"
proof -
  from assms have "hw_fence_init_controller_signal abi drv cl' = Inr drv'"
    by (auto simp: register_setup_def Let_def split: sum.splits if_splits unit.splits)
  then show "\<exists>b ws. drv' = drv\<lparr>ipcc_dpu_initialized := b, ipcc_writes := ws\<rparr>"
    by (rule init_controller_signal_only) blast
  from assms obtain cl1 table where alloc: "hw_fence_alloc_client_resources abi io drv cl1 = Inr (desc, table, cl')"
    and cl1: "client_id cl1 = client_id cl" "client_id_ext cl1 = client_id_ext cl"
    by (auto simp: register_setup_def Let_def split: sum.splits if_splits unit.splits)
  then show "client_id cl' = client_id cl" "client_id_ext cl' = client_id_ext cl"
    "\<exists>r. hw_fence_utils_reserve_mem drv HW_FENCE_MEM_RESERVE_CLIENT_QUEUE (client_id cl) = Inr r"
    by (auto simp: hw_fence_alloc_client_resources_def init_hw_fences_queues_def Let_def split: sum.splits if_splits)
qed

lemma reserve_mem_set_client [simp]:
  "hw_fence_utils_reserve_mem (set_client c cl drv) mtype cid = hw_fence_utils_reserve_mem drv mtype cid"
  by (cases mtype) (simp_all add: hw_fence_utils_reserve_mem_def mem_region_def set_client_def)

text \<open>The clients' list has an entry for every id that is handed out.\<close>

definition clients_sized :: "hw_fence_abi \<Rightarrow> hw_fence_driver_data \<Rightarrow> bool" where
  "clients_sized abi drv \<longleftrightarrow>
     length (clients drv) = HW_FENCE_CLIENT_ID_IFE abi 0 + type_sum (hw_fence_client_types drv) 8 \<and>
     unat (clients_num drv) = length (clients drv)"

lemma register_cases:
  assumes abi: "abi_ok abi" and sized: "clients_sized abi drv"
  obtains (failed) e where "msm_hw_fence_register abi env io drv ext has = (Inl e, drv)"
  | (registered) c desc cl b ws where "msm_hw_fence_register abi env io drv ext has =
        (Inr (c, desc), drv\<lparr>clients := (clients drv)[c := Some cl], ipcc_dpu_initialized := b, ipcc_writes := ws\<rparr>)"
      "c = hw_fence_utils_get_client_id_priv abi (hw_fence_client_types drv) ext" "c < length (clients drv)"
      "clients drv ! c = None" "client_id cl = c" "client_id_ext cl = ext"
      "\<exists>r. hw_fence_utils_reserve_mem drv HW_FENCE_MEM_RESERVE_CLIENT_QUEUE c = Inr r"
proof -
  let ?c = "hw_fence_utils_get_client_id_priv abi (hw_fence_client_types drv) ext"
  let ?cl = "zero_client\<lparr>client_id := ?c, client_id_ext := ext\<rparr>"
  let ?drv = "set_client ?c ?cl drv"
  show thesis
  proof (cases "resources_ready drv \<and> has \<and> ext < HW_FENCE_CLIENT_MAX abi \<and> ?c < HW_FENCE_CLIENT_MAX abi \<and>
      kzalloc_ok env ''client'' \<and> clients drv ! ?c = None")
    case False
    then have "\<exists>e. msm_hw_fence_register abi env io drv ext has = (Inl e, drv)"
      unfolding msm_hw_fence_register_def Let_def by (auto simp: not_le)
    with failed show thesis by blast
  next
    case True
    then have c: "?c < length (clients drv)"
      using get_client_id_priv_less [OF abi, of ext "hw_fence_client_types drv"] sized by (simp add: clients_sized_def)
    have reg: "msm_hw_fence_register abi env io drv ext has = (case register_setup abi io ?drv ?cl of
        Inl e \<Rightarrow> (Inl e, hw_fence_cleanup_client ?drv ?c)
      | Inr (desc, cl, d) \<Rightarrow> (Inr (?c, desc), set_client ?c cl d))"
      using True by (simp add: msm_hw_fence_register_def Let_def not_le)
    have clean: "hw_fence_cleanup_client ?drv ?c = drv"
      using c True by (simp add: hw_fence_cleanup_client_def)
        (simp add: set_client_def list_update_same_conv [THEN iffD2])
    show thesis
    proof (cases "register_setup abi io ?drv ?cl")
      case (Inl e)
      with reg clean failed show thesis by simp
    next
      case (Inr r)
      then obtain desc cl d where r: "register_setup abi io ?drv ?cl = Inr (desc, cl, d)" by (cases r) auto
      note only = register_setup_only [OF r]
      from only(3) obtain b ws where d: "d = ?drv\<lparr>ipcc_dpu_initialized := b, ipcc_writes := ws\<rparr>" by blast
      have "\<exists>r. hw_fence_utils_reserve_mem drv HW_FENCE_MEM_RESERVE_CLIENT_QUEUE ?c = Inr r"
        using only(4) by simp
      moreover have "set_client ?c cl d =
          drv\<lparr>clients := (clients drv)[?c := Some cl], ipcc_dpu_initialized := b, ipcc_writes := ws\<rparr>"
        by (simp add: d set_client_def)
      ultimately show thesis
        using registered [where c = ?c and desc = desc and cl = cl and b = b and ws = ws] c True only(1,2) reg r by simp
    qed
  qed
qed


section \<open>Sequences of calls\<close>

text \<open>
  One call of the interface. Handles refer to registered clients, and the callers keep to what
  the table requires of them: a key other than that of a clean entry, and one that is not in
  use when a fence is created.
\<close>

inductive hw_fence_step ::
  "hw_fence_abi \<Rightarrow> hw_fence_env \<Rightarrow> hw_fence_io_mem \<Rightarrow> hw_fence_driver_data \<Rightarrow> hw_fence_driver_data \<Rightarrow> bool"
  for abi env io where
  step_register:
    "msm_hw_fence_register abi env io drv ext has = (r, drv') \<Longrightarrow> hw_fence_step abi env io drv drv'"
| step_deregister:
    "registered drv c \<Longrightarrow> msm_hw_fence_deregister drv (Some c) = (r, drv') \<Longrightarrow> hw_fence_step abi env io drv drv'"
| step_create:
    "registered drv c \<Longrightarrow> (df_context d, df_seqno d) \<noteq> (0, 0) \<Longrightarrow>
     fence_map drv (df_context d, df_seqno d) = None \<Longrightarrow>
     msm_hw_fence_create drv (Some c) (Some (DmaFence d)) has = Inr (x, drv') \<Longrightarrow> hw_fence_step abi env io drv drv'"
| step_destroy:
    "registered drv c \<Longrightarrow> (df_context d, df_seqno d) \<noteq> (0, 0) \<Longrightarrow>
     msm_hw_fence_destroy drv (Some c) (Some (DmaFence d)) = Inr (d', drv') \<Longrightarrow> hw_fence_step abi env io drv drv'"
| step_destroy_with_handle:
    "registered drv c \<Longrightarrow> msm_hw_fence_destroy_with_handle drv (Some c) handle = Inr drv' \<Longrightarrow>
     hw_fence_step abi env io drv drv'"
| step_wait:
    "registered drv c \<Longrightarrow> (df_context d, df_seqno d) \<noteq> (0, 0) \<Longrightarrow>
     msm_hw_fence_wait_update_v2 abi drv (Some c) (Some [DmaFence d]) client_data 1 = (r, handles, drv') \<Longrightarrow>
     hw_fence_step abi env io drv drv'"
| step_reset:
    "registered drv c \<Longrightarrow> msm_hw_fence_reset_client abi drv (Some c) reset_flags = (r, drv') \<Longrightarrow>
     hw_fence_step abi env io drv drv'"
| step_update_txq:
    "registered drv c \<Longrightarrow> msm_hw_fence_update_txq drv (Some c) handle flags error = (r, drv') \<Longrightarrow>
     hw_fence_step abi env io drv drv'"
| step_trigger_signal:
    "msm_hw_fence_trigger_signal drv (Some c) pid vid signal_id = (r, drv') \<Longrightarrow> hw_fence_step abi env io drv drv'"

text \<open>The table part of the invariant, and the part about clients, which the table does not enter.
  Entry 0 of the list of clients belongs to the control queue, which has no region.\<close>

definition table_inv :: "hw_fence_driver_data \<Rightarrow> bool" where
  "table_inv drv \<longleftrightarrow> table_wf drv \<and> free_clean drv"

definition clients_inv :: "hw_fence_abi \<Rightarrow> hw_fence_driver_data \<Rightarrow> bool" where
  "clients_inv abi drv \<longleftrightarrow> clients_sized abi drv \<and> hw_fences_tbl_cnt drv = hw_fence_table_entries drv \<and>
     unat (rxq_clients_num drv) < length (clients drv) \<and> qs_mem_size (hw_fence_client_queue_size drv ! 0) = 0 \<and>
     clients drv ! 0 = None \<and> handles_ok drv {..<length (clients drv)}"

lemma clients_inv_beside:
  assumes "beside_table drv d" "clients_inv abi drv"
  shows "clients_inv abi d"
proof -
  from assms(1) obtain cs l where cs: "d\<lparr>hw_fences_tbl := hw_fences_tbl drv\<rparr> = drv\<lparr>clients := cs, ipcc_log := l\<rparr>"
    "map (map_option client_core) cs = map (map_option client_core) (clients drv)"
    unfolding beside_table_def queues_only_def by blast
  have len: "length (clients d) = length (clients drv)"
    using queues_only_fields(4) [OF assms(1) [unfolded beside_table_def]] by simp
  have "0 < length (clients drv)" using assms(2) by (auto simp: clients_inv_def)
  then have "clients d ! 0 = None"
    using queues_only_client(1) [OF assms(1) [unfolded beside_table_def], of 0] assms(2)
    by (auto simp: clients_inv_def)
  moreover have "handles_ok d {..<length (clients d)}"
    using beside_tableD(2) [OF assms(1)] assms(2) len by (simp add: clients_inv_def)
  moreover have "hw_fence_client_types d = hw_fence_client_types drv" "clients_num d = clients_num drv"
    "hw_fences_tbl_cnt d = hw_fences_tbl_cnt drv" "hw_fence_table_entries d = hw_fence_table_entries drv"
    "rxq_clients_num d = rxq_clients_num drv" "hw_fence_client_queue_size d = hw_fence_client_queue_size drv"
    using cs(1) by (cases d, cases drv, simp)+
  ultimately show ?thesis using assms(2) len by (simp add: clients_inv_def clients_sized_def)
qed

lemma free_clean_set_fence:
  "free_clean drv \<Longrightarrow> in_use f \<or> hf_fence_allocator f = 0 \<Longrightarrow> free_clean (set_fence i f drv)"
  using set_update_subset_insert [of "hw_fences_tbl drv" i f] by (auto simp: free_clean_def)

lemma unreserve_allocator [simp]: "hf_fence_allocator (unreserve_hw_fence f) = 0"
  by (simp add: unreserve_hw_fence_def cleanup_hw_fence_def)

text \<open>Freeing the entry with a given key.\<close>

lemma cleanup_step:
  assumes "table_inv drv" "(ctx, seqno) \<noteq> (0, 0)" "hw_fence_cleanup drv cid ctx seqno = Inr drv'"
  shows "table_inv drv' \<and> beside_table drv drv'"
proof -
  from assms cleanup_spec [of drv ctx seqno cid] obtain i f where
    "drv' = set_fence i (unreserve_hw_fence f) drv" "table_wf drv'"
    by (auto simp: table_inv_def split: option.splits)
  moreover have "beside_table drv drv" by (simp add: beside_table_def)
  ultimately show ?thesis using assms(1) by (simp add: table_inv_def free_clean_set_fence)
qed

lemma table_inv_same: "hw_fences_tbl d = hw_fences_tbl d' \<Longrightarrow>
    hw_fence_table_entries d = hw_fence_table_entries d' \<Longrightarrow> table_inv d = table_inv d'"
  by (simp add: table_inv_def table_wf_def free_clean_def)

lemma table_inv_clients [simp]: "table_inv (drv\<lparr>clients := cs\<rparr>) = table_inv drv"
  "table_inv (drv\<lparr>clients := cs, ipcc_dpu_initialized := b, ipcc_writes := ws\<rparr>) = table_inv drv"
  by (simp_all add: table_inv_def table_wf_def free_clean_def)

lemma queues_only_step:
  assumes "queues_only drv d" "table_inv drv"
  shows "table_inv d \<and> beside_table drv d"
proof -
  have "drv\<lparr>hw_fences_tbl := hw_fences_tbl drv\<rparr> = drv" by simp
  with beside_table_tbl(1) [where drv = drv and T = "hw_fences_tbl drv" and d = d] assms queues_only_fields(1,2) [OF assms(1)]
    table_inv_same [of d drv] show ?thesis by simp
qed

lemma beside_table_refl [simp]: "beside_table drv drv"
  by (simp add: beside_table_def)

lemma create_step:
  assumes inv: "table_inv drv" and key: "(ctx, seqno) \<noteq> (0, 0)" and new: "fence_map drv (ctx, seqno) = None"
    and create: "hw_fence_create drv c ctx seqno = Inr (hash, drv')"
  shows "table_inv drv' \<and> beside_table drv drv'"
proof -
  have wf: "table_wf drv" using inv by (simp add: table_inv_def)
  let ?cid = "of_nat (client_id (client_at drv c)) :: u32"
  from lookup_create [OF wf key create_ops(1) new, of ?cid 0] create
  obtain i where i: "i < length (hw_fences_tbl drv)" "\<not> in_use (hw_fences_tbl drv ! i)"
    and drv': "drv' = set_fence i (reserve_hw_fence drv ?cid ctx seqno (hw_fences_tbl drv ! i)) drv"
    by (auto simp: hw_fence_create_def split: if_splits)
  with create_slot_wf(1) [OF wf key new i reserve_key(1,2)] inv show ?thesis
    by (simp add: table_inv_def free_clean_set_fence)
qed

lemma register_wait_step:
  assumes inv: "table_inv drv" and key: "(ctx, seqno) \<noteq> (0, 0)" and reg: "registered drv c"
    and wait: "hw_fence_register_wait_client abi drv has_fence c ctx seqno client_data = Inr (r, drv')"
  shows "table_inv drv' \<and> beside_table drv drv'"
proof -
  have wf: "table_wf drv" using inv by (simp add: table_inv_def)
  from wait obtain i hash where find: "msm_hw_fence_find drv (Some c) ctx seqno = Some (i, hash)"
    by (auto simp: hw_fence_register_wait_client_def split: if_splits option.splits)
  note i = find [unfolded find_Some [OF wf key]]
  obtain f where f: "in_use f" "fence_key f = fence_key (hw_fences_tbl drv ! i)"
    "drv' = set_fence i f drv \<or> (\<exists>hash flags cd e. drv' = fence_ctl_signal abi (set_fence i f drv) c f hash flags cd e)"
  proof -
    let ?f = "hw_fences_tbl drv ! i"
    let ?g = "store_client_data abi drv c client_data
      (?f\<lparr>hf_wait_client_mask := hf_wait_client_mask ?f OR BIT64 (client_id (client_at drv c)),
        hf_fence_wait_time := hw_fence_get_qtime drv, hf_debug_refcount := hf_debug_refcount ?f + 1\<rparr>)"
    have "in_use ?g = in_use ?f" "fence_key ?g = fence_key ?f"
      by (simp_all add: store_client_data_def in_use_def fence_key_def)
    moreover have "drv' = set_fence i ?g drv \<or> drv' = fence_ctl_signal abi (set_fence i ?g drv) c ?g hash 0 client_data 0"
      using wait find by (auto simp: hw_fence_register_wait_client_def Let_def split: if_splits)
    ultimately show thesis using that [of ?g] i by blast
  qed
  let ?d = "set_fence i f drv"
  have d: "table_inv ?d" "beside_table drv ?d"
    using fence_update(1) [OF wf _ _ f(1,2)] i f(1) inv by (auto simp: table_inv_def free_clean_set_fence)
  have "registered ?d c" using reg by (simp add: registered_def)
  from queues_only_step [OF fence_ctl_signal_only [OF this] d(1)] f(3) d show ?thesis
    by (blast intro: beside_table_trans)
qed

lemma reset_queues_only:
  assumes "registered drv c"
  shows "queues_only drv (hw_fence_utils_reset_queues drv c)"
proof -
  from assms obtain cl where cl: "c < length (clients drv)" "clients drv ! c = Some cl" "client_at drv c = cl"
    by (auto simp: registered_def client_at_def)
  have one: "queues_only drv (set_client c (cl\<lparr>queues := qs\<rparr>) drv)" for qs
    using cl by (intro queues_only_set_client) (simp_all add: client_core_def)
  have two: "set_client c y (set_client c x drv) = set_client c y drv" for x y by (simp add: set_client_def)
  show ?thesis using one cl(3) by (simp add: hw_fence_utils_reset_queues_def Let_def two)
qed

lemma reset_step:
  assumes inv: "table_inv drv" "clients_inv abi drv" and reg: "registered drv c"
    and reset: "msm_hw_fence_reset_client abi drv (Some c) reset_flags = (r, drv')"
  shows "table_inv drv' \<and> beside_table drv drv'"
proof (cases "vm_ready drv")
  case True
  let ?T = "hw_fences_tbl drv"
  let ?d = "reset_fences abi c reset_flags [0..<unat (hw_fences_tbl_cnt drv)] drv"
  have wf: "table_wf drv" and clean: "free_clean drv" using inv(1) by (simp_all add: table_inv_def)
  have handles: "handles_ok drv {..unat (rxq_clients_num drv)}" and len: "unat (hw_fences_tbl_cnt drv) = length ?T"
    using inv(2) wf by (auto simp: clients_inv_def handles_ok_def table_wf_def)
  have "c \<noteq> 0" "c < 2 ^ 32"
    using reg inv(2) unat_u32_less [of "clients_num drv"]
    by (auto simp: registered_def clients_inv_def clients_sized_def intro!: gr0I)
  then have "(of_nat c :: u32) \<noteq> 0" using unat_of_nat_u32 [of c] by (metis unat_0)
  then have free: "hf_fence_allocator f \<noteq> of_nat c" if "f \<in> set ?T" "\<not> in_use f" for f
    using clean that by (auto simp: free_clean_def)
  from reset_fences_spec [OF wf reg handles free order.refl, of abi reset_flags]
  have d: "hw_fences_tbl ?d = map (reset_entry abi c reset_flags) ?T" "table_wf ?d" "beside_table drv ?d"
    by (simp_all add: len)
  then have "table_inv ?d"
    using clean by (auto simp: table_inv_def free_clean_def reset_entry_def)
  moreover have "queues_only ?d drv'"
    using reset True reset_queues_only [of ?d c] reg beside_tableD(1) [OF d(3)]
    by (auto simp: msm_hw_fence_reset_client_def Let_def)
  ultimately show ?thesis using queues_only_step beside_table_trans [OF d(3)] by blast
next
  case False
  with reset inv(1) show ?thesis by (auto simp: msm_hw_fence_reset_client_def)
qed

lemma destroy_with_hash_step:
  assumes inv: "table_inv drv" "clients_inv abi drv" and reg: "registered drv c"
    and destroy: "hw_fence_destroy_with_hash drv c hash = Inr drv'"
  shows "table_inv drv' \<and> beside_table drv drv'"
proof -
  have wf: "table_wf drv" and clean: "free_clean drv" using inv(1) by (simp_all add: table_inv_def)
  let ?f = "hw_fences_tbl drv ! unat hash"
  from destroy have h: "unat hash < length (hw_fences_tbl drv)" "hf_fence_allocator ?f = of_nat c"
    "hw_fence_cleanup drv (of_nat c) (hf_ctx_id ?f) (hf_seq_id ?f) = Inr drv'"
    using reg wf by (auto simp: hw_fence_destroy_with_hash_def get_hw_fence_def registered_def table_wf_def Let_def
      word_le_nat_alt split: if_splits option.splits sum.splits)
  have "c \<noteq> 0" "c < 2 ^ 32"
    using reg inv(2) unat_u32_less [of "clients_num drv"]
    by (auto simp: registered_def clients_inv_def clients_sized_def intro!: gr0I)
  then have "(of_nat c :: u32) \<noteq> 0" using unat_of_nat_u32 [of c] by (metis unat_0)
  then have "in_use ?f" using clean h nth_mem by (auto simp: free_clean_def)
  then have "(hf_ctx_id ?f, hf_seq_id ?f) \<noteq> (0, 0)"
    using wf h(1) nth_mem by (auto simp: table_wf_def fence_key_def)
  from cleanup_step [OF inv(1) this h(3)] show ?thesis .
qed

lemma clients_inv_update:
  assumes inv: "clients_inv abi drv" and c: "0 < c" "cl = None \<or> client_id (the cl) = c"
  shows "clients_inv abi (drv\<lparr>clients := (clients drv)[c := cl], ipcc_dpu_initialized := b, ipcc_writes := ws\<rparr>)"
proof -
  have "(clients drv)[c := cl] ! ca = None \<or> client_id (the ((clients drv)[c := cl] ! ca)) = ca"
    if "ca < length (clients drv)" for ca
    using inv c(2) that
    by (cases "ca = c") (auto simp: clients_inv_def handles_ok_def registered_def client_at_def)
  then have "handles_ok (drv\<lparr>clients := (clients drv)[c := cl], ipcc_dpu_initialized := b, ipcc_writes := ws\<rparr>)
      {..<length (clients drv)}"
    by (fastforce simp: handles_ok_def registered_def client_at_def)
  with inv c(1) show ?thesis by (simp add: clients_inv_def clients_sized_def)
qed

lemma register_step:
  assumes abi: "abi_ok abi" and inv: "table_inv drv" "clients_inv abi drv"
    and register: "msm_hw_fence_register abi env io drv ext has = (r, drv')"
  shows "table_inv drv' \<and> clients_inv abi drv'"
proof -
  have sized: "clients_sized abi drv" using inv(2) by (simp add: clients_inv_def)
  show ?thesis
  proof (rule register_cases [OF abi sized, of env io ext has])
    fix c desc cl b ws
    assume r: "msm_hw_fence_register abi env io drv ext has =
        (Inr (c, desc), drv\<lparr>clients := (clients drv)[c := Some cl], ipcc_dpu_initialized := b, ipcc_writes := ws\<rparr>)"
      "client_id cl = c" "\<exists>r. hw_fence_utils_reserve_mem drv HW_FENCE_MEM_RESERVE_CLIENT_QUEUE c = Inr r"
    have "c \<noteq> 0"
    proof
      assume "c = 0"
      with r(3) inv(2) show False
        by (auto simp: hw_fence_utils_reserve_mem_def mem_region_def clients_inv_def split: if_splits)
    qed
    with r register inv clients_inv_update [OF inv(2), where c = c and cl = "Some cl" and b = b and ws = ws] show ?thesis by auto
  qed (use inv register in auto)
qed

lemma deregister_step:
  assumes inv: "table_inv drv" "clients_inv abi drv" and reg: "registered drv c"
    and dereg: "msm_hw_fence_deregister drv (Some c) = (r, drv')"
  shows "table_inv drv' \<and> clients_inv abi drv'"
proof -
  have "c \<noteq> 0" using reg inv(2) by (auto simp: registered_def clients_inv_def intro!: gr0I)
  with clients_inv_update [OF inv(2), where c = c and cl = None and b = "ipcc_dpu_initialized drv" and
      ws = "ipcc_writes drv"] dereg reg inv show ?thesis
    by (auto simp: msm_hw_fence_deregister_def hw_fence_cleanup_client_def registered_def
      split: if_splits)
qed

lemma hw_fence_step_inv:
  assumes abi: "abi_ok abi"
  shows "hw_fence_step abi env io drv drv' \<Longrightarrow> table_inv drv \<Longrightarrow> clients_inv abi drv \<Longrightarrow>
    table_inv drv' \<and> clients_inv abi drv'"
proof (induction rule: hw_fence_step.induct)
  case step_register
  then show ?case using register_step [OF abi] by blast
next
  case step_deregister
  then show ?case using deregister_step by blast
next
  case (step_create drv c d has x drv')
  then obtain hash where "hw_fence_create drv c (df_context d) (df_seqno d) = Inr (hash, drv')"
    by (auto simp: msm_hw_fence_create_def split: if_splits sum.splits)
  from create_step [OF step_create.prems(1) step_create.hyps(2,3) this] step_create.prems(2)
  show ?case by (blast intro: clients_inv_beside)
next
  case (step_destroy drv c d d' drv')
  then have "hw_fence_cleanup drv (of_nat (client_id (client_at drv c))) (df_context d) (df_seqno d) = Inr drv'"
    by (auto simp: msm_hw_fence_destroy_def hw_fence_destroy_def split: if_splits sum.splits)
  from cleanup_step [OF step_destroy.prems(1) step_destroy.hyps(2) this] step_destroy.prems(2)
  show ?case by (blast intro: clients_inv_beside)
next
  case (step_destroy_with_handle drv c handle drv')
  then have "hw_fence_destroy_with_hash drv c handle = Inr drv'"
    by (auto simp: msm_hw_fence_destroy_with_handle_def split: if_splits)
  from destroy_with_hash_step [OF step_destroy_with_handle.prems step_destroy_with_handle.hyps(1) this]
  show ?case using step_destroy_with_handle.prems(2) by (blast intro: clients_inv_beside)
next
  case (step_wait drv c d client_data r handles drv')
  then have "drv' = drv \<or> (\<exists>cd x. hw_fence_register_wait_client abi drv True c (df_context d) (df_seqno d) cd = Inr (x, drv'))"
    by (auto simp: msm_hw_fence_wait_update_v2_def hw_fence_process_fence_def Let_def zip_Cons1
      split: if_splits sum.splits option.splits list.splits)
  with register_wait_step [OF step_wait.prems(1) step_wait.hyps(2,1)] step_wait.prems
  show ?case by (blast intro: clients_inv_beside)
next
  case step_reset
  then show ?case using reset_step by (blast intro: clients_inv_beside)
next
  case (step_update_txq drv c handle flags error r drv')
  then have "queues_only drv drv'"
    by (auto simp: msm_hw_fence_update_txq_def Let_def update_queue_only split: if_splits sum.splits)
  from queues_only_step [OF this step_update_txq.prems(1)] step_update_txq.prems(2)
  show ?case by (blast intro: clients_inv_beside)
next
  case (step_trigger_signal drv c pid vid signal_id r drv')
  then have "drv' = drv \<or> (\<exists>l. drv' = drv\<lparr>ipcc_log := l\<rparr>)"
    by (auto simp: msm_hw_fence_trigger_signal_def hw_fence_ipcc_trigger_signal_def Let_def split: if_splits)
  moreover have "queues_only drv (drv\<lparr>ipcc_log := l\<rparr>)" for l
    unfolding queues_only_def by (intro exI [of _ "clients drv"] exI [of _ l]) simp
  ultimately have "queues_only drv drv'" by auto
  from queues_only_step [OF this step_trigger_signal.prems(1)] step_trigger_signal.prems(2)
  show ?case by (blast intro: clients_inv_beside)
qed


section \<open>Examples\<close>

text \<open>The sample driver with an entry in the list of clients for every static id; client 1 is
  registered.\<close>

definition boot_drv :: hw_fence_driver_data where
  "boot_drv = sample_drv\<lparr>clients := (replicate 17 None)[1 := Some sample_client], clients_num := 17,
     hw_fence_client_types := hw_fence_client_types_table sample_abi\<rparr>"

lemma boot_drv_inv: "table_inv boot_drv" "clients_inv sample_abi boot_drv" "registered boot_drv 1"
proof -
  show reg: "registered boot_drv 1" by (simp add: registered_def boot_drv_def client_at_def sample_client_def)
  show "table_inv boot_drv"
    by (simp add: table_inv_def free_clean_def boot_drv_def sample_table_simps)
  have "type_sum (hw_fence_client_types_table sample_abi) 8 = 0"
    by (simp add: type_sum_def HW_FENCE_MAX_CLIENT_TYPE_STATIC_def hw_fence_client_types_table_def client_type_def)
  then have "clients_sized sample_abi boot_drv"
    by (simp add: clients_sized_def boot_drv_def) (simp add: sample_abi_def)
  moreover have "handles_ok boot_drv {..<17}"
  proof -
    have "clients boot_drv ! c = None" if "c \<noteq> 1" "c < 17" for c using that by (simp add: boot_drv_def)
    with reg have "clients boot_drv ! c = None \<or> registered boot_drv c" if "c < 17" for c
      using that by (cases "c = 1") auto
    then show ?thesis by (simp add: handles_ok_def boot_drv_def)
  qed
  moreover have "length (clients boot_drv) = 17" "clients boot_drv ! 0 = None"
    "hw_fences_tbl_cnt boot_drv = hw_fence_table_entries boot_drv" "unat (rxq_clients_num boot_drv) = 1"
    "qs_mem_size (hw_fence_client_queue_size boot_drv ! 0) = 0"
    by (simp_all add: boot_drv_def sample_drv_def)
  ultimately show "clients_inv sample_abi boot_drv" by (simp add: clients_inv_def)
qed



definition own_fence_drv :: hw_fence_driver_data where
  "own_fence_drv = set_fence 0 (clean_fence\<lparr>hf_valid := 1, hf_ctx_id := 3, hf_seq_id := 4, hf_fence_allocator := 1\<rparr>)
     sample_drv"

theorem msm_hw_fence_reset_client_correct_witness:
  "fence_map own_fence_drv (3, 4) \<noteq> None \<and>
   fence_map (snd (msm_hw_fence_reset_client sample_abi own_fence_drv (Some 1) 0)) (3, 4) = None"
proof -
  have "table_wf own_fence_drv" "free_clean own_fence_drv" "registered own_fence_drv 1"
    using sample_registered(1)
    by (simp_all add: own_fence_drv_def set_fence_def sample_table_simps free_clean_def registered_def client_at_def)
  moreover have "unat (rxq_clients_num own_fence_drv) = 1" "clients own_fence_drv ! 0 = None"
    "length (clients own_fence_drv) = 2" "vm_ready own_fence_drv"
    "hw_fences_tbl_cnt own_fence_drv = hw_fence_table_entries own_fence_drv"
    by (simp_all add: own_fence_drv_def) (simp_all add: sample_drv_def set_fence_def)
  moreover have "{..1::nat} = {0, 1}" by auto
  ultimately have "handles_ok own_fence_drv {..unat (rxq_clients_num own_fence_drv)}"
    by (simp add: handles_ok_def)
  moreover have f: "\<exists>f. fence_map own_fence_drv (3, 4) = Some f \<and> hf_fence_allocator f = 1"
    by (simp add: own_fence_drv_def set_fence_def sample_table_simps)
  ultimately show ?thesis
    using \<open>table_wf own_fence_drv\<close> \<open>free_clean own_fence_drv\<close> \<open>registered own_fence_drv 1\<close> \<open>vm_ready own_fence_drv\<close>
      \<open>hw_fences_tbl_cnt own_fence_drv = hw_fence_table_entries own_fence_drv\<close>
      msm_hw_fence_reset_client_correct [of own_fence_drv 1 sample_abi 0
        "fst (msm_hw_fence_reset_client sample_abi own_fence_drv (Some 1) 0)"
        "snd (msm_hw_fence_reset_client sample_abi own_fence_drv (Some 1) 0)"]
    by (auto simp del: One_nat_def)
qed

end
