(* ===== verification/MMRM_Fixedpoint.thy ===== *)
theory MMRM_Fixedpoint
  imports Prelude
begin

text \<open>
  The fixed-point numbers of the multimedia resource manager
  (\<open>qcom/opensource/mmrm-driver/driver/src/mmrm_fixedpoint.h\<close>) and the conversion of the
  16.16 values of the device tree (\<open>mmrm_clk_rsrc_mgr_sw.c\<close>). \<open>fp_t\<close> is \<open>size_t\<close>, 64 bits wide,
  with 16 fractional bits. The theorems bound the error of a conversion and of a rounding.
\<close>

section \<open>Operations\<close>

type_synonym fp_t = u64

definition FP_FRACTIONAL_BITS :: nat where
  "FP_FRACTIONAL_BITS = (8 * 8) div 4"

text \<open>The numerator and the denominator of the fraction are 32 bits wide.\<close>

definition FP :: "u32 \<Rightarrow> u32 \<Rightarrow> u32 \<Rightarrow> fp_t" where
  "FP i f_n f_d = push_bit FP_FRACTIONAL_BITS (ucast i) + ucast (push_bit FP_FRACTIONAL_BITS f_n div f_d)"

definition fp_frac_base :: fp_t where
  "fp_frac_base = mask FP_FRACTIONAL_BITS"

definition fp_frac :: "fp_t \<Rightarrow> fp_t" where
  "fp_frac a = a AND mask FP_FRACTIONAL_BITS"

definition fp_int :: "fp_t \<Rightarrow> fp_t" where
  "fp_int a = drop_bit FP_FRACTIONAL_BITS a"

definition fp_round :: "fp_t \<Rightarrow> fp_t" where
  "fp_round a = fp_int a + (if fp_frac_base div 2 \<le> fp_frac a then 1 else 0)"

definition fp_mult :: "fp_t \<Rightarrow> fp_t \<Rightarrow> fp_t" where
  "fp_mult a b = drop_bit FP_FRACTIONAL_BITS (a * b)"

definition fp_div :: "fp_t \<Rightarrow> fp_t \<Rightarrow> fp_t" where
  "fp_div a b = push_bit FP_FRACTIONAL_BITS a div b"

definition Q16_INT :: "u32 \<Rightarrow> u32" where
  "Q16_INT q = drop_bit 16 q"

definition Q16_FRAC :: "u32 \<Rightarrow> u32" where
  "Q16_FRAC q = drop_bit 16 ((q AND 0xFFFF) * 100)"

text \<open>The conversion that \<open>mmrm_sw_update_curr\<close> applies to each value of the device tree.\<close>

definition fp_of_q16 :: "u32 \<Rightarrow> fp_t" where
  "fp_of_q16 q = FP (Q16_INT q) (Q16_FRAC q) 100"

section \<open>Accuracy\<close>

lemma unat_fp_int: "unat (fp_int a) = unat a div 65536"
  by (simp add: fp_int_def FP_FRACTIONAL_BITS_def drop_bit_eq_div unat_div)

lemma unat_fp_frac: "unat (fp_frac a) = unat a mod 65536"
  by (simp add: fp_frac_def FP_FRACTIONAL_BITS_def take_bit_eq_mod unat_mod flip: take_bit_eq_mask)

lemma unat_Q16: "unat (Q16_INT q) = unat q div 65536" "unat (Q16_FRAC q) = (unat q mod 65536) * 100 div 65536"
proof -
  show "unat (Q16_INT q) = unat q div 65536"
    by (simp add: Q16_INT_def drop_bit_eq_div unat_div)
  have "q AND 0xFFFF = take_bit 16 q" by (simp add: take_bit_eq_mask mask_eq_exp_minus_1)
  then have f: "unat (q AND 0xFFFF) = unat q mod 65536" by (simp add: take_bit_eq_mod unat_mod)
  have "unat q mod 65536 < 65536" by simp
  then have "unat ((q AND 0xFFFF) * 100) = (unat q mod 65536) * 100"
    by (simp add: unat_word_ariths f)
  then show "unat (Q16_FRAC q) = (unat q mod 65536) * 100 div 65536"
    by (simp add: Q16_FRAC_def drop_bit_eq_div unat_div)
qed

lemma unat_fp_of_q16:
  "unat (fp_of_q16 q) = unat q div 65536 * 65536 + ((unat q mod 65536) * 100 div 65536) * 65536 div 100"
proof -
  let ?i = "unat q div 65536" and ?f = "(unat q mod 65536) * 100 div 65536"
  have q: "?i < 65536" "?f < 100" using unat_u32_less [of q] by simp_all
  have "unat (push_bit 16 (ucast (Q16_INT q)) :: u64) = ?i * 65536"
    using q(1) by (simp add: push_bit_eq_mult unat_word_ariths unat_Q16)
  moreover have "unat (push_bit 16 (Q16_FRAC q)) = ?f * 65536"
    using q(2) by (simp add: push_bit_eq_mult unat_word_ariths unat_Q16)
  then have "unat (ucast (push_bit 16 (Q16_FRAC q) div 100) :: u64) = ?f * 65536 div 100"
    by (simp add: unat_div)
  moreover have "?f * 65536 div 100 < 65536" using q(2) by simp
  ultimately show ?thesis
    using q(1) by (simp add: fp_of_q16_def FP_def FP_FRACTIONAL_BITS_def unat_word_ariths)
qed

text \<open>Converting a 16.16 value of the device tree to a fixed-point number keeps two decimal
  digits of its fraction: the result is never larger than the value and falls short of it by
  less than one hundredth (656.4 units of 1/65536).\<close>

theorem fp_of_q16_accuracy:
  "unat (fp_of_q16 q) \<le> unat q \<and> unat q < unat (fp_of_q16 q) + 657"
proof -
  let ?f = "unat q mod 65536"
  let ?k = "?f * 100 div 65536"
  have "?f * 100 = ?k * 65536 + ?f * 100 mod 65536" "?k * 65536 = ?k * 65536 div 100 * 100 + ?k * 65536 mod 100"
    by (rule div_mult_mod_eq [symmetric])+
  moreover have "?f * 100 mod 65536 < 65536" "?k * 65536 mod 100 < 100" by simp_all
  ultimately have "?k * 65536 div 100 \<le> ?f \<and> ?f < ?k * 65536 div 100 + 657" by linarith
  then show ?thesis unfolding unat_fp_of_q16 using div_mult_mod_eq [of "unat q" 65536] by linarith
qed

text \<open>Rounding a fixed-point number gives an integer that differs from it by at most one half
  and one unit of its fraction, so the powers and currents of a clock are exact to half a unit.\<close>

theorem fp_round_accuracy:
  "unat (fp_round a) * 65536 \<le> unat a + 32769 \<and> unat a \<le> unat (fp_round a) * 65536 + 32766"
proof -
  have frac: "(fp_frac_base div 2 \<le> fp_frac a) = (32767 \<le> unat a mod 65536)"
    by (simp add: fp_frac_base_def FP_FRACTIONAL_BITS_def mask_eq_exp_minus_1 word_le_nat_alt unat_fp_frac)
  have "unat (fp_int a) < 2 ^ 63" using unat_u64_less [of a] by (simp add: unat_fp_int)
  then have round: "unat (fp_round a) = unat a div 65536 + (if 32767 \<le> unat a mod 65536 then 1 else 0)"
    by (simp add: fp_round_def frac unat_word_ariths unat_fp_int)
  have a: "unat a = unat a div 65536 * 65536 + unat a mod 65536" "unat a mod 65536 < 65536" by simp_all
  show ?thesis
  proof (cases "32767 \<le> unat a mod 65536")
    case True
    then have "unat (fp_round a) = unat a div 65536 + 1" using round by simp
    with a True show ?thesis by linarith
  next
    case False
    then have "unat (fp_round a) = unat a div 65536" using round by simp
    with a False show ?thesis by linarith
  qed
qed

end
