(* ===== verification/MMRM_Clk.thy ===== *)
theory MMRM_Clk
  imports MMRM_Fixedpoint
begin

text \<open>
  The software clock manager of the multimedia resource manager
  (\<open>qcom/opensource/mmrm-driver/driver/src/mmrm_clk_rsrc_mgr_sw.c\<close>, with the data of
  \<open>mmrm_clk_rsrc_mgr.h\<close> and \<open>mmrm_resources.h\<close>): the table of clock clients with their
  frequencies and currents at each voltage level, registration, and the check of every new rate
  against the peak current. The theorems show what the aggregated current stands for, that it
  stays below the threshold, and where the throttling of other clients gives that up.
\<close>

section \<open>Data\<close>

definition MMRM_VDD_LEVEL_LOW_SVS :: nat where "MMRM_VDD_LEVEL_LOW_SVS = 0"

definition MMRM_VDD_LEVEL_NOM :: nat where "MMRM_VDD_LEVEL_NOM = 3"

definition MMRM_VDD_LEVEL_TURBO :: nat where "MMRM_VDD_LEVEL_TURBO = 4"

definition MMRM_VDD_LEVEL_MAX :: nat where "MMRM_VDD_LEVEL_MAX = 5"

definition CLK_RATE_STEP :: int where "CLK_RATE_STEP = 1000000"

lemmas mmrm_levels = MMRM_VDD_LEVEL_LOW_SVS_def MMRM_VDD_LEVEL_NOM_def MMRM_VDD_LEVEL_TURBO_def
  MMRM_VDD_LEVEL_MAX_def

text \<open>
  What the kernel provides: the clock functions (a rate request that fails gives a non-zero
  value), the voltage corners and flags of its headers, the clients' callbacks and the
  allocator; and the two module parameters. A \<open>struct clk *\<close> and a callback are numbers, and
  \<open>None\<close> is \<open>NULL\<close> or an error pointer.
\<close>

record mmrm_env =
  clk_round_rate :: "nat \<Rightarrow> u64 \<Rightarrow> int"
  qcom_clk_get_voltage :: "nat \<Rightarrow> u64 \<Rightarrow> int"
  clk_set_rate :: "nat \<Rightarrow> u64 \<Rightarrow> int"
  mmrm_sw_vdd_corner :: "nat \<Rightarrow> int"
  MMRM_CLIENT_PRIOR_HIGH :: nat
  MMRM_CLIENT_DATA_FLAG_RESERVE_ONLY :: u32
  notifier :: "nat \<Rightarrow> u64 \<Rightarrow> u64 \<Rightarrow> int"
  alloc_ok :: bool
  msm_mmrm_allow_multiple_register :: bool
  msm_mmrm_enable_throttle_feature :: bool

record mmrm_sw_clk_client_tbl_entry =
  te_name :: string
  te_clk :: "nat option"
  te_pri :: nat
  te_pvt_data :: nat
  te_notifier_cb_fn :: "nat option"
  te_clk_src_id :: u32
  te_max_num_hw_blocks :: u32
  te_freq :: "u64 list"
  te_dyn_pwr :: "u32 list"
  te_leak_pwr :: "u32 list"
  te_current_ma :: "u32 list list"
  te_client :: "nat option"
  te_clk_rate :: u64
  te_vdd_level :: nat
  te_reserve :: bool
  te_ref_count :: u32
  te_num_hw_blocks :: u32

record mmrm_sw_throttled_clients_data =
  tc_table_id :: nat
  tc_delta_cu_ma :: u32
  tc_prev_vdd_level :: nat

record corner_info =
  volt_factor :: u32
  scaling_factor_dyn :: u32
  scaling_factor_leak :: u32

record nom_clk_src_info =
  nom_domain :: u32
  nom_clk_src_id :: u32
  nom_dyn_pwr :: u32
  nom_leak_pwr :: u32
  nom_num_hw_block :: u32

datatype mmrm_clk_mgr_scheme = CLK_MGR_SCHEME_SW | CLK_MGR_SCHEME_CXIPEAK | CLK_MGR_SCHEME_OTHER u32

record mmrm_clk_platform_resources =
  cr_scheme :: mmrm_clk_mgr_scheme
  clsid_threshold_clients :: "u32 list"
  corner_set :: "corner_info list"
  nom_clk_set :: "nom_clk_src_info list"
  peak_threshold :: u32

text \<open>\<open>struct mmrm_sw_clk_mgr_info\<close>; the number of clients is the length of the table, and
  \<open>si_rates\<close> lists the rates given to clocks and \<open>si_notified\<close> the calls of the clients'
  callbacks with the old and the new rate, the oldest first.\<close>

record mmrm_sw_clk_mgr_info =
  si_cres :: mmrm_clk_platform_resources
  clk_client_tbl :: "mmrm_sw_clk_client_tbl_entry list"
  enabled_clk_clients :: nat
  throttle_clients_info :: "(u32 \<times> nat) list"
  pk_threshold :: u32
  aggreg_val :: u32
  aggreg_level :: nat
  throttled_clients :: "mmrm_sw_throttled_clients_data list"
  si_rates :: "(nat \<times> u64) list"
  si_notified :: "(nat \<times> u64 \<times> u64) list"

text \<open>What a client passes to a registration and to a rate request.\<close>

record mmrm_clk_client_desc =
  cd_domain :: u32
  cd_id :: u32
  cd_name :: string
  cd_clk :: "nat option"

record mmrm_client_data =
  md_num_hw_blocks :: u32
  md_flags :: u32

definition tot_clk_clients :: "mmrm_sw_clk_mgr_info \<Rightarrow> nat" where
  "tot_clk_clients sinfo = length (clk_client_tbl sinfo)"

definition set_entry ::
  "nat \<Rightarrow> mmrm_sw_clk_client_tbl_entry \<Rightarrow> mmrm_sw_clk_mgr_info \<Rightarrow> mmrm_sw_clk_mgr_info" where
  "set_entry c e sinfo = sinfo\<lparr>clk_client_tbl := (clk_client_tbl sinfo)[c := e]\<rparr>"

section \<open>Operations\<close>

subsection \<open>Frequencies and currents\<close>

text \<open>The index of the first level with the given corner, \<open>MMRM_VDD_LEVEL_MAX\<close> if there is none.\<close>

definition match_level :: "mmrm_env \<Rightarrow> int \<Rightarrow> nat" where
  "match_level env corner =
     (case find (\<lambda>i. corner = mmrm_sw_vdd_corner env i) [0..<MMRM_VDD_LEVEL_MAX] of
        None \<Rightarrow> MMRM_VDD_LEVEL_MAX | Some i \<Rightarrow> i)"

text \<open>The loop that steps through the rates. \<open>clk_val_min\<close> is the highest rate found so far.\<close>

function freq_loop :: "mmrm_env \<Rightarrow> nat \<Rightarrow> int \<Rightarrow> int \<Rightarrow> int \<Rightarrow> u64 list \<Rightarrow> u64 list" where
  "freq_loop env clk clk_val_min clk_val clk_val_max freq =
     (if clk_val < clk_val_max then
        let clk_val_round = clk_round_rate env clk (of_int clk_val) in
        if clk_val_min < clk_val_round then
          let corner = qcom_clk_get_voltage env clk (of_int clk_val_round) in
          if corner < 0 \<or> mmrm_sw_vdd_corner env MMRM_VDD_LEVEL_TURBO < corner then freq
          else
            let corner = max corner (mmrm_sw_vdd_corner env MMRM_VDD_LEVEL_LOW_SVS);
                i = match_level env corner;
                freq = take i freq @ replicate (length freq - i) (of_int clk_val_round)
            in freq_loop env clk clk_val_round (clk_val + CLK_RATE_STEP) clk_val_max freq
        else freq_loop env clk clk_val_min (clk_val + CLK_RATE_STEP) clk_val_max freq
      else freq)"
  by pat_completeness auto
termination
  by (relation "measure (\<lambda>(env, clk, clk_val_min, clk_val, clk_val_max, freq). nat (clk_val_max - clk_val))")
     (auto simp: CLK_RATE_STEP_def)

declare freq_loop.simps [simp del]

definition mmrm_sw_update_freq ::
  "mmrm_env \<Rightarrow> mmrm_sw_clk_client_tbl_entry \<Rightarrow> mmrm_sw_clk_client_tbl_entry" where
  "mmrm_sw_update_freq env e =
     (let clk = the (te_clk e);
          clk_val_min = clk_round_rate env clk 1;
          clk_val_max = clk_round_rate env clk (NOT 0)
      in e\<lparr>te_freq := freq_loop env clk clk_val_min clk_val_min clk_val_max
             (replicate MMRM_VDD_LEVEL_MAX (of_int clk_val_min))\<rparr>)"

text \<open>The powers of one level, before rounding. A nominal frequency of 0 would divide by zero.\<close>

definition level_power :: "corner_info \<Rightarrow> nom_clk_src_info \<Rightarrow> u64 \<Rightarrow> u64 \<Rightarrow> fp_t \<times> fp_t" where
  "level_power corner nom freq nom_freq =
     (let pwr_mw = fp_div (fp_mult (fp_of_q16 (nom_dyn_pwr nom)) freq) nom_freq
      in (fp_mult pwr_mw (fp_of_q16 (scaling_factor_dyn corner)),
          fp_mult (fp_of_q16 (nom_leak_pwr nom)) (fp_of_q16 (scaling_factor_leak corner))))"

definition mmrm_sw_update_curr ::
  "mmrm_sw_clk_mgr_info \<Rightarrow> mmrm_sw_clk_client_tbl_entry \<Rightarrow> mmrm_sw_clk_client_tbl_entry result" where
  "mmrm_sw_update_curr sinfo e =
     (case find (\<lambda>c. te_clk_src_id e = te_clk_src_id (clk_client_tbl sinfo ! c)) [0..<tot_clk_clients sinfo] of
        None \<Rightarrow> Inl EINVAL
      | Some c \<Rightarrow>
          let nom = nom_clk_set (si_cres sinfo) ! c;
              nom_freq = te_freq e ! MMRM_VDD_LEVEL_NOM;
              corner = (\<lambda>i. corner_set (si_cres sinfo) ! i);
              pwr = map (\<lambda>i. level_power (corner i) nom (te_freq e ! i) nom_freq) [0..<MMRM_VDD_LEVEL_MAX]
          in Inr (e\<lparr>te_dyn_pwr := map (\<lambda>(d, l). ucast (fp_round d)) pwr,
                    te_leak_pwr := map (\<lambda>(d, l). ucast (fp_round l)) pwr,
                    te_current_ma := map (\<lambda>(d, l).
                      map (\<lambda>j. ucast (fp_round (fp_div (d + l) (fp_of_q16 (volt_factor (corner j))))))
                        [0..<MMRM_VDD_LEVEL_MAX]) pwr\<rparr>))"

subsection \<open>Registration\<close>

definition unregister_entry :: "mmrm_sw_clk_client_tbl_entry \<Rightarrow> mmrm_sw_clk_client_tbl_entry" where
  "unregister_entry e = e\<lparr>te_client := None, te_clk := None, te_pri := 0, te_pvt_data := 0,
     te_notifier_cb_fn := None\<rparr>"

text \<open>The result is the client, which is the index of its entry, or \<open>None\<close> for \<open>NULL\<close>. The
  name is cut at the size of its field, \<open>name_size\<close>.\<close>

definition mmrm_sw_clk_client_register ::
  "mmrm_env \<Rightarrow> nat \<Rightarrow> mmrm_sw_clk_mgr_info \<Rightarrow> mmrm_clk_client_desc \<Rightarrow> nat \<Rightarrow> nat \<Rightarrow> nat option \<Rightarrow>
   nat option \<times> mmrm_sw_clk_mgr_info" where
  "mmrm_sw_clk_client_register env name_size sinfo clk_desc priority pvt_data not_fn_cb =
     (if tot_clk_clients sinfo = enabled_clk_clients sinfo then (None, sinfo)
      else
        let src_id = push_bit 16 (cd_domain clk_desc) OR cd_id clk_desc
        in case find (\<lambda>c. src_id = te_clk_src_id (clk_client_tbl sinfo ! c)) [0..<tot_clk_clients sinfo] of
             None \<Rightarrow> (None, sinfo)
           | Some c \<Rightarrow>
               let e = clk_client_tbl sinfo ! c in
               if te_client e \<noteq> None then
                 (if msm_mmrm_allow_multiple_register env
                  then (te_client e, set_entry c (e\<lparr>te_ref_count := te_ref_count e + 1\<rparr>) sinfo)
                  else (None, sinfo))
               else if \<not> alloc_ok env then (None, set_entry c (unregister_entry e) sinfo)
               else
                 let e = e\<lparr>te_ref_count := 1, te_client := Some c, te_name := take (name_size - 1) (cd_name clk_desc),
                       te_clk := cd_clk clk_desc, te_pri := priority, te_pvt_data := pvt_data,
                       te_notifier_cb_fn := not_fn_cb\<rparr>;
                     e = mmrm_sw_update_freq env e
                 in (case mmrm_sw_update_curr (set_entry c e sinfo) e of
                       Inl _ \<Rightarrow> (None, set_entry c (unregister_entry e) sinfo)
                     | Inr e \<Rightarrow> (Some c, set_entry c e sinfo)))"

definition mmrm_sw_clk_client_deregister ::
  "mmrm_sw_clk_mgr_info \<Rightarrow> nat option \<Rightarrow> unit result \<times> mmrm_sw_clk_mgr_info" where
  "mmrm_sw_clk_client_deregister sinfo client =
     (case client of
        None \<Rightarrow> (Inl EINVAL, sinfo)
      | Some c \<Rightarrow>
          if tot_clk_clients sinfo \<le> c then (Inl EINVAL, sinfo)
          else
            let e = clk_client_tbl sinfo ! c;
                e = (if 0 < te_ref_count e then e\<lparr>te_ref_count := te_ref_count e - 1\<rparr> else e);
                e = (if te_ref_count e = 0
                     then (unregister_entry e)\<lparr>te_vdd_level := 0, te_clk_rate := 0\<rparr> else e)
            in (Inr (), set_entry c e sinfo))"

subsection \<open>Levels and currents\<close>

text \<open>\<open>Inl\<close> is the non-zero return value.\<close>

definition mmrm_sw_get_req_level ::
  "mmrm_env \<Rightarrow> mmrm_sw_clk_client_tbl_entry \<Rightarrow> u64 \<Rightarrow> int + nat" where
  "mmrm_sw_get_req_level env e clk_val =
     (let corner = qcom_clk_get_voltage env (the (te_clk e)) clk_val in
      if corner < 0 \<or> mmrm_sw_vdd_corner env MMRM_VDD_LEVEL_TURBO < corner then Inl corner
      else if corner < mmrm_sw_vdd_corner env MMRM_VDD_LEVEL_LOW_SVS then Inr MMRM_VDD_LEVEL_LOW_SVS
      else if match_level env corner = MMRM_VDD_LEVEL_MAX then Inl (- 22)
      else Inr (match_level env corner))"

definition entry_active :: "mmrm_sw_clk_client_tbl_entry \<Rightarrow> bool" where
  "entry_active e \<longleftrightarrow> te_clk e \<noteq> None \<and> te_clk_rate e \<noteq> 0"

text \<open>The loop over the other active clients: whether one has the aggregated level, which ends it,
  and the level of the last one seen between the requested and the aggregated level.\<close>

fun level_scan ::
  "u32 \<Rightarrow> nat \<Rightarrow> nat \<Rightarrow> mmrm_sw_clk_client_tbl_entry list \<Rightarrow> nat option \<Rightarrow> bool \<times> nat option" where
  "level_scan src_id agg req [] next_max = (False, next_max)"
| "level_scan src_id agg req (e # es) next_max =
     (if \<not> entry_active e \<or> te_clk_src_id e = src_id then level_scan src_id agg req es next_max
      else if te_vdd_level e = agg then (True, next_max)
      else if te_vdd_level e < agg \<and> req < te_vdd_level e then level_scan src_id agg req es (Some (te_vdd_level e))
      else level_scan src_id agg req es next_max)"

definition mmrm_sw_check_req_level :: "mmrm_sw_clk_mgr_info \<Rightarrow> u32 \<Rightarrow> nat \<Rightarrow> nat result" where
  "mmrm_sw_check_req_level sinfo src_id req_level =
     (if MMRM_VDD_LEVEL_MAX \<le> req_level then Inl EINVAL
      else if req_level < aggreg_level sinfo then
        (case level_scan src_id (aggreg_level sinfo) req_level (clk_client_tbl sinfo) None of
           (True, _) \<Rightarrow> Inr (aggreg_level sinfo)
         | (False, Some l) \<Rightarrow> Inr (if req_level < l then l else req_level)
         | (False, None) \<Rightarrow> Inr req_level)
      else Inr req_level)"

text \<open>The current of one client at a level of the rail.\<close>

definition entry_current :: "mmrm_sw_clk_client_tbl_entry \<Rightarrow> nat \<Rightarrow> u32" where
  "entry_current e level = te_current_ma e ! te_vdd_level e ! level * te_num_hw_blocks e"

definition mmrm_sw_calculate_total_current ::
  "mmrm_sw_clk_mgr_info \<Rightarrow> nat \<Rightarrow> nat \<Rightarrow> u32 result" where
  "mmrm_sw_calculate_total_current sinfo req_level tbl_entry_new =
     (if MMRM_VDD_LEVEL_MAX \<le> req_level then Inl EINVAL
      else Inr (sum_list (map (\<lambda>c. let e = clk_client_tbl sinfo ! c in
             if \<not> entry_active e \<or> c = tbl_entry_new then 0 else entry_current e req_level)
           [0..<tot_clk_clients sinfo])))"

subsection \<open>Throttling\<close>

definition throttle_entry :: "mmrm_sw_clk_mgr_info \<Rightarrow> nat \<Rightarrow> mmrm_sw_clk_client_tbl_entry" where
  "throttle_entry sinfo i = clk_client_tbl sinfo ! snd (throttle_clients_info sinfo ! i)"

definition now_cur_ma :: "mmrm_sw_clk_mgr_info \<Rightarrow> nat \<Rightarrow> u32" where
  "now_cur_ma sinfo i = (let e = throttle_entry sinfo i in te_current_ma e ! te_vdd_level e ! aggreg_level sinfo)"

definition min_cur_ma :: "mmrm_sw_clk_mgr_info \<Rightarrow> nat \<Rightarrow> u32" where
  "min_cur_ma sinfo i = te_current_ma (throttle_entry sinfo i) ! MMRM_VDD_LEVEL_LOW_SVS ! aggreg_level sinfo"

text \<open>The call of a client's callback, if it has one.\<close>

definition notify ::
  "mmrm_sw_clk_client_tbl_entry \<Rightarrow> u64 \<Rightarrow> u64 \<Rightarrow> mmrm_sw_clk_mgr_info \<Rightarrow> mmrm_sw_clk_mgr_info" where
  "notify e old_val new_val sinfo =
     (case te_notifier_cb_fn e of None \<Rightarrow> sinfo
      | Some f \<Rightarrow> sinfo\<lparr>si_notified := si_notified sinfo @ [(f, old_val, new_val)]\<rparr>)"

text \<open>The comparison with the signed \<open>delta_cur\<close> is one of unsigned values. Finding nobody to
  throttle is not an error.\<close>

definition mmrm_sw_throttle_low_priority_client ::
  "mmrm_env \<Rightarrow> mmrm_sw_clk_mgr_info \<Rightarrow> u32 \<Rightarrow> u32 result \<times> mmrm_sw_clk_mgr_info" where
  "mmrm_sw_throttle_low_priority_client env sinfo delta_cur =
     (case find (\<lambda>i. min_cur_ma sinfo i < now_cur_ma sinfo i \<and> delta_cur < now_cur_ma sinfo i - min_cur_ma sinfo i)
             [0..<length (throttle_clients_info sinfo)] of
        None \<Rightarrow> (Inr delta_cur, sinfo)
      | Some i \<Rightarrow>
          let e = throttle_entry sinfo i;
              old_val = te_freq e ! te_vdd_level e;
              new_val = te_freq e ! MMRM_VDD_LEVEL_LOW_SVS;
              clk = the (te_clk e);
              rc = (case te_notifier_cb_fn e of None \<Rightarrow> 0 | Some f \<Rightarrow> notifier env f old_val new_val);
              sinfo = notify e old_val new_val sinfo
          in if rc \<noteq> 0 then (Inl EINVAL, sinfo)
             else if \<not> te_reserve e \<and> clk_set_rate env clk new_val \<noteq> 0 then (Inl EINVAL, sinfo)
             else
               let sinfo = (if te_reserve e then sinfo else sinfo\<lparr>si_rates := si_rates sinfo @ [(clk, new_val)]\<rparr>);
                   delta = now_cur_ma sinfo i - min_cur_ma sinfo i
               in if \<not> alloc_ok env then (Inl ENOMEM, sinfo)
                  else (Inr (delta_cur - delta),
                    set_entry (snd (throttle_clients_info sinfo ! i))
                      (e\<lparr>te_clk_rate := new_val, te_vdd_level := MMRM_VDD_LEVEL_LOW_SVS, te_reserve := False\<rparr>)
                      (sinfo\<lparr>throttled_clients := throttled_clients sinfo @
                         [\<lparr>tc_table_id = i, tc_delta_cu_ma = delta, tc_prev_vdd_level = te_vdd_level e\<rparr>]\<rparr>)))"

text \<open>Clients that fit again are told so and leave the list; what their callback returns is only
  reported.\<close>

fun reinstate_loop ::
  "mmrm_sw_throttled_clients_data list \<Rightarrow> mmrm_sw_clk_mgr_info \<Rightarrow> mmrm_sw_clk_mgr_info" where
  "reinstate_loop [] sinfo = sinfo"
| "reinstate_loop (iter # iters) sinfo =
     reinstate_loop iters
       (if aggreg_val sinfo + tc_delta_cu_ma iter \<le> pk_threshold sinfo then
          let e = throttle_entry sinfo (tc_table_id iter);
              sinfo = notify e (te_freq e ! MMRM_VDD_LEVEL_LOW_SVS) (te_freq e ! tc_prev_vdd_level iter) sinfo
          in sinfo\<lparr>throttled_clients := remove1 iter (throttled_clients sinfo)\<rparr>
        else sinfo)"

definition mmrm_reinstate_throttled_client :: "mmrm_sw_clk_mgr_info \<Rightarrow> mmrm_sw_clk_mgr_info" where
  "mmrm_reinstate_throttled_client sinfo = reinstate_loop (throttled_clients sinfo) sinfo"

subsection \<open>Peak current\<close>

text \<open>Sums are taken in 32 bits, the comparison with 0 is signed and that with the threshold
  unsigned, as the C conversions have it.\<close>

definition mmrm_sw_check_peak_current ::
  "mmrm_env \<Rightarrow> mmrm_sw_clk_mgr_info \<Rightarrow> nat \<Rightarrow> nat \<Rightarrow> u32 \<Rightarrow> u32 \<Rightarrow> unit result \<times> mmrm_sw_clk_mgr_info" where
  "mmrm_sw_check_peak_current env sinfo c req_level clk_val num_hw_blocks =
     (let e = clk_client_tbl sinfo ! c in
      case mmrm_sw_check_req_level sinfo (te_clk_src_id e) req_level of
        Inl err \<Rightarrow> (Inl err, sinfo)
      | Inr adj_level \<Rightarrow>
          let new_cur = (if clk_val \<noteq> 0 then te_current_ma e ! req_level ! adj_level * num_hw_blocks else 0);
              old_cur = (if te_clk_rate e \<noteq> 0 then entry_current e (aggreg_level sinfo) else 0);
              sums = (if adj_level \<noteq> aggreg_level sinfo
                      then map_sum id (\<lambda>total. (total + new_cur, 0)) (mmrm_sw_calculate_total_current sinfo adj_level c)
                      else Inr (aggreg_val sinfo, new_cur - old_cur))
          in (case sums of
                Inl err \<Rightarrow> (Inl err, sinfo)
              | Inr (peak_cur, delta_cur) \<Rightarrow>
                  if sint (peak_cur + delta_cur) \<le> 0
                  then (Inr (), sinfo\<lparr>aggreg_val := 0, aggreg_level := adj_level\<rparr>)
                  else
                    let update = (\<lambda>delta_cur sinfo. (Inr (), mmrm_reinstate_throttled_client
                          (sinfo\<lparr>aggreg_val := peak_cur + delta_cur, aggreg_level := adj_level\<rparr>)))
                    in if pk_threshold sinfo \<le> peak_cur + delta_cur then
                         (if te_pri e = MMRM_CLIENT_PRIOR_HIGH env \<and> msm_mmrm_enable_throttle_feature env then
                            (case mmrm_sw_throttle_low_priority_client env sinfo delta_cur of
                               (Inl err, sinfo) \<Rightarrow> (Inl err, sinfo)
                             | (Inr delta_cur, sinfo) \<Rightarrow> update delta_cur sinfo)
                          else (Inl EINVAL, sinfo))
                       else update delta_cur sinfo))"

subsection \<open>Rates\<close>

definition apply_rate ::
  "mmrm_env \<Rightarrow> mmrm_sw_clk_mgr_info \<Rightarrow> nat \<Rightarrow> u64 \<Rightarrow> unit result \<times> mmrm_sw_clk_mgr_info" where
  "apply_rate env sinfo c clk_val =
     (let clk = the (te_clk (clk_client_tbl sinfo ! c)) in
      if clk_set_rate env clk clk_val \<noteq> 0 then (Inl EINVAL, sinfo)
      else (Inr (), sinfo\<lparr>si_rates := si_rates sinfo @ [(clk, clk_val)]\<rparr>))"

text \<open>The level of a request; a rate of 0 has the lowest one.\<close>

definition requested_level ::
  "mmrm_env \<Rightarrow> mmrm_sw_clk_client_tbl_entry \<Rightarrow> mmrm_client_data \<Rightarrow> u64 \<Rightarrow> nat result" where
  "requested_level env e cd clk_val =
     (if clk_val \<noteq> 0 then
        (case mmrm_sw_get_req_level env e clk_val of
           Inl _ \<Rightarrow> Inl EINVAL
         | Inr l \<Rightarrow>
             if MMRM_VDD_LEVEL_MAX \<le> l then Inl EINVAL
             else if \<not> (1 \<le> md_num_hw_blocks cd \<and> md_num_hw_blocks cd \<le> te_max_num_hw_blocks e)
             then Inl EINVAL else Inr l)
      else Inr 0)"

text \<open>The client's entry with an accepted request.\<close>

definition requested :: "mmrm_sw_clk_client_tbl_entry \<Rightarrow> u64 \<Rightarrow> nat \<Rightarrow> bool \<Rightarrow> u32 \<Rightarrow> mmrm_sw_clk_client_tbl_entry" where
  "requested e clk_val level reserve num =
     e\<lparr>te_clk_rate := clk_val, te_vdd_level := level, te_reserve := reserve, te_num_hw_blocks := num\<rparr>"

definition commit_request ::
  "mmrm_env \<Rightarrow> mmrm_sw_clk_mgr_info \<Rightarrow> nat \<Rightarrow> u32 \<Rightarrow> bool \<Rightarrow> u64 \<Rightarrow> nat \<Rightarrow> unit result \<times> mmrm_sw_clk_mgr_info" where
  "commit_request env sinfo c num req_reserve clk_val req_level =
     (case mmrm_sw_check_peak_current env sinfo c req_level (ucast clk_val) num of
        (Inl err, sinfo) \<Rightarrow> (Inl err, sinfo)
      | (Inr _, sinfo) \<Rightarrow>
          let sinfo = set_entry c (requested (clk_client_tbl sinfo ! c) clk_val req_level req_reserve num) sinfo
          in if req_reserve then (Inr (), sinfo) else apply_rate env sinfo c clk_val)"

definition mmrm_sw_clk_client_setval ::
  "mmrm_env \<Rightarrow> mmrm_sw_clk_mgr_info \<Rightarrow> nat option \<Rightarrow> mmrm_client_data option \<Rightarrow> u64 \<Rightarrow>
   unit result \<times> mmrm_sw_clk_mgr_info" where
  "mmrm_sw_clk_client_setval env sinfo client client_data clk_val =
     (case (client, client_data) of
        (Some c, Some cd) \<Rightarrow>
          if tot_clk_clients sinfo \<le> c then (Inl EINVAL, sinfo)
          else
            let e = clk_client_tbl sinfo ! c;
                req_reserve = (md_flags cd AND MMRM_CLIENT_DATA_FLAG_RESERVE_ONLY env \<noteq> 0)
            in if te_clk e = None then (Inl EINVAL, sinfo)
               else if te_clk_rate e = clk_val \<and> te_num_hw_blocks e = md_num_hw_blocks cd then
                 (if te_reserve e = req_reserve then (Inr (), sinfo)
                  else
                    let sinfo = set_entry c (e\<lparr>te_reserve := req_reserve\<rparr>) sinfo
                    in if req_reserve then (Inr (), sinfo) else apply_rate env sinfo c clk_val)
               else (case requested_level env e cd clk_val of
                       Inl err \<Rightarrow> (Inl err, sinfo)
                     | Inr level \<Rightarrow> commit_request env sinfo c (md_num_hw_blocks cd) req_reserve clk_val level)
      | _ \<Rightarrow> (Inl EINVAL, sinfo))"

record mmrm_client_res_value =
  rv_min :: u64
  rv_cur :: u64
  rv_max :: u64

definition mmrm_sw_clk_client_setval_inrange ::
  "mmrm_env \<Rightarrow> mmrm_sw_clk_mgr_info \<Rightarrow> nat option \<Rightarrow> mmrm_client_data option \<Rightarrow> mmrm_client_res_value \<Rightarrow>
   unit result \<times> mmrm_sw_clk_mgr_info" where
  "mmrm_sw_clk_client_setval_inrange env sinfo client client_data val =
     mmrm_sw_clk_client_setval env sinfo client client_data (rv_cur val)"

definition mmrm_sw_clk_client_getval ::
  "mmrm_sw_clk_mgr_info \<Rightarrow> nat option \<Rightarrow> mmrm_client_res_value result" where
  "mmrm_sw_clk_client_getval sinfo client =
     (case client of
        None \<Rightarrow> Inl EINVAL
      | Some c \<Rightarrow>
          if tot_clk_clients sinfo \<le> c then Inl EINVAL
          else
            let e = clk_client_tbl sinfo ! c in
            if te_clk e = None then Inl EINVAL
            else Inr \<lparr>rv_min = te_clk_rate e, rv_cur = te_clk_rate e, rv_max = te_clk_rate e\<rparr>)"

subsection \<open>Initialisation\<close>

definition zero_entry :: mmrm_sw_clk_client_tbl_entry where
  "zero_entry = \<lparr>te_name = [], te_clk = None, te_pri = 0, te_pvt_data = 0, te_notifier_cb_fn = None,
     te_clk_src_id = 0, te_max_num_hw_blocks = 0, te_freq = replicate MMRM_VDD_LEVEL_MAX 0,
     te_dyn_pwr = replicate MMRM_VDD_LEVEL_MAX 0, te_leak_pwr = replicate MMRM_VDD_LEVEL_MAX 0,
     te_current_ma = replicate MMRM_VDD_LEVEL_MAX (replicate MMRM_VDD_LEVEL_MAX 0), te_client = None,
     te_clk_rate = 0, te_vdd_level = 0, te_reserve = False, te_ref_count = 0, te_num_hw_blocks = 0\<rparr>"

definition mmrm_sw_prepare_table ::
  "mmrm_clk_platform_resources \<Rightarrow> mmrm_sw_clk_client_tbl_entry list \<Rightarrow> mmrm_sw_clk_client_tbl_entry list" where
  "mmrm_sw_prepare_table cres tbl =
     map2 (\<lambda>e nom. e\<lparr>te_clk_src_id := push_bit 16 (nom_domain nom) OR nom_clk_src_id nom,
         te_dyn_pwr := (te_dyn_pwr e)[MMRM_VDD_LEVEL_NOM := nom_dyn_pwr nom],
         te_leak_pwr := (te_leak_pwr e)[MMRM_VDD_LEVEL_NOM := nom_leak_pwr nom],
         te_max_num_hw_blocks := nom_num_hw_block nom\<rparr>)
       tbl (nom_clk_set cres)"

text \<open>The allocations of the manager and of its table succeed or not; an entry of
  \<open>throttle_clients_info\<close> whose id is not in the table stays zero.\<close>

definition mmrm_init_sw_clk_mgr ::
  "bool \<Rightarrow> bool \<Rightarrow> mmrm_clk_platform_resources \<Rightarrow> mmrm_sw_clk_mgr_info result" where
  "mmrm_init_sw_clk_mgr mgr_ok tbl_ok cres =
     (if \<not> mgr_ok then Inl ENOMEM
      else if \<not> tbl_ok then Inl ENOMEM
      else
        let tbl = mmrm_sw_prepare_table cres (replicate (length (nom_clk_set cres)) zero_entry);
            info = (\<lambda>id. case find (\<lambda>j. te_clk_src_id (tbl ! j) = id) [0..<length tbl] of
                           None \<Rightarrow> (0, 0) | Some j \<Rightarrow> (id, j))
        in Inr \<lparr>si_cres = cres, clk_client_tbl = tbl, enabled_clk_clients = 0,
                throttle_clients_info = map info (clsid_threshold_clients cres),
                pk_threshold = peak_threshold cres, aggreg_val = 0, aggreg_level = 0,
                throttled_clients = [], si_rates = [], si_notified = []\<rparr>)"

section \<open>Frequencies\<close>

text \<open>What the loop keeps: the frequencies do not fall from one level to the next, none is above
  the highest rate found so far, and each is a rate the clock can have.\<close>

definition freq_ok :: "mmrm_env \<Rightarrow> nat \<Rightarrow> int \<Rightarrow> u64 list \<Rightarrow> bool" where
  "freq_ok env clk hi freq \<longleftrightarrow> length freq = MMRM_VDD_LEVEL_MAX \<and> sorted (map uint freq) \<and>
     (\<forall>f\<in>set freq. uint f \<le> hi \<and> (\<exists>r. f = of_int (clk_round_rate env clk r)))"

lemma uint_of_int_long: "0 \<le> i \<Longrightarrow> i < 2 ^ 63 \<Longrightarrow> uint (of_int i :: u64) = i"
  by (simp add: uint_word_of_int_eq take_bit_int_eq_self)

lemma freq_ok_raise:
  assumes ok: "freq_ok env clk hi freq" and r: "r = clk_round_rate env clk x" "0 \<le> r" "r < 2 ^ 63" "hi \<le> r"
  shows "freq_ok env clk r (take i freq @ replicate (length freq - i) (of_int r))"
proof -
  have uint: "uint (of_int r :: u64) = r" using r(2,3) by (rule uint_of_int_long)
  have sub: "f \<in> set freq" if "f \<in> set (take i freq)" for f using that by (rule in_set_takeD)
  have "sorted (map uint (take i freq))" using ok by (simp add: freq_ok_def flip: take_map)
  moreover have "uint f \<le> r" if "f \<in> set (take i freq)" for f
    using ok sub [OF that] r(4) by (auto simp: freq_ok_def)
  ultimately show ?thesis
    using ok sub r(1) uint by (auto simp: freq_ok_def sorted_append)
qed

lemma freq_loop_ok:
  assumes "freq_ok env clk hi freq" "0 \<le> hi" "\<forall>r. clk_round_rate env clk r < 2 ^ 63"
  shows "\<exists>hi'. freq_ok env clk hi' (freq_loop env clk hi v vmax freq)"
  using assms
proof (induction env clk hi v vmax freq rule: freq_loop.induct)
  case (1 env clk hi v vmax freq)
  let ?r = "clk_round_rate env clk (of_int v)"
  let ?corner = "qcom_clk_get_voltage env clk (of_int ?r)"
  let ?i = "match_level env (max ?corner (mmrm_sw_vdd_corner env MMRM_VDD_LEVEL_LOW_SVS))"
  let ?freq = "take ?i freq @ replicate (length freq - ?i) (of_int ?r)"
  show ?case
  proof (cases "v < vmax \<and> hi < ?r \<and> \<not> (?corner < 0 \<or> mmrm_sw_vdd_corner env MMRM_VDD_LEVEL_TURBO < ?corner)")
    case True
    then have "freq_loop env clk hi v vmax freq = freq_loop env clk ?r (v + CLK_RATE_STEP) vmax ?freq"
      by (subst freq_loop.simps) (simp add: Let_def)
    moreover have "freq_ok env clk ?r ?freq"
      using True "1.prems" by (intro freq_ok_raise [OF "1.prems"(1) refl]) auto
    ultimately show ?thesis using "1.IH"(1) [OF _ refl _ refl _ refl refl refl] True "1.prems" by simp
  next
    case False
    then show ?thesis
      using "1.IH"(2) [OF _ refl] "1.prems" by (subst freq_loop.simps) (auto simp: Let_def)
  qed
qed


section \<open>Levels\<close>

text \<open>The corners of the kernel's header grow with the level.\<close>

definition corners_ok :: "mmrm_env \<Rightarrow> bool" where
  "corners_ok env \<longleftrightarrow> 0 \<le> mmrm_sw_vdd_corner env 0 \<and>
     (\<forall>i. i < MMRM_VDD_LEVEL_TURBO \<longrightarrow> mmrm_sw_vdd_corner env i < mmrm_sw_vdd_corner env (Suc i))"

lemma match_level_Some:
  "match_level env corner < MMRM_VDD_LEVEL_MAX \<Longrightarrow> mmrm_sw_vdd_corner env (match_level env corner) = corner"
  by (auto simp: match_level_def split: option.splits) (auto simp: find_Some_iff)

lemma match_level_le: "match_level env corner \<le> MMRM_VDD_LEVEL_MAX"
  by (auto simp: match_level_def find_Some_iff split: option.splits)

lemma match_level_eq:
  assumes "match_level env corner = MMRM_VDD_LEVEL_MAX" "i < MMRM_VDD_LEVEL_MAX"
  shows "mmrm_sw_vdd_corner env i \<noteq> corner"
  using assms by (auto simp: match_level_def find_None_iff find_Some_iff split: option.splits)

text \<open>The level of a requested rate: a rate whose voltage is below the lowest corner gets the
  lowest level, one whose voltage is a corner gets the level of that corner, and every other
  voltage (an error, one above turbo, or one between two corners) is refused with a non-zero
  value.\<close>

theorem mmrm_sw_get_req_level_correct:
  assumes "corners_ok env" and "te_clk e = Some clk"
  shows "case mmrm_sw_get_req_level env e clk_val of
      Inl rc \<Rightarrow> rc \<noteq> 0 \<and> (qcom_clk_get_voltage env clk clk_val < 0 \<or>
        (mmrm_sw_vdd_corner env 0 \<le> qcom_clk_get_voltage env clk clk_val \<and>
         (\<forall>l<MMRM_VDD_LEVEL_MAX. mmrm_sw_vdd_corner env l \<noteq> qcom_clk_get_voltage env clk clk_val)))
    | Inr l \<Rightarrow> l < MMRM_VDD_LEVEL_MAX \<and> 0 \<le> qcom_clk_get_voltage env clk clk_val \<and>
        (if qcom_clk_get_voltage env clk clk_val < mmrm_sw_vdd_corner env 0 then l = 0
         else mmrm_sw_vdd_corner env l = qcom_clk_get_voltage env clk clk_val)"
proof -
  let ?v = "qcom_clk_get_voltage env clk clk_val"
  have "mmrm_sw_vdd_corner env 0 \<le> mmrm_sw_vdd_corner env i" "mmrm_sw_vdd_corner env i \<le> mmrm_sw_vdd_corner env 4"
    if "i < 5" for i
  proof -
    have c: "mmrm_sw_vdd_corner env 0 < mmrm_sw_vdd_corner env 1" "mmrm_sw_vdd_corner env 1 < mmrm_sw_vdd_corner env 2"
      "mmrm_sw_vdd_corner env 2 < mmrm_sw_vdd_corner env 3" "mmrm_sw_vdd_corner env 3 < mmrm_sw_vdd_corner env 4"
      using assms(1) by (simp_all add: corners_ok_def mmrm_levels eval_nat_numeral)
    have "i \<in> {0, 1, 2, 3, 4}" using that by auto
    with c show "mmrm_sw_vdd_corner env 0 \<le> mmrm_sw_vdd_corner env i" "mmrm_sw_vdd_corner env i \<le> mmrm_sw_vdd_corner env 4"
      by auto
  qed
  note range = this
  have zero: "0 \<le> mmrm_sw_vdd_corner env 0" using assms(1) by (simp add: corners_ok_def)
  show ?thesis
  proof (cases "?v < 0 \<or> mmrm_sw_vdd_corner env 4 < ?v")
    case True
    then show ?thesis
      using range zero range(2) [of 0] assms(2)
      by (fastforce simp: mmrm_sw_get_req_level_def Let_def mmrm_levels)
  next
    case False
    then show ?thesis
      using match_level_Some [of env ?v] match_level_le [of env ?v] match_level_eq [of env ?v] assms(2)
      by (auto simp: mmrm_sw_get_req_level_def Let_def mmrm_levels)
  qed
qed

section \<open>Peak current\<close>

text \<open>What the aggregated current stands for: the sum, without wrap-around, of the currents of
  the active clients at a level of the rail.\<close>

definition entry_load :: "mmrm_sw_clk_client_tbl_entry \<Rightarrow> nat \<Rightarrow> nat" where
  "entry_load e level =
     (if entry_active e then unat (te_current_ma e ! te_vdd_level e ! level) * unat (te_num_hw_blocks e) else 0)"

definition total_current :: "mmrm_sw_clk_client_tbl_entry list \<Rightarrow> nat \<Rightarrow> nat" where
  "total_current tbl level = sum_list (map (\<lambda>e. entry_load e level) tbl)"

text \<open>No client takes more than \<open>B\<close>, whatever its level and its number of blocks.\<close>

definition current_bounded :: "nat \<Rightarrow> mmrm_sw_clk_client_tbl_entry \<Rightarrow> bool" where
  "current_bounded B e \<longleftrightarrow>
     (\<forall>i<MMRM_VDD_LEVEL_MAX. \<forall>j<MMRM_VDD_LEVEL_MAX.
        unat (te_current_ma e ! i ! j) * unat (te_max_num_hw_blocks e) \<le> B)"

definition entry_ok :: "nat \<Rightarrow> mmrm_sw_clk_client_tbl_entry \<Rightarrow> bool" where
  "entry_ok B e \<longleftrightarrow> current_bounded B e \<and> te_vdd_level e < MMRM_VDD_LEVEL_MAX \<and>
     (te_client e = None \<longrightarrow> te_clk e = None) \<and> (te_clk e = None \<longrightarrow> te_clk_rate e = 0) \<and>
     (entry_active e \<longrightarrow> te_num_hw_blocks e \<le> te_max_num_hw_blocks e)"

definition peak_ok :: "nat \<Rightarrow> mmrm_sw_clk_mgr_info \<Rightarrow> bool" where
  "peak_ok B sinfo \<longleftrightarrow> (\<forall>e\<in>set (clk_client_tbl sinfo). entry_ok B e) \<and>
     tot_clk_clients sinfo * B < 2 ^ 31 \<and> aggreg_level sinfo < MMRM_VDD_LEVEL_MAX \<and>
     unat (aggreg_val sinfo) = total_current (clk_client_tbl sinfo) (aggreg_level sinfo) \<and>
     (aggreg_val sinfo = 0 \<or> aggreg_val sinfo < pk_threshold sinfo)"

lemma entry_load_le: "entry_ok B e \<Longrightarrow> l < MMRM_VDD_LEVEL_MAX \<Longrightarrow> entry_load e l \<le> B"
  by (auto simp: entry_load_def entry_ok_def current_bounded_def word_le_nat_alt
      intro: order_trans [OF mult_le_mono2])

lemma total_current_le:
  assumes "\<forall>e\<in>set tbl. entry_ok B e" "l < MMRM_VDD_LEVEL_MAX"
  shows "total_current tbl l \<le> length tbl * B"
  using assms(1)
proof (induction tbl)
  case (Cons e tbl)
  then show ?case using entry_load_le [of B e l] assms(2) by (simp add: total_current_def)
qed (simp add: total_current_def)

lemma total_current_update:
  assumes "c < length tbl"
  shows "total_current (tbl[c := e]) l + entry_load (tbl ! c) l = total_current tbl l + entry_load e l"
  using assms
proof (induction tbl arbitrary: c)
  case (Cons a tbl)
  then show ?case by (cases c) (auto simp: total_current_def)
qed simp

lemma unat_sum_list_u32:
  fixes f :: "'a \<Rightarrow> u32"
  assumes "sum_list (map g xs) < 2 ^ 32" "\<And>x. x \<in> set xs \<Longrightarrow> unat (f x) = g x"
  shows "unat (sum_list (map f xs)) = sum_list (map g xs)"
  using assms
proof (induction xs)
  case (Cons x xs)
  then show ?case by (simp add: unat_add_u32)
qed simp

lemma unat_entry_current:
  assumes "entry_ok B e" "B < 2 ^ 31" "entry_active e" "l < MMRM_VDD_LEVEL_MAX"
  shows "unat (entry_current e l) = entry_load e l"
  using entry_load_le [OF assms(1,4)] assms(2,3)
  by (simp add: entry_current_def entry_load_def unat_word_ariths)

text \<open>The sum over the other clients: the client's own entry counts as one with rate 0.\<close>

lemma unat_total_current:
  assumes ok: "\<forall>e\<in>set (clk_client_tbl sinfo). entry_ok B e" and B: "tot_clk_clients sinfo * B < 2 ^ 31"
    and c: "c < tot_clk_clients sinfo" and l: "l < MMRM_VDD_LEVEL_MAX"
  shows "\<exists>total. mmrm_sw_calculate_total_current sinfo l c = Inr total \<and>
    unat total + entry_load (clk_client_tbl sinfo ! c) l = total_current (clk_client_tbl sinfo) l"
proof -
  let ?tbl = "clk_client_tbl sinfo" and ?off = "(clk_client_tbl sinfo ! c)\<lparr>te_clk_rate := 0\<rparr>"
  let ?f = "\<lambda>i. let e = ?tbl ! i in if \<not> entry_active e \<or> i = c then 0 else entry_current e l"
  let ?g = "\<lambda>i. entry_load (?tbl[c := ?off] ! i) l"
  have len: "length ?tbl = tot_clk_clients sinfo" by (simp add: tot_clk_clients_def)
  have off: "entry_load ?off l = 0" by (simp add: entry_load_def entry_active_def)
  have B': "B < 2 ^ 31" using B c by (cases "tot_clk_clients sinfo") auto
  have "map ?g [0..<tot_clk_clients sinfo] = map (\<lambda>e. entry_load e l) (?tbl[c := ?off])"
    by (rule nth_equalityI) (simp_all add: len)
  then have sum: "sum_list (map ?g [0..<tot_clk_clients sinfo]) = total_current (?tbl[c := ?off]) l"
    by (simp only: total_current_def)
  have total: "total_current (?tbl[c := ?off]) l + entry_load (?tbl ! c) l = total_current ?tbl l"
    using total_current_update [of c ?tbl ?off l] c len off by simp
  have "unat (?f i) = ?g i" if "i \<in> set [0..<tot_clk_clients sinfo]" for i
  proof (cases "i = c")
    case True
    then show ?thesis using off c len by simp
  next
    case False
    then show ?thesis
      using unat_entry_current [OF _ B' _ l, of "?tbl ! i"] ok that len
      by (cases "entry_active (?tbl ! i)") (auto simp: Let_def entry_load_def)
  qed
  then have "unat (sum_list (map ?f [0..<tot_clk_clients sinfo])) = total_current (?tbl[c := ?off]) l"
    using unat_sum_list_u32 [of ?g "[0..<tot_clk_clients sinfo]" ?f] sum total
      total_current_le [OF ok l] B len by simp
  then show ?thesis using total l by (auto simp: mmrm_sw_calculate_total_current_def)
qed

lemma notify_fields [simp]:
  "clk_client_tbl (notify e x y sinfo) = clk_client_tbl sinfo"
  "aggreg_val (notify e x y sinfo) = aggreg_val sinfo"
  "aggreg_level (notify e x y sinfo) = aggreg_level sinfo"
  "pk_threshold (notify e x y sinfo) = pk_threshold sinfo"
  by (simp_all add: notify_def split: option.splits)

lemma reinstate_loop_fields [simp]:
  "clk_client_tbl (reinstate_loop iters sinfo) = clk_client_tbl sinfo"
  "aggreg_val (reinstate_loop iters sinfo) = aggreg_val sinfo"
  "aggreg_level (reinstate_loop iters sinfo) = aggreg_level sinfo"
  "pk_threshold (reinstate_loop iters sinfo) = pk_threshold sinfo"
  by (induction iters sinfo rule: reinstate_loop.induct) (simp_all add: Let_def)

lemma level_scan_less:
  assumes "level_scan src_id agg req es next_max = (b, Some l)" "\<forall>e\<in>set es. te_vdd_level e < m"
    "next_max = Some l' \<Longrightarrow> l' < m" "next_max = None \<or> next_max = Some l'"
  shows "l < m"
  using assms
  by (induction src_id agg req es next_max arbitrary: l' rule: level_scan.induct) (auto split: if_splits)

lemma mmrm_sw_check_req_level_less:
  assumes "mmrm_sw_check_req_level sinfo src_id req = Inr adj" "aggreg_level sinfo < MMRM_VDD_LEVEL_MAX"
    "\<forall>e\<in>set (clk_client_tbl sinfo). te_vdd_level e < MMRM_VDD_LEVEL_MAX"
  shows "adj < MMRM_VDD_LEVEL_MAX"
  using assms level_scan_less [OF _ assms(3), where next_max = None]
  by (auto simp: mmrm_sw_check_req_level_def split: if_splits prod.splits bool.splits option.splits)

lemma entry_ok_requested:
  assumes "entry_ok B e" "te_clk e \<noteq> None" "level < MMRM_VDD_LEVEL_MAX" "clk_val \<noteq> 0 \<Longrightarrow> num \<le> te_max_num_hw_blocks e"
  shows "entry_ok B (requested e clk_val level reserve num)"
  using assms by (auto simp: entry_ok_def requested_def current_bounded_def entry_active_def)

text \<open>The two ways of computing the new current give the total of the table with the request.\<close>

lemma new_total_current:
  assumes ok: "peak_ok B sinfo" and c: "c < tot_clk_clients sinfo" and adj: "adj < MMRM_VDD_LEVEL_MAX"
    and e_def: "e = clk_client_tbl sinfo ! c" and clk: "te_clk e \<noteq> None"
    and e'_def: "e' = requested e clk_val level reserve num" and e': "entry_ok B e'"
    and new_def: "new = (if clk_val \<noteq> 0 then te_current_ma e ! level ! adj * num else 0)"
    and old_def: "old = (if te_clk_rate e \<noteq> 0 then entry_current e (aggreg_level sinfo) else 0)"
    and sums: "(if adj \<noteq> aggreg_level sinfo
      then map_sum id (\<lambda>total. (total + new, 0)) (mmrm_sw_calculate_total_current sinfo adj c)
      else Inr (aggreg_val sinfo, new - old)) = Inr (peak, delta)"
  shows "unat (peak + delta) = total_current ((clk_client_tbl sinfo)[c := e']) adj"
    and "unat (peak + delta) < 2 ^ 31"
proof -
  let ?tbl = "clk_client_tbl sinfo"
  have len: "length ?tbl = tot_clk_clients sinfo" by (simp add: tot_clk_clients_def)
  have all: "\<forall>e\<in>set ?tbl. entry_ok B e" and B: "tot_clk_clients sinfo * B < 2 ^ 31"
    and lvl: "aggreg_level sinfo < MMRM_VDD_LEVEL_MAX"
    and val: "unat (aggreg_val sinfo) = total_current ?tbl (aggreg_level sinfo)"
    using ok by (auto simp: peak_ok_def)
  have B': "B < 2 ^ 31" using B c by (cases "tot_clk_clients sinfo") auto
  have eok: "entry_ok B e" using all c len e_def by auto
  have new: "unat new = entry_load e' adj"
    using unat_entry_current [OF e' B' _ adj] clk
    by (auto simp: new_def e'_def requested_def entry_load_def entry_active_def entry_current_def)
  have old: "unat old = entry_load e (aggreg_level sinfo)"
    using unat_entry_current [OF eok B' _ lvl] clk by (auto simp: old_def entry_load_def entry_active_def)
  have upd: "total_current (?tbl[c := e']) l + entry_load e l = total_current ?tbl l + entry_load e' l" for l
    using total_current_update [of c ?tbl e' l] c len e_def by simp
  have le: "total_current (?tbl[c := e']) adj < 2 ^ 31"
  proof -
    have "\<forall>e\<in>set (?tbl[c := e']). entry_ok B e" using all e' by (auto dest!: set_update_subset_insert [THEN subsetD])
    from total_current_le [OF this adj] show ?thesis using B len by simp
  qed
  show total: "unat (peak + delta) = total_current (?tbl[c := e']) adj"
  proof (cases "adj = aggreg_level sinfo")
    case True
    then have "peak = aggreg_val sinfo" "delta = new - old" using sums by auto
    then have "peak + delta + old = aggreg_val sinfo + new" by simp
    moreover have "unat (aggreg_val sinfo + new) = total_current (?tbl[c := e']) adj + unat old"
      using upd [of adj] val new old True le entry_load_le [OF eok lvl] B'
      by (simp add: unat_add_u32)
    ultimately have "unat (peak + delta + old) = total_current (?tbl[c := e']) adj + unat old" by simp
    moreover have "peak + delta = (peak + delta + old) - old" by simp
    ultimately show ?thesis
      by (metis add_diff_cancel_right' le_add2 unat_sub word_le_nat_alt)
  next
    case False
    obtain total where t: "mmrm_sw_calculate_total_current sinfo adj c = Inr total"
      "unat total + entry_load e adj = total_current ?tbl adj"
      using unat_total_current [OF all B c adj] e_def by auto
    with False sums have "peak + delta = total + new" by simp
    moreover have "unat total + unat new = total_current (?tbl[c := e']) adj" using upd [of adj] t new by simp
    ultimately show ?thesis using le by (simp add: unat_add_u32)
  qed
  show "unat (peak + delta) < 2 ^ 31" using total le by simp
qed

lemma mmrm_sw_check_peak_current_ok:
  assumes ok: "peak_ok B sinfo" and c: "c < tot_clk_clients sinfo"
    and e_def: "e = clk_client_tbl sinfo ! c" and clk: "te_clk e \<noteq> None"
    and off: "te_pri e \<noteq> MMRM_CLIENT_PRIOR_HIGH env \<or> \<not> msm_mmrm_enable_throttle_feature env"
    and level: "level < MMRM_VDD_LEVEL_MAX" and num: "clk_val \<noteq> 0 \<Longrightarrow> num \<le> te_max_num_hw_blocks e"
    and small: "unat clk_val < 2 ^ 32"
    and run: "mmrm_sw_check_peak_current env sinfo c level (ucast clk_val) num = (rc, sinfo')"
  shows "case rc of Inl _ \<Rightarrow> sinfo' = sinfo
    | Inr _ \<Rightarrow> peak_ok B (set_entry c (requested e clk_val level reserve num) sinfo') \<and>
        clk_client_tbl sinfo' = clk_client_tbl sinfo"
proof -
  let ?e' = "requested e clk_val level reserve num"
  have "unat (ucast clk_val :: u32) = unat clk_val" using small by (simp add: unsigned_ucast_eq take_bit_nat_eq_self)
  then have u: "(ucast clk_val :: u32) = 0 \<longleftrightarrow> clk_val = 0" by (metis unat_eq_0)
  have eok: "entry_ok B e" using ok c e_def by (auto simp: peak_ok_def tot_clk_clients_def)
  have e': "entry_ok B ?e'" using entry_ok_requested [OF eok clk level num] .
  show ?thesis
  proof (cases "mmrm_sw_check_req_level sinfo (te_clk_src_id e) level")
    case (Inl err)
    then show ?thesis using run e_def by (auto simp: mmrm_sw_check_peak_current_def)
  next
    case (Inr adj)
    have adj: "adj < MMRM_VDD_LEVEL_MAX"
      using mmrm_sw_check_req_level_less [OF Inr] ok by (auto simp: peak_ok_def entry_ok_def)
    let ?new = "if clk_val \<noteq> 0 then te_current_ma e ! level ! adj * num else 0"
    let ?old = "if te_clk_rate e \<noteq> 0 then entry_current e (aggreg_level sinfo) else 0"
    let ?sums = "if adj \<noteq> aggreg_level sinfo
      then map_sum id (\<lambda>total. (total + ?new, 0)) (mmrm_sw_calculate_total_current sinfo adj c)
      else Inr (aggreg_val sinfo, ?new - ?old)"
    show ?thesis
    proof (cases ?sums)
      case (Inl err)
      then show ?thesis using run e_def Inr u by (auto simp: mmrm_sw_check_peak_current_def Let_def)
    next
      case sums: (Inr pd)
      obtain peak delta where pd: "pd = (peak, delta)" by (cases pd)
      note total = new_total_current [OF ok c adj e_def clk refl e' refl refl sums [unfolded pd]]
      have nonneg: "sint (peak + delta) \<le> 0 \<longleftrightarrow> peak + delta = 0"
        using sint_u32_small [OF total(2)] by (simp add: uint_0_iff)
      have keep: "peak_ok B (set_entry c ?e' s) \<and> clk_client_tbl s = clk_client_tbl sinfo"
        if "clk_client_tbl s = clk_client_tbl sinfo" "aggreg_val s = peak + delta" "aggreg_level s = adj"
          "pk_threshold s = pk_threshold sinfo" "peak + delta = 0 \<or> peak + delta < pk_threshold sinfo" for s
        using that total(1) ok adj e'
        by (auto simp: peak_ok_def set_entry_def tot_clk_clients_def dest!: set_update_subset_insert [THEN subsetD])
      show ?thesis
      proof (cases "peak + delta = 0")
        case True
        then have "rc = Inr ()" "sinfo' = sinfo\<lparr>aggreg_val := 0, aggreg_level := adj\<rparr>"
          using run e_def Inr u sums pd nonneg by (auto simp: mmrm_sw_check_peak_current_def Let_def)
        then show ?thesis using keep [of sinfo'] True by simp
      next
        case False
        then show ?thesis
          using run e_def Inr u sums pd nonneg off keep [of sinfo']
          by (auto simp: mmrm_sw_check_peak_current_def Let_def mmrm_reinstate_throttled_client_def
              split: if_splits)
      qed
    qed
  qed
qed

text \<open>A new entry that takes as much current as the old one.\<close>

lemma peak_ok_set_entry:
  assumes "peak_ok B sinfo" "c < tot_clk_clients sinfo" "entry_ok B e"
    "entry_load e (aggreg_level sinfo) = entry_load (clk_client_tbl sinfo ! c) (aggreg_level sinfo)"
  shows "peak_ok B (set_entry c e sinfo)"
  using assms total_current_update [of c "clk_client_tbl sinfo" e "aggreg_level sinfo"]
  by (auto simp: peak_ok_def set_entry_def tot_clk_clients_def dest!: set_update_subset_insert [THEN subsetD])

lemma peak_ok_entry: "peak_ok B sinfo \<Longrightarrow> c < tot_clk_clients sinfo \<Longrightarrow> entry_ok B (clk_client_tbl sinfo ! c)"
  by (auto simp: peak_ok_def tot_clk_clients_def)

lemma peak_ok_apply_rate: "peak_ok B sinfo \<Longrightarrow> peak_ok B (snd (apply_rate env sinfo c clk_val))"
  by (simp add: apply_rate_def Let_def peak_ok_def tot_clk_clients_def)

lemma mmrm_sw_clk_client_setval_new:
  assumes c: "c < tot_clk_clients sinfo" and clk: "te_clk (clk_client_tbl sinfo ! c) \<noteq> None"
    and new: "\<not> (te_clk_rate (clk_client_tbl sinfo ! c) = clk_val \<and>
      te_num_hw_blocks (clk_client_tbl sinfo ! c) = md_num_hw_blocks cd)"
  shows "mmrm_sw_clk_client_setval env sinfo (Some c) (Some cd) clk_val =
    (case requested_level env (clk_client_tbl sinfo ! c) cd clk_val of
       Inl err \<Rightarrow> (Inl err, sinfo)
     | Inr level \<Rightarrow> commit_request env sinfo c (md_num_hw_blocks cd)
         (md_flags cd AND MMRM_CLIENT_DATA_FLAG_RESERVE_ONLY env \<noteq> 0) clk_val level)"
  unfolding mmrm_sw_clk_client_setval_def using c clk
  by (simp only: Let_def prod.case option.case if_not_P [OF new] if_not_P [OF c [unfolded not_le [symmetric]]] if_False refl simp_thms)

lemma requested_level_ok:
  assumes "requested_level env e cd clk_val = Inr level"
  shows "level < MMRM_VDD_LEVEL_MAX" "clk_val \<noteq> 0 \<Longrightarrow> md_num_hw_blocks cd \<le> te_max_num_hw_blocks e"
  using assms by (auto simp: requested_level_def mmrm_levels split: if_splits sum.splits)

text \<open>Throttling is for clients of high priority, and only while the feature is on.\<close>

definition may_not_throttle :: "mmrm_env \<Rightarrow> mmrm_sw_clk_mgr_info \<Rightarrow> nat \<Rightarrow> bool" where
  "may_not_throttle env sinfo c \<longleftrightarrow>
     te_pri (clk_client_tbl sinfo ! c) \<noteq> MMRM_CLIENT_PRIOR_HIGH env \<or> \<not> msm_mmrm_enable_throttle_feature env"

lemma mmrm_sw_clk_client_setval_ok:
  assumes ok: "peak_ok B sinfo" and small: "unat clk_val < 2 ^ 32"
    and off: "\<And>c. client = Some c \<Longrightarrow> c < tot_clk_clients sinfo \<Longrightarrow> may_not_throttle env sinfo c"
  shows "peak_ok B (snd (mmrm_sw_clk_client_setval env sinfo client client_data clk_val))"
proof (cases "\<exists>c cd. client = Some c \<and> client_data = Some cd \<and> c < tot_clk_clients sinfo \<and>
    te_clk (clk_client_tbl sinfo ! c) \<noteq> None")
  case False
  then show ?thesis using ok
    by (auto simp: mmrm_sw_clk_client_setval_def Let_def split: option.splits)
next
  case True
  then obtain c cd where args: "client = Some c" "client_data = Some cd" and c: "c < tot_clk_clients sinfo"
    and clk: "te_clk (clk_client_tbl sinfo ! c) \<noteq> None" by blast
  let ?e = "clk_client_tbl sinfo ! c"
  let ?res = "md_flags cd AND MMRM_CLIENT_DATA_FLAG_RESERVE_ONLY env \<noteq> 0"
  let ?num = "md_num_hw_blocks cd"
  show ?thesis
  proof (cases "te_clk_rate ?e = clk_val \<and> te_num_hw_blocks ?e = ?num")
    case True
    have "entry_ok B (?e\<lparr>te_reserve := ?res\<rparr>)"
      using peak_ok_entry [OF ok c] by (simp add: entry_ok_def current_bounded_def entry_active_def)
    then have "peak_ok B (set_entry c (?e\<lparr>te_reserve := ?res\<rparr>) sinfo)"
      using ok c by (intro peak_ok_set_entry) (auto simp: entry_load_def entry_active_def)
    then show ?thesis using True args c clk ok
      by (auto simp: mmrm_sw_clk_client_setval_def Let_def peak_ok_apply_rate)
  next
    case False
    have "peak_ok B (snd (commit_request env sinfo c ?num ?res clk_val level))"
      if "requested_level env ?e cd clk_val = Inr level" for level
    proof -
      obtain rc s where run: "mmrm_sw_check_peak_current env sinfo c level (ucast clk_val) ?num = (rc, s)"
        by (cases "mmrm_sw_check_peak_current env sinfo c level (ucast clk_val) ?num")
      note step = mmrm_sw_check_peak_current_ok [OF ok c refl clk off [OF args(1) c, unfolded may_not_throttle_def] requested_level_ok [OF that] small run,
          where reserve = ?res]
      show ?thesis
        using step ok by (cases rc; cases ?res) (simp_all add: commit_request_def run Let_def peak_ok_apply_rate)
    qed
    moreover note mmrm_sw_clk_client_setval_new [OF c clk False, of env]
    ultimately show ?thesis using ok args by (cases "requested_level env ?e cd clk_val") simp_all
  qed
qed

lemma unregister_entry_ok:
  "entry_ok B e \<Longrightarrow> te_clk_rate e = 0 \<Longrightarrow> entry_ok B (unregister_entry e)"
  by (simp add: entry_ok_def unregister_entry_def current_bounded_def entry_active_def)

lemma mmrm_sw_update_freq_fields [simp]:
  "te_clk (mmrm_sw_update_freq env e) = te_clk e" "te_client (mmrm_sw_update_freq env e) = te_client e"
  "te_clk_rate (mmrm_sw_update_freq env e) = te_clk_rate e" "te_vdd_level (mmrm_sw_update_freq env e) = te_vdd_level e"
  "te_current_ma (mmrm_sw_update_freq env e) = te_current_ma e"
  "te_max_num_hw_blocks (mmrm_sw_update_freq env e) = te_max_num_hw_blocks e"
  by (simp_all add: mmrm_sw_update_freq_def Let_def)

lemma mmrm_sw_update_curr_fields:
  assumes "mmrm_sw_update_curr sinfo e = Inr e'"
  shows "te_clk e' = te_clk e \<and> te_client e' = te_client e \<and> te_clk_rate e' = te_clk_rate e \<and>
    te_vdd_level e' = te_vdd_level e"
  using assms by (auto simp: mmrm_sw_update_curr_def Let_def split: option.splits)

lemma mmrm_sw_clk_client_register_ok:
  assumes ok: "peak_ok B sinfo"
    and run: "mmrm_sw_clk_client_register env name_size sinfo desc pri pvt cb = (client, sinfo')"
    and bound: "\<forall>e\<in>set (clk_client_tbl sinfo'). current_bounded B e"
  shows "peak_ok B sinfo'"
proof -
  let ?found = "find (\<lambda>c. push_bit 16 (cd_domain desc) OR cd_id desc = te_clk_src_id (clk_client_tbl sinfo ! c))
    [0..<tot_clk_clients sinfo]"
  show ?thesis
  proof (cases "sinfo' = sinfo")
    case False
    then obtain c where f: "?found = Some c" "tot_clk_clients sinfo \<noteq> enabled_clk_clients sinfo"
      using run by (auto simp: mmrm_sw_clk_client_register_def Let_def split: if_splits option.splits)
    then have c: "c < tot_clk_clients sinfo" by (auto simp: find_Some_iff)
    let ?e = "clk_client_tbl sinfo ! c"
    have e: "entry_ok B ?e" using peak_ok_entry [OF ok c] .
    have set: "peak_ok B (set_entry c e' sinfo)"
      if "sinfo' = set_entry c e' sinfo" "te_vdd_level e' = te_vdd_level ?e" "te_client e' = Some c \<or> te_clk e' = None"
        "te_clk_rate e' = 0" "te_clk_rate ?e = 0" for e'
    proof -
      have "e' \<in> set (clk_client_tbl sinfo')" using that(1) c by (auto simp: set_entry_def tot_clk_clients_def intro: set_update_memI)
      then have "entry_ok B e'" using bound e that by (auto simp: entry_ok_def entry_active_def)
      then show ?thesis using ok c that by (intro peak_ok_set_entry) (auto simp: entry_load_def entry_active_def)
    qed
    show ?thesis
    proof (cases "te_client ?e")
      case None
      then have rate: "te_clk_rate ?e = 0" using e by (simp add: entry_ok_def)
      show ?thesis
        using run f None rate set False
        by (auto simp: mmrm_sw_clk_client_register_def Let_def unregister_entry_def
            dest!: mmrm_sw_update_curr_fields split: if_splits sum.splits)
    next
      case (Some x)
      have "entry_ok B (?e\<lparr>te_ref_count := te_ref_count ?e + 1\<rparr>)"
        using e by (simp add: entry_ok_def current_bounded_def entry_active_def)
      then have "peak_ok B (set_entry c (?e\<lparr>te_ref_count := te_ref_count ?e + 1\<rparr>) sinfo)"
        using ok c by (intro peak_ok_set_entry) (auto simp: entry_load_def entry_active_def)
      then show ?thesis
        using run f Some False by (auto simp: mmrm_sw_clk_client_register_def Let_def split: if_splits)
    qed
  qed (use ok in simp)
qed

lemma mmrm_sw_clk_client_deregister_ok:
  assumes ok: "peak_ok B sinfo" and c: "c < tot_clk_clients sinfo"
    and idle: "te_clk_rate (clk_client_tbl sinfo ! c) = 0 \<or> 1 < te_ref_count (clk_client_tbl sinfo ! c)"
  shows "peak_ok B (snd (mmrm_sw_clk_client_deregister sinfo (Some c)))"
proof -
  let ?e = "clk_client_tbl sinfo ! c"
  let ?d = "if 0 < te_ref_count ?e then ?e\<lparr>te_ref_count := te_ref_count ?e - 1\<rparr> else ?e"
  let ?e' = "if te_ref_count ?d = 0 then (unregister_entry ?d)\<lparr>te_vdd_level := 0, te_clk_rate := 0\<rparr> else ?d"
  have e: "entry_ok B ?e" using peak_ok_entry [OF ok c] .
  have "1 < te_ref_count ?e \<Longrightarrow> te_ref_count ?e - 1 \<noteq> 0" by auto
  then have "entry_ok B ?e'" "entry_load ?e' l = entry_load ?e l" for l
    using e idle
    by (auto simp: entry_ok_def unregister_entry_def current_bounded_def entry_active_def entry_load_def mmrm_levels)
  then show ?thesis
    using peak_ok_set_entry [OF ok c, of ?e'] c by (simp add: mmrm_sw_clk_client_deregister_def Let_def)
qed

text \<open>The calls of clients that may not throttle others. A registration brings currents below the
  bound; a client sets its rate to 0 before its last deregistration.\<close>

inductive mmrm_step :: "mmrm_env \<Rightarrow> nat \<Rightarrow> nat \<Rightarrow> mmrm_sw_clk_mgr_info \<Rightarrow> mmrm_sw_clk_mgr_info \<Rightarrow> bool"
  for env name_size B where
  register: "mmrm_sw_clk_client_register env name_size sinfo desc pri pvt cb = (client, sinfo') \<Longrightarrow>
    \<forall>e\<in>set (clk_client_tbl sinfo'). current_bounded B e \<Longrightarrow> mmrm_step env name_size B sinfo sinfo'"
| deregister: "c < tot_clk_clients sinfo \<Longrightarrow>
    te_clk_rate (clk_client_tbl sinfo ! c) = 0 \<or> 1 < te_ref_count (clk_client_tbl sinfo ! c) \<Longrightarrow>
    mmrm_sw_clk_client_deregister sinfo (Some c) = (rc, sinfo') \<Longrightarrow> mmrm_step env name_size B sinfo sinfo'"
| setval: "unat clk_val < 2 ^ 32 \<Longrightarrow>
    \<forall>c<tot_clk_clients sinfo. client = Some c \<longrightarrow> may_not_throttle env sinfo c \<Longrightarrow>
    mmrm_sw_clk_client_setval env sinfo client client_data clk_val = (rc, sinfo') \<Longrightarrow>
    mmrm_step env name_size B sinfo sinfo'"

lemma mmrm_step_ok:
  assumes "mmrm_step env name_size B sinfo sinfo'" "peak_ok B sinfo"
  shows "peak_ok B sinfo'"
  using assms
proof (induction rule: mmrm_step.induct)
  case (register sinfo desc pri pvt cb client sinfo')
  show ?case by (rule mmrm_sw_clk_client_register_ok [OF register.prems(1) register.hyps(1,2)])
next
  case (deregister c sinfo rc sinfo')
  then show ?case using mmrm_sw_clk_client_deregister_ok [of B sinfo c] by simp
next
  case (setval clk_val sinfo client client_data rc sinfo')
  then show ?case using mmrm_sw_clk_client_setval_ok [where env = env and client_data = client_data, of B sinfo clk_val client] by simp
qed

lemma mmrm_init_sw_clk_mgr_ok:
  assumes "mmrm_init_sw_clk_mgr mgr_ok tbl_ok cres = Inr sinfo" "length (nom_clk_set cres) * B < 2 ^ 31"
  shows "peak_ok B sinfo"
proof -
  let ?tbl = "mmrm_sw_prepare_table cres (replicate (length (nom_clk_set cres)) zero_entry)"
  have len: "length ?tbl = length (nom_clk_set cres)" by (simp add: mmrm_sw_prepare_table_def)
  have e: "entry_ok B e \<and> entry_load e l = 0" if mem: "e \<in> set ?tbl" for e l
  proof -
    obtain z nom where "(z, nom) \<in> set (zip (replicate (length (nom_clk_set cres)) zero_entry) (nom_clk_set cres))"
      "te_current_ma e = te_current_ma z" "te_vdd_level e = te_vdd_level z" "te_clk_rate e = te_clk_rate z"
      "te_clk e = te_clk z"
      using mem by (auto simp: mmrm_sw_prepare_table_def)
    moreover from this(1) have "z = zero_entry" by (auto dest!: set_zip_leftD)
    ultimately have "te_current_ma e = replicate MMRM_VDD_LEVEL_MAX (replicate MMRM_VDD_LEVEL_MAX 0)"
      "te_vdd_level e = 0" "te_clk_rate e = 0" "te_clk e = None"
      by (simp_all add: zero_entry_def)
    then show ?thesis
      by (simp add: entry_ok_def current_bounded_def entry_load_def entry_active_def MMRM_VDD_LEVEL_MAX_def)
  qed
  then have "total_current ?tbl 0 = 0" by (simp add: total_current_def)
  with e len assms show ?thesis
    by (auto simp: mmrm_init_sw_clk_mgr_def Let_def peak_ok_def tot_clk_clients_def mmrm_levels split: if_splits)
qed


section \<open>Rates as a register per client\<close>

text \<open>What the clients of the manager rely on: a value that was set is read back, and nobody else's
  value changes.\<close>

definition run_requests ::
  "('s \<Rightarrow> nat \<Rightarrow> 'd \<Rightarrow> 'v \<Rightarrow> 'r result \<times> 's) \<Rightarrow> 's \<Rightarrow> (nat \<times> 'd \<times> 'v) list \<Rightarrow> 's" where
  "run_requests setval = foldl (\<lambda>s (c, d, v). snd (setval s c d v))"

locale clk_client_ops =
  fixes setval :: "'s \<Rightarrow> nat \<Rightarrow> 'd \<Rightarrow> 'v \<Rightarrow> 'r result \<times> 's"
    and getval :: "'s \<Rightarrow> nat \<Rightarrow> 'v result"
  assumes set_get: "setval s c d v = (Inr x, s') \<Longrightarrow> getval s' c = Inr v"
    and set_other: "c' \<noteq> c \<Longrightarrow> getval (snd (setval s c d v)) c' = getval s c'"
begin

lemma run_other:
  "\<forall>(c', d, v)\<in>set reqs. c' \<noteq> c \<Longrightarrow> getval (run_requests setval s reqs) c = getval s c"
proof (induction reqs arbitrary: s)
  case (Cons r reqs)
  obtain c' d v where r: "r = (c', d, v)" by (cases r)
  then show ?case
    using Cons.IH [of "snd (setval s c' d v)"] Cons.prems set_other [of c c' s d v]
    by (simp add: run_requests_def)
qed (simp add: run_requests_def)

lemma last_set_wins:
  assumes "fst (setval (run_requests setval s before) c d v) = Inr x" "\<forall>(c', d, v)\<in>set after. c' \<noteq> c"
  shows "getval (run_requests setval s (before @ (c, d, v) # after)) c = Inr v"
proof -
  let ?s = "run_requests setval s before"
  have "run_requests setval s (before @ (c, d, v) # after) = run_requests setval (snd (setval ?s c d v)) after"
    by (simp add: run_requests_def)
  moreover have "getval (snd (setval ?s c d v)) c = Inr v"
    using assms(1) set_get [of ?s c d v x] by (simp add: prod_eq_iff)
  ultimately show ?thesis using run_other [OF assms(2)] by simp
qed

end

definition clk_setval :: "mmrm_env \<Rightarrow> mmrm_sw_clk_mgr_info \<Rightarrow> nat \<Rightarrow> mmrm_client_data \<Rightarrow> u64 \<Rightarrow>
  unit result \<times> mmrm_sw_clk_mgr_info" where
  "clk_setval env sinfo c cd clk_val =
     mmrm_sw_clk_client_setval (env\<lparr>msm_mmrm_enable_throttle_feature := False\<rparr>) sinfo (Some c) (Some cd) clk_val"

definition clk_getval :: "mmrm_sw_clk_mgr_info \<Rightarrow> nat \<Rightarrow> u64 result" where
  "clk_getval sinfo c = map_sum id rv_cur (mmrm_sw_clk_client_getval sinfo (Some c))"

lemma mmrm_sw_check_peak_current_tbl:
  assumes "\<not> msm_mmrm_enable_throttle_feature env"
  shows "clk_client_tbl (snd (mmrm_sw_check_peak_current env sinfo c level v num)) = clk_client_tbl sinfo"
  using assms
  by (simp add: mmrm_sw_check_peak_current_def Let_def mmrm_reinstate_throttled_client_def split: sum.splits prod.splits)

lemma apply_rate_tbl [simp]: "clk_client_tbl (snd (apply_rate env sinfo c v)) = clk_client_tbl sinfo"
  by (simp add: apply_rate_def Let_def)

text \<open>A request changes no entry but the client's, keeps its clock, and if it succeeds stores the
  rate.\<close>

definition set_effect :: "mmrm_sw_clk_mgr_info \<Rightarrow> nat \<Rightarrow> u64 \<Rightarrow> unit result \<times> mmrm_sw_clk_mgr_info \<Rightarrow> bool" where
  "set_effect sinfo c clk_val res \<longleftrightarrow>
     (\<exists>e. clk_client_tbl (snd res) = (clk_client_tbl sinfo)[c := e] \<and> te_clk e = te_clk (clk_client_tbl sinfo ! c) \<and>
        (fst res = Inr () \<longrightarrow> c < tot_clk_clients sinfo \<and> te_clk (clk_client_tbl sinfo ! c) \<noteq> None \<and> te_clk_rate e = clk_val))"

lemma set_effect_same: "set_effect sinfo c clk_val (Inl err, sinfo)"
  by (auto simp: set_effect_def intro!: exI [of _ "clk_client_tbl sinfo ! c"])

lemma set_effect_set:
  assumes "c < tot_clk_clients sinfo" "clk_client_tbl (snd res) = (clk_client_tbl sinfo)[c := e]"
    "te_clk e = te_clk (clk_client_tbl sinfo ! c)" "te_clk e \<noteq> None" "te_clk_rate e = clk_val"
  shows "set_effect sinfo c clk_val res"
  using assms by (auto simp: set_effect_def)

lemma commit_request_effect:
  assumes off: "\<not> msm_mmrm_enable_throttle_feature env" and c: "c < tot_clk_clients sinfo"
    and clk: "te_clk (clk_client_tbl sinfo ! c) \<noteq> None"
  shows "set_effect sinfo c clk_val (commit_request env sinfo c num reserve clk_val level)"
proof -
  let ?check = "mmrm_sw_check_peak_current env sinfo c level (ucast clk_val) num"
  let ?e = "requested (clk_client_tbl sinfo ! c) clk_val level reserve num"
  obtain rc s where run: "?check = (rc, s)" by (cases ?check)
  have tbl: "clk_client_tbl s = clk_client_tbl sinfo"
    using mmrm_sw_check_peak_current_tbl [OF off, of sinfo c level "ucast clk_val" num] run by simp
  show ?thesis
  proof (cases rc)
    case (Inl err)
    then show ?thesis
      using run tbl by (auto simp: commit_request_def set_effect_def intro!: exI [of _ "clk_client_tbl sinfo ! c"])
  next
    case (Inr x)
    have "clk_client_tbl (snd (commit_request env sinfo c num reserve clk_val level)) = (clk_client_tbl sinfo)[c := ?e]"
      using run tbl Inr by (simp add: commit_request_def Let_def set_entry_def)
    then show ?thesis using c clk by (intro set_effect_set [where e = ?e]) (simp_all add: requested_def)
  qed
qed

lemma te_reserve_same: "te_reserve e = b \<Longrightarrow> e\<lparr>te_reserve := b\<rparr> = e"
  by (cases e) simp

lemma mmrm_sw_clk_client_setval_effect:
  assumes off: "\<not> msm_mmrm_enable_throttle_feature env"
  shows "set_effect sinfo c clk_val (mmrm_sw_clk_client_setval env sinfo (Some c) (Some cd) clk_val)"
proof (cases "c < tot_clk_clients sinfo \<and> te_clk (clk_client_tbl sinfo ! c) \<noteq> None")
  case False
  then show ?thesis by (auto simp: mmrm_sw_clk_client_setval_def Let_def set_effect_same)
next
  case True
  then have c: "c < tot_clk_clients sinfo" and clk: "te_clk (clk_client_tbl sinfo ! c) \<noteq> None" by auto
  let ?e = "clk_client_tbl sinfo ! c"
  show ?thesis
  proof (cases "te_clk_rate ?e = clk_val \<and> te_num_hw_blocks ?e = md_num_hw_blocks cd")
    case same: True
    let ?res = "md_flags cd AND MMRM_CLIENT_DATA_FLAG_RESERVE_ONLY env \<noteq> 0"
    let ?e' = "?e\<lparr>te_reserve := ?res\<rparr>"
    have "clk_client_tbl (snd (mmrm_sw_clk_client_setval env sinfo (Some c) (Some cd) clk_val)) =
        (clk_client_tbl sinfo)[c := ?e']"
      using same c clk by (auto simp: mmrm_sw_clk_client_setval_def Let_def set_entry_def te_reserve_same)
    then show ?thesis using c clk same by (intro set_effect_set [where e = ?e']) simp_all
  next
    case new: False
    show ?thesis
      unfolding mmrm_sw_clk_client_setval_new [OF c clk new]
      using commit_request_effect [OF off c clk] by (auto simp: set_effect_same split: sum.splits)
  qed
qed

interpretation swops: clk_client_ops "clk_setval env" clk_getval
proof unfold_locales
  fix s s' c d v x
  assume "clk_setval env s c d v = (Inr x, s')"
  then show "clk_getval s' c = Inr v"
    using mmrm_sw_clk_client_setval_effect [of "env\<lparr>msm_mmrm_enable_throttle_feature := False\<rparr>" s c v d]
    by (auto simp: clk_setval_def set_effect_def clk_getval_def mmrm_sw_clk_client_getval_def Let_def tot_clk_clients_def)
next
  fix c' c :: nat and s d v
  assume "c' \<noteq> c"
  then show "clk_getval (snd (clk_setval env s c d v)) c' = clk_getval s c'"
    using mmrm_sw_clk_client_setval_effect [of "env\<lparr>msm_mmrm_enable_throttle_feature := False\<rparr>" s c v d]
    by (auto simp: clk_setval_def set_effect_def clk_getval_def mmrm_sw_clk_client_getval_def Let_def tot_clk_clients_def)
qed


section \<open>Registration\<close>

text \<open>Every client object has the index of its entry.\<close>

definition clients_ok :: "mmrm_sw_clk_mgr_info \<Rightarrow> bool" where
  "clients_ok sinfo \<longleftrightarrow> (\<forall>i<tot_clk_clients sinfo. te_client (clk_client_tbl sinfo ! i) \<in> {None, Some i})"

lemma register_again:
  assumes "0 < te_ref_count e" "te_ref_count e < U32_MAX" "e' = e\<lparr>te_ref_count := te_ref_count e + 1\<rparr>"
  shows "0 < te_ref_count e' \<and> te_ref_count e' - 1 \<noteq> 0 \<and> e'\<lparr>te_ref_count := te_ref_count e' - 1\<rparr> = e"
proof -
  have "unat (te_ref_count e + 1) = unat (te_ref_count e) + 1"
    using assms(2) unat_add_u32 [of "te_ref_count e" 1] by (simp add: U32_MAX_def word_less_nat_alt)
  then show ?thesis using assms by (cases e) (auto simp: word_less_nat_alt)
qed


section \<open>Examples\<close>

text \<open>A clock with rates between 1 and 4 MHz and one corner for each of them, and three clients
  whose currents do not depend on the rail.\<close>

definition sample_mmrm_env :: "bool \<Rightarrow> mmrm_env" where
  "sample_mmrm_env throttle =
     \<lparr>clk_round_rate = (\<lambda>clk r. max 1000000 (min 4000000 (uint r))),
      qcom_clk_get_voltage = (\<lambda>clk r. 64 * (uint r div 1000000)),
      clk_set_rate = (\<lambda>clk r. 0), mmrm_sw_vdd_corner = (\<lambda>i. [64, 128, 192, 256, 384] ! i),
      MMRM_CLIENT_PRIOR_HIGH = 1, MMRM_CLIENT_DATA_FLAG_RESERVE_ONLY = 1, notifier = (\<lambda>f x y. 0),
      alloc_ok = True, msm_mmrm_allow_multiple_register = True, msm_mmrm_enable_throttle_feature = throttle\<rparr>"

definition sample_cres :: "u32 \<Rightarrow> mmrm_clk_platform_resources" where
  "sample_cres threshold =
     \<lparr>cr_scheme = CLK_MGR_SCHEME_SW, clsid_threshold_clients = [],
      corner_set = replicate 5 \<lparr>volt_factor = 0x10000, scaling_factor_dyn = 0x10000, scaling_factor_leak = 0x10000\<rparr>,
      nom_clk_set = map (\<lambda>i. \<lparr>nom_domain = 1, nom_clk_src_id = i, nom_dyn_pwr = 0x640000, nom_leak_pwr = 0xA0000,
        nom_num_hw_block = 1\<rparr>) [0, 1, 2], peak_threshold = threshold\<rparr>"

definition sample_mmrm :: "u32 \<Rightarrow> mmrm_sw_clk_mgr_info" where
  "sample_mmrm threshold = projr (mmrm_init_sw_clk_mgr True True (sample_cres threshold))"

definition sample_register :: "u32 \<Rightarrow> mmrm_sw_clk_mgr_info \<Rightarrow> mmrm_sw_clk_mgr_info" where
  "sample_register i sinfo = snd (mmrm_sw_clk_client_register (sample_mmrm_env False) 128 sinfo
     \<lparr>cd_domain = 1, cd_id = i, cd_name = ''clk'', cd_clk = Some (unat i)\<rparr> 1 0 None)"

definition sample_set :: "bool \<Rightarrow> nat \<Rightarrow> u64 \<Rightarrow> mmrm_sw_clk_mgr_info \<Rightarrow> unit result \<times> mmrm_sw_clk_mgr_info" where
  "sample_set throttle c clk_val sinfo = mmrm_sw_clk_client_setval (sample_mmrm_env throttle) sinfo (Some c)
     (Some \<lparr>md_num_hw_blocks = 1, md_flags = 0\<rparr>) clk_val"



text \<open>The level of 3 MHz.\<close>

theorem mmrm_sw_get_req_level_correct_witness:
  "mmrm_sw_get_req_level (sample_mmrm_env False) (zero_entry\<lparr>te_clk := Some 1\<rparr>) 3000000 = Inr 2 \<and>
   mmrm_sw_vdd_corner (sample_mmrm_env False) 2 = qcom_clk_get_voltage (sample_mmrm_env False) 1 3000000"
proof -
  have "corners_ok (sample_mmrm_env False)" unfolding corners_ok_def by code_simp
  moreover have "mmrm_sw_get_req_level (sample_mmrm_env False) (zero_entry\<lparr>te_clk := Some 1\<rparr>) 3000000 = Inr 2"
    by code_simp
  ultimately show ?thesis
    using mmrm_sw_get_req_level_correct [of "sample_mmrm_env False" "zero_entry\<lparr>te_clk := Some 1\<rparr>" 1 3000000]
    by (simp add: sample_mmrm_env_def)
qed

text \<open>An overshoot that is let through: when a client of high priority asks for more than the
  threshold and throttling is on, but there is nobody to throttle, the request succeeds and the
  aggregated current is above the threshold.\<close>

theorem mmrm_overshoot_accepted:
  "let sinfo = sample_register 1 (sample_mmrm 100); (rc, sinfo') = sample_set True 1 3000000 sinfo
   in rc = Inr () \<and> aggreg_val sinfo' = 110 \<and> pk_threshold sinfo' = 100"
  by code_simp

text \<open>The level of the rail after a client lowers its request is that of the last client in
  the table between the two levels, not of the highest: client 0 keeps a rate that needs level
  2, client 1 needs level 1, and when client 2 leaves level 3 the aggregated level becomes 1.\<close>

theorem mmrm_aggreg_level_too_low:
  "let sinfo = sample_register 2 (sample_register 1 (sample_register 0 (sample_mmrm 1000)));
       set = (\<lambda>c v s. snd (sample_set False c v s));
       sinfo' = set 2 1000000 (set 2 4000000 (set 1 2000000 (set 0 3000000 sinfo)))
   in aggreg_level sinfo' = 1 \<and> entry_active (clk_client_tbl sinfo' ! 0) \<and> te_vdd_level (clk_client_tbl sinfo' ! 0) = 2"
  by code_simp

text \<open>The current of a client that deregisters with its clock running stays in the aggregated
  current, though no client is active.\<close>

theorem mmrm_deregister_keeps_current:
  "let sinfo = snd (sample_set False 1 2000000 (sample_register 1 (sample_mmrm 100)));
       (rc, sinfo') = mmrm_sw_clk_client_deregister sinfo (Some 1)
   in rc = Inr () \<and> aggreg_val sinfo' = 77 \<and> total_current (clk_client_tbl sinfo') (aggreg_level sinfo') = 0"
  by code_simp



end
