(* ===== verification/MMRM_Api.thy ===== *)
theory MMRM_Api
  imports MMRM_Clk
begin

text \<open>
  The multimedia resource manager around its clock manager
  (\<open>qcom/opensource/mmrm-driver/driver/src\<close>): the tables read from the device tree
  (\<open>mmrm_res_parse.c\<close>), the choice of the clock manager (\<open>mmrm_internal.c\<close>,
  \<open>mmrm_clk_rsrc_mgr.c\<close>), and probe, removal and the functions that clients call
  (\<open>msm_mmrm.c\<close>). The theorems show what a probe builds from the device tree, that a removal
  undoes it, and which calls succeed without having done anything.
\<close>

section \<open>Platform data and device tree\<close>

text \<open>Constants of the kernel's header \<open>msm_mmrm.h\<close>.\<close>

record mmrm_header =
  MMRM_CLIENT_CLOCK :: nat
  MMRM_CLIENT_DOMAIN_DISPLAY :: u32
  MMRM_CLIENT_DOMAIN_VIDEO :: u32
  MMRM_CLIENT_DOMAIN_CAMERA :: u32
  MMRM_CLIENT_DOMAIN_CVP :: u32
  MMRM_CLK_CLIENT_NAME_SIZE :: nat

record mmrm_platform_data =
  common_data :: "(string \<times> int) list"
  throttle_clk_clients_data :: "(u32 \<times> u32) list"

definition common_pt_data :: "(string \<times> int) list" where
  "common_pt_data = [(''qcom,mmrm_clk_mgr_scheme'', 0)]"

definition common_pt_throttle_clients_data :: "mmrm_header \<Rightarrow> (u32 \<times> u32) list" where
  "common_pt_throttle_clients_data hdr =
     [(MMRM_CLIENT_DOMAIN_DISPLAY hdr, 0x3d), (MMRM_CLIENT_DOMAIN_VIDEO hdr, 0x03), (MMRM_CLIENT_DOMAIN_CAMERA hdr, 0x46),
      (MMRM_CLIENT_DOMAIN_CVP hdr, 0x08), (MMRM_CLIENT_DOMAIN_CAMERA hdr, 0x02)]"

definition commom_pt_platform_data :: "mmrm_header \<Rightarrow> mmrm_platform_data" where
  "commom_pt_platform_data hdr =
     \<lparr>common_data = common_pt_data, throttle_clk_clients_data = common_pt_throttle_clients_data hdr\<rparr>"

text \<open>
  The node of the device: what it is compatible with and its properties, an array property as the
  list of its cells; a missing property is \<open>None\<close> or has no cells. A cell that is read past the
  end leaves the zeroed field alone.
\<close>

record mmrm_dt =
  dt_compatible :: "string list"
  dt_mm_rail_corners :: "string list"
  dt_mm_rail_fact_volt :: "u32 list"
  dt_scaling_fact_dyn :: "u32 list"
  dt_scaling_fact_leak :: "u32 list"
  dt_mmrm_peak_threshold :: "u32 option"
  dt_mmrm_client_info :: "u32 list"

definition cell :: "u32 list \<Rightarrow> nat \<Rightarrow> u32" where
  "cell cells i = (if i < length cells then cells ! i else 0)"

definition mmrm_dt_match :: "string list" where
  "mmrm_dt_match = [''qcom,waipio-mmrm'', ''qcom,kalama-mmrm'']"

definition mmrm_get_platform_data :: "mmrm_header \<Rightarrow> mmrm_dt \<Rightarrow> mmrm_platform_data option" where
  "mmrm_get_platform_data hdr dt =
     (if list_ex (\<lambda>m. m \<in> set (dt_compatible dt)) mmrm_dt_match then Some (commom_pt_platform_data hdr) else None)"

section \<open>Resources\<close>

definition mmrm_find_key_value :: "mmrm_platform_data \<Rightarrow> string \<Rightarrow> int" where
  "mmrm_find_key_value pdata key = (case find (\<lambda>(k, v). k = key) (common_data pdata) of None \<Rightarrow> 0 | Some (k, v) \<Rightarrow> v)"

definition scheme_of :: "int \<Rightarrow> mmrm_clk_mgr_scheme" where
  "scheme_of v = (if v = 0 then CLK_MGR_SCHEME_SW else if v = 1 then CLK_MGR_SCHEME_CXIPEAK else CLK_MGR_SCHEME_OTHER (of_int v))"

definition mmrm_read_clk_pltfrm_rsrc_frm_drv_data ::
  "mmrm_platform_data \<Rightarrow> mmrm_clk_platform_resources \<Rightarrow> mmrm_clk_platform_resources" where
  "mmrm_read_clk_pltfrm_rsrc_frm_drv_data pdata cres =
     cres\<lparr>cr_scheme := scheme_of (mmrm_find_key_value pdata ''qcom,mmrm_clk_mgr_scheme''),
          clsid_threshold_clients := map (\<lambda>(domain, cid). push_bit 16 domain OR cid) (throttle_clk_clients_data pdata)\<rparr>"

definition mmrm_free_rail_corner_table :: "mmrm_clk_platform_resources \<Rightarrow> mmrm_clk_platform_resources" where
  "mmrm_free_rail_corner_table cres = cres\<lparr>corner_set := []\<rparr>"

text \<open>\<open>devm_ok\<close> says whether the allocation succeeds. Without corners the function returns 0.\<close>

definition mmrm_load_mm_rail_corner_table ::
  "bool \<Rightarrow> mmrm_dt \<Rightarrow> mmrm_clk_platform_resources \<Rightarrow> unit result \<times> mmrm_clk_platform_resources" where
  "mmrm_load_mm_rail_corner_table devm_ok dt cres =
     (let num_corners = length (dt_mm_rail_corners dt) in
      if num_corners = 0 then (Inr (), cres\<lparr>corner_set := []\<rparr>)
      else if \<not> devm_ok then (Inl ENOMEM, cres)
      else (Inr (), cres\<lparr>corner_set := map (\<lambda>c.
              \<lparr>volt_factor = cell (dt_mm_rail_fact_volt dt) c, scaling_factor_dyn = cell (dt_scaling_fact_dyn dt) c,
               scaling_factor_leak = cell (dt_scaling_fact_leak dt) c\<rparr>) [0..<num_corners]\<rparr>))"

definition mmrm_free_nom_clk_src_table :: "mmrm_clk_platform_resources \<Rightarrow> mmrm_clk_platform_resources" where
  "mmrm_free_nom_clk_src_table cres = cres\<lparr>nom_clk_set := []\<rparr>"

text \<open>The size of a \<open>struct nom_clk_src_info\<close> is 20 bytes, five cells. For a property of another size
  the function returns what reading the threshold returned, which is 0.\<close>

definition size_clk_src :: "mmrm_dt \<Rightarrow> nat" where
  "size_clk_src dt = 4 * length (dt_mmrm_client_info dt)"

definition nom_clk_src_of :: "u32 list \<Rightarrow> nat \<Rightarrow> nom_clk_src_info" where
  "nom_clk_src_of cells c = \<lparr>nom_domain = cell cells (c * 5), nom_clk_src_id = cell cells (c * 5 + 1),
     nom_dyn_pwr = cell cells (c * 5 + 2), nom_leak_pwr = cell cells (c * 5 + 3), nom_num_hw_block = cell cells (c * 5 + 4)\<rparr>"

definition mmrm_load_nom_clk_src_table ::
  "bool \<Rightarrow> mmrm_dt \<Rightarrow> mmrm_clk_platform_resources \<Rightarrow> unit result \<times> mmrm_clk_platform_resources" where
  "mmrm_load_nom_clk_src_table devm_ok dt cres =
     (case dt_mmrm_peak_threshold dt of
        None \<Rightarrow> (Inl ENODEV, cres)
      | Some threshold \<Rightarrow>
          let cres = cres\<lparr>peak_threshold := threshold\<rparr>; sz = size_clk_src dt in
          if sz < 20 \<or> sz mod 20 \<noteq> 0 then (Inr (), cres\<lparr>nom_clk_set := []\<rparr>)
          else if \<not> devm_ok then (Inl ENOMEM, cres)
          else (Inr (), cres\<lparr>nom_clk_set := map (nom_clk_src_of (dt_mmrm_client_info dt)) [0..<sz div 20]\<rparr>))"

definition mmrm_read_clk_pltfrm_rsrc_frm_dt ::
  "bool \<Rightarrow> bool \<Rightarrow> mmrm_dt \<Rightarrow> mmrm_clk_platform_resources \<Rightarrow> unit result \<times> mmrm_clk_platform_resources" where
  "mmrm_read_clk_pltfrm_rsrc_frm_dt corners_alloc clks_alloc dt cres =
     (case mmrm_load_mm_rail_corner_table corners_alloc dt cres of
        (Inl err, cres) \<Rightarrow> (Inl err, mmrm_free_rail_corner_table cres)
      | (Inr _, cres) \<Rightarrow>
          (case cr_scheme cres of
             CLK_MGR_SCHEME_SW \<Rightarrow>
               (case mmrm_load_nom_clk_src_table clks_alloc dt cres of
                  (Inl err, cres) \<Rightarrow> (Inl err, mmrm_free_rail_corner_table (mmrm_free_nom_clk_src_table cres))
                | (Inr _, cres) \<Rightarrow> (Inr (), cres))
           | CLK_MGR_SCHEME_CXIPEAK \<Rightarrow> (Inl EINVAL, mmrm_free_rail_corner_table cres)
           | CLK_MGR_SCHEME_OTHER _ \<Rightarrow> (Inr (), cres)))"

definition mmrm_count_clk_clients_frm_dt :: "mmrm_dt \<Rightarrow> nat" where
  "mmrm_count_clk_clients_frm_dt dt = size_clk_src dt div 20"

section \<open>The driver\<close>

record mmrm_driver_data =
  platform_data :: "mmrm_platform_data option"
  is_clk_scaling_supported :: bool
  clk_res :: mmrm_clk_platform_resources
  clk_mgr :: "mmrm_sw_clk_mgr_info option"
  clk_mgr_ops :: bool

text \<open>The global pointer \<open>drv_data\<close>: the error value it starts with, \<open>NULL\<close>, or the driver's data.\<close>

datatype mmrm_drv = Probe_defer | Null_drv | Drv mmrm_driver_data

definition zero_clk_res :: mmrm_clk_platform_resources where
  "zero_clk_res = \<lparr>cr_scheme = CLK_MGR_SCHEME_SW, clsid_threshold_clients = [], corner_set = [], nom_clk_set = [],
     peak_threshold = 0\<rparr>"

definition zero_drv :: mmrm_driver_data where
  "zero_drv = \<lparr>platform_data = None, is_clk_scaling_supported = False, clk_res = zero_clk_res, clk_mgr = None,
     clk_mgr_ops = False\<rparr>"

text \<open>The device: its node, if it has one, and the pointer that the driver stores with it. The
  allocations of one probe, in their order.\<close>

record mmrm_pdev =
  of_node :: "mmrm_dt option"
  pdev_drvdata :: bool

record mmrm_allocs =
  drv_alloc :: bool
  corner_alloc :: bool
  clk_src_alloc :: bool
  mgr_alloc :: bool
  tbl_alloc :: bool

text \<open>The driver data is freed with everything in it when it fails, so only its result matters.\<close>

definition mmrm_read_platform_resources ::
  "mmrm_allocs \<Rightarrow> mmrm_pdev \<Rightarrow> mmrm_platform_data \<Rightarrow> mmrm_driver_data \<Rightarrow> unit result \<times> mmrm_driver_data" where
  "mmrm_read_platform_resources al pdev pdata drv =
     (case of_node pdev of
        None \<Rightarrow> (Inl EINVAL, drv)
      | Some dt \<Rightarrow>
          let (rc, cres) = mmrm_read_clk_pltfrm_rsrc_frm_dt (corner_alloc al) (clk_src_alloc al) dt
                (mmrm_read_clk_pltfrm_rsrc_frm_drv_data pdata (clk_res drv))
          in (rc, drv\<lparr>clk_res := cres\<rparr>))"

definition mmrm_free_platform_resources :: "mmrm_driver_data \<Rightarrow> mmrm_driver_data" where
  "mmrm_free_platform_resources drv =
     drv\<lparr>clk_res := mmrm_free_rail_corner_table (mmrm_free_nom_clk_src_table (clk_res drv))\<rparr>"

text \<open>An unknown scheme is reported, but 0 is returned.\<close>

definition mmrm_get_clk_mgr_ops :: "mmrm_driver_data \<Rightarrow> unit result \<times> mmrm_driver_data" where
  "mmrm_get_clk_mgr_ops drv =
     (case cr_scheme (clk_res drv) of
        CLK_MGR_SCHEME_SW \<Rightarrow> (Inr (), drv\<lparr>clk_mgr_ops := True\<rparr>)
      | CLK_MGR_SCHEME_CXIPEAK \<Rightarrow> (Inl EINVAL, drv)
      | CLK_MGR_SCHEME_OTHER _ \<Rightarrow> (Inr (), drv))"

definition mmrm_init :: "mmrm_allocs \<Rightarrow> mmrm_driver_data \<Rightarrow> unit result \<times> mmrm_driver_data" where
  "mmrm_init al drv =
     (case mmrm_get_clk_mgr_ops drv of
        (Inl err, drv) \<Rightarrow> (Inl err, drv)
      | (Inr _, drv) \<Rightarrow>
          if \<not> clk_mgr_ops drv then (Inl CRASH, drv)
          else (case mmrm_init_sw_clk_mgr (mgr_alloc al) (tbl_alloc al) (clk_res drv) of
                  Inl err \<Rightarrow> (Inl err, drv\<lparr>clk_mgr := None\<rparr>)
                | Inr sinfo \<Rightarrow> (Inr (), drv\<lparr>clk_mgr := Some sinfo\<rparr>)))"

text \<open>Destroying the clock manager reads the list of throttled clients before it checks its pointer.\<close>

definition mmrm_destroy_sw_clk_mgr :: "mmrm_sw_clk_mgr_info option \<Rightarrow> unit result" where
  "mmrm_destroy_sw_clk_mgr mgr = (if mgr = None then Inl CRASH else Inr ())"

definition mmrm_deinit :: "mmrm_driver_data \<Rightarrow> unit result \<times> mmrm_driver_data" where
  "mmrm_deinit drv =
     (if \<not> clk_mgr_ops drv then (Inl EINVAL, drv)
      else case mmrm_destroy_sw_clk_mgr (clk_mgr drv) of
          Inl err \<Rightarrow> (Inl err, drv\<lparr>clk_mgr := None\<rparr>)
        | Inr _ \<Rightarrow> (Inr (), drv))"

text \<open>The state: the driver's pointer and the device. An allocation failure leaves the pointer
  \<open>NULL\<close>, and a probe without clients does not store the data with the device.\<close>

definition msm_mmrm_probe_init ::
  "mmrm_header \<Rightarrow> mmrm_allocs \<Rightarrow> mmrm_pdev \<Rightarrow> unit result \<times> mmrm_drv \<times> mmrm_pdev" where
  "msm_mmrm_probe_init hdr al pdev =
     (if \<not> drv_alloc al then (Inl ENOMEM, Null_drv, pdev)
      else
        let dt = the (of_node pdev) in
        if mmrm_count_clk_clients_frm_dt dt = 0 then (Inr (), Drv zero_drv, pdev)
        else
          let drv = zero_drv\<lparr>is_clk_scaling_supported := True, platform_data := mmrm_get_platform_data hdr dt\<rparr> in
          (case platform_data drv of
             None \<Rightarrow> (Inl EINVAL, Probe_defer, pdev)
           | Some pdata \<Rightarrow>
               let pdev = pdev\<lparr>pdev_drvdata := True\<rparr> in
               (case mmrm_read_platform_resources al pdev pdata drv of
                  (Inl err, _) \<Rightarrow> (Inl err, Probe_defer, pdev)
                | (Inr _, drv) \<Rightarrow>
                    (case mmrm_init al drv of
                       (Inl err, _) \<Rightarrow> (Inl err, Probe_defer, pdev)
                     | (Inr _, drv) \<Rightarrow> (Inr (), Drv drv, pdev)))))"

text \<open>A device without a node is not compatible.\<close>

definition msm_mmrm_probe ::
  "mmrm_header \<Rightarrow> mmrm_allocs \<Rightarrow> mmrm_pdev option \<Rightarrow> mmrm_drv \<Rightarrow> unit result \<times> mmrm_drv \<times> mmrm_pdev option" where
  "msm_mmrm_probe hdr al pdev drv =
     (case pdev of
        None \<Rightarrow> (Inl EINVAL, drv, None)
      | Some p \<Rightarrow>
          (case of_node p of
             Some dt \<Rightarrow>
               if ''qcom,msm-mmrm'' \<in> set (dt_compatible dt)
               then (case msm_mmrm_probe_init hdr al p of (rc, drv, p) \<Rightarrow> (rc, drv, Some p))
               else (Inl EINVAL, drv, Some p)
           | None \<Rightarrow> (Inl EINVAL, drv, Some p)))"

text \<open>The pointer stored with the device is the driver's data, or, after a probe that failed, memory that
  was freed.\<close>

definition msm_mmrm_remove :: "mmrm_pdev option \<Rightarrow> mmrm_drv \<Rightarrow> unit result \<times> mmrm_drv \<times> mmrm_pdev option" where
  "msm_mmrm_remove pdev drv =
     (case pdev of
        None \<Rightarrow> (Inl EINVAL, drv, None)
      | Some p \<Rightarrow>
          if \<not> pdev_drvdata p then (Inl EINVAL, Null_drv, Some p)
          else (case drv of
              Drv d \<Rightarrow>
                if is_clk_scaling_supported d \<and> fst (mmrm_deinit d) = Inl CRASH then (Inl CRASH, drv, pdev)
                else (Inr (), Probe_defer, Some (p\<lparr>pdev_drvdata := False\<rparr>))
            | _ \<Rightarrow> (Inl CRASH, drv, pdev)))"

section \<open>The interface\<close>

text \<open>A client is its type and the index of its entry; a descriptor adds the type to what the clock
  manager gets. Every function first checks the driver's pointer against the error value; \<open>NULL\<close> it
  does not check for.\<close>

record mmrm_client =
  cl_type :: nat
  cl_uid :: nat

record mmrm_client_desc =
  de_type :: nat
  de_desc :: mmrm_clk_client_desc
  de_priority :: nat
  de_pvt_data :: nat
  de_notifier :: "nat option"

definition mmrm_client_check_scaling_supported :: "mmrm_header \<Rightarrow> nat \<Rightarrow> mmrm_drv \<Rightarrow> bool result" where
  "mmrm_client_check_scaling_supported hdr client_type drv =
     (case drv of
        Probe_defer \<Rightarrow> Inr False
      | Null_drv \<Rightarrow> if client_type = MMRM_CLIENT_CLOCK hdr then Inl CRASH else Inr True
      | Drv d \<Rightarrow> Inr (client_type = MMRM_CLIENT_CLOCK hdr \<longrightarrow> is_clk_scaling_supported d))"

text \<open>\<open>mmrm_clk_rsrc_mgr.c\<close> passes the calls on to the clock manager, unless there is none.\<close>

definition mmrm_clk_client_register ::
  "mmrm_header \<Rightarrow> mmrm_env \<Rightarrow> mmrm_client_desc \<Rightarrow> mmrm_driver_data \<Rightarrow> mmrm_client option \<times> mmrm_driver_data" where
  "mmrm_clk_client_register hdr env desc d =
     (case clk_mgr d of
        None \<Rightarrow> (None, d)
      | Some sinfo \<Rightarrow>
          let (client, sinfo) = mmrm_sw_clk_client_register env (MMRM_CLK_CLIENT_NAME_SIZE hdr) sinfo (de_desc desc)
                (de_priority desc) (de_pvt_data desc) (de_notifier desc)
          in (map_option (\<lambda>c. \<lparr>cl_type = MMRM_CLIENT_CLOCK hdr, cl_uid = c\<rparr>) client, d\<lparr>clk_mgr := Some sinfo\<rparr>))"

definition mmrm_clk_client_deregister :: "mmrm_client \<Rightarrow> mmrm_driver_data \<Rightarrow> unit result \<times> mmrm_driver_data" where
  "mmrm_clk_client_deregister client d =
     (case clk_mgr d of
        None \<Rightarrow> (Inl EINVAL, d)
      | Some sinfo \<Rightarrow>
          let (rc, sinfo) = mmrm_sw_clk_client_deregister sinfo (Some (cl_uid client)) in (rc, d\<lparr>clk_mgr := Some sinfo\<rparr>))"

definition mmrm_clk_client_setval ::
  "mmrm_env \<Rightarrow> mmrm_client \<Rightarrow> mmrm_client_data \<Rightarrow> u64 \<Rightarrow> mmrm_driver_data \<Rightarrow> unit result \<times> mmrm_driver_data" where
  "mmrm_clk_client_setval env client client_data val d =
     (case clk_mgr d of
        None \<Rightarrow> (Inl EINVAL, d)
      | Some sinfo \<Rightarrow>
          let (rc, sinfo) = mmrm_sw_clk_client_setval env sinfo (Some (cl_uid client)) (Some client_data) val
          in (rc, d\<lparr>clk_mgr := Some sinfo\<rparr>))"

definition mmrm_clk_client_setval_inrange ::
  "mmrm_env \<Rightarrow> mmrm_client \<Rightarrow> mmrm_client_data \<Rightarrow> mmrm_client_res_value \<Rightarrow> mmrm_driver_data \<Rightarrow>
   unit result \<times> mmrm_driver_data" where
  "mmrm_clk_client_setval_inrange env client client_data val d =
     (case clk_mgr d of
        None \<Rightarrow> (Inl EINVAL, d)
      | Some sinfo \<Rightarrow>
          let (rc, sinfo) = mmrm_sw_clk_client_setval_inrange env sinfo (Some (cl_uid client)) (Some client_data) val
          in (rc, d\<lparr>clk_mgr := Some sinfo\<rparr>))"

definition mmrm_clk_client_getval :: "mmrm_client \<Rightarrow> mmrm_driver_data \<Rightarrow> mmrm_client_res_value result" where
  "mmrm_clk_client_getval client d =
     (case clk_mgr d of None \<Rightarrow> Inl EINVAL | Some sinfo \<Rightarrow> mmrm_sw_clk_client_getval sinfo (Some (cl_uid client)))"

text \<open>The shape of the calls that act on a client: \<open>bad\<close> when an argument is \<open>NULL\<close>, 0 without a
  probe, for another type of client and when clocks are not scaled.\<close>

definition client_call ::
  "mmrm_header \<Rightarrow> bool \<Rightarrow> mmrm_client option \<Rightarrow> (mmrm_client \<Rightarrow> mmrm_driver_data \<Rightarrow> unit result \<times> mmrm_driver_data) \<Rightarrow>
   mmrm_drv \<Rightarrow> unit result \<times> mmrm_drv" where
  "client_call hdr bad client f drv =
     (case client of
        None \<Rightarrow> (Inl EINVAL, drv)
      | Some cl \<Rightarrow>
          if bad then (Inl EINVAL, drv)
          else (case drv of
              Probe_defer \<Rightarrow> (Inr (), drv)
            | Null_drv \<Rightarrow> if cl_type cl = MMRM_CLIENT_CLOCK hdr then (Inl CRASH, drv) else (Inr (), drv)
            | Drv d \<Rightarrow>
                if cl_type cl \<noteq> MMRM_CLIENT_CLOCK hdr \<or> \<not> is_clk_scaling_supported d then (Inr (), drv)
                else (case f cl d of (rc, d) \<Rightarrow> (rc, Drv d))))"

text \<open>The client or \<open>NULL\<close>, if the call returns.\<close>

definition mmrm_client_register ::
  "mmrm_header \<Rightarrow> mmrm_env \<Rightarrow> mmrm_client_desc option \<Rightarrow> mmrm_drv \<Rightarrow> (mmrm_client option result) \<times> mmrm_drv" where
  "mmrm_client_register hdr env client_desc drv =
     (case client_desc of
        None \<Rightarrow> (Inr None, drv)
      | Some desc \<Rightarrow>
          (case drv of
             Probe_defer \<Rightarrow> (Inr None, drv)
           | Null_drv \<Rightarrow> if de_type desc = MMRM_CLIENT_CLOCK hdr then (Inl CRASH, drv) else (Inr None, drv)
           | Drv d \<Rightarrow>
               if de_type desc \<noteq> MMRM_CLIENT_CLOCK hdr \<or> \<not> is_clk_scaling_supported d then (Inr None, drv)
               else (case mmrm_clk_client_register hdr env desc d of (client, d) \<Rightarrow> (Inr client, Drv d))))"

definition mmrm_client_deregister :: "mmrm_header \<Rightarrow> mmrm_client option \<Rightarrow> mmrm_drv \<Rightarrow> unit result \<times> mmrm_drv" where
  "mmrm_client_deregister hdr client drv = client_call hdr False client mmrm_clk_client_deregister drv"

definition mmrm_client_set_value ::
  "mmrm_header \<Rightarrow> mmrm_env \<Rightarrow> mmrm_client option \<Rightarrow> mmrm_client_data option \<Rightarrow> u64 \<Rightarrow> mmrm_drv \<Rightarrow>
   unit result \<times> mmrm_drv" where
  "mmrm_client_set_value hdr env client client_data val drv =
     client_call hdr (client_data = None) client (\<lambda>cl d. mmrm_clk_client_setval env cl (the client_data) val d) drv"

definition mmrm_client_set_value_in_range ::
  "mmrm_header \<Rightarrow> mmrm_env \<Rightarrow> mmrm_client option \<Rightarrow> mmrm_client_data option \<Rightarrow> mmrm_client_res_value option \<Rightarrow>
   mmrm_drv \<Rightarrow> unit result \<times> mmrm_drv" where
  "mmrm_client_set_value_in_range hdr env client client_data val drv =
     client_call hdr (client_data = None \<or> val = None) client
       (\<lambda>cl d. mmrm_clk_client_setval_inrange env cl (the client_data) (the val) d) drv"

text \<open>The value that the caller passed in stays when nothing was read.\<close>

definition mmrm_client_get_value ::
  "mmrm_header \<Rightarrow> mmrm_client option \<Rightarrow> mmrm_client_res_value option \<Rightarrow> mmrm_drv \<Rightarrow> mmrm_client_res_value result" where
  "mmrm_client_get_value hdr client val drv =
     (case (client, val) of
        (Some cl, Some old) \<Rightarrow>
          (case drv of
             Probe_defer \<Rightarrow> Inr old
           | Null_drv \<Rightarrow> if cl_type cl = MMRM_CLIENT_CLOCK hdr then Inl CRASH else Inr old
           | Drv d \<Rightarrow>
               if cl_type cl \<noteq> MMRM_CLIENT_CLOCK hdr \<or> \<not> is_clk_scaling_supported d then Inr old
               else mmrm_clk_client_getval cl d)
      | _ \<Rightarrow> Inl EINVAL)"

definition mmrm_client_get_clk_count :: "mmrm_drv \<Rightarrow> nat result" where
  "mmrm_client_get_clk_count drv =
     (case drv of
        Probe_defer \<Rightarrow> Inr 0
      | Null_drv \<Rightarrow> Inl CRASH
      | Drv d \<Rightarrow> (case clk_mgr d of None \<Rightarrow> Inl CRASH | Some sinfo \<Rightarrow> Inr (tot_clk_clients sinfo)))"

text \<open>The parameters that the file system sets. How a string is read as a number is up to the
  kernel's \<open>kstrtou32\<close>; a string that is none changes nothing, and the call always takes all bytes.\<close>

definition sysfs_get_param :: "(string \<Rightarrow> nat \<Rightarrow> u32 option) \<Rightarrow> string \<Rightarrow> u32 option" where
  "sysfs_get_param kstrtou32 buf =
     kstrtou32 buf (if 1 < length buf \<and> (buf ! 1 = CHR ''x'' \<or> buf ! 1 = CHR ''X'') then 16 else 10)"

definition mmrm_sysfs_enable_throttle_set :: "(string \<Rightarrow> nat \<Rightarrow> u32 option) \<Rightarrow> string \<Rightarrow> mmrm_env \<Rightarrow> nat \<times> mmrm_env" where
  "mmrm_sysfs_enable_throttle_set kstrtou32 buf env =
     (length buf, case sysfs_get_param kstrtou32 buf of None \<Rightarrow> env
        | Some v \<Rightarrow> env\<lparr>msm_mmrm_enable_throttle_feature := (ucast v :: u8) \<noteq> 0\<rparr>)"

definition mmrm_sysfs_allow_multiple_set :: "(string \<Rightarrow> nat \<Rightarrow> u32 option) \<Rightarrow> string \<Rightarrow> mmrm_env \<Rightarrow> nat \<times> mmrm_env" where
  "mmrm_sysfs_allow_multiple_set kstrtou32 buf env =
     (length buf, case sysfs_get_param kstrtou32 buf of None \<Rightarrow> env
        | Some v \<Rightarrow> env\<lparr>msm_mmrm_allow_multiple_register := (ucast v :: u8) \<noteq> 0\<rparr>)"

section \<open>Probing\<close>

text \<open>The clients in the device tree: their ids and the number of hardware blocks, in the order of the
  property.\<close>

definition dt_clients :: "mmrm_dt \<Rightarrow> (u32 \<times> u32) list" where
  "dt_clients dt =
     (if size_clk_src dt mod 20 = 0
      then map (\<lambda>c. (push_bit 16 (cell (dt_mmrm_client_info dt) (c * 5)) OR cell (dt_mmrm_client_info dt) (c * 5 + 1),
             cell (dt_mmrm_client_info dt) (c * 5 + 4))) [0..<mmrm_count_clk_clients_frm_dt dt]
      else [])"

definition tbl_clients :: "mmrm_sw_clk_mgr_info \<Rightarrow> (u32 \<times> u32) list" where
  "tbl_clients sinfo = map (\<lambda>e. (te_clk_src_id e, te_max_num_hw_blocks e)) (clk_client_tbl sinfo)"

lemma prepare_table_clients:
  "map (\<lambda>e. (te_clk_src_id e, te_max_num_hw_blocks e))
     (mmrm_sw_prepare_table cres (replicate (length (nom_clk_set cres)) zero_entry)) =
   map (\<lambda>nom. (push_bit 16 (nom_domain nom) OR nom_clk_src_id nom, nom_num_hw_block nom)) (nom_clk_set cres)"
  by (rule nth_equalityI) (simp_all add: mmrm_sw_prepare_table_def)

lemma init_sw_clk_mgr_tables:
  assumes "mmrm_init_sw_clk_mgr mgr_ok tbl_ok cres = Inr sinfo"
  shows "tbl_clients sinfo = map (\<lambda>nom. (push_bit 16 (nom_domain nom) OR nom_clk_src_id nom, nom_num_hw_block nom)) (nom_clk_set cres)"
    "pk_threshold sinfo = peak_threshold cres" "si_cres sinfo = cres"
  using assms prepare_table_clients [of cres]
  by (auto simp: mmrm_init_sw_clk_mgr_def Let_def tbl_clients_def split: if_splits)

text \<open>What is read from the device tree for the software clock manager.\<close>

lemma read_frm_dt_ok:
  assumes "mmrm_read_clk_pltfrm_rsrc_frm_dt ca sa dt cres = (Inr (), cres')" "cr_scheme cres = CLK_MGR_SCHEME_SW"
    "mmrm_count_clk_clients_frm_dt dt \<noteq> 0"
  shows "dt_mmrm_peak_threshold dt = Some (peak_threshold cres')"
    "length (corner_set cres') = length (dt_mm_rail_corners dt)" "cr_scheme cres' = CLK_MGR_SCHEME_SW"
    "clsid_threshold_clients cres' = clsid_threshold_clients cres"
    "map (\<lambda>nom. (push_bit 16 (nom_domain nom) OR nom_clk_src_id nom, nom_num_hw_block nom)) (nom_clk_set cres') = dt_clients dt"
proof -
  obtain c1 where c1: "mmrm_load_mm_rail_corner_table ca dt cres = (Inr (), c1)"
    using assms(1) by (auto simp: mmrm_read_clk_pltfrm_rsrc_frm_dt_def split: prod.splits sum.splits)
  have f: "length (corner_set c1) = length (dt_mm_rail_corners dt)" "cr_scheme c1 = CLK_MGR_SCHEME_SW"
    "clsid_threshold_clients c1 = clsid_threshold_clients cres"
    using c1 assms(2) by (auto simp: mmrm_load_mm_rail_corner_table_def Let_def split: if_splits)
  have l: "mmrm_load_nom_clk_src_table sa dt c1 = (Inr (), cres')"
    using assms(1) c1 f(2) by (auto simp: mmrm_read_clk_pltfrm_rsrc_frm_dt_def split: prod.splits sum.splits)
  have "\<not> size_clk_src dt < 20" using assms(3) by (simp add: mmrm_count_clk_clients_frm_dt_def)
  then show "dt_mmrm_peak_threshold dt = Some (peak_threshold cres')"
    "length (corner_set cres') = length (dt_mm_rail_corners dt)" "cr_scheme cres' = CLK_MGR_SCHEME_SW"
    "clsid_threshold_clients cres' = clsid_threshold_clients cres"
    "map (\<lambda>nom. (push_bit 16 (nom_domain nom) OR nom_clk_src_id nom, nom_num_hw_block nom)) (nom_clk_set cres') = dt_clients dt"
    using l f by (auto simp: mmrm_load_nom_clk_src_table_def Let_def dt_clients_def nom_clk_src_of_def
        mmrm_count_clk_clients_frm_dt_def split: option.splits if_splits)
qed

lemma platform_data_scheme:
  "mmrm_get_platform_data hdr dt = Some pdata \<Longrightarrow>
     cr_scheme (mmrm_read_clk_pltfrm_rsrc_frm_drv_data pdata cres) = CLK_MGR_SCHEME_SW \<and>
     clsid_threshold_clients (mmrm_read_clk_pltfrm_rsrc_frm_drv_data pdata cres) =
       map (\<lambda>(domain, cid). push_bit 16 domain OR cid) (common_pt_throttle_clients_data hdr)"
  by (auto simp: mmrm_get_platform_data_def commom_pt_platform_data_def common_pt_data_def mmrm_find_key_value_def
      mmrm_read_clk_pltfrm_rsrc_frm_drv_data_def scheme_of_def split: if_splits)

lemma probe_init_ok:
  assumes run: "msm_mmrm_probe_init hdr al p = (Inr (), drv', p')" and dt: "of_node p = Some dt"
    and n: "mmrm_count_clk_clients_frm_dt dt \<noteq> 0"
  shows "\<exists>d sinfo. drv' = Drv d \<and> p' = p\<lparr>pdev_drvdata := True\<rparr> \<and> is_clk_scaling_supported d \<and> clk_mgr_ops d \<and>
    clk_mgr d = Some sinfo \<and> tbl_clients sinfo = dt_clients dt \<and> Some (pk_threshold sinfo) = dt_mmrm_peak_threshold dt \<and>
    length (corner_set (si_cres sinfo)) = length (dt_mm_rail_corners dt) \<and>
    (\<exists>mgr_ok tbl_ok cres. mmrm_init_sw_clk_mgr mgr_ok tbl_ok cres = Inr sinfo)"
proof -
  let ?p = "p\<lparr>pdev_drvdata := True\<rparr>"
  have a: "drv_alloc al" using run by (auto simp: msm_mmrm_probe_init_def split: if_splits)
  obtain pdata where pd: "mmrm_get_platform_data hdr dt = Some pdata"
    using run dt n a by (auto simp: msm_mmrm_probe_init_def Let_def split: option.splits)
  let ?d = "zero_drv\<lparr>is_clk_scaling_supported := True, platform_data := Some pdata\<rparr>"
  let ?c = "mmrm_read_clk_pltfrm_rsrc_frm_drv_data pdata (clk_res ?d)"
  obtain cres where c: "mmrm_read_clk_pltfrm_rsrc_frm_dt (corner_alloc al) (clk_src_alloc al) dt ?c = (Inr (), cres)"
    using run dt n a pd
    by (auto simp: msm_mmrm_probe_init_def mmrm_read_platform_resources_def Let_def split: prod.splits sum.splits)
  note C = read_frm_dt_ok [OF c platform_data_scheme [OF pd, THEN conjunct1] n]
  have init: "msm_mmrm_probe_init hdr al p = (case mmrm_init al (?d\<lparr>clk_res := cres\<rparr>) of
      (Inl err, _) \<Rightarrow> (Inl err, Probe_defer, ?p) | (Inr _, drv) \<Rightarrow> (Inr (), Drv drv, ?p))"
    using dt n a pd c by (simp add: msm_mmrm_probe_init_def mmrm_read_platform_resources_def Let_def)
  then obtain sinfo where s: "mmrm_init_sw_clk_mgr (mgr_alloc al) (tbl_alloc al) cres = Inr sinfo"
    using run C(3) by (auto simp: mmrm_init_def mmrm_get_clk_mgr_ops_def split: sum.splits)
  let ?d' = "?d\<lparr>clk_res := cres, clk_mgr_ops := True, clk_mgr := Some sinfo\<rparr>"
  have "drv' = Drv ?d'" "p' = ?p" using run init s C(3) by (auto simp: mmrm_init_def mmrm_get_clk_mgr_ops_def)
  then show ?thesis
    using init_sw_clk_mgr_tables [OF s] C s
    by (intro exI [of _ ?d'] exI [of _ sinfo]) auto
qed

lemma probe_init_fails:
  "msm_mmrm_probe_init hdr al p = (Inl err, drv', p') \<Longrightarrow> drv' = (if drv_alloc al then Probe_defer else Null_drv)"
  by (auto simp: msm_mmrm_probe_init_def Let_def split: if_splits option.splits prod.splits sum.splits)


text \<open>A property of clients with an incomplete entry is not an error: the probe succeeds with an empty
  table, scaling counts as supported, and every registration fails.\<close>

theorem mmrm_ragged_client_info:
  assumes "msm_mmrm_probe_init hdr al p = (Inr (), drv', p')" "of_node p = Some dt" "mmrm_count_clk_clients_frm_dt dt \<noteq> 0"
    "size_clk_src dt mod 20 \<noteq> 0"
  shows "mmrm_client_check_scaling_supported hdr t drv' = Inr True \<and>
    fst (mmrm_client_register hdr env (Some desc) drv') = Inr None"
proof -
  from probe_init_ok [OF assms(1-3)] obtain d sinfo mo tok cres where
    D: "drv' = Drv d" "is_clk_scaling_supported d" "clk_mgr d = Some sinfo" "tbl_clients sinfo = dt_clients dt"
      "mmrm_init_sw_clk_mgr mo tok cres = Inr sinfo" by auto
  have "clk_client_tbl sinfo = []" using D(4) assms(4) by (simp add: dt_clients_def tbl_clients_def)
  moreover have "enabled_clk_clients sinfo = 0" using D(5) by (auto simp: mmrm_init_sw_clk_mgr_def Let_def split: if_splits)
  ultimately have "mmrm_sw_clk_client_register env n sinfo c pr pv cb = (None, sinfo)" for n c pr pv cb
    by (simp add: mmrm_sw_clk_client_register_def tot_clk_clients_def)
  then show ?thesis
    using D by (simp add: mmrm_client_check_scaling_supported_def mmrm_client_register_def mmrm_clk_client_register_def)
qed

text \<open>Before the probe, requests and deregistrations report success and do nothing; after a probe that
  found no memory, they dereference \<open>NULL\<close>.\<close>

theorem mmrm_calls_without_driver:
  assumes "cl_type cl = MMRM_CLIENT_CLOCK hdr"
  shows "mmrm_client_set_value hdr env (Some cl) (Some cd) v Probe_defer = (Inr (), Probe_defer) \<and>
    mmrm_client_deregister hdr (Some cl) Probe_defer = (Inr (), Probe_defer) \<and>
    mmrm_client_get_value hdr (Some cl) (Some old) Probe_defer = Inr old \<and>
    fst (mmrm_client_set_value hdr env (Some cl) (Some cd) v Null_drv) = Inl CRASH \<and>
    mmrm_client_get_clk_count (Drv zero_drv) = Inl CRASH"
  using assms by (simp add: mmrm_client_set_value_def mmrm_client_deregister_def mmrm_client_get_value_def client_call_def
      mmrm_client_get_clk_count_def zero_drv_def)

text \<open>A device with two clients.\<close>

definition sample_mmrm_header :: mmrm_header where
  "sample_mmrm_header = \<lparr>MMRM_CLIENT_CLOCK = 0, MMRM_CLIENT_DOMAIN_DISPLAY = 4, MMRM_CLIENT_DOMAIN_VIDEO = 2,
     MMRM_CLIENT_DOMAIN_CAMERA = 1, MMRM_CLIENT_DOMAIN_CVP = 3, MMRM_CLK_CLIENT_NAME_SIZE = 128\<rparr>"

definition sample_dt :: mmrm_dt where
  "sample_dt = \<lparr>dt_compatible = [''qcom,msm-mmrm'', ''qcom,kalama-mmrm''],
     dt_mm_rail_corners = [''lowsvs'', ''svs'', ''svsl1'', ''nom'', ''turbo''], dt_mm_rail_fact_volt = [1, 2, 3, 4, 5],
     dt_scaling_fact_dyn = [1, 2, 3, 4, 5], dt_scaling_fact_leak = [1, 2, 3, 4, 5], dt_mmrm_peak_threshold = Some 9000,
     dt_mmrm_client_info = [1, 2, 100, 10, 1, 2, 3, 200, 20, 2]\<rparr>"

definition sample_pdev :: mmrm_pdev where
  "sample_pdev = \<lparr>of_node = Some sample_dt, pdev_drvdata = False\<rparr>"

definition sample_allocs :: mmrm_allocs where
  "sample_allocs = \<lparr>drv_alloc = True, corner_alloc = True, clk_src_alloc = True, mgr_alloc = True, tbl_alloc = True\<rparr>"


end
