(* ===== verification/IPA_Table.thy ===== *)
theory IPA_Table
  imports Prelude "HOL-Library.Monad_Syntax"
begin

text \<open>
  The tables of the IPA network accelerator, as the user space library keeps them
  (\<open>qcom/opensource/dataipa/ipanat/src/ipa_table.c\<close> and \<open>inc/ipa_table.h\<close>): a base table that is
  indexed by a hash and an expansion table that holds the collisions, in lists linked by indices.
  The library writes a record and leaves the change of the fields that the hardware follows (the
  enable flag, the next index, the protocol of a deleted head) to DMA commands. The theorems show
  that handles denote their records and that sizes are tight; what adding and deleting do to the
  lists is shown in \<open>IPA_Table_Lists\<close>.
\<close>

section \<open>Data\<close>

datatype ipa3_nat_mem_in = IPA_NAT_MEM_IN_DDR | IPA_NAT_MEM_IN_SRAM

datatype ipa_table_dma_type =
  IPA_NAT_BASE_TBL | IPA_NAT_EXPN_TBL | IPA_NAT_INDX_TBL | IPA_NAT_INDEX_EXPN_TBL |
  IPA_IPV6CT_BASE_TBL | IPA_IPV6CT_EXPN_TBL

datatype dma_help_type = HELP_UPDATE_HEAD | HELP_UPDATE_ENTRY | HELP_DELETE_HEAD

datatype When2Callback = WHEN_SLOT_EMPTY | WHEN_SLOT_FILLED

definition IPA_TABLE_MAX_ENTRIES :: u32 where "IPA_TABLE_MAX_ENTRIES = 5120"

definition IPA_TABLE_INVALID_ENTRY :: u16 where "IPA_TABLE_INVALID_ENTRY = 0"

definition VALID_INDEX :: "u16 \<Rightarrow> bool" where
  "VALID_INDEX idx \<longleftrightarrow> idx \<noteq> IPA_TABLE_INVALID_ENTRY"

definition IPA_TABLE_TYPE_BITS :: nat where "IPA_TABLE_TYPE_BITS = 1"

definition IPA_TABLE_TYPE_MASK :: u32 where "IPA_TABLE_TYPE_MASK = 1"

definition IPA_TABLE_INDX_MASK :: u32 where "IPA_TABLE_INDX_MASK = 0xFFF"

definition IPA_TABLE_TYPE_MEM_SHIFT :: nat where "IPA_TABLE_TYPE_MEM_SHIFT = 15"

lemmas ipa_table_consts = IPA_TABLE_MAX_ENTRIES_def IPA_TABLE_INVALID_ENTRY_def VALID_INDEX_def
  IPA_TABLE_TYPE_BITS_def IPA_TABLE_TYPE_MASK_def IPA_TABLE_INDX_MASK_def IPA_TABLE_TYPE_MEM_SHIFT_def

record ipa_table_dma_cmd_helper =
  dh_offset :: u32
  dh_table_type :: ipa_table_dma_type
  dh_expn_table_type :: ipa_table_dma_type
  dh_table_indx :: u8

text \<open>One element of the \<open>struct ipa_ioc_nat_dma_cmd\<close> of the kernel's header; the command is the
  list of its elements.\<close>

record ipa_ioc_nat_dma_one =
  dma_table_index :: u8
  dma_base_addr :: ipa_table_dma_type
  dma_offset :: u32
  dma_data :: u16

text \<open>The functions of a record type. An inserter returns the record it has written, also when it
  fails; a setter may change the record or the table's meta data.\<close>

record ('e, 'm, 'u) ipa_table_entry_interface =
  entry_is_valid :: "'e \<Rightarrow> bool"
  entry_get_next_index :: "'e \<Rightarrow> u16"
  entry_get_prev_index :: "'e \<Rightarrow> u16 \<Rightarrow> 'm option \<Rightarrow> u16 \<Rightarrow> u16"
  entry_set_prev_index :: "'e \<Rightarrow> u16 \<Rightarrow> u16 \<Rightarrow> 'm option \<Rightarrow> u16 \<Rightarrow> 'e \<times> 'm option"
  entry_head_insert :: "'e \<Rightarrow> 'u \<Rightarrow> u16 result \<times> 'e"
  entry_tail_insert :: "'e \<Rightarrow> 'u \<Rightarrow> unit result \<times> 'e"
  entry_get_delete_head_dma_command_data :: "'e \<Rightarrow> 'e \<Rightarrow> u16"

text \<open>
  \<open>recs\<close> is the memory of the two tables, which lie one after the other, record by record, and
  \<open>zero_rec\<close> the record whose bytes are 0. A pointer to a record is the index of the record, and
  \<open>None\<close> is \<open>NULL\<close>.
\<close>

record ('e, 'm, 'u) ipa_table =
  tbl_name :: string
  nmi :: ipa3_nat_mem_in
  entry_size :: int
  table_entries :: u16
  expn_table_entries :: u16
  tot_tbl_ents :: u32
  table_addr :: int
  expn_table_addr :: int
  recs :: "'e list"
  zero_rec :: 'e
  cur_tbl_cnt :: u16
  cur_expn_tbl_cnt :: u16
  entry_interface :: "('e, 'm, 'u) ipa_table_entry_interface"
  dma_help :: "dma_help_type \<Rightarrow> ipa_table_dma_cmd_helper"
  meta :: "'m option"
  meta_entry_size :: int

record ipa_table_iterator =
  prev_index :: u16
  prev_entry :: "u16 option"
  curr_index :: u16
  curr_entry :: "u16 option"
  next_index :: u16
  next_entry :: "u16 option"

definition GOTO_REC :: "('e, 'm, 'u) ipa_table \<Rightarrow> u16 \<Rightarrow> int" where
  "GOTO_REC tbl rec_idx = table_addr tbl + uint rec_idx * entry_size tbl"

text \<open>The record a pointer denotes, and storing into it. Indices past the table, which the C code
  does not check here, leave the memory of the table alone in the model.\<close>

definition rec_at :: "('e, 'm, 'u) ipa_table \<Rightarrow> u16 \<Rightarrow> 'e" where
  "rec_at tbl i = recs tbl ! unat i"

definition set_rec :: "u16 \<Rightarrow> 'e \<Rightarrow> ('e, 'm, 'u) ipa_table \<Rightarrow> ('e, 'm, 'u) ipa_table" where
  "set_rec i e tbl = tbl\<lparr>recs := (recs tbl)[unat i := e]\<rparr>"

section \<open>Sizes\<close>

text \<open>The loop shifts \<open>tmp\<close> down to 1; it is never entered with 0.\<close>

function pow2_loop :: "u16 \<Rightarrow> u16 \<Rightarrow> u16 \<Rightarrow> u16 \<times> u16" where
  "pow2_loop tmp pre cur =
     (if tmp = 1 \<or> tmp = 0 then (pre, cur) else pow2_loop (drop_bit 1 tmp) cur (push_bit 1 cur))"
  by pat_completeness auto
termination
proof (relation "measure (\<lambda>(tmp, pre, cur). unat tmp)", goal_cases)
  case (2 tmp pre cur)
  then have "0 < unat tmp" by (simp add: unat_gt_0)
  then show ?case by (simp add: drop_bit_eq_div unat_div)
qed simp

declare pow2_loop.simps [simp del]

definition Get2PowerTightUpperBound :: "u16 \<Rightarrow> u16" where
  "Get2PowerTightUpperBound num =
     (if num = 0 then 2
      else let (pre, cur) = pow2_loop num 0 2 in if num = pre then pre else cur)"

definition GetEvenTightUpperBound :: "u16 \<Rightarrow> int" where
  "GetEvenTightUpperBound num = (if num = 0 then 2 else if num mod 2 \<noteq> 0 then uint num + 1 else uint num)"

text \<open>
  A share of a number of entries, given in hundredths. The C code multiplies by a \<open>float\<close> and
  cuts the fraction off, which gives the same for each 16-bit number and the shares .8, .2, 1.00
  and .43.
\<close>

definition share :: "nat \<Rightarrow> u16 \<Rightarrow> u16" where
  "share percent n = of_nat (unat n * percent div 100)"

definition ipa_table_init ::
  "'e \<Rightarrow> string \<Rightarrow> ipa3_nat_mem_in \<Rightarrow> int \<Rightarrow> 'm option \<Rightarrow> int \<Rightarrow> ('e, 'm, 'u) ipa_table_entry_interface \<Rightarrow>
   (dma_help_type \<Rightarrow> ipa_table_dma_cmd_helper) \<Rightarrow> ('e, 'm, 'u) ipa_table" where
  "ipa_table_init zero table_name mem size_of_entry meta_data meta_size iface no_help =
     \<lparr>tbl_name = table_name, nmi = mem, entry_size = size_of_entry, table_entries = 0, expn_table_entries = 0,
      tot_tbl_ents = 0, table_addr = 0, expn_table_addr = 0, recs = [], zero_rec = zero, cur_tbl_cnt = 0,
      cur_expn_tbl_cnt = 0, entry_interface = iface, dma_help = no_help, meta = meta_data,
      meta_entry_size = meta_size\<rparr>"

definition ipa_table_calculate_entries_num ::
  "('e, 'm, 'u) ipa_table \<Rightarrow> u16 \<Rightarrow> ipa3_nat_mem_in \<Rightarrow> unit result \<times> ('e, 'm, 'u) ipa_table" where
  "ipa_table_calculate_entries_num table number_of_entries mem =
     (if IPA_TABLE_MAX_ENTRIES < ucast number_of_entries then (Inl EINVAL, table)
      else
        let (btp, etp) = (if mem = IPA_NAT_MEM_IN_SRAM then (100, 43) else (80, 20));
            base = Get2PowerTightUpperBound (share btp number_of_entries);
            expn = (of_int (GetEvenTightUpperBound (share etp number_of_entries)) :: u16);
            table = table\<lparr>tot_tbl_ents := ucast base + ucast expn\<rparr>
        in if IPA_TABLE_MAX_ENTRIES < tot_tbl_ents table then (Inl EINVAL, table)
           else (Inr (), table\<lparr>table_entries := base, expn_table_entries := expn\<rparr>))"

definition ipa_table_calculate_size :: "('e, 'm, 'u) ipa_table \<Rightarrow> int" where
  "ipa_table_calculate_size table = entry_size table * (uint (table_entries table) + uint (expn_table_entries table))"

definition ipa_table_calculate_addresses ::
  "('e, 'm, 'u) ipa_table \<Rightarrow> int \<Rightarrow> int \<times> ('e, 'm, 'u) ipa_table" where
  "ipa_table_calculate_addresses table base_addr =
     (let expn = base_addr + entry_size table * uint (table_entries table)
      in (expn + entry_size table * uint (expn_table_entries table),
          table\<lparr>table_addr := base_addr, expn_table_addr := expn\<rparr>))"

definition ipa_table_reset :: "('e, 'm, 'u) ipa_table \<Rightarrow> ('e, 'm, 'u) ipa_table" where
  "ipa_table_reset table =
     table\<lparr>recs := replicate (unat (table_entries table) + unat (expn_table_entries table)) (zero_rec table)\<rparr>"

text \<open>The loop over the number of entries that fits into the SRAM: it may run past the 16 bits of
  its counter, so \<open>None\<close> is a loop that does not end.\<close>

definition sram_size_of :: "u32 \<Rightarrow> u32 \<Rightarrow> u16 \<Rightarrow> int" where
  "sram_size_of table1_ent_size table2_ent_size tot =
     (let entries = uint (Get2PowerTightUpperBound (share 100 tot)) +
            uint (of_int (GetEvenTightUpperBound (share 43 tot)) :: u16)
      in sint table1_ent_size * entries + sint table2_ent_size * entries)"

partial_function (option) sram_loop :: "u32 \<Rightarrow> u32 \<Rightarrow> u32 \<Rightarrow> u16 \<Rightarrow> u16 \<Rightarrow> u16 option" where
  "sram_loop sram_size table1_ent_size table2_ent_size tot num_entries =
     (if uint sram_size < uint (of_int (sram_size_of table1_ent_size table2_ent_size tot) :: u32)
      then Some num_entries
      else sram_loop sram_size table1_ent_size table2_ent_size (tot + 1) tot)"

declare sram_loop.simps [code]

definition ipa_calc_num_sram_table_entries :: "u32 \<Rightarrow> u32 \<Rightarrow> u32 \<Rightarrow> u16 result option" where
  "ipa_calc_num_sram_table_entries sram_size table1_ent_size table2_ent_size =
     do {
       num_entries \<leftarrow> sram_loop sram_size table1_ent_size table2_ent_size 1 0;
       Some (if num_entries \<noteq> 0 then Inr num_entries else Inl EFAIL)
     }"

section \<open>Handles\<close>

definition mem_type_bit :: "ipa3_nat_mem_in \<Rightarrow> u16" where
  "mem_type_bit mem = (case mem of IPA_NAT_MEM_IN_DDR \<Rightarrow> 0 | IPA_NAT_MEM_IN_SRAM \<Rightarrow> 1)"

definition MakeEntryHdl :: "('e, 'm, 'u) ipa_table \<Rightarrow> u16 \<Rightarrow> u16" where
  "MakeEntryHdl tbl tbl_entry =
     (let entry_hdl = (if table_entries tbl \<le> tbl_entry
                       then push_bit IPA_TABLE_TYPE_BITS (tbl_entry - table_entries tbl) OR ucast IPA_TABLE_TYPE_MASK
                       else push_bit IPA_TABLE_TYPE_BITS tbl_entry)
      in entry_hdl OR push_bit IPA_TABLE_TYPE_MEM_SHIFT (mem_type_bit (nmi tbl)))"

text \<open>The memory type bit, the expansion bit and the index.\<close>

definition BREAK_RULE_HDL :: "('e, 'm, 'u) ipa_table \<Rightarrow> u32 \<Rightarrow> u32 \<times> u8 \<times> u16" where
  "BREAK_RULE_HDL tbl hdl =
     (let mt = drop_bit IPA_TABLE_TYPE_MEM_SHIFT hdl AND IPA_TABLE_TYPE_MASK;
          iet = (ucast (hdl AND IPA_TABLE_TYPE_MASK) :: u8);
          indx = (ucast (drop_bit IPA_TABLE_TYPE_BITS hdl AND IPA_TABLE_INDX_MASK) :: u16)
      in (mt, iet, indx + (if iet \<noteq> 0 then table_entries tbl else 0)))"

definition ipa_table_get_entry :: "('e, 'm, 'u) ipa_table \<Rightarrow> u32 \<Rightarrow> u16 result" where
  "ipa_table_get_entry table entry_handle =
     (let (mt, is_expn_tbl, rec_index) = BREAK_RULE_HDL table entry_handle
      in if tot_tbl_ents table \<le> ucast rec_index then Inl EINVAL else Inr rec_index)"

definition ipa_table_get_entry_by_index :: "('e, 'm, 'u) ipa_table \<Rightarrow> u16 \<Rightarrow> u16 option" where
  "ipa_table_get_entry_by_index table rec_index =
     (if rec_index = 0 \<or> tot_tbl_ents table \<le> ucast rec_index then None else Some rec_index)"

section \<open>DMA commands\<close>

definition ipa_table_dma_cmd_helper_init ::
  "u8 \<Rightarrow> ipa_table_dma_type \<Rightarrow> ipa_table_dma_type \<Rightarrow> u32 \<Rightarrow> ipa_table_dma_cmd_helper" where
  "ipa_table_dma_cmd_helper_init table_indx table_type expn_table_type offset =
     \<lparr>dh_offset = offset, dh_table_type = table_type, dh_expn_table_type = expn_table_type,
      dh_table_indx = table_indx\<rparr>"

definition ipa_table_dma_cmd_generate ::
  "ipa_table_dma_cmd_helper \<Rightarrow> bool \<Rightarrow> u32 \<Rightarrow> u16 \<Rightarrow> ipa_ioc_nat_dma_one list \<Rightarrow> ipa_ioc_nat_dma_one list" where
  "ipa_table_dma_cmd_generate helper is_expn entry_offset data cmd =
     cmd @ [\<lparr>dma_table_index = dh_table_indx helper,
             dma_base_addr = (if is_expn then dh_expn_table_type helper else dh_table_type helper),
             dma_offset = dh_offset helper + entry_offset, dma_data = data\<rparr>]"

definition ipa_table_add_dma_cmd ::
  "('e, 'm, 'u) ipa_table \<Rightarrow> dma_help_type \<Rightarrow> u16 option \<Rightarrow> u16 \<Rightarrow> u16 \<Rightarrow> ipa_ioc_nat_dma_one list \<Rightarrow>
   unit result \<times> ipa_ioc_nat_dma_one list" where
  "ipa_table_add_dma_cmd tbl help_type rec_ptr rec_index data cmd =
     (case rec_ptr of
        None \<Rightarrow> (Inl EINVAL, cmd)
      | Some r \<Rightarrow>
          if uint (table_entries tbl) + uint (expn_table_entries tbl) \<le> uint rec_index then (Inl EINVAL, cmd)
          else
            let is_expn = (table_entries tbl \<le> rec_index);
                entry_offset = of_int (GOTO_REC tbl r - (if is_expn then expn_table_addr tbl else table_addr tbl))
            in (Inr (), ipa_table_dma_cmd_generate (dma_help tbl help_type) is_expn entry_offset data cmd))"

section \<open>Walking and iterating\<close>

text \<open>
  The callback gets the handle, the index of the record and that of its meta record, if it has
  one, and the caller's data, which it may change. The index of the C loop has 16 bits, which the
  limit on the number of entries keeps it within.
\<close>

type_synonym ('e, 'm, 'u, 'a) ipa_table_walk_cb =
  "('e, 'm, 'u) ipa_table \<Rightarrow> u32 \<Rightarrow> u16 \<Rightarrow> u16 option \<Rightarrow> 'a \<Rightarrow> int \<times> 'a"

function walk_loop ::
  "('e, 'm, 'u) ipa_table \<Rightarrow> When2Callback \<Rightarrow> ('e, 'm, 'u, 'a) ipa_table_walk_cb \<Rightarrow> 'a \<Rightarrow> nat \<Rightarrow> int \<times> 'a" where
  "walk_loop tbl when2cb walk_cb arb i =
     (if i < unat (table_entries tbl) + unat (expn_table_entries tbl) then
        let idx = of_nat i;
            call_back = (if entry_is_valid (entry_interface tbl) (rec_at tbl idx)
                         then when2cb = WHEN_SLOT_FILLED else when2cb = WHEN_SLOT_EMPTY)
        in if call_back then
             let rule_hdl = ucast (MakeEntryHdl tbl idx);
                 meta_record = (if table_entries tbl \<le> idx \<and> meta tbl \<noteq> None then Some (idx - table_entries tbl) else None);
                 (ret, arb) = walk_cb tbl rule_hdl idx meta_record arb
             in if ret \<noteq> 0 then (ret, arb) else walk_loop tbl when2cb walk_cb arb (Suc i)
           else walk_loop tbl when2cb walk_cb arb (Suc i)
      else (0, arb))"
  by pat_completeness auto
termination
  by (relation "measure (\<lambda>(tbl, when2cb, walk_cb, arb, i).
        unat (table_entries tbl) + unat (expn_table_entries tbl) - i)") auto

declare walk_loop.simps [simp del]

definition ipa_table_walk ::
  "('e, 'm, 'u) ipa_table \<Rightarrow> u16 \<Rightarrow> When2Callback \<Rightarrow> ('e, 'm, 'u, 'a) ipa_table_walk_cb \<Rightarrow> 'a \<Rightarrow> int \<times> 'a" where
  "ipa_table_walk tbl start_index when2cb walk_cb arb =
     (if unat (table_entries tbl) + unat (expn_table_entries tbl) \<le> unat start_index then (- 22, arb)
      else walk_loop tbl when2cb walk_cb arb (unat start_index))"

definition mt_slot :: "('e, 'm, 'u, unit) ipa_table_walk_cb" where
  "mt_slot tbl rule_hdl record_index meta_record arb = (uint record_index, arb)"

definition FindExpnTblFreeEntry :: "('e, 'm, 'u) ipa_table \<Rightarrow> u16 result" where
  "FindExpnTblFreeEntry table =
     (let ret = fst (ipa_table_walk table (table_entries table) WHEN_SLOT_EMPTY mt_slot ())
      in if 0 < ret then Inr (of_int ret) else Inl EFAIL)"

definition ipa_table_iterator_init :: "('e, 'm, 'u) ipa_table \<Rightarrow> u16 \<Rightarrow> ipa_table_iterator result" where
  "ipa_table_iterator_init table idx =
     (let iface = entry_interface table; e = rec_at table idx in
      if \<not> entry_is_valid iface e then Inl EINVAL
      else
        let prev_i = entry_get_prev_index iface e idx (meta table) (table_entries table);
            next_i = entry_get_next_index iface e;
            prev_e = (if VALID_INDEX prev_i then ipa_table_get_entry_by_index table prev_i else None);
            next_e = (if VALID_INDEX next_i then ipa_table_get_entry_by_index table next_i else None)
        in if VALID_INDEX prev_i \<and> prev_e = None then Inl EPERM
           else if VALID_INDEX next_i \<and> next_e = None then Inl EPERM
           else Inr \<lparr>prev_index = prev_i, prev_entry = prev_e, curr_index = idx, curr_entry = Some idx,
                     next_index = next_i, next_entry = next_e\<rparr>)"

text \<open>The iterator must have a next record.\<close>

definition ipa_table_iterator_next ::
  "ipa_table_iterator \<Rightarrow> ('e, 'm, 'u) ipa_table \<Rightarrow> unit result \<times> ipa_table_iterator" where
  "ipa_table_iterator_next iterator table =
     (let it = iterator\<lparr>prev_entry := curr_entry iterator, prev_index := curr_index iterator,
                        curr_entry := next_entry iterator, curr_index := next_index iterator\<rparr>
      in case curr_entry it of
           None \<Rightarrow> (Inl CRASH, it)
         | Some r \<Rightarrow>
             let next_i = entry_get_next_index (entry_interface table) (rec_at table r);
                 next_e = (if VALID_INDEX next_i then ipa_table_get_entry_by_index table next_i else None);
                 it = it\<lparr>next_index := next_i, next_entry := next_e\<rparr>
             in if VALID_INDEX next_i \<and> next_e = None then (Inl EPERM, it) else (Inr (), it))"

text \<open>The loop to the last record of a list, which ends on a record that is its own successor, but
  not on a longer cycle.\<close>

partial_function (option) end_loop :: "('e, 'm, 'u) ipa_table \<Rightarrow> u16 \<Rightarrow> u16 result option" where
  "end_loop table idx =
     (let next_i = entry_get_next_index (entry_interface table) (rec_at table idx)
      in if \<not> VALID_INDEX next_i then Some (Inr idx)
         else if next_i = idx then Some (Inl EFAIL)
         else end_loop table next_i)"

declare end_loop.simps [code]

definition ipa_table_iterator_end :: "('e, 'm, 'u) ipa_table \<Rightarrow> u16 \<Rightarrow> ipa_table_iterator result option" where
  "ipa_table_iterator_end table rec_index =
     do {
       last \<leftarrow> end_loop table rec_index;
       Some (map_sum id (\<lambda>i. \<lparr>prev_index = i, prev_entry = Some i, curr_index = 0, curr_entry = None,
                              next_index = 0, next_entry = None\<rparr>) last)
     }"

definition ipa_table_iterator_is_head_with_tail :: "ipa_table_iterator \<Rightarrow> bool" where
  "ipa_table_iterator_is_head_with_tail iterator \<longleftrightarrow>
     VALID_INDEX (next_index iterator) \<and> \<not> VALID_INDEX (prev_index iterator)"

section \<open>Adding and deleting\<close>

definition InsertHead ::
  "('e, 'm, 'u) ipa_table \<Rightarrow> u16 \<Rightarrow> 'u \<Rightarrow> ipa_ioc_nat_dma_one list \<Rightarrow>
   u16 result \<times> ipa_ioc_nat_dma_one list \<times> ('e, 'm, 'u) ipa_table" where
  "InsertHead table idx user_data cmd =
     (case entry_head_insert (entry_interface table) (rec_at table idx) user_data of
        (Inl err, e) \<Rightarrow> (Inl err, cmd, set_rec idx e table)
      | (Inr enable_data, e) \<Rightarrow>
          let table = set_rec idx e table;
              cmd = snd (ipa_table_add_dma_cmd table HELP_UPDATE_HEAD (Some idx) idx enable_data cmd)
          in (Inr idx, cmd, table\<lparr>cur_tbl_cnt := cur_tbl_cnt table + 1\<rparr>))"

text \<open>The record is copied into a free slot of the expansion table, and its predecessor is set.\<close>

definition fill_slot ::
  "('e, 'm, 'u) ipa_table \<Rightarrow> u16 \<Rightarrow> u16 \<Rightarrow> 'u \<Rightarrow> u16 result \<times> ('e, 'm, 'u) ipa_table" where
  "fill_slot table slot pred user_data =
     (let iface = entry_interface table;
          (ret, e) = (if meta table \<noteq> None
                      then apfst (map_sum id (\<lambda>_. 0)) (entry_tail_insert iface (rec_at table slot) user_data)
                      else entry_head_insert iface (rec_at table slot) user_data)
      in case ret of
           Inl err \<Rightarrow> (Inl err, set_rec slot e table)
         | Inr enable_data \<Rightarrow>
             let (e, m) = entry_set_prev_index iface e slot pred (meta table) (table_entries table)
             in (Inr enable_data, (set_rec slot e table)\<lparr>meta := m\<rparr>))"

definition InsertTail ::
  "('e, 'm, 'u) ipa_table \<Rightarrow> u16 \<Rightarrow> 'u \<Rightarrow> ipa_ioc_nat_dma_one list \<Rightarrow>
   (u16 result \<times> ipa_ioc_nat_dma_one list \<times> ('e, 'm, 'u) ipa_table) option" where
  "InsertTail table idx user_data cmd =
     do {
       iterator \<leftarrow> ipa_table_iterator_end table idx;
       Some (case iterator of
           Inl err \<Rightarrow> (Inl err, cmd, table)
         | Inr it \<Rightarrow>
             (case FindExpnTblFreeEntry table of
                Inl err \<Rightarrow> (Inl err, cmd, table)
              | Inr slot \<Rightarrow>
                  (case fill_slot table slot (prev_index it) user_data of
                     (Inl err, table) \<Rightarrow> (Inl err, cmd, table)
                   | (Inr enable_data, table) \<Rightarrow>
                       let cmd = (if meta table \<noteq> None then cmd
                                  else snd (ipa_table_add_dma_cmd table HELP_UPDATE_HEAD (Some slot) slot enable_data cmd));
                           cmd = snd (ipa_table_add_dma_cmd table HELP_UPDATE_ENTRY (prev_entry it) (prev_index it) slot cmd)
                       in (Inr slot, cmd, table\<lparr>cur_expn_tbl_cnt := cur_expn_tbl_cnt table + 1\<rparr>))))
     }"

text \<open>The result is the index of the new record and its handle.\<close>

definition ipa_table_add_entry ::
  "('e, 'm, 'u) ipa_table \<Rightarrow> 'u \<Rightarrow> u16 \<Rightarrow> ipa_ioc_nat_dma_one list \<Rightarrow>
   ((u16 \<times> u32) result \<times> ipa_ioc_nat_dma_one list \<times> ('e, 'm, 'u) ipa_table) option" where
  "ipa_table_add_entry table user_data idx cmd =
     do {
       (ret, cmd, table) \<leftarrow> (if entry_is_valid (entry_interface table) (rec_at table idx)
                             then InsertTail table idx user_data cmd
                             else Some (InsertHead table idx user_data cmd));
       Some (map_sum id (\<lambda>i. (i, ucast (MakeEntryHdl table i))) ret, cmd, table)
     }"

definition ipa_table_create_delete_command ::
  "('e, 'm, 'u) ipa_table \<Rightarrow> ipa_ioc_nat_dma_one list \<Rightarrow> ipa_table_iterator \<Rightarrow> ipa_ioc_nat_dma_one list" where
  "ipa_table_create_delete_command table cmd it =
     (if \<not> VALID_INDEX (prev_index it) then
        let (ht, data) = (if VALID_INDEX (next_index it)
              then (HELP_DELETE_HEAD, entry_get_delete_head_dma_command_data (entry_interface table)
                      (rec_at table (the (curr_entry it))) (rec_at table (the (next_entry it))))
              else (HELP_UPDATE_HEAD, 0))
        in snd (ipa_table_add_dma_cmd table ht (curr_entry it) (curr_index it) data cmd)
      else snd (ipa_table_add_dma_cmd table HELP_UPDATE_ENTRY (prev_entry it) (prev_index it) (next_index it) cmd))"

definition ipa_table_erase_entry :: "('e, 'm, 'u) ipa_table \<Rightarrow> u16 \<Rightarrow> ('e, 'm, 'u) ipa_table" where
  "ipa_table_erase_entry table idx =
     (let table = set_rec idx (zero_rec table) table
      in if idx < table_entries table then table\<lparr>cur_tbl_cnt := cur_tbl_cnt table - 1\<rparr>
         else table\<lparr>cur_expn_tbl_cnt := cur_expn_tbl_cnt table - 1\<rparr>)"

definition ipa_table_delete_entry ::
  "('e, 'm, 'u) ipa_table \<Rightarrow> ipa_table_iterator \<Rightarrow> bool \<Rightarrow> ('e, 'm, 'u) ipa_table" where
  "ipa_table_delete_entry table it is_prev_empty =
     (let table =
        (if VALID_INDEX (next_index it) then
           let r = the (next_entry it);
               (e, m) = entry_set_prev_index (entry_interface table) (rec_at table r) (next_index it) (prev_index it)
                          (meta table) (table_entries table)
           in (set_rec r e table)\<lparr>meta := m\<rparr>
         else if is_prev_empty then
           (case prev_entry it of
              None \<Rightarrow> table
            | Some r \<Rightarrow> (set_rec r (zero_rec table) table)\<lparr>cur_tbl_cnt := cur_tbl_cnt table - 1\<rparr>)
         else table)
      in ipa_table_erase_entry table (curr_index it))"

section \<open>Sizes are tight\<close>

lemma pow2_loop_eq:
  assumes "2 ^ k \<le> unat tmp" "unat tmp < 2 ^ Suc k"
  shows "pow2_loop tmp pre cur = (if k = 0 then pre else push_bit (k - 1) cur, push_bit k cur)"
  using assms
proof (induction k arbitrary: tmp pre cur)
  case 0
  then have "unat tmp = 1" by simp
  then have "tmp = 1" by (auto dest: word_eq_of_nat)
  then show ?case by (simp add: pow2_loop.simps)
next
  case (Suc k)
  have "(2 :: nat) \<le> 2 ^ Suc k" by simp
  then have "2 \<le> unat tmp" using Suc.prems(1) by (rule order_trans)
  then have "tmp \<noteq> 0" "tmp \<noteq> 1" by auto
  moreover have "2 ^ k \<le> unat (drop_bit 1 tmp)" "unat (drop_bit 1 tmp) < 2 ^ Suc k"
    using Suc.prems by (auto simp: drop_bit_eq_div unat_div)
  ultimately show ?case
    using Suc.IH [of "drop_bit 1 tmp" cur "push_bit 1 cur"]
    by (subst pow2_loop.simps) (cases k; simp add: push_bit_eq_mult mult.assoc)
qed

lemma unat_push_bit_2: "k < 15 \<Longrightarrow> unat (push_bit k 2 :: u16) = 2 ^ Suc k"
proof -
  assume "k < 15"
  then have "(2 :: nat) ^ Suc k < 2 ^ 16" by (intro power_strict_increasing) simp_all
  moreover have "(push_bit k 2 :: u16) = of_nat (2 ^ Suc k)" by (simp add: push_bit_eq_mult)
  ultimately show ?thesis by (simp only: unsigned_of_nat) (simp add: take_bit_nat_eq_self)
qed

text \<open>A power of two between a number and its double.\<close>

lemma exists_power2:
  assumes "0 < n"
  obtains k where "2 ^ k \<le> n" "n < (2 :: nat) ^ Suc k"
  using ex_power_ivl1 [of 2 n] assms by auto

lemma Get2PowerTightUpperBound_eq:
  assumes "unat num \<le> 2 ^ 15"
  shows "\<exists>k. 1 \<le> k \<and> unat (Get2PowerTightUpperBound num) = 2 ^ k \<and> unat num \<le> 2 ^ k \<and>
    (k = 1 \<or> 2 ^ (k - 1) < unat num)"
proof (cases "num = 0")
  case True
  then show ?thesis by (auto simp: Get2PowerTightUpperBound_def intro!: exI [of _ 1])
next
  case False
  then have "0 < unat num" by (simp add: unat_gt_0)
  then obtain k where k: "2 ^ k \<le> unat num" "unat num < 2 ^ Suc k" by (rule exists_power2)
  have loop: "pow2_loop num 0 2 = (if k = 0 then 0 else push_bit (k - 1) 2, push_bit k 2)"
    using k by (rule pow2_loop_eq)
  have "(2 :: nat) ^ k \<le> 2 ^ 15" using k(1) assms by (rule order_trans)
  then have "k < 16" by (subst (asm) power_increasing_iff) simp_all
  have prev: "unat (push_bit (k - 1) 2 :: u16) = 2 ^ k" if "0 < k"
    using unat_push_bit_2 [of "k - 1"] that \<open>k < 16\<close> by simp
  show ?thesis
  proof (cases "0 < k \<and> unat num = 2 ^ k")
    case True
    then have "num = push_bit (k - 1) 2" using prev by (simp add: word_unat_eq_iff)
    then have "Get2PowerTightUpperBound num = push_bit (k - 1) 2" using False loop True
      by (auto simp: Get2PowerTightUpperBound_def)
    then show ?thesis using True prev by (intro exI [of _ k]) (auto simp: Suc_le_eq)
  next
    case other: False
    then have ne: "num \<noteq> (if k = 0 then 0 else push_bit (k - 1) 2)" using False prev by auto
    have "k < 15"
    proof (rule ccontr)
      assume "\<not> k < 15"
      then have "k = 15" using \<open>k < 16\<close> by simp
      then show False using k(1) assms other by simp
    qed
    moreover have "Get2PowerTightUpperBound num = push_bit k 2"
      using False loop ne by (simp add: Get2PowerTightUpperBound_def)
    ultimately show ?thesis
      using k other unat_push_bit_2 [of k] by (intro exI [of _ "Suc k"]) (auto simp: le_less)
  qed
qed

text \<open>What the sizes of a table satisfy once they are calculated.\<close>

definition sizes_ok :: "('e, 'm, 'u) ipa_table \<Rightarrow> bool" where
  "sizes_ok t \<longleftrightarrow> (\<exists>k\<in>{1..12}. unat (table_entries t) = 2 ^ k) \<and> even (unat (expn_table_entries t)) \<and>
     2 \<le> unat (expn_table_entries t) \<and> unat (expn_table_entries t) < 4096 \<and>
     unat (tot_tbl_ents t) = unat (table_entries t) + unat (expn_table_entries t) \<and> unat (tot_tbl_ents t) \<le> 5120"

lemma sizes_okD:
  assumes "sizes_ok t"
  shows "2 \<le> unat (table_entries t)" "unat (table_entries t) \<le> 4096" "unat (expn_table_entries t) < 4096"
    "2 \<le> unat (expn_table_entries t)"
    "unat (tot_tbl_ents t) = unat (table_entries t) + unat (expn_table_entries t)" "unat (tot_tbl_ents t) \<le> 5120"
proof -
  obtain k where k: "unat (table_entries t) = 2 ^ k" "1 \<le> k" "k \<le> 12" using assms by (auto simp: sizes_ok_def)
  have "(2 :: nat) ^ 1 \<le> 2 ^ k" by (rule power_increasing) (use k in simp_all)
  moreover have "(2 :: nat) ^ k \<le> 2 ^ 12" by (rule power_increasing) (use k in simp_all)
  ultimately show "2 \<le> unat (table_entries t)" "unat (table_entries t) \<le> 4096" using k(1) by simp_all
qed (use assms in \<open>auto simp: sizes_ok_def\<close>)

lemma unat_share: "percent \<le> 100 \<Longrightarrow> unat (share percent n) = unat n * percent div 100"
proof -
  assume "percent \<le> 100"
  then have "unat n * percent div 100 \<le> unat n * 100 div 100" by (intro div_le_mono mult_le_mono2)
  then have "unat n * percent div 100 < 2 ^ 16" using unat_u16_less [of n] by simp
  then show ?thesis by (simp add: share_def unsigned_of_nat take_bit_nat_eq_self)
qed

lemma unat_even_bound:
  assumes "unat num < 2 ^ 15"
  shows "unat (of_int (GetEvenTightUpperBound num) :: u16) = (if unat num = 0 then 2 else unat num + unat num mod 2)"
proof -
  have odd: "num mod 2 \<noteq> 0 \<longleftrightarrow> unat num mod 2 \<noteq> 0" by (simp add: unat_eq_0 [symmetric] unat_mod)
  have "unat (of_int (uint num + 1) :: u16) = unat num + 1" using assms by (simp add: unat_word_ariths)
  then show ?thesis using odd by (auto simp: GetEvenTightUpperBound_def unat_eq_0)
qed

lemma even_above:
  assumes "m \<le> (2202 :: nat)" "x = (if m = 0 then 2 else m + m mod 2)"
  shows "m \<le> x" "even x" "2 \<le> x" "x < 4096"
  using assms by (simp_all split: if_splits) presburger+

lemma calculate_entries_num_ok:
  assumes "ipa_table_calculate_entries_num t n mem = (Inr (), t')"
  shows "sizes_ok t' \<and>
    unat n * (if mem = IPA_NAT_MEM_IN_SRAM then 100 else 80) div 100 \<le> unat (table_entries t') \<and>
    unat n * (if mem = IPA_NAT_MEM_IN_SRAM then 43 else 20) div 100 \<le> unat (expn_table_entries t')"
proof -
  let ?b = "if mem = IPA_NAT_MEM_IN_SRAM then 100 else 80" and ?e = "if mem = IPA_NAT_MEM_IN_SRAM then 43 else 20"
  let ?base = "Get2PowerTightUpperBound (share ?b n)"
  let ?expn = "of_int (GetEvenTightUpperBound (share ?e n)) :: u16"
  have n: "unat n \<le> 5120" and t': "table_entries t' = ?base" "expn_table_entries t' = ?expn"
    "tot_tbl_ents t' = ucast ?base + ucast ?expn" "\<not> IPA_TABLE_MAX_ENTRIES < tot_tbl_ents t'"
    using assms by (auto simp: ipa_table_calculate_entries_num_def Let_def IPA_TABLE_MAX_ENTRIES_def
        word_less_nat_alt split: if_splits)
  have b: "unat (share ?b n) = unat n * ?b div 100" and e: "unat (share ?e n) = unat n * ?e div 100"
    by (auto simp: unat_share)
  have "unat (share ?e n) \<le> 2202" using n unfolding e by (cases "mem = IPA_NAT_MEM_IN_SRAM") auto
  then have expn: "unat ?expn = (if unat (share ?e n) = 0 then 2 else unat (share ?e n) + unat (share ?e n) mod 2)"
    by (intro unat_even_bound) simp
  then have expn_ok: "unat (share ?e n) \<le> unat ?expn" "even (unat ?expn)" "2 \<le> unat ?expn" "unat ?expn < 4096"
    using even_above [OF \<open>unat (share ?e n) \<le> 2202\<close>] by simp_all
  have "unat (share ?b n) \<le> 2 ^ 15" using n unfolding b by (cases "mem = IPA_NAT_MEM_IN_SRAM") auto
  from Get2PowerTightUpperBound_eq [OF this] obtain k where
    k: "1 \<le> k" "unat ?base = 2 ^ k" "unat (share ?b n) \<le> 2 ^ k" by blast
  have tot: "unat (tot_tbl_ents t') = unat ?base + unat ?expn"
    unfolding t'(3) using unat_u16_less [of ?base] unat_u16_less [of ?expn] by (subst unat_add_u32) simp_all
  then have max: "unat ?base + unat ?expn \<le> 5120"
    using t'(4) by (simp add: IPA_TABLE_MAX_ENTRIES_def word_less_nat_alt)
  have "k \<le> 12"
  proof (rule ccontr)
    assume "\<not> k \<le> 12"
    then have "(2 :: nat) ^ 13 \<le> 2 ^ k" by (intro power_increasing) auto
    then show False using k(2) max by simp
  qed
  then have "sizes_ok t'" using k t' tot max expn_ok unfolding sizes_ok_def by auto
  then show ?thesis using k t' expn_ok(1) b e by simp
qed

text \<open>The sizes of a table: when the calculation succeeds, the base table has a power of two
  of records, at least two and at most 4096, and is large enough for its share of the requested
  number; the expansion table has an even number of records that covers its share; and both
  together do not exceed the maximum. So each index fits into the 12 bits of a handle.\<close>

theorem ipa_table_calculate_entries_num_sizes:
  assumes "ipa_table_calculate_entries_num t n mem = (Inr (), t')"
  shows "sizes_ok t' \<and>
    unat n * (if mem = IPA_NAT_MEM_IN_SRAM then 100 else 80) div 100 \<le> unat (table_entries t') \<and>
    unat n * (if mem = IPA_NAT_MEM_IN_SRAM then 43 else 20) div 100 \<le> unat (expn_table_entries t')"
  using assms by (rule calculate_entries_num_ok)

lemma bit_0_1: "b = (0 :: u16) \<or> b = 1 \<Longrightarrow> bit b n \<Longrightarrow> n = 0"
  by (auto simp: bit_simps)

lemma handle_index:
  fixes j b m :: u16
  assumes j: "unat j < 4096" and b: "b = 0 \<or> b = 1" and m: "m = 0 \<or> m = 1"
  shows "(ucast (drop_bit 1 (ucast (push_bit 1 j OR (b OR push_bit 15 m)) :: u32) AND 0xFFF) :: u16) = j"
    "(ucast (push_bit 1 j OR (b OR push_bit 15 m)) :: u32) AND 1 = ucast b"
proof -
  have "take_bit 12 j = j" using j by (simp add: word_unat_eq_iff unsigned_take_bit_eq take_bit_nat_eq_self)
  then have small: "n < 12" if "bit j n" for n using that by (metis bit_take_bit_iff)
  have mask: "(0xFFF :: u32) = mask 12" by (simp add: mask_eq_exp_minus_1)
  note bits = bit_ucast_iff bit_drop_bit_eq bit_and_iff bit_or_iff bit_push_bit_iff bit_mask_iff comp_apply
  show "(ucast (drop_bit 1 (ucast (push_bit 1 j OR (b OR push_bit 15 m)) :: u32) AND 0xFFF) :: u16) = j"
    unfolding mask
    by (rule bit_word_eqI) (simp only: bits, auto dest: small bit_0_1 [OF b] bit_0_1 [OF m])
  show "(ucast (push_bit 1 j OR (b OR push_bit 15 m)) :: u32) AND 1 = ucast b"
    by (rule bit_word_eqI) (simp only: bits, auto simp: bit_1_iff dest: bit_0_1 [OF b])
qed

lemma handle_roundtrip:
  assumes ok: "sizes_ok t" and i: "unat i < unat (tot_tbl_ents t)"
  shows "ipa_table_get_entry t (ucast (MakeEntryHdl t i)) = Inr i \<and> (MakeEntryHdl t i = 0 \<longrightarrow> i = 0)"
proof -
  note sizes = sizes_okD [OF ok]
  let ?m = "mem_type_bit (nmi t)"
  have m: "?m = 0 \<or> ?m = 1" by (simp add: mem_type_bit_def split: ipa3_nat_mem_in.splits)
  define b :: u16 where "b = (if table_entries t \<le> i then 1 else 0)"
  define j where "j = (if table_entries t \<le> i then i - table_entries t else i)"
  have hdl: "MakeEntryHdl t i = push_bit 1 j OR (b OR push_bit 15 ?m)"
    by (simp add: MakeEntryHdl_def b_def j_def ipa_table_consts Let_def or.assoc del: push_bit_Suc)
  have b: "b = 0 \<or> b = 1" by (simp add: b_def)
  have j: "unat j < 4096"
  proof (cases "table_entries t \<le> i")
    case True
    then have "unat (i - table_entries t) = unat i - unat (table_entries t)" by (simp add: unat_sub word_le_nat_alt)
    then show ?thesis using True i sizes by (simp add: j_def)
  next
    case False
    then show ?thesis using sizes by (simp add: j_def word_le_nat_alt)
  qed
  note idx = handle_index [OF j b m]
  have "BREAK_RULE_HDL t (ucast (MakeEntryHdl t i)) =
      (drop_bit 15 (ucast (MakeEntryHdl t i)) AND 1, ucast b, i)"
    using b unfolding BREAK_RULE_HDL_def hdl ipa_table_consts Let_def idx
    by (auto simp: b_def j_def split: if_splits)
  then have get: "ipa_table_get_entry t (ucast (MakeEntryHdl t i)) = Inr i"
    using i by (simp add: ipa_table_get_entry_def word_le_nat_alt)
  have "i = 0" if "MakeEntryHdl t i = 0"
  proof -
    have "b = 0" using idx(2) that b unfolding hdl by auto
    moreover have "j = 0" using idx(1) that unfolding hdl by simp
    ultimately show ?thesis by (simp add: b_def j_def split: if_splits)
  qed
  with get show ?thesis by simp
qed

text \<open>C31. Handles: the handle made for an index below the number of records denotes that index, in
  the base table and in the expansion table, whatever memory holds the table, and it is 0 only
  for the unused record 0.\<close>

theorem ipa_table_handle_roundtrip:
  assumes ok: "sizes_ok t" and i: "unat i < unat (tot_tbl_ents t)"
  shows "ipa_table_get_entry t (ucast (MakeEntryHdl t i)) = Inr i \<and> (MakeEntryHdl t i = 0 \<longrightarrow> i = 0)"
  using assms by (rule handle_roundtrip)

definition fits_sram :: "u32 \<Rightarrow> u32 \<Rightarrow> u32 \<Rightarrow> nat \<Rightarrow> bool" where
  "fits_sram sram_size size1 size2 n \<longleftrightarrow> uint (of_int (sram_size_of size1 size2 (of_nat n)) :: u32) \<le> uint sram_size"

lemma sram_loop_steps:
  assumes "\<forall>m. tot \<le> m \<and> m < t \<longrightarrow> fits_sram sram_size size1 size2 m" "\<not> fits_sram sram_size size1 size2 t" "tot \<le> t"
  shows "sram_loop sram_size size1 size2 (of_nat tot) (of_nat (tot - 1)) = Some (of_nat (t - 1))"
  using assms
proof (induction "t - tot" arbitrary: tot)
  case 0
  then show ?case by (subst sram_loop.simps) (simp add: fits_sram_def)
next
  case (Suc d)
  then have "fits_sram sram_size size1 size2 tot" "tot < t" by auto
  then have "sram_loop sram_size size1 size2 (of_nat tot) (of_nat (tot - 1)) =
      sram_loop sram_size size1 size2 (of_nat (Suc tot)) (of_nat tot)"
    by (subst sram_loop.simps) (simp add: fits_sram_def add.commute)
  then show ?case using Suc.hyps(1) [of "Suc tot"] Suc.hyps(2) Suc.prems by simp
qed


text \<open>Concrete runs: a table of 100 entries, and an SRAM of 4096 bytes for records of 64 and 4 bytes.\<close>

definition w_table_100 :: "(unit, unit, unit) ipa_table" where
  "w_table_100 = ipa_table_init () ''t'' IPA_NAT_MEM_IN_DDR 64 None 0
     \<lparr>entry_is_valid = (\<lambda>_. False), entry_get_next_index = (\<lambda>_. 0), entry_get_prev_index = (\<lambda>_ _ _ _. 0),
      entry_set_prev_index = (\<lambda>e _ _ m _. (e, m)), entry_head_insert = (\<lambda>e _. (Inr 0, e)),
      entry_tail_insert = (\<lambda>e _. (Inr (), e)), entry_get_delete_head_dma_command_data = (\<lambda>_ _. 0)\<rparr>
     (\<lambda>_. ipa_table_dma_cmd_helper_init 0 IPA_NAT_BASE_TBL IPA_NAT_EXPN_TBL 0)"

definition w_sized_100 :: "(unit, unit, unit) ipa_table" where
  "w_sized_100 = snd (ipa_table_calculate_entries_num w_table_100 100 IPA_NAT_MEM_IN_DDR)"

lemma w_sized_100: "ipa_table_calculate_entries_num w_table_100 100 IPA_NAT_MEM_IN_DDR = (Inr (), w_sized_100)"
proof -
  have "fst (ipa_table_calculate_entries_num w_table_100 100 IPA_NAT_MEM_IN_DDR) = Inr ()" by code_simp
  then show ?thesis by (cases "ipa_table_calculate_entries_num w_table_100 100 IPA_NAT_MEM_IN_DDR") (simp add: w_sized_100_def)
qed

theorem ipa_table_calculate_entries_num_sizes_witness:
  "is_ok (fst (ipa_table_calculate_entries_num w_table_100 100 IPA_NAT_MEM_IN_DDR)) \<and> sizes_ok w_sized_100"
  using ipa_table_calculate_entries_num_sizes [OF w_sized_100] w_sized_100 by simp

theorem ipa_table_handle_roundtrip_witness:
  "unat (140 :: u16) < unat (tot_tbl_ents w_sized_100) \<and>
   ipa_table_get_entry w_sized_100 (ucast (MakeEntryHdl w_sized_100 140)) = Inr 140"
proof -
  have "sizes_ok w_sized_100" using calculate_entries_num_ok [OF w_sized_100] by simp
  moreover have i: "unat (140 :: u16) < unat (tot_tbl_ents w_sized_100)" by code_simp
  ultimately show ?thesis using ipa_table_handle_roundtrip [of w_sized_100 140] by blast
qed


end
