(* ===== verification/IPA_Mem.thy ===== *)
theory IPA_Mem
  imports IPA_Table
begin

text \<open>
  The memory of the IPA tables as the user space library obtains it from the kernel
  (\<open>qcom/opensource/dataipa/ipanat/src/ipa_mem_descriptor.c\<close>, \<open>inc/ipa_mem_descriptor.h\<close>), and the
  descriptor of the IPA device (\<open>ipa_descriptor_open\<close> and \<open>ipa_descriptor_close\<close> of
  \<open>ipa_nat_utils.c\<close>). What the operating system and the driver answer is an argument. The lemmas
  show when a descriptor becomes valid and where its table lies.
\<close>

section \<open>The operating system\<close>

text \<open>The requests that a memory descriptor carries, by their names in the kernel's header.\<close>

datatype ipa_ioctl =
  IPA_IOC_ALLOC_NAT_TABLE | IPA_IOC_ALLOC_IPV6CT_TABLE | IPA_IOC_DEL_NAT_TABLE | IPA_IOC_DEL_IPV6CT_TABLE

record ipa_nat_in_sram_info =
  sram_mem_available_for_nat :: u32
  nat_table_offset_into_mmap :: u32
  best_nat_in_sram_size_rqst :: u32

text \<open>
  The answers to the system calls of one call of the library. A request answers with its output,
  or \<open>None\<close> when it fails; \<open>open\<close> answers with a file descriptor, which is negative on failure;
  \<open>mmap\<close> with an address, \<open>None\<close> being \<open>MAP_FAILED\<close>.
\<close>

record sys =
  calloc_ok :: bool
  open_dev :: "string \<Rightarrow> int"
  get_hw_version :: "u32 option"
  get_nat_in_sram_info :: "ipa_nat_in_sram_info option"
  alloc_table :: "ipa_ioctl \<Rightarrow> u32 option"
  del_table_ok :: "ipa_ioctl \<Rightarrow> u8 \<Rightarrow> ipa3_nat_mem_in \<Rightarrow> bool"
  mmap_addr_of :: "int \<Rightarrow> int option"
  close_ok :: bool
  init_table_ok :: bool
  dma_cmd_ok :: bool
  uc_act_ok :: bool
  lock_ok :: bool
  unlock_ok :: bool

text \<open>The constants of the kernel's header that the library uses.\<close>

record ipa_header =
  hdr_IPA_HW_None :: u32
  hdr_IPA_HW_v4_0 :: u32
  hdr_IPA_RESOURCE_NAME_MAX :: nat
  hdr_IPA_DEV_NAME :: string
  hdr_IPA_IPV6CT_DEV_NAME :: string

definition strlcpy :: "string \<Rightarrow> nat \<Rightarrow> string" where
  "strlcpy src n = take (n - 1) src"

section \<open>The device\<close>

record ipa_descriptor =
  desc_fd :: int
  desc_ver :: u32

definition ipa_descriptor_open :: "ipa_header \<Rightarrow> sys \<Rightarrow> ipa_descriptor option" where
  "ipa_descriptor_open hdr os =
     (if \<not> calloc_ok os then None
      else
        let fd = open_dev os (hdr_IPA_DEV_NAME hdr) in
        if fd < 0 then None
        else Some \<lparr>desc_fd = fd,
               desc_ver = (case get_hw_version os of Some ver \<Rightarrow> ver | None \<Rightarrow> hdr_IPA_HW_None hdr)\<rparr>)"

section \<open>Memory descriptors\<close>

record ipa_mem_descriptor =
  orig_rqst_size :: int
  mmap_size :: int
  base_addr :: int
  mmap_addr :: int
  addr_offset :: u32
  allocate_ioctl_num :: ipa_ioctl
  delete_ioctl_num :: ipa_ioctl
  md_name :: string
  table_index :: u8
  md_valid :: bool
  consider_using_sram :: bool
  sram_available :: bool
  sram_to_be_used :: bool
  nat_sram_info :: ipa_nat_in_sram_info

definition no_sram_info :: ipa_nat_in_sram_info where
  "no_sram_info = \<lparr>sram_mem_available_for_nat = 0, nat_table_offset_into_mmap = 0, best_nat_in_sram_size_rqst = 0\<rparr>"

text \<open>A failing request returns \<open>-1\<close>, and so does the caller.\<close>

definition AllocateMemory :: "sys \<Rightarrow> ipa_mem_descriptor \<Rightarrow> unit result \<times> ipa_mem_descriptor" where
  "AllocateMemory os desc =
     (let desc = desc\<lparr>sram_available := False, sram_to_be_used := False, nat_sram_info := no_sram_info\<rparr>;
          desc = (case get_nat_in_sram_info os of
                    None \<Rightarrow> desc
                  | Some info \<Rightarrow>
                      desc\<lparr>nat_sram_info := info, sram_available := True,
                           sram_to_be_used := consider_using_sram desc \<and>
                             of_int (orig_rqst_size desc) \<le> sram_mem_available_for_nat info\<rparr>)
      in case alloc_table os (allocate_ioctl_num desc) of
           None \<Rightarrow> (Inl EFAIL, desc)
         | Some offset \<Rightarrow> (Inr (), desc\<lparr>addr_offset := offset\<rparr>))"

text \<open>\<open>MAP_FAILED\<close> is the address \<open>-1\<close>.\<close>

definition MapMemory :: "ipa_header \<Rightarrow> sys \<Rightarrow> ipa_mem_descriptor \<Rightarrow> unit result \<times> ipa_mem_descriptor" where
  "MapMemory hdr os desc =
     (if hdr_IPA_RESOURCE_NAME_MAX hdr \<le> length ''/dev/'' then (Inl EINVAL, desc)
      else
        let path = ''/dev/'' @ strlcpy (md_name desc) (hdr_IPA_RESOURCE_NAME_MAX hdr - length ''/dev/'') in
        if open_dev os path < 0 then (Inl EIO, desc)
        else
          let bytes = (if sram_to_be_used desc then uint (best_nat_in_sram_size_rqst (nat_sram_info desc))
                       else orig_rqst_size desc);
              (ret, desc) =
                (case mmap_addr_of os bytes of
                   None \<Rightarrow> (Inl EINVAL, desc\<lparr>mmap_size := bytes, mmap_addr := - 1, base_addr := - 1\<rparr>)
                 | Some addr \<Rightarrow>
                     (Inr (), desc\<lparr>mmap_size := bytes, mmap_addr := addr,
                        base_addr := (if sram_to_be_used desc
                          then addr + uint (nat_table_offset_into_mmap (nat_sram_info desc)) else addr)\<rparr>))
          in (if close_ok os then ret else Inl EINVAL, desc))"

definition DeallocateMemory :: "sys \<Rightarrow> ipa_mem_descriptor \<Rightarrow> unit result" where
  "DeallocateMemory os desc =
     (if del_table_ok os (delete_ioctl_num desc) (table_index desc)
           (if sram_to_be_used desc then IPA_NAT_MEM_IN_SRAM else IPA_NAT_MEM_IN_DDR)
      then Inr () else Inl EFAIL)"

definition ipa_mem_descriptor_init ::
  "ipa_header \<Rightarrow> ipa_mem_descriptor \<Rightarrow> string \<Rightarrow> int \<Rightarrow> u8 \<Rightarrow> ipa_ioctl \<Rightarrow> ipa_ioctl \<Rightarrow> bool \<Rightarrow> ipa_mem_descriptor" where
  "ipa_mem_descriptor_init hdr desc device_name bytes index alloc_num del_num consider =
     desc\<lparr>md_name := strlcpy device_name (hdr_IPA_RESOURCE_NAME_MAX hdr), orig_rqst_size := bytes, mmap_size := bytes,
          table_index := index, allocate_ioctl_num := alloc_num, delete_ioctl_num := del_num,
          consider_using_sram := consider\<rparr>"

text \<open>When the mapping fails, the kernel gets its table back; whether it takes it is ignored.\<close>

definition ipa_mem_descriptor_allocate_memory ::
  "ipa_header \<Rightarrow> sys \<Rightarrow> ipa_mem_descriptor \<Rightarrow> unit result \<times> ipa_mem_descriptor" where
  "ipa_mem_descriptor_allocate_memory hdr os desc =
     (case AllocateMemory os desc of
        (Inl err, desc) \<Rightarrow> (Inl err, desc)
      | (Inr _, desc) \<Rightarrow>
          (case MapMemory hdr os desc of
             (Inl err, desc) \<Rightarrow> (Inl err, desc)
           | (Inr _, desc) \<Rightarrow> (Inr (), desc\<lparr>md_valid := True\<rparr>)))"

definition ipa_mem_descriptor_delete :: "sys \<Rightarrow> ipa_mem_descriptor \<Rightarrow> unit result \<times> ipa_mem_descriptor" where
  "ipa_mem_descriptor_delete os desc =
     (if \<not> md_valid desc then (Inl EINVAL, desc)
      else let desc = desc\<lparr>md_valid := False\<rparr> in (DeallocateMemory os desc, desc))"

text \<open>Memory set to 0. A descriptor that is not valid is not looked at, so its requests do not
  matter.\<close>

definition zero_helper :: ipa_table_dma_cmd_helper where
  "zero_helper = \<lparr>dh_offset = 0, dh_table_type = IPA_NAT_BASE_TBL, dh_expn_table_type = IPA_NAT_BASE_TBL, dh_table_indx = 0\<rparr>"

definition zero_mem_desc :: ipa_mem_descriptor where
  "zero_mem_desc = \<lparr>orig_rqst_size = 0, mmap_size = 0, base_addr = 0, mmap_addr = 0, addr_offset = 0,
     allocate_ioctl_num = IPA_IOC_ALLOC_IPV6CT_TABLE, delete_ioctl_num = IPA_IOC_DEL_IPV6CT_TABLE, md_name = [],
     table_index = 0, md_valid = False, consider_using_sram = False, sram_available = False, sram_to_be_used = False,
     nat_sram_info = no_sram_info\<rparr>"

text \<open>What a call returns when it has unlocked the mutex, or failed to.\<close>

definition mutex_unlock :: "sys \<Rightarrow> 'a result \<Rightarrow> 'a result" where
  "mutex_unlock os ret = (if unlock_ok os then ret else case ret of Inl err \<Rightarrow> Inl err | Inr _ \<Rightarrow> Inl EPERM)"

lemma allocate_memory_ok:
  assumes "ipa_mem_descriptor_allocate_memory hdr os desc = (Inr (), desc')"
  shows "md_valid desc'" "alloc_table os (allocate_ioctl_num desc) = Some (addr_offset desc')"
    "mmap_addr_of os (mmap_size desc') = Some (mmap_addr desc')"
    "base_addr desc' = mmap_addr desc' +
       (if sram_to_be_used desc' then uint (nat_table_offset_into_mmap (nat_sram_info desc')) else 0)"
  using assms by (auto simp: ipa_mem_descriptor_allocate_memory_def AllocateMemory_def MapMemory_def Let_def
      split: prod.splits sum.splits option.splits if_splits)

lemma allocate_memory_fails:
  assumes "ipa_mem_descriptor_allocate_memory hdr os desc = (Inl err, desc')"
  shows "md_valid desc' = md_valid desc"
  using assms by (auto simp: ipa_mem_descriptor_allocate_memory_def AllocateMemory_def MapMemory_def Let_def
      split: prod.splits sum.splits option.splits if_splits)

end
