(* ===== verification/IPA_Table_Lists.thy ===== *)
theory IPA_Table_Lists
  imports IPA_Table
begin

text \<open>
  The lists of the IPA tables (\<open>ipa_table.c\<close>): a contract for a type of records and the DMA
  engine, as a locale, and the proof that adding and deleting under this contract keep every
  list doubly linked, put each rule into the list of its hash value and change nothing else. The
  tables of rules interpret the locale.
\<close>

section \<open>Doubly linked lists\<close>

text \<open>\<open>lk valid pv nx R p as z\<close>: the records \<open>as\<close> are in use, each is linked to its neighbours, the
  first has the predecessor \<open>p\<close> and the last the successor \<open>z\<close>.\<close>

fun lk :: "('e \<Rightarrow> bool) \<Rightarrow> ('e \<Rightarrow> u16) \<Rightarrow> ('e \<Rightarrow> u16) \<Rightarrow> (u16 \<Rightarrow> 'e) \<Rightarrow> u16 \<Rightarrow> u16 list \<Rightarrow> u16 \<Rightarrow> bool" where
  "lk valid pv nx R p [] z \<longleftrightarrow> True"
| "lk valid pv nx R p (a # as) z \<longleftrightarrow>
     valid (R a) \<and> pv (R a) = p \<and> nx (R a) = (if as = [] then z else hd as) \<and> lk valid pv nx R a as z"

lemma lk_append:
  "lk valid pv nx R p (as @ bs) z \<longleftrightarrow>
     lk valid pv nx R p as (if bs = [] then z else hd bs) \<and> lk valid pv nx R (last (p # as)) bs z"
  by (induction as arbitrary: p) auto

lemma lk_cong:
  assumes "\<forall>a\<in>set as. valid (R' a) = valid (R a) \<and> pv (R' a) = pv (R a) \<and> nx (R' a) = nx (R a)"
  shows "lk valid pv nx R' p as z = lk valid pv nx R p as z"
  using assms by (induction as arbitrary: p) auto

lemma lk_valid: "lk valid pv nx R p as z \<Longrightarrow> a \<in> set as \<Longrightarrow> valid (R a)"
  by (induction as arbitrary: p) auto

text \<open>A new successor of the last record, and a new predecessor of the first.\<close>

lemma lk_set_last:
  assumes "lk valid pv nx R p as z" "as \<noteq> []" "distinct as"
    "\<forall>a\<in>set as. valid (R' a) = valid (R a) \<and> pv (R' a) = pv (R a)"
    "\<forall>a\<in>set as. nx (R' a) = (if a = last as then z' else nx (R a))"
  shows "lk valid pv nx R' p as z'"
  using assms
proof (induction as arbitrary: p)
  case (Cons a as)
  show ?case
  proof (cases "as = []")
    case True
    then show ?thesis using Cons.prems by simp
  next
    case False
    then have "a \<noteq> last as" using Cons.prems(3) last_in_set [of as] by auto
    then show ?thesis using Cons.IH [of a] Cons.prems False by simp
  qed
qed simp

lemma lk_set_first:
  assumes "lk valid pv nx R p (a # as) z" "a \<notin> set as"
    "\<forall>b\<in>set (a # as). valid (R' b) = valid (R b) \<and> nx (R' b) = nx (R b)"
    "\<forall>b\<in>set as. pv (R' b) = pv (R b)" "pv (R' a) = p'"
  shows "lk valid pv nx R' p' (a # as) z"
  using assms lk_cong [of as valid R' R pv nx a z] by simp

lemma lk_neighbours:
  assumes "lk valid pv nx R p (as @ i # bs) z"
  shows "pv (R i) = last (p # as)" "nx (R i) = (if bs = [] then z else hd bs)"
  using assms by (auto simp: lk_append)

section \<open>Records and tables\<close>

lemma rec_at_set_rec:
  "unat i < length (recs t) \<Longrightarrow> rec_at (set_rec i e t) j = (if j = i then e else rec_at t j)"
  by (auto simp: rec_at_def set_rec_def nth_list_update word_unat_eq_iff)

lemma set_rec_fields [simp]:
  "length (recs (set_rec i e t)) = length (recs t)" "table_entries (set_rec i e t) = table_entries t"
  "expn_table_entries (set_rec i e t) = expn_table_entries t" "tot_tbl_ents (set_rec i e t) = tot_tbl_ents t"
  "entry_interface (set_rec i e t) = entry_interface t" "zero_rec (set_rec i e t) = zero_rec t"
  "meta (set_rec i e t) = meta t" "cur_tbl_cnt (set_rec i e t) = cur_tbl_cnt t"
  "cur_expn_tbl_cnt (set_rec i e t) = cur_expn_tbl_cnt t" "dma_help (set_rec i e t) = dma_help t"
  "table_addr (set_rec i e t) = table_addr t" "expn_table_addr (set_rec i e t) = expn_table_addr t"
  "entry_size (set_rec i e t) = entry_size t" "nmi (set_rec i e t) = nmi t"
  by (simp_all add: set_rec_def)

text \<open>The slots of the two tables. Record 0 of the base table is never used.\<close>

definition base_slots :: "('e, 'm, 'u) ipa_table \<Rightarrow> u16 set" where
  "base_slots t = {h. h \<noteq> 0 \<and> h < table_entries t}"

definition expn_slots :: "('e, 'm, 'u) ipa_table \<Rightarrow> u16 set" where
  "expn_slots t = {i. table_entries t \<le> i \<and> unat i < unat (tot_tbl_ents t)}"

text \<open>The single command that \<open>ipa_table_add_dma_cmd\<close> adds for a record of the table.\<close>

definition cmd_one :: "('e, 'm, 'u) ipa_table \<Rightarrow> dma_help_type \<Rightarrow> u16 \<Rightarrow> u16 \<Rightarrow> ipa_ioc_nat_dma_one" where
  "cmd_one t help_type i data = hd (snd (ipa_table_add_dma_cmd t help_type (Some i) i data []))"

lemma add_dma_cmd_one:
  assumes "sizes_ok t" "unat i < unat (tot_tbl_ents t)"
  shows "ipa_table_add_dma_cmd t help_type (Some i) i data cmd = (Inr (), cmd @ [cmd_one t help_type i data])"
proof -
  have "int (unat i) < int (unat (table_entries t) + unat (expn_table_entries t))"
    using assms sizes_okD(5) [OF assms(1)] by (simp only: of_nat_less_iff)
  then have "uint i < uint (table_entries t) + uint (expn_table_entries t)" by simp
  then show ?thesis by (simp add: ipa_table_add_dma_cmd_def cmd_one_def ipa_table_dma_cmd_generate_def Let_def)
qed

lemma cmd_one_cong:
  assumes "table_entries t' = table_entries t" "expn_table_entries t' = expn_table_entries t"
    "dma_help t' = dma_help t" "table_addr t' = table_addr t" "expn_table_addr t' = expn_table_addr t"
    "entry_size t' = entry_size t"
  shows "cmd_one t' = cmd_one t"
  using assms by (intro ext) (simp add: cmd_one_def ipa_table_add_dma_cmd_def ipa_table_dma_cmd_generate_def
      GOTO_REC_def Let_def)

text \<open>Posting a command to an engine that carries it out element by element.\<close>

definition post_cmd :: "(ipa_ioc_nat_dma_one \<Rightarrow> 'e list \<Rightarrow> 'e list) \<Rightarrow> ipa_ioc_nat_dma_one list \<Rightarrow>
  ('e, 'm, 'u) ipa_table \<Rightarrow> ('e, 'm, 'u) ipa_table" where
  "post_cmd dma cmd t = t\<lparr>recs := fold dma cmd (recs t)\<rparr>"

section \<open>Lists of a table\<close>

text \<open>What the lists depend on in a record: whether it is in use, its links, whether it could be
  written by an insertion, whether it is a deleted head that still leads to other records, and the
  hash value of its rule.\<close>

record 'e node_view =
  n_valid :: "'e \<Rightarrow> bool"
  n_pv :: "'e \<Rightarrow> u16"
  n_nx :: "'e \<Rightarrow> u16"
  n_fresh :: "'e \<Rightarrow> bool"
  n_dead :: "'e \<Rightarrow> bool"
  n_hash :: "'e \<Rightarrow> u16"

abbreviation nlk :: "'e node_view \<Rightarrow> (u16 \<Rightarrow> 'e) \<Rightarrow> u16 \<Rightarrow> u16 list \<Rightarrow> u16 \<Rightarrow> bool" where
  "nlk N \<equiv> lk (n_valid N) (n_pv N) (n_nx N)"

text \<open>
  The lists \<open>bk\<close> of the base slots \<open>B\<close> with collisions in the expansion slots \<open>E\<close>: a slot in use
  heads its list, the lists are disjoint and hold all records of the expansion table that are in
  use, slots not in use are fresh, only heads with a list are dead, and each rule is in the list
  of its hash value.
\<close>

definition lists :: "'e node_view \<Rightarrow> u16 set \<Rightarrow> u16 set \<Rightarrow> (u16 \<Rightarrow> 'e) \<Rightarrow> (u16 \<Rightarrow> u16 list) \<Rightarrow> bool" where
  "lists N B E R bk \<longleftrightarrow>
     (\<forall>i\<in>B \<union> E. \<not> n_valid N (R i) \<longrightarrow> n_fresh N (R i)) \<and>
     (\<forall>h\<in>B. if n_valid N (R h) then nlk N R 0 (h # bk h) 0 else bk h = []) \<and>
     (\<forall>h\<in>B. distinct (bk h) \<and> set (bk h) \<subseteq> E) \<and>
     (\<forall>h\<in>B. \<forall>g\<in>B. h \<noteq> g \<longrightarrow> set (bk h) \<inter> set (bk g) = {}) \<and>
     (\<forall>i\<in>E. n_valid N (R i) \<longrightarrow> (\<exists>h\<in>B. i \<in> set (bk h))) \<and>
     (\<forall>i\<in>E. n_valid N (R i) \<longrightarrow> \<not> n_dead N (R i)) \<and>
     (\<forall>h\<in>B. n_valid N (R h) \<and> n_dead N (R h) \<longrightarrow> bk h \<noteq> []) \<and>
     (\<forall>h\<in>B. \<forall>i\<in>set (h # bk h). n_valid N (R i) \<and> \<not> n_dead N (R i) \<longrightarrow> n_hash N (R i) = h)"

lemma listsD:
  assumes "lists N B E R bk"
  shows "i \<in> B \<union> E \<Longrightarrow> \<not> n_valid N (R i) \<Longrightarrow> n_fresh N (R i)"
    "h \<in> B \<Longrightarrow> n_valid N (R h) \<Longrightarrow> nlk N R 0 (h # bk h) 0" "h \<in> B \<Longrightarrow> \<not> n_valid N (R h) \<Longrightarrow> bk h = []"
    "h \<in> B \<Longrightarrow> distinct (bk h)" "h \<in> B \<Longrightarrow> set (bk h) \<subseteq> E"
    "h \<in> B \<Longrightarrow> g \<in> B \<Longrightarrow> h \<noteq> g \<Longrightarrow> set (bk h) \<inter> set (bk g) = {}"
    "i \<in> E \<Longrightarrow> n_valid N (R i) \<Longrightarrow> \<exists>h\<in>B. i \<in> set (bk h)"
    "i \<in> E \<Longrightarrow> n_valid N (R i) \<Longrightarrow> \<not> n_dead N (R i)"
    "h \<in> B \<Longrightarrow> n_valid N (R h) \<Longrightarrow> n_dead N (R h) \<Longrightarrow> bk h \<noteq> []"
    "h \<in> B \<Longrightarrow> i \<in> set (h # bk h) \<Longrightarrow> n_valid N (R i) \<Longrightarrow> \<not> n_dead N (R i) \<Longrightarrow> n_hash N (R i) = h"
  using assms unfolding lists_def by auto

text \<open>Two records with the same links and the same state.\<close>

definition same_node :: "'e node_view \<Rightarrow> 'e \<Rightarrow> 'e \<Rightarrow> bool" where
  "same_node N e e' \<longleftrightarrow> n_valid N e' = n_valid N e \<and> n_pv N e' = n_pv N e \<and> n_nx N e' = n_nx N e"

lemma nlk_frame:
  assumes "\<forall>a\<in>set as. same_node N (R a) (R' a)"
  shows "nlk N R' p as z = nlk N R p as z"
  using assms by (intro lk_cong) (auto simp: same_node_def)

text \<open>
  Changing the list of one slot: the records of the other lists keep their links, what concerns
  the slot itself is to be shown.
\<close>

lemma lists_change:
  assumes ok: "lists N B E R bk" and BE: "B \<inter> E = {}" and h: "h \<in> B"
    and frame: "\<And>i. i \<in> B \<union> E \<Longrightarrow> i \<notin> {h} \<union> set (bk h) \<union> set as \<Longrightarrow> R' i = R i"
    and as: "distinct as" "set as \<subseteq> E" "\<And>i. i \<in> set as \<Longrightarrow> i \<in> set (bk h) \<or> \<not> n_valid N (R i)"
    and lk: "if n_valid N (R' h) then nlk N R' 0 (h # as) 0 else as = []"
    and gone: "\<And>i. i \<in> {h} \<union> set (bk h) \<union> set as \<Longrightarrow> \<not> n_valid N (R' i) \<Longrightarrow> n_fresh N (R' i)"
    and out: "\<And>i. i \<in> set (bk h) \<Longrightarrow> i \<notin> set as \<Longrightarrow> \<not> n_valid N (R' i)"
    and live: "\<And>i. i \<in> set as \<Longrightarrow> \<not> n_dead N (R' i)"
    and dead: "n_valid N (R' h) \<Longrightarrow> n_dead N (R' h) \<Longrightarrow> as \<noteq> []"
    and hash: "\<And>i. i \<in> set (h # as) \<Longrightarrow> n_valid N (R' i) \<Longrightarrow> \<not> n_dead N (R' i) \<Longrightarrow> n_hash N (R' i) = h"
  shows "lists N B E R' (bk(h := as))"
proof -
  note D = listsD [OF ok]
  have others: "i \<notin> {h} \<union> set (bk h) \<union> set as" if "g \<in> B" "g \<noteq> h" "i \<in> set (g # bk g)" for g i
  proof -
    have "n_valid N (R i)" if "i \<in> set (bk g)"
    proof -
      have "n_valid N (R g)" using D(3) [OF \<open>g \<in> B\<close>] that by (cases "n_valid N (R g)") auto
      then show ?thesis using lk_valid [OF D(2) [OF \<open>g \<in> B\<close>]] that by auto
    qed
    then show ?thesis
      using that D(5) [OF \<open>g \<in> B\<close>] D(5) [OF h] D(6) [OF \<open>g \<in> B\<close> h] as(2) as(3) [of i] BE h by auto
  qed
  have keep: "R' i = R i" if "g \<in> B" "g \<noteq> h" "i \<in> set (g # bk g)" for g i
    using others [OF that] that D(5) [OF \<open>g \<in> B\<close>] by (intro frame) auto
  have lk_g: "nlk N R' 0 (g # bk g) 0 = nlk N R 0 (g # bk g) 0" if "g \<in> B" "g \<noteq> h" for g
    using keep [OF that] by (intro nlk_frame) (auto simp: same_node_def)
  show ?thesis
    unfolding lists_def
  proof (intro conjI ballI impI, goal_cases)
    case (1 i)
    then show ?case using gone D(1) [of i] frame [of i] by (cases "i \<in> {h} \<union> set (bk h) \<union> set as") auto
  next
    case (2 g)
    then show ?case using lk lk_g [of g] keep [of g g] D(2,3) [of g] by (cases "g = h") auto
  next
    case (3 g)
    then show ?case using as D(4) [of g] by simp
  next
    case (4 g)
    then show ?case using as D(5) [of g] by simp
  next
    case (5 g f)
    have "set (bk k) \<inter> set as = {}" if "k \<in> B" "k \<noteq> h" for k using others [OF that] by auto
    then show ?case using 5 D(6) [of g f] by (auto split: if_splits)
  next
    case (6 i)
    show ?case
    proof (cases "i \<in> {h} \<union> set (bk h) \<union> set as")
      case True
      then show ?thesis using 6 out [of i] BE h by auto
    next
      case False
      then obtain g where "g \<in> B" "i \<in> set (bk g)" using 6 frame [of i] D(7) [of i] by auto
      then show ?thesis using False by (intro bexI [of _ g]) auto
    qed
  next
    case (7 i)
    then show ?case using live [of i] out [of i] frame [of i] D(8) [of i] BE h by (cases "i \<in> {h} \<union> set (bk h) \<union> set as") auto
  next
    case (8 g)
    then show ?case using dead keep [of g g] D(9) [of g] by (cases "g = h") auto
  next
    case (9 g i)
    then show ?case using hash [of i] keep [of g i] D(10) [of g i] by (cases "g = h") auto
  qed
qed

text \<open>A record that a new rule has just been put into, with the given links.\<close>

definition new_node :: "'e node_view \<Rightarrow> u16 \<Rightarrow> u16 \<Rightarrow> u16 \<Rightarrow> 'e \<Rightarrow> bool" where
  "new_node N p n h e \<longleftrightarrow> n_valid N e \<and> n_pv N e = p \<and> n_nx N e = n \<and> \<not> n_dead N e \<and> n_hash N e = h"

lemma lists_add_head:
  assumes ok: "lists N B E R bk" and BE: "B \<inter> E = {}" and h: "h \<in> B" and free: "\<not> n_valid N (R h)"
    and e: "new_node N 0 0 h e"
  shows "lists N B E (R(h := e)) bk"
proof -
  have "bk h = []" using listsD(3) [OF ok h free] .
  then have "lists N B E (R(h := e)) (bk(h := []))"
    using e h by (intro lists_change [OF ok BE h]) (auto simp: new_node_def)
  then show ?thesis using \<open>bk h = []\<close> by (simp add: fun_upd_idem)
qed

lemma lists_fresh:
  assumes ok: "lists N B E R bk" and i: "\<not> n_valid N (R i)" and e: "n_fresh N e" "\<not> n_valid N e"
  shows "lists N B E (R(i := e)) bk"
proof -
  have lk: "nlk N (R(i := e)) 0 (h # bk h) 0 = nlk N R 0 (h # bk h) 0" if "h \<in> B" "n_valid N (R h)" for h
    using lk_valid [OF listsD(2) [OF ok that]] i by (intro nlk_frame) (auto simp: same_node_def)
  show ?thesis using ok i e lk unfolding lists_def by (auto split: if_splits)
qed

lemma nlk_add_tail:
  assumes chain: "nlk N R 0 (h # bs) 0" and dist: "distinct (h # bs)" "i \<notin> set (h # bs)" and l: "l = last (h # bs)"
    and e: "new_node N l 0 h e" and x: "n_valid N x" "n_pv N x = n_pv N (R l)" "n_nx N x = i"
  shows "nlk N (R(i := e, l := x)) 0 (h # bs @ [i]) 0"
proof -
  let ?R = "R(i := e, l := x)"
  have l_in: "l \<in> set (h # bs)" unfolding l by (rule last_in_set) simp
  have li: "l \<noteq> i" using l_in dist by blast
  have old: "?R a = (if a = l then x else R a)" if "a \<in> set (h # bs)" for a using that dist by auto
  have vp: "n_valid N (?R a) = n_valid N (R a) \<and> n_pv N (?R a) = n_pv N (R a)" if "a \<in> set (h # bs)" for a
    unfolding old [OF that] using x(1,2) lk_valid [OF chain l_in] by simp
  have nx: "n_nx N (?R a) = (if a = last (h # bs) then i else n_nx N (R a))" if "a \<in> set (h # bs)" for a
    unfolding old [OF that] l [symmetric] using x(3) by simp
  have "nlk N ?R 0 (h # bs) i" using vp nx by (intro lk_set_last [OF chain _ dist(1)] ballI) blast+
  moreover have "nlk N ?R l [i] 0" using e li by (simp add: new_node_def)
  ultimately show ?thesis
    using lk_append [of "n_valid N" "n_pv N" "n_nx N" ?R 0 "h # bs" "[i]" 0] l by simp
qed

lemma lists_add_tail:
  assumes ok: "lists N B E R bk" and BE: "B \<inter> E = {}" and h: "h \<in> B" and used: "n_valid N (R h)"
    and i: "i \<in> E" "\<not> n_valid N (R i)" and l: "l = last (h # bk h)" and e: "new_node N l 0 h e"
    and x: "n_valid N x" "n_pv N x = n_pv N (R l)" "n_nx N x = i" "n_dead N x = n_dead N (R l)" "n_hash N x = n_hash N (R l)"
  shows "lists N B E (R(i := e, l := x)) (bk(h := bk h @ [i]))"
proof -
  note D = listsD [OF ok]
  let ?R = "R(i := e, l := x)"
  note chain = D(2) [OF h used]
  have notin: "i \<notin> set (h # bk h)" using lk_valid [OF chain] i(2) by blast
  have l_in: "l \<in> set (h # bk h)" unfolding l by (rule last_in_set) simp
  have li: "l \<noteq> i" using l_in notin by blast
  have dist: "distinct (h # bk h)" using D(4,5) [OF h] BE h by auto
  have lk: "nlk N ?R 0 (h # (bk h @ [i])) 0" using nlk_add_tail [OF chain dist notin l e x(1-3)] by simp
  have valid: "n_valid N (?R a)" if "a \<in> set (h # bk h @ [i])" for a
    using that e x lk_valid [OF chain, of a] by (auto simp: new_node_def)
  show ?thesis
  proof (rule lists_change [OF ok BE h], goal_cases)
    case (1 a)
    then show ?case using l_in by auto
  next
    case 2
    show ?case using dist notin by auto
  next
    case 3
    show ?case using D(5) [OF h] i by auto
  next
    case (4 a)
    then show ?case using i by auto
  next
    case 5
    show ?case using lk valid by simp
  next
    case (6 a)
    then show ?case using valid by auto
  next
    case (7 a)
    then show ?case by simp
  next
    case (8 a)
    then have "a = i \<or> a \<in> set (bk h)" by auto
    then show ?case
    proof
      assume a: "a \<in> set (bk h)"
      then have "\<not> n_dead N (R a)" using D(8) [of a] D(5) [OF h] lk_valid [OF chain, of a] by auto
      then show ?case using a x notin by auto
    qed (use e li in \<open>simp add: new_node_def\<close>)
  next
    case 9
    show ?case by simp
  next
    case (10 a)
    show ?case
    proof (cases "a = i")
      case True
      then show ?thesis using e li by (simp add: new_node_def)
    next
      case False
      then have a: "a \<in> set (h # bk h)" using 10(1) by auto
      then have "n_valid N (R a)" using lk_valid [OF chain] by blast
      then show ?thesis using D(10) [OF h a] 10(3) x False by (cases "a = l") auto
    qed
  qed
qed

lemma lists_delete_single:
  assumes ok: "lists N B E R bk" and BE: "B \<inter> E = {}" and h: "h \<in> B" "bk h = []"
    and e: "n_fresh N e" "\<not> n_valid N e"
  shows "lists N B E (R(h := e)) bk"
proof -
  have "lists N B E (R(h := e)) (bk(h := []))"
    using e h by (intro lists_change [OF ok BE h(1)]) auto
  then show ?thesis using h by (simp add: fun_upd_idem)
qed

lemma lists_kill_head:
  assumes ok: "lists N B E R bk" and BE: "B \<inter> E = {}" and h: "h \<in> B" "n_valid N (R h)" "bk h \<noteq> []"
    and e: "same_node N (R h) e" "n_dead N e"
  shows "lists N B E (R(h := e)) bk"
proof -
  note D = listsD [OF ok]
  have hb: "h \<notin> set (bk h)" using D(5) [OF h(1)] BE h by auto
  have lk: "nlk N (R(h := e)) 0 (h # bk h) 0"
    using D(2) [OF h(1,2)] e hb nlk_frame [of "h # bk h" N R "R(h := e)" 0 0] by (auto simp: same_node_def)
  have "lists N B E (R(h := e)) (bk(h := bk h))"
  proof (rule lists_change [OF ok BE h(1)], goal_cases)
    case 5
    then show ?case using lk e h by (simp add: same_node_def)
  next
    case (6 i)
    then show ?case using lk_valid [OF lk, of i] by auto
  next
    case (8 i)
    then show ?case using D(8) [of i] D(5) [OF h(1)] lk_valid [OF D(2) [OF h(1,2)], of i] hb by auto
  next
    case (10 i)
    then show ?case using D(10) [OF h(1), of i] e by (auto split: if_splits)
  qed (use D(4,5) [OF h(1)] h in auto)
  then show ?thesis by simp
qed

lemma nlk_delete_tail:
  assumes parts: "nlk N R 0 (h # as) i" "nlk N R i bs 0" and dist: "distinct (h # as @ i # bs)" and l: "l = last (h # as)"
    and pred: "n_valid N (R' l)" "n_pv N (R' l) = n_pv N (R l)" "n_nx N (R' l) = (if bs = [] then 0 else hd bs)"
    and succ: "bs \<noteq> [] \<Longrightarrow> n_valid N (R' (hd bs)) \<and> n_pv N (R' (hd bs)) = l \<and> n_nx N (R' (hd bs)) = n_nx N (R (hd bs))"
    and frame: "\<And>a. a \<noteq> i \<Longrightarrow> a \<noteq> l \<Longrightarrow> (bs \<noteq> [] \<Longrightarrow> a \<noteq> hd bs) \<Longrightarrow> R' a = R a"
  shows "nlk N R' 0 (h # (as @ bs)) 0"
proof -
  have l_in: "l \<in> set (h # as)" unfolding l by (rule last_in_set) simp
  have "nlk N R' 0 (h # as) (if bs = [] then 0 else hd bs)"
  proof (rule lk_set_last [OF parts(1)])
    have keep: "R' a = R a" if "a \<in> set (h # as)" "a \<noteq> l" for a
      using that dist hd_in_set [of bs] by (intro frame) auto
    show "\<forall>a\<in>set (h # as). n_valid N (R' a) = n_valid N (R a) \<and> n_pv N (R' a) = n_pv N (R a)"
    proof
      fix a assume "a \<in> set (h # as)"
      then show "n_valid N (R' a) = n_valid N (R a) \<and> n_pv N (R' a) = n_pv N (R a)"
        using pred(1,2) lk_valid [OF parts(1) l_in] keep [of a] by (cases "a = l") simp_all
    qed
    show "\<forall>a\<in>set (h # as). n_nx N (R' a) = (if a = last (h # as) then if bs = [] then 0 else hd bs else n_nx N (R a))"
      unfolding l [symmetric]
    proof
      fix a assume "a \<in> set (h # as)"
      then show "n_nx N (R' a) = (if a = l then if bs = [] then 0 else hd bs else n_nx N (R a))"
        using pred(3) keep [of a] by (cases "a = l") simp_all
    qed
  qed (use dist in auto)
  moreover have "nlk N R' l bs 0"
  proof (cases bs)
    case (Cons b cs)
    have keep: "R' a = R a" if "a \<in> set cs" for a
      using that dist l_in Cons by (intro frame) auto
    have b: "n_valid N (R' b) = n_valid N (R b)" "n_nx N (R' b) = n_nx N (R b)" "n_pv N (R' b) = l"
      using succ Cons lk_valid [OF parts(2), of b] by simp_all
    have bcs: "b \<notin> set cs" using dist Cons by simp
    show ?thesis
      unfolding Cons by (rule lk_set_first [OF parts(2) [unfolded Cons] bcs]) (use keep b in \<open>simp_all\<close>)
  qed simp
  ultimately show ?thesis
    using lk_append [of "n_valid N" "n_pv N" "n_nx N" R' 0 "h # as" bs 0] l by auto
qed

lemma lists_delete_tail:
  assumes ok: "lists N B E R bk" and BE: "B \<inter> E = {}" and h: "h \<in> B" "n_valid N (R h)"
    and bk: "bk h = as @ i # bs" and l: "l = last (h # as)"
    and gone: "n_fresh N (R' i)" "\<not> n_valid N (R' i)"
    and pred: "n_valid N (R' l)" "n_pv N (R' l) = n_pv N (R l)" "n_nx N (R' l) = (if bs = [] then 0 else hd bs)"
      "n_dead N (R' l) = n_dead N (R l)" "n_hash N (R' l) = n_hash N (R l)"
    and succ: "bs \<noteq> [] \<Longrightarrow> n_valid N (R' (hd bs)) \<and> n_pv N (R' (hd bs)) = l \<and> n_nx N (R' (hd bs)) = n_nx N (R (hd bs)) \<and>
      n_dead N (R' (hd bs)) = n_dead N (R (hd bs)) \<and> n_hash N (R' (hd bs)) = n_hash N (R (hd bs))"
    and frame: "\<And>a. a \<noteq> i \<Longrightarrow> a \<noteq> l \<Longrightarrow> (bs \<noteq> [] \<Longrightarrow> a \<noteq> hd bs) \<Longrightarrow> R' a = R a"
    and dead: "\<not> (as = [] \<and> bs = [] \<and> n_dead N (R h))"
  shows "lists N B E R' (bk(h := as @ bs))"
proof -
  note D = listsD [OF ok]
  note chain = D(2) [OF h]
  have dist: "distinct (h # as @ i # bs)" using D(4,5) [OF h(1)] BE h bk by auto
  have sub: "set (h # as @ bs) \<subseteq> set (h # bk h)" using bk by auto
  have l_in: "l \<in> set (h # as)" unfolding l by (rule last_in_set) simp
  have same: "n_valid N (R' a) = n_valid N (R a) \<and> n_dead N (R' a) = n_dead N (R a) \<and> n_hash N (R' a) = n_hash N (R a)"
    if "a \<in> set (h # as @ bs)" for a
  proof -
    have v: "n_valid N (R a)" using lk_valid [OF chain, of a] that sub by blast
    have "a \<noteq> i" using that dist by auto
    then show ?thesis using frame [of a] pred succ v by (cases "a = l"; cases "bs \<noteq> [] \<and> a = hd bs") auto
  qed
  have parts: "nlk N R 0 (h # as) i" "nlk N R i bs 0"
    using chain lk_append [of "n_valid N" "n_pv N" "n_nx N" R 0 "h # as" "i # bs" 0] bk by auto
  have lk: "nlk N R' 0 (h # (as @ bs)) 0"
    using succ by (intro nlk_delete_tail [OF parts dist l pred(1-3) _ frame]) auto
  show ?thesis
  proof (rule lists_change [OF ok BE h(1)], goal_cases)
    case (1 a)
    then show ?case using bk l_in hd_in_set [of bs] by (intro frame) auto
  next
    case 5
    then show ?case using lk same [of h] h by simp
  next
    case (6 a)
    show ?case
    proof (cases "a = i")
      case False
      then have "a \<in> set (h # as @ bs)" using 6 bk by auto
      then show ?thesis using 6 lk_valid [OF lk, of a] by simp
    qed (use gone in simp)
  next
    case (8 a)
    then show ?case using same [of a] D(8) [of a] D(5) [OF h(1)] lk_valid [OF chain, of a] bk by auto
  next
    case 9
    then show ?case using dead same [of h] D(9) [OF h] by auto
  next
    case (10 a)
    then show ?case using same [of a] D(10) [OF h(1), of a] bk by auto
  qed (use D(4,5) [OF h(1)] bk gone in auto)
qed

lemma lists_delete_dead:
  assumes ok: "lists N B E R bk" and BE: "B \<inter> E = {}" and h: "h \<in> B" and bk: "bk h = [i]"
    and frame: "\<And>a. a \<noteq> i \<Longrightarrow> a \<noteq> h \<Longrightarrow> R' a = R a"
    and e: "n_fresh N (R' i)" "\<not> n_valid N (R' i)" "n_fresh N (R' h)" "\<not> n_valid N (R' h)"
  shows "lists N B E R' (bk(h := []))"
  using e bk by (intro lists_change [OF ok BE h]) (auto intro: frame)

section \<open>The table\<close>

text \<open>The records of a set of slots that are in use.\<close>

definition used :: "'e node_view \<Rightarrow> ('e, 'm, 'u) ipa_table \<Rightarrow> u16 set \<Rightarrow> u16 set" where
  "used N t S = {i \<in> S. n_valid N (rec_at t i)}"

definition table_ok :: "'e node_view \<Rightarrow> ('e, 'm, 'u) ipa_table \<Rightarrow> (u16 \<Rightarrow> u16 list) \<Rightarrow> bool" where
  "table_ok N t bk \<longleftrightarrow> sizes_ok t \<and> length (recs t) = unat (tot_tbl_ents t) \<and> meta t = None \<and>
     lists N (base_slots t) (expn_slots t) (rec_at t) bk \<and>
     unat (cur_tbl_cnt t) = card (used N t (base_slots t)) \<and>
     unat (cur_expn_tbl_cnt t) = card (used N t (expn_slots t)) \<and> \<not> n_valid N (rec_at t 0)"

lemma table_okD:
  assumes "table_ok N t bk"
  shows "sizes_ok t" "length (recs t) = unat (tot_tbl_ents t)" "meta t = None"
    "lists N (base_slots t) (expn_slots t) (rec_at t) bk"
    "unat (cur_tbl_cnt t) = card (used N t (base_slots t))" "unat (cur_expn_tbl_cnt t) = card (used N t (expn_slots t))"
    "\<not> n_valid N (rec_at t 0)"
  using assms by (auto simp: table_ok_def)

lemma slots_disjoint: "base_slots t \<inter> expn_slots t = {}"
  by (auto simp: base_slots_def expn_slots_def)

lemma slot_less:
  assumes "sizes_ok t" "i \<in> base_slots t \<union> expn_slots t"
  shows "unat i < unat (tot_tbl_ents t)" "i \<noteq> 0"
  using assms sizes_okD(1,5) [OF assms(1)]
  by (auto simp: base_slots_def expn_slots_def word_less_nat_alt word_le_nat_alt)

lemma slot_cases:
  assumes "sizes_ok t" "unat i < unat (tot_tbl_ents t)" "i \<noteq> 0"
  shows "i \<in> base_slots t \<or> i \<in> expn_slots t"
  using assms by (auto simp: base_slots_def expn_slots_def word_less_nat_alt word_le_nat_alt)

lemma card_slots:
  assumes "sizes_ok t" "S \<subseteq> base_slots t \<union> expn_slots t"
  shows "card S \<le> 5120"
proof -
  have "unat ` S \<subseteq> {..<5120}"
    using slot_less(1) [OF assms(1)] sizes_okD(6) [OF assms(1)] assms(2) by fastforce
  then have "card (unat ` S) \<le> card {..<5120 :: nat}" by (intro card_mono) simp_all
  moreover have "inj_on unat S" by (rule inj_onI) (simp add: word_unat_eq_iff)
  ultimately show ?thesis by (simp add: card_image)
qed

text \<open>The search for a free slot of the expansion table.\<close>

lemma walk_loop_mt_slot:
  assumes "0 < i" "unat (table_entries t) + unat (expn_table_entries t) < 2 ^ 16"
  shows "fst (walk_loop t WHEN_SLOT_EMPTY mt_slot () i) =
    (case find (\<lambda>j. \<not> entry_is_valid (entry_interface t) (rec_at t (of_nat j)))
            [i..<unat (table_entries t) + unat (expn_table_entries t)] of
       None \<Rightarrow> 0 | Some j \<Rightarrow> int j)"
  using assms(1)
proof (induction "unat (table_entries t) + unat (expn_table_entries t) - i" arbitrary: i)
  case 0
  then show ?case by (subst walk_loop.simps) simp
next
  case (Suc d)
  let ?n = "unat (table_entries t) + unat (expn_table_entries t)"
  have i: "i < ?n" "[i..<?n] = i # [Suc i..<?n]" using Suc.hyps(2) by (auto simp: upt_conv_Cons)
  have "uint (of_nat i :: u16) = int i"
    using i(1) assms(2) by (simp add: unsigned_of_nat take_bit_nat_eq_self)
  then show ?case
    using i Suc.hyps(1) [of "Suc i"] Suc.hyps(2) Suc.prems
    by (subst walk_loop.simps) (simp add: Let_def mt_slot_def)
qed

lemma FindExpnTblFreeEntry_spec:
  assumes ok: "sizes_ok t"
  shows "case FindExpnTblFreeEntry t of
      Inl err \<Rightarrow> err = EFAIL \<and> (\<forall>i\<in>expn_slots t. entry_is_valid (entry_interface t) (rec_at t i))
    | Inr i \<Rightarrow> i \<in> expn_slots t \<and> \<not> entry_is_valid (entry_interface t) (rec_at t i)"
proof -
  note sizes = sizes_okD [OF ok]
  let ?n = "unat (table_entries t) + unat (expn_table_entries t)"
  let ?P = "\<lambda>j. \<not> entry_is_valid (entry_interface t) (rec_at t (of_nat j))"
  have "fst (walk_loop t WHEN_SLOT_EMPTY mt_slot () (unat (table_entries t))) =
      (case find ?P [unat (table_entries t)..<?n] of None \<Rightarrow> 0 | Some j \<Rightarrow> int j)"
    using sizes by (intro walk_loop_mt_slot) simp_all
  then have find: "FindExpnTblFreeEntry t = (case find ?P [unat (table_entries t)..<?n] of
      None \<Rightarrow> Inl EFAIL | Some j \<Rightarrow> if 0 < j then Inr (of_nat j) else Inl EFAIL)"
    using sizes by (simp add: FindExpnTblFreeEntry_def ipa_table_walk_def Let_def split: option.splits)
  show ?thesis
  proof (cases "find ?P [unat (table_entries t)..<?n]")
    case None
    then have "entry_is_valid (entry_interface t) (rec_at t i)" if "i \<in> expn_slots t" for i
      using that sizes by (auto simp: find_None_iff expn_slots_def word_le_nat_alt dest!: spec [of _ "unat i"])
    then show ?thesis using find None by simp
  next
    case (Some j)
    then have j: "unat (table_entries t) \<le> j" "j < ?n" "?P j" by (auto simp: find_Some_iff)
    then have "unat (of_nat j :: u16) = j" using sizes by (simp add: unsigned_of_nat take_bit_nat_eq_self)
    then show ?thesis using find Some j sizes by (simp add: expn_slots_def word_le_nat_alt)
  qed
qed

text \<open>The loop to the end of a list ends.\<close>

lemma end_loop_last:
  assumes "lk (entry_is_valid (entry_interface t)) pv (entry_get_next_index (entry_interface t)) (rec_at t) p (a # as) 0"
    "distinct (a # as)" "0 \<notin> set as"
  shows "end_loop t a = Some (Inr (last (a # as)))"
  using assms
proof (induction as arbitrary: a p)
  case Nil
  then show ?case by (subst end_loop.simps) (simp add: ipa_table_consts)
next
  case (Cons b as)
  then show ?case by (subst end_loop.simps) (auto simp: ipa_table_consts Let_def)
qed

lemma used_add:
  assumes "i \<in> S" "\<not> n_valid N (rec_at t i)" "n_valid N (rec_at t' i)"
    "\<And>j. j \<noteq> i \<Longrightarrow> n_valid N (rec_at t' j) = n_valid N (rec_at t j)"
  shows "card (used N t' S) = Suc (card (used N t S))"
proof -
  have "n_valid N (rec_at t' j) \<longleftrightarrow> j = i \<or> n_valid N (rec_at t j)" for j
    using assms(3) assms(4) [of j] by (cases "j = i") simp_all
  then have "used N t' S = insert i (used N t S)" using assms(1) by (auto simp: used_def)
  then show ?thesis using assms(2) by (simp add: used_def)
qed

lemma used_remove:
  assumes "i \<in> S" "n_valid N (rec_at t i)" "\<not> n_valid N (rec_at t' i)"
    "\<And>j. j \<noteq> i \<Longrightarrow> n_valid N (rec_at t' j) = n_valid N (rec_at t j)"
  shows "Suc (card (used N t' S)) = card (used N t S)"
  using used_add [of i S N t' t] assms by auto

lemma used_same:
  assumes "\<And>j. j \<in> S \<Longrightarrow> n_valid N (rec_at t' j) = n_valid N (rec_at t j)"
  shows "used N t' S = used N t S"
  using assms by (auto simp: used_def)

text \<open>The parts of a table that adding and deleting leave alone.\<close>

definition same_setup :: "('e, 'm, 'u) ipa_table \<Rightarrow> ('e, 'm, 'u) ipa_table \<Rightarrow> bool" where
  "same_setup t t' \<longleftrightarrow> table_entries t' = table_entries t \<and> expn_table_entries t' = expn_table_entries t \<and>
     tot_tbl_ents t' = tot_tbl_ents t \<and> entry_size t' = entry_size t \<and> table_addr t' = table_addr t \<and>
     expn_table_addr t' = expn_table_addr t \<and> zero_rec t' = zero_rec t \<and> entry_interface t' = entry_interface t \<and>
     dma_help t' = dma_help t \<and> nmi t' = nmi t \<and> length (recs t') = length (recs t) \<and> meta t' = meta t"

lemma same_setup_slots:
  assumes "same_setup t t'"
  shows "base_slots t' = base_slots t" "expn_slots t' = expn_slots t" "sizes_ok t' = sizes_ok t" "cmd_one t' = cmd_one t"
    "MakeEntryHdl t' = MakeEntryHdl t"
  using assms by (auto simp: same_setup_def base_slots_def expn_slots_def sizes_ok_def MakeEntryHdl_def fun_eq_iff intro!: cmd_one_cong [THEN fun_cong, THEN fun_cong, THEN fun_cong])

lemma same_setup_refl [simp]: "same_setup t t"
  by (simp add: same_setup_def)

lemma same_setup_set_rec [simp]:
  "same_setup t (set_rec i e t')  = same_setup t t'"
  "same_setup t (t'\<lparr>cur_tbl_cnt := n\<rparr>) = same_setup t t'" "same_setup t (t'\<lparr>cur_expn_tbl_cnt := n\<rparr>) = same_setup t t'"
  by (simp_all add: same_setup_def)

lemma rec_at_counts [simp]:
  "rec_at (t\<lparr>cur_tbl_cnt := n\<rparr>) = rec_at t" "rec_at (t\<lparr>cur_expn_tbl_cnt := n\<rparr>) = rec_at t"
  "recs (t\<lparr>cur_tbl_cnt := n\<rparr>) = recs t" "recs (t\<lparr>cur_expn_tbl_cnt := n\<rparr>) = recs t"
  by (simp_all add: rec_at_def fun_eq_iff)

lemma table_okI:
  assumes ok: "table_ok N t bk" and st: "same_setup t t'"
    and lists: "lists N (base_slots t) (expn_slots t) (rec_at t') bk'"
    and cnt: "unat (cur_tbl_cnt t') = card (used N t' (base_slots t))"
      "unat (cur_expn_tbl_cnt t') = card (used N t' (expn_slots t))"
    and unused: "\<not> n_valid N (rec_at t' 0)"
  shows "table_ok N t' bk'"
  using assms same_setup_slots [OF st] unfolding table_ok_def same_setup_def by auto

lemma meta_idem: "meta t = None \<Longrightarrow> t\<lparr>meta := None\<rparr> = t"
  by (cases t) simp

lemma unat_pred: "unat (c :: u16) = n \<Longrightarrow> Suc k = n \<Longrightarrow> unat (c - 1) = k"
  using unat_minus_one [of c] by (cases "c = 0") auto

text \<open>What the rules of a table are: the record of an index, unless it is free or a deleted head.\<close>

definition content :: "'e node_view \<Rightarrow> ('e \<Rightarrow> 'k) \<Rightarrow> ('e, 'm, 'u) ipa_table \<Rightarrow> u16 \<rightharpoonup> 'k" where
  "content N key t i = (let e = rec_at t i in
     if unat i < unat (tot_tbl_ents t) \<and> n_valid N e \<and> \<not> n_dead N e then Some (key e) else None)"

text \<open>
  Deleting a record as the clients do it: the command goes out first, and unless the record is
  the head of a longer list it is then erased, together with a deleted head that has nothing left
  to lead to.
\<close>

definition delete_with :: "(ipa_ioc_nat_dma_one \<Rightarrow> 'e list \<Rightarrow> 'e list) \<Rightarrow> 'e node_view \<Rightarrow>
  ('e, 'm, 'u) ipa_table \<Rightarrow> ipa_table_iterator \<Rightarrow> ('e, 'm, 'u) ipa_table" where
  "delete_with dma N t it =
     (let t' = post_cmd dma (ipa_table_create_delete_command t [] it) t
      in if ipa_table_iterator_is_head_with_tail it then t'
         else ipa_table_delete_entry t' it
           (case prev_entry it of None \<Rightarrow> False | Some r \<Rightarrow> n_dead N (rec_at t' r)))"

definition deleted :: "(ipa_ioc_nat_dma_one \<Rightarrow> 'e list \<Rightarrow> 'e list) \<Rightarrow> 'e node_view \<Rightarrow> ('e \<Rightarrow> 'k) \<Rightarrow>
  ('e, 'm, 'u) ipa_table \<Rightarrow> u16 \<Rightarrow> ipa_table_iterator \<Rightarrow> (u16 \<Rightarrow> u16 list) \<Rightarrow> bool" where
  "deleted dma N key t i it bk' \<longleftrightarrow> ipa_table_iterator_init t i = Inr it \<and> length (ipa_table_create_delete_command t [] it) = 1 \<and>
     same_setup t (delete_with dma N t it) \<and> table_ok N (delete_with dma N t it) bk' \<and>
     content N key (delete_with dma N t it) = (content N key t)(i := None)"

text \<open>An insertion fails when the inserter refuses the data, or when the slot is in use and the expansion
  table is full.\<close>

definition add_fails :: "'e node_view \<Rightarrow> ('u \<Rightarrow> bool) \<Rightarrow> ('e, 'm, 'u) ipa_table \<Rightarrow> 'u \<Rightarrow> u16 \<Rightarrow> bool" where
  "add_fails N accepts t u h \<longleftrightarrow> \<not> accepts u \<or> n_valid N (rec_at t h) \<and> (\<forall>i\<in>expn_slots t. n_valid N (rec_at t i))"

section \<open>Records under the contract\<close>

text \<open>
  The contract between a table and its type of records: what the functions of the interface do to
  the links and the rule of a record, and that a DMA command changes one field of the record it
  names. \<open>prepared\<close> says that the table was set up for these records, \<open>accepts\<close> which data the
  inserter takes.
\<close>

locale ipa_records =
  fixes iface :: "('e, 'm, 'u) ipa_table_entry_interface" and zero :: 'e and N :: "'e node_view"
    and dma :: "ipa_ioc_nat_dma_one \<Rightarrow> 'e list \<Rightarrow> 'e list"
    and prepared :: "('e, 'm, 'u) ipa_table \<Rightarrow> bool"
    and set_field :: "dma_help_type \<Rightarrow> u16 \<Rightarrow> 'e \<Rightarrow> 'e"
    and accepts :: "'u \<Rightarrow> bool" and good :: "'u \<Rightarrow> bool"
    and key :: "'e \<Rightarrow> 'k" and rule :: "'u \<Rightarrow> 'k" and hash :: "'k \<Rightarrow> u16"
  assumes view: "n_valid N = entry_is_valid iface" "n_nx N = entry_get_next_index iface"
      "entry_get_prev_index iface e i None b = n_pv N e" "n_hash N e = hash (key e)"
    and prepared: "prepared t \<Longrightarrow> entry_interface t = iface \<and> zero_rec t = zero"
      "prepared t \<Longrightarrow> same_setup t t' \<Longrightarrow> prepared t'"
    and dma: "prepared t \<Longrightarrow> sizes_ok t \<Longrightarrow> length rs = unat (tot_tbl_ents t) \<Longrightarrow> unat i < unat (tot_tbl_ents t) \<Longrightarrow>
      dma (cmd_one t help_type i d) rs = rs[unat i := set_field help_type d (rs ! unat i)]"
    and zero: "n_fresh N zero"
    and fresh: "n_fresh N e \<Longrightarrow> \<not> n_valid N e \<and> n_nx N e = 0 \<and> n_pv N e = 0"
    and set_prev: "entry_set_prev_index iface e i p None b = (e', m) \<Longrightarrow> m = None \<and> n_valid N e' = n_valid N e \<and>
      n_nx N e' = n_nx N e \<and> n_pv N e' = p \<and> n_dead N e' = n_dead N e \<and> key e' = key e"
    and insert_fail: "n_fresh N e \<Longrightarrow> \<not> accepts u \<Longrightarrow>
      \<exists>err e'. entry_head_insert iface e u = (Inl err, e') \<and> n_fresh N e'"
    and insert_ok: "n_fresh N e \<Longrightarrow> accepts u \<Longrightarrow> \<exists>d e'. entry_head_insert iface e u = (Inr d, e') \<and>
      \<not> n_valid N e' \<and> n_nx N e' = 0 \<and> n_pv N e' = 0 \<and> (good u \<longrightarrow> \<not> n_dead N e') \<and> key e' = rule u \<and>
      (\<forall>x. n_valid N (set_field HELP_UPDATE_HEAD d x))"
    and set_head: "n_nx N (set_field HELP_UPDATE_HEAD d e) = n_nx N e" "n_pv N (set_field HELP_UPDATE_HEAD d e) = n_pv N e"
      "n_dead N (set_field HELP_UPDATE_HEAD d e) = n_dead N e" "key (set_field HELP_UPDATE_HEAD d e) = key e"
      "\<not> n_valid N (set_field HELP_UPDATE_HEAD 0 e)"
    and set_next: "n_nx N (set_field HELP_UPDATE_ENTRY d e) = d" "n_pv N (set_field HELP_UPDATE_ENTRY d e) = n_pv N e"
      "n_valid N (set_field HELP_UPDATE_ENTRY d e) = n_valid N e"
      "n_dead N (set_field HELP_UPDATE_ENTRY d e) = n_dead N e" "key (set_field HELP_UPDATE_ENTRY d e) = key e"
    and kill_head: "d = entry_get_delete_head_dma_command_data iface e x \<Longrightarrow>
      same_node N e (set_field HELP_DELETE_HEAD d e) \<and> n_dead N (set_field HELP_DELETE_HEAD d e)"
begin

lemma post_cmd_Cons:
  assumes "prepared t" "sizes_ok t" "length (recs t) = unat (tot_tbl_ents t)" "unat i < unat (tot_tbl_ents t)"
  shows "post_cmd dma (cmd_one t ht i d # cmd) t = post_cmd dma cmd (set_rec i (set_field ht d (rec_at t i)) t)"
  using dma [OF assms] by (simp add: post_cmd_def set_rec_def rec_at_def)

lemma post_cmd_Nil: "post_cmd dma [] t = t"
  by (simp add: post_cmd_def)

text \<open>A record that is not in use can be overwritten, and a record that was just added can be erased
  again.\<close>

lemma overwrite_free:
  assumes ok: "table_ok N t bk" and st: "same_setup t t'"
    and cnt: "cur_tbl_cnt t' = cur_tbl_cnt t" "cur_expn_tbl_cnt t' = cur_expn_tbl_cnt t"
    and i: "\<not> n_valid N (rec_at t i)" and R: "rec_at t' = (rec_at t)(i := e)" and e: "n_fresh N e"
  shows "table_ok N t' bk" "content N key t' = content N key t"
proof -
  note T = table_okD [OF ok]
  have l: "lists N (base_slots t) (expn_slots t) (rec_at t') bk"
    unfolding R using e fresh [OF e] by (intro lists_fresh [OF T(4) i]) auto
  have u: "used N t' S = used N t S" for S using i fresh [OF e] by (intro used_same) (auto simp: R)
  show "table_ok N t' bk" using cnt u T(5-7) fresh [OF e] by (intro table_okI [OF ok st l]) (simp_all add: R)
  show "content N key t' = content N key t"
    using st i fresh [OF e] by (auto simp: content_def R same_setup_def fun_eq_iff Let_def)
qed

lemma erase_new:
  assumes ok: "table_ok N t bk" and p: "prepared t" and st: "same_setup t t'"
    and i: "\<not> n_valid N (rec_at t i)" "unat i < unat (tot_tbl_ents t)" and R: "\<And>j. j \<noteq> i \<Longrightarrow> rec_at t' j = rec_at t j"
    and cnt: "cur_tbl_cnt t' = cur_tbl_cnt t + (if i < table_entries t then 1 else 0)"
      "cur_expn_tbl_cnt t' = cur_expn_tbl_cnt t + (if i < table_entries t then 0 else 1)"
  shows "table_ok N (ipa_table_erase_entry t' i) bk" "content N key (ipa_table_erase_entry t' i) = content N key t"
    "same_setup t (ipa_table_erase_entry t' i)"
proof -
  note T = table_okD [OF ok]
  let ?t = "ipa_table_erase_entry t' i"
  have te: "table_entries t' = table_entries t" "zero_rec t' = zero" "length (recs t') = length (recs t)"
    using st prepared(1) [OF p] by (auto simp: same_setup_def)
  have st': "same_setup t ?t" using st by (simp add: ipa_table_erase_entry_def Let_def)
  have R': "rec_at ?t = (rec_at t)(i := zero)"
    using R i(2) te T(2) by (auto simp: ipa_table_erase_entry_def Let_def fun_eq_iff rec_at_set_rec)
  have c: "cur_tbl_cnt ?t = cur_tbl_cnt t" "cur_expn_tbl_cnt ?t = cur_expn_tbl_cnt t"
    using cnt te by (simp_all add: ipa_table_erase_entry_def Let_def)
  show "table_ok N ?t bk" "content N key ?t = content N key t"
    by (rule overwrite_free [OF ok st' c i(1) R' zero])+
  show "same_setup t ?t" by (rule st')
qed

text \<open>Adding a rule to a free slot of the base table.\<close>

lemma add_head:
  assumes ok: "table_ok N t bk" and p: "prepared t" and h: "h \<in> base_slots t" "\<not> n_valid N (rec_at t h)"
    and u: "accepts u" "good u" "hash (rule u) = h"
  shows "\<exists>cmd t'. ipa_table_add_entry t u h [] = Some (Inr (h, ucast (MakeEntryHdl t h)), cmd, t') \<and> length cmd = 1 \<and>
    same_setup t t' \<and> table_ok N (post_cmd dma cmd t') bk \<and>
    content N key (post_cmd dma cmd t') = (content N key t)(h \<mapsto> rule u) \<and>
    table_ok N (ipa_table_erase_entry t' h) bk \<and> content N key (ipa_table_erase_entry t' h) = content N key t"
proof -
  note T = table_okD [OF ok]
  have i: "unat h < unat (tot_tbl_ents t)" "h \<noteq> 0" using slot_less [OF T(1), of h] h by auto
  have iface: "entry_interface t = iface" "zero_rec t = zero" using prepared(1) [OF p] by auto
  have "n_fresh N (rec_at t h)" using listsD(1) [OF T(4), of h] h by auto
  from insert_ok [OF this u(1)] u(2) obtain d e where
    ins: "entry_head_insert iface (rec_at t h) u = (Inr d, e)"
    and e: "\<not> n_valid N e" "n_nx N e = 0" "n_pv N e = 0" "\<not> n_dead N e" "key e = rule u"
    and d: "\<And>x. n_valid N (set_field HELP_UPDATE_HEAD d x)" by auto
  let ?t1 = "set_rec h e t"
  let ?t2 = "?t1\<lparr>cur_tbl_cnt := cur_tbl_cnt t + 1\<rparr>"
  let ?e = "set_field HELP_UPDATE_HEAD d e"
  have len: "unat h < length (recs t)" using i T(2) by simp
  have st: "same_setup t ?t2" "same_setup t ?t1" by simp_all
  have cmd: "ipa_table_add_dma_cmd ?t1 HELP_UPDATE_HEAD (Some h) h d [] = (Inr (), [cmd_one t HELP_UPDATE_HEAD h d])"
    using add_dma_cmd_one [of ?t1 h HELP_UPDATE_HEAD d "[]"] same_setup_slots [OF st(2)] T(1) i by simp
  have add: "ipa_table_add_entry t u h [] =
      Some (Inr (h, ucast (MakeEntryHdl t h)), [cmd_one t HELP_UPDATE_HEAD h d], ?t2)"
    using h(2) ins cmd same_setup_slots(5) [OF st(1)] view(1)
    by (simp add: ipa_table_add_entry_def InsertHead_def iface Let_def)
  define t3 where "t3 = set_rec h ?e ?t2"
  have post: "post_cmd dma [cmd_one t HELP_UPDATE_HEAD h d] ?t2 = t3"
    using post_cmd_Cons [of ?t2 h HELP_UPDATE_HEAD d "[]"] prepared(2) [OF p st(1)] same_setup_slots [OF st(1)] T(1,2) i len
    by (simp add: post_cmd_Nil t3_def rec_at_set_rec)
  have R3: "rec_at t3 = (rec_at t)(h := ?e)" using len by (auto simp: t3_def fun_eq_iff rec_at_set_rec)
  have st3: "same_setup t t3" by (simp add: t3_def)
  have "new_node N 0 0 h ?e" using e d u(3) by (simp add: new_node_def set_head view(4))
  then have l3: "lists N (base_slots t) (expn_slots t) (rec_at t3) bk"
    unfolding R3 by (rule lists_add_head [OF T(4) slots_disjoint h])
  have base: "card (used N t3 (base_slots t)) = Suc (card (used N t (base_slots t)))"
    using h d by (intro used_add [of h]) (auto simp: R3)
  have expn: "used N t3 (expn_slots t) = used N t (expn_slots t)"
    using h slots_disjoint [of t] by (intro used_same) (auto simp: R3)
  have "card (used N t (base_slots t)) \<le> 5120" by (rule card_slots [OF T(1)]) (auto simp: used_def)
  then have "unat (cur_tbl_cnt t + 1) = Suc (card (used N t (base_slots t)))" using T(5) by (simp add: unat_word_ariths)
  then have ok3: "table_ok N t3 bk"
    using base expn T(6,7) i(2) R3 by (intro table_okI [OF ok st3 l3]) (simp_all add: t3_def)
  have c3: "content N key t3 = (content N key t)(h \<mapsto> rule u)"
    using st3 i e d by (auto simp: content_def R3 same_setup_def fun_eq_iff set_head Let_def)
  have hb: "h < table_entries t" using h by (simp add: base_slots_def)
  have "table_ok N (ipa_table_erase_entry ?t2 h) bk \<and> content N key (ipa_table_erase_entry ?t2 h) = content N key t"
    using erase_new [OF ok p st(1) h(2) i(1)] hb len by (simp add: rec_at_set_rec)
  then show ?thesis using add post ok3 c3 st by auto
qed

text \<open>An insertion that the inserter refuses leaves a fresh record behind, wherever it was tried.\<close>

lemma add_head_fail:
  assumes ok: "table_ok N t bk" and p: "prepared t" and h: "h \<in> base_slots t" "\<not> n_valid N (rec_at t h)"
    and u: "\<not> accepts u"
  shows "\<exists>err t'. ipa_table_add_entry t u h [] = Some (Inl err, [], t') \<and> same_setup t t' \<and> table_ok N t' bk \<and>
    content N key t' = content N key t"
proof -
  note T = table_okD [OF ok]
  have len: "unat h < length (recs t)" using slot_less [OF T(1), of h] h T(2) by auto
  have iface: "entry_interface t = iface" using prepared(1) [OF p] by simp
  have "n_fresh N (rec_at t h)" using listsD(1) [OF T(4), of h] h by auto
  from insert_fail [OF this u] obtain err e where
    ins: "entry_head_insert iface (rec_at t h) u = (Inl err, e)" and e: "n_fresh N e" by auto
  let ?t = "set_rec h e t"
  have "ipa_table_add_entry t u h [] = Some (Inl err, [], ?t)"
    using h(2) ins view(1) by (simp add: ipa_table_add_entry_def InsertHead_def iface)
  moreover have "rec_at ?t = (rec_at t)(h := e)" using len by (auto simp: fun_eq_iff rec_at_set_rec)
  ultimately show ?thesis using overwrite_free [OF ok, of ?t h e] h(2) e by auto
qed

text \<open>The end of the list of a slot in use.\<close>

lemma iterator_end:
  assumes ok: "table_ok N t bk" and p: "prepared t" and h: "h \<in> base_slots t" "n_valid N (rec_at t h)"
  defines "l \<equiv> last (h # bk h)"
  shows "ipa_table_iterator_end t h = Some (Inr \<lparr>prev_index = l, prev_entry = Some l, curr_index = 0, curr_entry = None,
      next_index = 0, next_entry = None\<rparr>)"
    "l \<in> base_slots t \<union> expn_slots t" "l \<in> set (h # bk h)" "n_valid N (rec_at t l)"
proof -
  note T = table_okD [OF ok]
  have iface: "entry_interface t = iface" using prepared(1) [OF p] by simp
  note D = listsD [OF T(4)]
  note chain = D(2) [OF h]
  have "0 \<notin> set (bk h)" using D(5) [OF h(1)] slot_less(2) [OF T(1), of 0] by auto
  moreover have "distinct (h # bk h)" using D(4,5) [OF h(1)] slots_disjoint [of t] h by auto
  ultimately have "end_loop t h = Some (Inr l)"
    using end_loop_last [of t "n_pv N" 0 h "bk h"] chain view(1,2) by (simp add: iface l_def)
  then show "ipa_table_iterator_end t h = Some (Inr \<lparr>prev_index = l, prev_entry = Some l, curr_index = 0,
      curr_entry = None, next_index = 0, next_entry = None\<rparr>)" by (simp add: ipa_table_iterator_end_def)
  show "l \<in> set (h # bk h)" unfolding l_def by (rule last_in_set) simp
  then show "l \<in> base_slots t \<union> expn_slots t" "n_valid N (rec_at t l)"
    using h D(5) [OF h(1)] lk_valid [OF chain, of l] by auto
qed

lemma add_tail_full:
  assumes ok: "table_ok N t bk" and p: "prepared t" and h: "h \<in> base_slots t" "n_valid N (rec_at t h)"
    and full: "\<forall>i\<in>expn_slots t. n_valid N (rec_at t i)"
  shows "ipa_table_add_entry t u h [] = Some (Inl EFAIL, [], t)"
proof -
  have iface: "entry_interface t = iface" using prepared(1) [OF p] by simp
  have "FindExpnTblFreeEntry t = Inl EFAIL"
    using FindExpnTblFreeEntry_spec [OF table_okD(1) [OF ok]] full view(1)
    by (auto simp: iface split: sum.splits)
  then show ?thesis
    using h(2) view(1) iterator_end(1) [OF ok p h]
    by (simp add: ipa_table_add_entry_def InsertTail_def iface)
qed

lemma find_free:
  assumes ok: "table_ok N t bk" and p: "prepared t" and free: "\<not> (\<forall>i\<in>expn_slots t. n_valid N (rec_at t i))"
  obtains i where "FindExpnTblFreeEntry t = Inr i" "i \<in> expn_slots t" "\<not> n_valid N (rec_at t i)" "n_fresh N (rec_at t i)"
proof -
  have iface: "entry_interface t = iface" using prepared(1) [OF p] by simp
  obtain i where i: "FindExpnTblFreeEntry t = Inr i" "i \<in> expn_slots t" "\<not> n_valid N (rec_at t i)"
    using FindExpnTblFreeEntry_spec [OF table_okD(1) [OF ok]] free view(1)
    by (auto simp: iface split: sum.splits)
  show ?thesis by (rule that [OF i]) (use listsD(1) [OF table_okD(4) [OF ok], of i] i in auto)
qed

lemma add_tail_fail:
  assumes ok: "table_ok N t bk" and p: "prepared t" and h: "h \<in> base_slots t" "n_valid N (rec_at t h)"
    and free: "\<not> (\<forall>i\<in>expn_slots t. n_valid N (rec_at t i))" and u: "\<not> accepts u"
  shows "\<exists>err t'. ipa_table_add_entry t u h [] = Some (Inl err, [], t') \<and> same_setup t t' \<and> table_ok N t' bk \<and>
    content N key t' = content N key t"
proof -
  note T = table_okD [OF ok]
  have iface: "entry_interface t = iface" using prepared(1) [OF p] by simp
  obtain i where i: "FindExpnTblFreeEntry t = Inr i" "i \<in> expn_slots t" "\<not> n_valid N (rec_at t i)" "n_fresh N (rec_at t i)"
    by (rule find_free [OF ok p free])
  have len: "unat i < length (recs t)" using slot_less [OF T(1), of i] i T(2) by auto
  from insert_fail [OF i(4) u] obtain err e where
    ins: "entry_head_insert iface (rec_at t i) u = (Inl err, e)" and e: "n_fresh N e" by auto
  let ?t = "set_rec i e t"
  have "ipa_table_add_entry t u h [] = Some (Inl err, [], ?t)"
    using h(2) ins view(1) iterator_end(1) [OF ok p h] i(1) T(3)
    by (simp add: ipa_table_add_entry_def InsertTail_def fill_slot_def iface)
  moreover have "rec_at ?t = (rec_at t)(i := e)" using len by (auto simp: fun_eq_iff rec_at_set_rec)
  ultimately show ?thesis using overwrite_free [OF ok, of ?t i e] i(3) e by auto
qed

text \<open>Adding a rule to the list of a slot in use.\<close>

lemma add_tail_call:
  assumes ok: "table_ok N t bk" and p: "prepared t" and h: "h \<in> base_slots t" "n_valid N (rec_at t h)"
    and i: "FindExpnTblFreeEntry t = Inr i" "i \<in> expn_slots t" "n_fresh N (rec_at t i)" and u: "accepts u" "good u"
  defines "l \<equiv> last (h # bk h)"
  obtains d e where "ipa_table_add_entry t u h [] = Some (Inr (i, ucast (MakeEntryHdl t i)),
      [cmd_one t HELP_UPDATE_HEAD i d, cmd_one t HELP_UPDATE_ENTRY l i],
      (set_rec i e t)\<lparr>cur_expn_tbl_cnt := cur_expn_tbl_cnt t + 1\<rparr>)"
    "\<not> n_valid N e" "n_nx N e = 0" "n_pv N e = l" "\<not> n_dead N e" "key e = rule u"
    "\<And>x. n_valid N (set_field HELP_UPDATE_HEAD d x)"
proof -
  note T = table_okD [OF ok]
  have iface: "entry_interface t = iface" using prepared(1) [OF p] by simp
  note it = iterator_end [OF ok p h, folded l_def]
  from insert_ok [OF i(3) u(1)] u(2) obtain d e where
    ins: "entry_head_insert iface (rec_at t i) u = (Inr d, e)"
    and e: "\<not> n_valid N e" "n_nx N e = 0" "\<not> n_dead N e" "key e = rule u"
    and d: "\<And>x. n_valid N (set_field HELP_UPDATE_HEAD d x)" by auto
  obtain e' m where sp: "entry_set_prev_index iface e i l None (table_entries t) = (e', m)" by fastforce
  note e' = set_prev [OF sp]
  let ?t = "set_rec i e' t"
  have fill: "fill_slot t i l u = (Inr d, ?t)"
    using ins sp e' T(3) by (simp add: fill_slot_def iface meta_idem)
  have lt: "unat i < unat (tot_tbl_ents t)" "unat l < unat (tot_tbl_ents t)"
    using slot_less(1) [OF T(1)] i(2) it(2) by auto
  have sz: "sizes_ok ?t" "cmd_one ?t = cmd_one t" "MakeEntryHdl (?t\<lparr>cur_expn_tbl_cnt := n\<rparr>) = MakeEntryHdl t" for n
    using same_setup_slots [of t ?t] same_setup_slots(5) [of t "?t\<lparr>cur_expn_tbl_cnt := n\<rparr>"] T(1) by simp_all
  have cmd1: "ipa_table_add_dma_cmd ?t HELP_UPDATE_HEAD (Some i) i d [] = (Inr (), [cmd_one t HELP_UPDATE_HEAD i d])"
    using add_dma_cmd_one [OF sz(1), of i] lt sz(2) by simp
  have cmd2: "ipa_table_add_dma_cmd ?t HELP_UPDATE_ENTRY (Some l) l i [cmd_one t HELP_UPDATE_HEAD i d] =
      (Inr (), [cmd_one t HELP_UPDATE_HEAD i d, cmd_one t HELP_UPDATE_ENTRY l i])"
    using add_dma_cmd_one [OF sz(1), of l] lt sz(2) by simp
  have "ipa_table_add_entry t u h [] = Some (Inr (i, ucast (MakeEntryHdl t i)),
      [cmd_one t HELP_UPDATE_HEAD i d, cmd_one t HELP_UPDATE_ENTRY l i], ?t\<lparr>cur_expn_tbl_cnt := cur_expn_tbl_cnt t + 1\<rparr>)"
    using h(2) view(1) it(1) i(1) fill cmd1 cmd2 T(3) sz(3) by (simp add: ipa_table_add_entry_def InsertTail_def iface)
  then show ?thesis by (rule that) (use e e' d in auto)
qed

lemma add_tail:
  assumes ok: "table_ok N t bk" and p: "prepared t" and h: "h \<in> base_slots t" "n_valid N (rec_at t h)"
    and free: "\<not> (\<forall>i\<in>expn_slots t. n_valid N (rec_at t i))" and u: "accepts u" "good u" "hash (rule u) = h"
  shows "\<exists>i cmd t'. ipa_table_add_entry t u h [] = Some (Inr (i, ucast (MakeEntryHdl t i)), cmd, t') \<and> length cmd = 2 \<and>
    i \<in> expn_slots t \<and> \<not> n_valid N (rec_at t i) \<and>
    same_setup t t' \<and> table_ok N (post_cmd dma cmd t') (bk(h := bk h @ [i])) \<and>
    content N key (post_cmd dma cmd t') = (content N key t)(i \<mapsto> rule u) \<and>
    table_ok N (ipa_table_erase_entry t' i) bk \<and> content N key (ipa_table_erase_entry t' i) = content N key t"
proof -
  note T = table_okD [OF ok]
  obtain i where i: "FindExpnTblFreeEntry t = Inr i" "i \<in> expn_slots t" "\<not> n_valid N (rec_at t i)" "n_fresh N (rec_at t i)"
    by (rule find_free [OF ok p free])
  define l where "l = last (h # bk h)"
  note it = iterator_end [OF ok p h, folded l_def]
  obtain d e where add: "ipa_table_add_entry t u h [] = Some (Inr (i, ucast (MakeEntryHdl t i)),
      [cmd_one t HELP_UPDATE_HEAD i d, cmd_one t HELP_UPDATE_ENTRY l i],
      (set_rec i e t)\<lparr>cur_expn_tbl_cnt := cur_expn_tbl_cnt t + 1\<rparr>)"
    and e: "\<not> n_valid N e" "n_nx N e = 0" "n_pv N e = l" "\<not> n_dead N e" "key e = rule u"
    and d: "\<And>x. n_valid N (set_field HELP_UPDATE_HEAD d x)"
    unfolding l_def by (rule add_tail_call [OF ok p h i(1,2,4) u(1,2)]) blast
  let ?t2 = "(set_rec i e t)\<lparr>cur_expn_tbl_cnt := cur_expn_tbl_cnt t + 1\<rparr>"
  let ?e = "set_field HELP_UPDATE_HEAD d e" and ?x = "set_field HELP_UPDATE_ENTRY i (rec_at t l)"
  have lt: "unat i < length (recs t)" "unat l < length (recs t)" "unat i < unat (tot_tbl_ents t)"
    using slot_less(1) [OF T(1), of i] slot_less(1) [OF T(1) it(2)] i(2) T(2) by auto
  have li: "l \<noteq> i" using it(4) i(3) by auto
  have st: "same_setup t ?t2" by simp
  define t3 where "t3 = set_rec l ?x (set_rec i ?e ?t2)"
  have st1: "same_setup t (set_rec i ?e ?t2)" by simp
  have post: "post_cmd dma [cmd_one t HELP_UPDATE_HEAD i d, cmd_one t HELP_UPDATE_ENTRY l i] ?t2 = t3"
    using post_cmd_Cons [of ?t2 i HELP_UPDATE_HEAD d "[cmd_one t HELP_UPDATE_ENTRY l i]"]
      post_cmd_Cons [of "set_rec i ?e ?t2" l HELP_UPDATE_ENTRY i "[]"] prepared(2) [OF p st] prepared(2) [OF p st1]
      same_setup_slots [OF st] same_setup_slots [OF st1] T(1,2) lt li
    by (simp add: post_cmd_Nil t3_def rec_at_set_rec)
  have R3: "rec_at t3 = (rec_at t)(i := ?e, l := ?x)" using lt li by (auto simp: t3_def fun_eq_iff rec_at_set_rec)
  have st3: "same_setup t t3" by (simp add: t3_def)
  have new: "new_node N l 0 h ?e" using e d u(3) by (simp add: new_node_def set_head view(4))
  have l3: "lists N (base_slots t) (expn_slots t) (rec_at t3) (bk(h := bk h @ [i]))"
    unfolding R3 by (rule lists_add_tail [OF T(4) slots_disjoint h i(2,3) l_def new])
      (use it(4) in \<open>simp_all add: set_next view(4)\<close>)
  have v3: "n_valid N (rec_at t3 j) \<longleftrightarrow> j = i \<or> n_valid N (rec_at t j)" for j
    using d it(4) by (simp add: R3 set_next)
  have expn: "card (used N t3 (expn_slots t)) = Suc (card (used N t (expn_slots t)))"
    using i v3 by (intro used_add [of i]) auto
  have base: "used N t3 (base_slots t) = used N t (base_slots t)"
    using i(2) slots_disjoint [of t] v3 by (intro used_same) auto
  have "card (used N t (expn_slots t)) \<le> 5120" by (rule card_slots [OF T(1)]) (auto simp: used_def)
  then have "unat (cur_expn_tbl_cnt t + 1) = Suc (card (used N t (expn_slots t)))" using T(6) by (simp add: unat_word_ariths)
  then have ok3: "table_ok N t3 (bk(h := bk h @ [i]))"
    using base expn T(5,7) v3 [of 0] slot_less(2) [OF T(1), of i] i(2) by (intro table_okI [OF ok st3 l3]) (auto simp: t3_def)
  have c3: "content N key t3 = (content N key t)(i \<mapsto> rule u)"
    using st3 lt li e d it(4) by (auto simp: content_def R3 same_setup_def fun_eq_iff set_head set_next Let_def)
  have ib: "\<not> i < table_entries t" using i(2) by (auto simp: expn_slots_def)
  have "table_ok N (ipa_table_erase_entry ?t2 i) bk \<and> content N key (ipa_table_erase_entry ?t2 i) = content N key t"
    using erase_new [OF ok p st i(3) lt(3)] ib lt by (simp add: rec_at_set_rec)
  then show ?thesis using add post ok3 c3 st i by (intro exI [of _ i]) auto
qed

text \<open>The iterator of a record in use.\<close>

lemma iterator_init:
  assumes p: "prepared t" and m: "meta t = None" and i: "n_valid N (rec_at t i)"
    and nb: "n_pv N (rec_at t i) = pv" "n_nx N (rec_at t i) = nx"
      "unat pv < unat (tot_tbl_ents t)" "unat nx < unat (tot_tbl_ents t)"
  shows "ipa_table_iterator_init t i = Inr \<lparr>prev_index = pv, prev_entry = (if pv = 0 then None else Some pv),
    curr_index = i, curr_entry = Some i, next_index = nx, next_entry = (if nx = 0 then None else Some nx)\<rparr>"
proof -
  have "\<not> tot_tbl_ents t \<le> ucast pv" "\<not> tot_tbl_ents t \<le> ucast nx" using nb(3,4) by (simp_all add: word_le_nat_alt)
  then show ?thesis
    using prepared(1) [OF p] i nb(1,2) view m
    by (simp add: ipa_table_iterator_init_def ipa_table_get_entry_by_index_def ipa_table_consts)
qed

lemma post_one:
  assumes ok: "table_ok N t bk" and p: "prepared t" and i: "unat i < unat (tot_tbl_ents t)"
  shows "post_cmd dma [cmd_one t ht i d] t = set_rec i (set_field ht d (rec_at t i)) t"
  using post_cmd_Cons [OF p table_okD(1,2) [OF ok] i, of ht d "[]"] by (simp add: post_cmd_Nil)

lemma content_remove:
  assumes "same_setup t t'" "\<And>j. j \<noteq> i \<Longrightarrow> n_valid N (rec_at t' j) \<and> \<not> n_dead N (rec_at t' j) \<longleftrightarrow> n_valid N (rec_at t j) \<and> \<not> n_dead N (rec_at t j)"
    "\<And>j. j \<noteq> i \<Longrightarrow> n_valid N (rec_at t j) \<Longrightarrow> \<not> n_dead N (rec_at t j) \<Longrightarrow> key (rec_at t' j) = key (rec_at t j)"
    "\<not> n_valid N (rec_at t' i) \<or> n_dead N (rec_at t' i)"
  shows "content N key t' = (content N key t)(i := None)"
proof
  fix j
  show "content N key t' j = ((content N key t)(i := None)) j"
    using assms(1,4) assms(2,3) [of j] by (cases "j = i") (auto simp: content_def same_setup_def Let_def)
qed

text \<open>A head: alone it is erased, otherwise it stays as a deleted head.\<close>

lemma delete_head_alone:
  assumes ok: "table_ok N t bk" and p: "prepared t" and i: "i \<in> base_slots t" "n_valid N (rec_at t i)" "bk i = []"
  shows "\<exists>it. deleted dma N key t i it bk"
proof -
  note T = table_okD [OF ok]
  have lt: "unat i < unat (tot_tbl_ents t)" "i \<noteq> 0" "unat i < length (recs t)"
    using slot_less [OF T(1), of i] i T(2) by auto
  have "nlk N (rec_at t) 0 [i] 0" using listsD(2) [OF T(4) i(1,2)] i(3) by simp
  then have nb: "n_pv N (rec_at t i) = 0" "n_nx N (rec_at t i) = 0" by simp_all
  define it where "it = \<lparr>prev_index = 0, prev_entry = None, curr_index = i, curr_entry = Some i, next_index = 0, next_entry = None\<rparr>"
  have init: "ipa_table_iterator_init t i = Inr it"
    using iterator_init [OF p T(3) i(2) nb] lt(1) by (simp add: it_def)
  let ?c = "cmd_one t HELP_UPDATE_HEAD i 0"
  have cmd: "ipa_table_create_delete_command t [] it = [?c]"
    using add_dma_cmd_one [OF T(1) lt(1), of HELP_UPDATE_HEAD 0 "[]"]
    by (simp add: ipa_table_create_delete_command_def it_def ipa_table_consts)
  define t' where "t' = delete_with dma N t it"
  have t': "t' = ipa_table_erase_entry (set_rec i (set_field HELP_UPDATE_HEAD 0 (rec_at t i)) t) i"
    using post_one [OF ok p lt(1)] cmd
    by (simp add: t'_def delete_with_def it_def ipa_table_iterator_is_head_with_tail_def ipa_table_delete_entry_def
        ipa_table_consts)
  have ib: "i < table_entries t" using i(1) by (simp add: base_slots_def)
  have st: "same_setup t t'" by (simp add: t' ipa_table_erase_entry_def Let_def)
  have cnt: "cur_tbl_cnt t' = cur_tbl_cnt t - 1" "cur_expn_tbl_cnt t' = cur_expn_tbl_cnt t"
    using ib by (simp_all add: t' ipa_table_erase_entry_def Let_def)
  have R: "rec_at t' = (rec_at t)(i := zero)"
    using lt prepared(1) [OF p] by (auto simp: t' ipa_table_erase_entry_def Let_def fun_eq_iff rec_at_set_rec)
  have z: "n_fresh N zero" "\<not> n_valid N zero" using zero fresh by auto
  have l: "lists N (base_slots t) (expn_slots t) (rec_at t') bk"
    unfolding R by (rule lists_delete_single [OF T(4) slots_disjoint i(1,3) z])
  have base: "Suc (card (used N t' (base_slots t))) = card (used N t (base_slots t))"
    using i z by (intro used_remove [of i]) (auto simp: R)
  have expn: "used N t' (expn_slots t) = used N t (expn_slots t)"
    using i slots_disjoint [of t] by (intro used_same) (auto simp: R)
  have "table_ok N t' bk"
    using cnt expn T(6,7) unat_pred [OF T(5) base] lt(2) by (intro table_okI [OF ok st l]) (simp_all add: R)
  moreover have "content N key t' = (content N key t)(i := None)"
    using st z by (intro content_remove) (auto simp: R)
  ultimately show ?thesis
    using init cmd st unfolding deleted_def t'_def by (intro exI [of _ it]) simp
qed

lemma delete_head_with_tail:
  assumes ok: "table_ok N t bk" and p: "prepared t" and i: "i \<in> base_slots t" "n_valid N (rec_at t i)" "bk i \<noteq> []"
  shows "\<exists>it. deleted dma N key t i it bk"
proof -
  note T = table_okD [OF ok]
  have lt: "unat i < unat (tot_tbl_ents t)" "i \<noteq> 0" "unat i < length (recs t)"
    using slot_less [OF T(1), of i] i T(2) by auto
  let ?n = "hd (bk i)"
  have "?n \<in> expn_slots t" using listsD(5) [OF T(4) i(1)] hd_in_set [OF i(3)] by auto
  then have n: "unat ?n < unat (tot_tbl_ents t)" "?n \<noteq> 0" using slot_less [OF T(1), of ?n] by auto
  have nb: "n_pv N (rec_at t i) = 0" "n_nx N (rec_at t i) = ?n" using listsD(2) [OF T(4) i(1,2)] i(3) by auto
  define it where "it = \<lparr>prev_index = 0, prev_entry = None, curr_index = i, curr_entry = Some i, next_index = ?n, next_entry = Some ?n\<rparr>"
  have init: "ipa_table_iterator_init t i = Inr it"
    using iterator_init [OF p T(3) i(2) nb] lt(1) n by (simp add: it_def)
  define d where "d = entry_get_delete_head_dma_command_data iface (rec_at t i) (rec_at t ?n)"
  let ?e = "set_field HELP_DELETE_HEAD d (rec_at t i)"
  note e = kill_head [OF d_def]
  have cmd: "ipa_table_create_delete_command t [] it = [cmd_one t HELP_DELETE_HEAD i d]"
    using add_dma_cmd_one [OF T(1) lt(1), of HELP_DELETE_HEAD d "[]"] prepared(1) [OF p] n
    by (simp add: ipa_table_create_delete_command_def it_def ipa_table_consts d_def)
  define t' where "t' = delete_with dma N t it"
  have t': "t' = set_rec i ?e t"
    using post_one [OF ok p lt(1)] cmd n
    by (simp add: t'_def delete_with_def it_def ipa_table_iterator_is_head_with_tail_def ipa_table_consts)
  have st: "same_setup t t'" by (simp add: t')
  have R: "rec_at t' = (rec_at t)(i := ?e)" using lt by (auto simp: t' fun_eq_iff rec_at_set_rec)
  have l: "lists N (base_slots t) (expn_slots t) (rec_at t') bk"
    unfolding R using e by (intro lists_kill_head [OF T(4) slots_disjoint i]) auto
  have u: "used N t' S = used N t S" for S using e i(2) by (intro used_same) (auto simp: R same_node_def)
  have "table_ok N t' bk" using u T(5-7) R lt(2) by (intro table_okI [OF ok st l]) (simp_all add: t')
  moreover have "content N key t' = (content N key t)(i := None)"
    using st e by (intro content_remove) (auto simp: R)
  ultimately show ?thesis
    using init cmd st unfolding deleted_def t'_def by (intro exI [of _ it]) simp
qed

text \<open>A record of the expansion table: its neighbours are linked to each other, or a deleted head that
  only it was linked to goes with it.\<close>

lemma tail_iterator:
  assumes ok: "table_ok N t bk" and p: "prepared t" and h: "h \<in> base_slots t" "n_valid N (rec_at t h)"
    and bk: "bk h = as @ i # bs"
  defines "l \<equiv> last (h # as)" and "nx \<equiv> (if bs = [] then 0 else hd bs)"
  shows "ipa_table_iterator_init t i = Inr \<lparr>prev_index = l, prev_entry = Some l, curr_index = i, curr_entry = Some i,
      next_index = nx, next_entry = (if nx = 0 then None else Some nx)\<rparr>"
    "l \<in> set (h # as)" "l \<noteq> 0" "unat l < length (recs t)" "unat i < length (recs t)" "unat nx < length (recs t)"
    "nx = 0 \<longleftrightarrow> bs = []" "distinct (h # as @ i # bs)" "n_valid N (rec_at t i)" "n_valid N (rec_at t l)" "i \<in> expn_slots t"
proof -
  note T = table_okD [OF ok]
  note D = listsD [OF T(4)]
  note chain = D(2) [OF h]
  have slots: "a \<in> base_slots t \<union> expn_slots t" if "a \<in> set (h # as @ i # bs)" for a
    using that D(5) [OF h(1)] h bk by auto
  show l: "l \<in> set (h # as)" unfolding l_def by (rule last_in_set) simp
  have li: "unat a < unat (tot_tbl_ents t)" "a \<noteq> 0" if "a \<in> set (h # as @ i # bs)" for a
    using slot_less [OF T(1) slots [OF that]] by auto
  have lm: "l \<in> set (h # as @ i # bs)" using l by auto
  show "l \<noteq> 0" "unat l < length (recs t)" "unat i < length (recs t)" using li [OF lm] li [of i] T(2) by simp_all
  show z: "nx = 0 \<longleftrightarrow> bs = []" using li(2) [of "hd bs"] hd_in_set [of bs] by (auto simp: nx_def)
  have nxl: "unat nx < unat (tot_tbl_ents t)"
    using li(1) [of "hd bs"] hd_in_set [of bs] li(1) [of i] by (cases "bs = []") (auto simp: nx_def)
  then show "unat nx < length (recs t)" using T(2) by simp
  show "distinct (h # as @ i # bs)" using D(4,5) [OF h(1)] slots_disjoint [of t] h bk by auto
  show v: "n_valid N (rec_at t i)" "n_valid N (rec_at t l)" using lk_valid [OF chain, of i] lk_valid [OF chain, of l] bk l by auto
  show "i \<in> expn_slots t" using D(5) [OF h(1)] bk by auto
  have "nlk N (rec_at t) 0 ((h # as) @ i # bs) 0" using chain bk by simp
  from lk_neighbours [OF this] have "n_pv N (rec_at t i) = l" "n_nx N (rec_at t i) = nx" by (auto simp: l_def nx_def)
  from iterator_init [OF p T(3) v(1) this li(1) [OF lm] nxl] \<open>l \<noteq> 0\<close>
  show "ipa_table_iterator_init t i = Inr \<lparr>prev_index = l, prev_entry = Some l, curr_index = i, curr_entry = Some i,
      next_index = nx, next_entry = (if nx = 0 then None else Some nx)\<rparr>" by simp
qed

lemma delete_tail_run:
  assumes ok: "table_ok N t bk" and p: "prepared t" and h: "h \<in> base_slots t" "n_valid N (rec_at t h)"
    and bk: "bk h = as @ i # bs" and dead: "\<not> (as = [] \<and> bs = [] \<and> n_dead N (rec_at t h))"
    and l: "l = last (h # as)" and nx: "nx = (if bs = [] then 0 else hd bs)"
    and it: "it = \<lparr>prev_index = l, prev_entry = Some l, curr_index = i, curr_entry = Some i,
      next_index = nx, next_entry = (if nx = 0 then None else Some nx)\<rparr>"
  obtains y where "length (ipa_table_create_delete_command t [] it) = 1" "same_setup t (delete_with dma N t it)"
    "cur_tbl_cnt (delete_with dma N t it) = cur_tbl_cnt t" "cur_expn_tbl_cnt (delete_with dma N t it) = cur_expn_tbl_cnt t - 1"
    "\<And>j. rec_at (delete_with dma N t it) j = (if j = i then zero else if bs \<noteq> [] \<and> j = nx then y
       else if j = l then set_field HELP_UPDATE_ENTRY nx (rec_at t l) else rec_at t j)"
    "n_valid N y = n_valid N (rec_at t nx)" "n_nx N y = n_nx N (rec_at t nx)" "n_pv N y = l"
    "n_dead N y = n_dead N (rec_at t nx)" "key y = key (rec_at t nx)"
proof -
  note T = table_okD [OF ok]
  note I = tail_iterator [OF ok p h bk, folded l nx]
  have lt: "unat l < unat (tot_tbl_ents t)" using I(4) T(2) by simp
  have cmd: "ipa_table_create_delete_command t [] it = [cmd_one t HELP_UPDATE_ENTRY l nx]"
    using add_dma_cmd_one [OF T(1) lt, of HELP_UPDATE_ENTRY nx "[]"] I(3)
    by (simp add: ipa_table_create_delete_command_def it ipa_table_consts)
  let ?x = "set_field HELP_UPDATE_ENTRY nx (rec_at t l)"
  define t1 where "t1 = set_rec l ?x t"
  have post: "post_cmd dma [cmd_one t HELP_UPDATE_ENTRY l nx] t = t1" using post_one [OF ok p lt] by (simp add: t1_def)
  have not_dead: "\<not> n_dead N (rec_at t l)" if "bs = []"
  proof (cases "as = []")
    case False
    then have "l \<in> set as" unfolding l by simp
    then show ?thesis using listsD(5) [OF T(4) h(1)] listsD(8) [OF T(4), of l] bk I(10) by auto
  qed (use dead that in \<open>simp add: l\<close>)
  obtain y m where y: "entry_set_prev_index iface (rec_at t nx) nx l None (table_entries t) = (y, m)" by fastforce
  note y' = set_prev [OF y]
  have ne: "nx \<noteq> l \<and> nx \<noteq> i" if "bs \<noteq> []" using I(2,8) hd_in_set [OF that] that by (auto simp: nx)
  define t2 where "t2 = (if bs = [] then t1 else set_rec nx y t1)"
  have t1: "same_setup t t1" "rec_at t1 = (rec_at t)(l := ?x)" "meta t1 = None" "entry_interface t1 = iface"
    "table_entries t1 = table_entries t"
    using I(4) prepared(1) [OF p] T(3) by (auto simp: t1_def fun_eq_iff rec_at_set_rec)
  have t': "delete_with dma N t it = ipa_table_erase_entry t2 i"
    using post cmd I(3,7) not_dead y y' t1 ne
    by (cases "bs = []") (simp_all add: delete_with_def it ipa_table_iterator_is_head_with_tail_def
        ipa_table_delete_entry_def ipa_table_consts t2_def set_next meta_idem)
  have t2: "same_setup t t2" "cur_tbl_cnt t2 = cur_tbl_cnt t" "cur_expn_tbl_cnt t2 = cur_expn_tbl_cnt t"
    "zero_rec t2 = zero" "table_entries t2 = table_entries t" "length (recs t2) = length (recs t)"
    using t1 prepared(1) [OF p] by (auto simp: t2_def t1_def)
  have ib: "\<not> i < table_entries t" using I(11) by (auto simp: expn_slots_def)
  have "rec_at t2 j = (if bs \<noteq> [] \<and> j = nx then y else if j = l then ?x else rec_at t j)" for j
    using t1(2) I(4,6) by (auto simp: t2_def t1_def rec_at_set_rec)
  then show ?thesis
    using that [of y] y' cmd t2 ib I(5) by (simp add: t' ipa_table_erase_entry_def Let_def rec_at_set_rec)
qed

lemma delete_tail:
  assumes ok: "table_ok N t bk" and p: "prepared t" and h: "h \<in> base_slots t" "n_valid N (rec_at t h)"
    and bk: "bk h = as @ i # bs" and dead: "\<not> (as = [] \<and> bs = [] \<and> n_dead N (rec_at t h))"
  shows "\<exists>it. deleted dma N key t i it (bk(h := as @ bs))"
proof -
  note T = table_okD [OF ok]
  define l nx where "l = last (h # as)" and "nx = (if bs = [] then 0 else hd bs)"
  note I = tail_iterator [OF ok p h bk, folded l_def nx_def]
  define it where "it = \<lparr>prev_index = l, prev_entry = Some l, curr_index = i, curr_entry = Some i,
      next_index = nx, next_entry = (if nx = 0 then None else Some nx)\<rparr>"
  define t' where "t' = delete_with dma N t it"
  obtain y where cmd: "length (ipa_table_create_delete_command t [] it) = 1" and st: "same_setup t t'"
    and cnt: "cur_tbl_cnt t' = cur_tbl_cnt t" "cur_expn_tbl_cnt t' = cur_expn_tbl_cnt t - 1"
    and R: "\<And>j. rec_at t' j = (if j = i then zero else if bs \<noteq> [] \<and> j = nx then y
       else if j = l then set_field HELP_UPDATE_ENTRY nx (rec_at t l) else rec_at t j)"
    and y: "n_valid N y = n_valid N (rec_at t nx)" "n_nx N y = n_nx N (rec_at t nx)" "n_pv N y = l"
      "n_dead N y = n_dead N (rec_at t nx)" "key y = key (rec_at t nx)"
    unfolding t'_def by (rule delete_tail_run [OF ok p h bk dead l_def nx_def it_def]) blast
  have ne: "nx \<noteq> l \<and> nx \<noteq> i" if "bs \<noteq> []" using I(2,8) hd_in_set [OF that] that by (auto simp: nx_def)
  have li: "l \<noteq> i" using I(2,8) by auto
  have z: "n_fresh N zero" "\<not> n_valid N zero" using zero fresh by auto
  have vnx: "n_valid N (rec_at t nx)" if "bs \<noteq> []"
    using lk_valid [OF listsD(2) [OF T(4) h], of nx] hd_in_set [OF that] bk that by (simp add: nx_def)
  have lists: "lists N (base_slots t) (expn_slots t) (rec_at t') (bk(h := as @ bs))"
    by (rule lists_delete_tail [OF T(4) slots_disjoint h bk l_def])
      (use z li ne I(10) y vnx dead in \<open>auto simp: R set_next nx_def view(4)\<close>)
  have same: "n_valid N (rec_at t' j) = n_valid N (rec_at t j) \<and> n_dead N (rec_at t' j) = n_dead N (rec_at t j) \<and>
      key (rec_at t' j) = key (rec_at t j)" if "j \<noteq> i" for j
    using that y ne by (auto simp: R set_next)
  have expn: "Suc (card (used N t' (expn_slots t))) = card (used N t (expn_slots t))"
    using I(9,11) z same by (intro used_remove [of i]) (auto simp: R)
  have base: "used N t' (base_slots t) = used N t (base_slots t)"
  proof (rule used_same)
    fix j assume "j \<in> base_slots t"
    then have "j \<noteq> i" using I(11) slots_disjoint [of t] by auto
    then show "n_valid N (rec_at t' j) = n_valid N (rec_at t j)" using same [of j] by simp
  qed
  have "table_ok N t' (bk(h := as @ bs))"
    using cnt base T(5,7) unat_pred [OF T(6) expn] same [of 0] slot_less(2) [OF T(1), of i] I(11)
    by (intro table_okI [OF ok st lists]) auto
  moreover have "content N key t' = (content N key t)(i := None)"
    using st z same by (intro content_remove) (auto simp: R)
  ultimately show ?thesis
    using I(1) cmd st unfolding deleted_def t'_def by (intro exI [of _ it]) (simp add: it_def)
qed

lemma delete_dead:
  assumes ok: "table_ok N t bk" and p: "prepared t" and h: "h \<in> base_slots t" "n_valid N (rec_at t h)" "n_dead N (rec_at t h)"
    and bk: "bk h = [i]"
  shows "\<exists>it. deleted dma N key t i it (bk(h := []))"
proof -
  note T = table_okD [OF ok]
  have "bk h = [] @ i # []" using bk by simp
  note it = tail_iterator [OF ok p h(1,2) this, simplified]
  define it where "it = \<lparr>prev_index = h, prev_entry = Some h, curr_index = i, curr_entry = Some i,
      next_index = 0, next_entry = None\<rparr>"
  have lt: "unat h < unat (tot_tbl_ents t)" "h \<noteq> i" "h < table_entries t" "\<not> i < table_entries t"
    using slot_less [OF T(1), of h] h(1) it(11) slots_disjoint [of t] by (auto simp: base_slots_def expn_slots_def)
  have cmd: "ipa_table_create_delete_command t [] it = [cmd_one t HELP_UPDATE_ENTRY h 0]"
    using add_dma_cmd_one [OF T(1) lt(1), of HELP_UPDATE_ENTRY 0 "[]"] it(3)
    by (simp add: ipa_table_create_delete_command_def it_def ipa_table_consts)
  define t1 where "t1 = set_rec h (set_field HELP_UPDATE_ENTRY 0 (rec_at t h)) t"
  have post: "post_cmd dma [cmd_one t HELP_UPDATE_ENTRY h 0] t = t1" using post_one [OF ok p lt(1)] by (simp add: t1_def)
  have t1: "same_setup t t1" "rec_at t1 h = set_field HELP_UPDATE_ENTRY 0 (rec_at t h)" "zero_rec t1 = zero"
    "length (recs t1) = length (recs t)" "cur_tbl_cnt t1 = cur_tbl_cnt t" "cur_expn_tbl_cnt t1 = cur_expn_tbl_cnt t"
    "table_entries t1 = table_entries t"
    using it(4) prepared(1) [OF p] by (auto simp: t1_def rec_at_set_rec)
  define t' where "t' = delete_with dma N t it"
  have t': "t' = ipa_table_erase_entry ((set_rec h zero t1)\<lparr>cur_tbl_cnt := cur_tbl_cnt t - 1\<rparr>) i"
    using post cmd h(3) t1 it(3)
    by (simp add: t'_def delete_with_def it_def ipa_table_iterator_is_head_with_tail_def ipa_table_delete_entry_def
        ipa_table_consts set_next)
  have st: "same_setup t t'" using t1 by (simp add: t' ipa_table_erase_entry_def Let_def)
  have cnt: "cur_tbl_cnt t' = cur_tbl_cnt t - 1" "cur_expn_tbl_cnt t' = cur_expn_tbl_cnt t - 1"
    using lt t1 by (simp_all add: t' ipa_table_erase_entry_def Let_def)
  have R: "rec_at t' = (rec_at t)(h := zero, i := zero)"
    using it(4,5) t1 lt by (auto simp: t' t1_def ipa_table_erase_entry_def Let_def fun_eq_iff rec_at_set_rec)
  have z: "n_fresh N zero" "\<not> n_valid N zero" using zero fresh by auto
  have l: "lists N (base_slots t) (expn_slots t) (rec_at t') (bk(h := []))"
    using z lt by (intro lists_delete_dead [OF T(4) slots_disjoint h(1) bk]) (auto simp: R)
  have i: "i \<in> expn_slots t" "n_valid N (rec_at t i)" "i \<notin> base_slots t" "h \<notin> expn_slots t"
    using it lt h(1) slots_disjoint [of t] by auto
  have base: "Suc (card (used N t' (base_slots t))) = card (used N t (base_slots t))"
  proof -
    have "used N t (base_slots t) = insert h (used N t' (base_slots t))" "h \<notin> used N t' (base_slots t)"
      using h z i by (auto simp: used_def R)
    then show ?thesis by simp
  qed
  have expn: "Suc (card (used N t' (expn_slots t))) = card (used N t (expn_slots t))"
  proof -
    have "used N t (expn_slots t) = insert i (used N t' (expn_slots t))" "i \<notin> used N t' (expn_slots t)"
      using i z by (auto simp: used_def R)
    then show ?thesis by simp
  qed
  have "table_ok N t' (bk(h := []))"
    using cnt unat_pred [OF T(5) base] unat_pred [OF T(6) expn] T(7) R z by (intro table_okI [OF ok st l]) simp_all
  moreover have "content N key t' = (content N key t)(i := None)"
    using st z h by (intro content_remove) (auto simp: R)
  ultimately show ?thesis
    using it(1) cmd st unfolding deleted_def t'_def by (intro exI [of _ it]) (simp add: it_def)
qed

text \<open>Both operations, whatever the record or the slot.\<close>

lemma delete_entry:
  assumes ok: "table_ok N t bk" and p: "prepared t" and i: "unat i < unat (tot_tbl_ents t)" "i \<noteq> 0" "n_valid N (rec_at t i)"
  shows "\<exists>it bk'. deleted dma N key t i it bk'"
proof (cases "i \<in> base_slots t")
  case True
  then show ?thesis
    using delete_head_alone [OF ok p True i(3)] delete_head_with_tail [OF ok p True i(3)] by (cases "bk i = []") auto
next
  case False
  note T = table_okD [OF ok]
  have "i \<in> expn_slots t" using slot_cases [OF T(1) i(1,2)] False by auto
  then obtain h where h: "h \<in> base_slots t" "i \<in> set (bk h)" using listsD(7) [OF T(4) _ i(3)] by auto
  then have v: "n_valid N (rec_at t h)" using listsD(3) [OF T(4) h(1)] by (cases "n_valid N (rec_at t h)") auto
  obtain as bs where bk: "bk h = as @ i # bs" using split_list [OF h(2)] by auto
  show ?thesis
  proof (cases "as = [] \<and> bs = [] \<and> n_dead N (rec_at t h)")
    case True
    then show ?thesis using delete_dead [OF ok p h(1) v] bk by auto
  next
    case False
    then show ?thesis using delete_tail [OF ok p h(1) v bk] by auto
  qed
qed

lemma add_entry_fails:
  assumes ok: "table_ok N t bk" and p: "prepared t" and h: "h \<in> base_slots t" and f: "add_fails N accepts t u h"
  shows "\<exists>err t'. ipa_table_add_entry t u h [] = Some (Inl err, [], t') \<and> same_setup t t' \<and> table_ok N t' bk \<and>
    content N key t' = content N key t"
proof (cases "n_valid N (rec_at t h)")
  case False
  then show ?thesis using f add_head_fail [OF ok p h False] by (simp add: add_fails_def)
next
  case True
  show ?thesis
  proof (cases "\<forall>i\<in>expn_slots t. n_valid N (rec_at t i)")
    case full: True
    show ?thesis using add_tail_full [OF ok p h True full] ok by auto
  next
    case False
    then show ?thesis using f add_tail_fail [OF ok p h True False] by (auto simp: add_fails_def)
  qed
qed

lemma add_entry:
  assumes ok: "table_ok N t bk" and p: "prepared t" and h: "h \<in> base_slots t" and f: "\<not> add_fails N accepts t u h"
    and u: "good u" "hash (rule u) = h"
  shows "\<exists>i cmd t' bk'. ipa_table_add_entry t u h [] = Some (Inr (i, ucast (MakeEntryHdl t i)), cmd, t') \<and>
    length cmd \<le> 2 \<and> i \<in> base_slots t \<union> expn_slots t \<and> content N key t i = None \<and> same_setup t t' \<and>
    table_ok N (post_cmd dma cmd t') bk' \<and> content N key (post_cmd dma cmd t') = (content N key t)(i \<mapsto> rule u) \<and>
    table_ok N (ipa_table_erase_entry t' i) bk \<and> content N key (ipa_table_erase_entry t' i) = content N key t"
proof (cases "n_valid N (rec_at t h)")
  case False
  then have "content N key t h = None" by (simp add: content_def Let_def)
  moreover obtain cmd t' where "ipa_table_add_entry t u h [] = Some (Inr (h, ucast (MakeEntryHdl t h)), cmd, t')"
    "length cmd = 1" "same_setup t t'" "table_ok N (post_cmd dma cmd t') bk"
    "content N key (post_cmd dma cmd t') = (content N key t)(h \<mapsto> rule u)"
    "table_ok N (ipa_table_erase_entry t' h) bk" "content N key (ipa_table_erase_entry t' h) = content N key t"
    using add_head [OF ok p h False _ u] f by (auto simp: add_fails_def)
  ultimately show ?thesis using h by (intro exI [of _ h] exI [of _ cmd] exI [of _ t'] exI [of _ bk]) simp
next
  case True
  have free: "\<not> (\<forall>i\<in>expn_slots t. n_valid N (rec_at t i))" "accepts u" using f True by (auto simp: add_fails_def)
  obtain i cmd t' where i: "i \<in> expn_slots t" "\<not> n_valid N (rec_at t i)"
    and "ipa_table_add_entry t u h [] = Some (Inr (i, ucast (MakeEntryHdl t i)), cmd, t')"
    "length cmd = 2" "same_setup t t'" "table_ok N (post_cmd dma cmd t') (bk(h := bk h @ [i]))"
    "content N key (post_cmd dma cmd t') = (content N key t)(i \<mapsto> rule u)"
    "table_ok N (ipa_table_erase_entry t' i) bk" "content N key (ipa_table_erase_entry t' i) = content N key t"
    using add_tail [OF ok p h True free u] by auto
  moreover have "content N key t i = None" using i by (simp add: content_def Let_def)
  ultimately show ?thesis
    by (intro exI [of _ i] exI [of _ cmd] exI [of _ t'] exI [of _ "bk(h := bk h @ [i])"]) simp
qed

text \<open>An empty table.\<close>

lemma fresh_table:
  assumes sz: "sizes_ok t" and r: "recs t = replicate (unat (tot_tbl_ents t)) zero" and m: "meta t = None"
    and cnt: "cur_tbl_cnt t = 0" "cur_expn_tbl_cnt t = 0"
  shows "table_ok N t (\<lambda>_. [])" "content N key t = Map.empty"
proof -
  have z: "n_fresh N zero" "\<not> n_valid N zero" using zero fresh by auto
  have R: "rec_at t i = zero" if "unat i < unat (tot_tbl_ents t)" for i using that by (simp add: rec_at_def r)
  have R': "rec_at t i = zero" if "i \<in> base_slots t \<union> expn_slots t" for i using R slot_less [OF sz that] by simp
  have "lists N (base_slots t) (expn_slots t) (rec_at t) (\<lambda>_. [])"
    using z R' unfolding lists_def by auto
  moreover have "used N t (base_slots t) = {}" "used N t (expn_slots t) = {}" using z R' by (auto simp: used_def)
  moreover have "rec_at t 0 = zero" using R [of 0] sizes_okD [OF sz] by simp
  ultimately show "table_ok N t (\<lambda>_. [])" using sz r m cnt z by (simp add: table_ok_def)
  show "content N key t = Map.empty" using R z by (auto simp: content_def Let_def fun_eq_iff)
qed

end

end
