(* ===== verification/IPA_Layout.thy ===== *)
theory IPA_Layout
  imports Prelude
begin

text \<open>
  The memory layout of the records that the IPA hardware shares with the library: words of 64 bits
  with bit fields, and 16 bits of a record that the hardware stores for a DMA command. The lemmas
  say which bits such a store changes; the records of both kinds of tables use them.
\<close>

text \<open>Storing 16 bits at an even byte offset of a record, as the hardware does.\<close>

definition put16 :: "nat \<Rightarrow> u16 \<Rightarrow> u64 \<Rightarrow> u64" where
  "put16 b d w = (w AND NOT (push_bit b 0xFFFF)) OR push_bit b (ucast d)"

definition store16 :: "nat \<Rightarrow> u16 \<Rightarrow> u64 list \<Rightarrow> u64 list" where
  "store16 off d ws = ws[off div 8 := put16 (8 * (off mod 8)) d (ws ! (off div 8))]"

lemma mask_16_64: "(0xFFFF :: u64) = mask 16"
  by (simp add: mask_eq_exp_minus_1)

lemmas layout_bits = bit_ucast_iff bit_drop_bit_eq bit_and_iff bit_or_iff bit_not_iff bit_push_bit_iff bit_mask_iff
  bit_of_bool_iff comp_apply

lemma not_bit_above: "LENGTH('a) \<le> n \<Longrightarrow> \<not> bit (w :: 'a::len word) n"
  by (auto dest: bit_imp_le_length)

lemma bit_put16:
  assumes "b + 16 \<le> 64"
  shows "bit (put16 b d w) n = (if b \<le> n \<and> n < b + 16 then bit d (n - b) else bit w n)"
proof (cases "n < 64")
  case True
  then show ?thesis using assms by (auto simp: put16_def mask_16_64 layout_bits not_bit_above)
qed (use assms in \<open>simp add: not_bit_above\<close>)

lemma put16_field:
  assumes "b + 16 \<le> 64" "k + LENGTH('a) \<le> b \<or> b + 16 \<le> k"
  shows "(ucast (drop_bit k (put16 b d w)) :: 'a::len word) = ucast (drop_bit k w)"
  using assms by (intro bit_word_eqI) (auto simp: bit_put16 layout_bits)

lemma put16_field_0:
  assumes "b + 16 \<le> 64" "LENGTH('a) \<le> b"
  shows "(ucast (put16 b d w) :: 'a::len word) = ucast w"
  using put16_field [of b 0] assms by simp

end
