(* ===== verification/IPA_IPv6CT.thy ===== *)
theory IPA_IPv6CT
  imports IPA_Mem IPA_Table_Lists IPA_Layout
begin

text \<open>
  IPv6 connection tracking of the IPA user space library
  (\<open>qcom/opensource/dataipa/ipanat/src/ipa_ipv6ct.c\<close>, \<open>inc/ipa_ipv6ct.h\<close>, \<open>inc/ipa_ipv6cti.h\<close>): the
  record of a connection and its layout, the hash, the functions of the record that the table
  calls, and the operations that create and delete the table, add and delete rules. The table's
  contract is shown for these records, and through it that adding and deleting rules refine
  updates of a map from indices to rules.
\<close>

section \<open>Rules and records\<close>

definition IPA_IPV6CT_MAX_TBLS :: u32 where "IPA_IPV6CT_MAX_TBLS = 1"

definition IPA_IPV6CT_RULE_FLAG_FIELD_OFFSET :: u32 where "IPA_IPV6CT_RULE_FLAG_FIELD_OFFSET = 34"

definition IPA_IPV6CT_RULE_NEXT_FIELD_OFFSET :: u32 where "IPA_IPV6CT_RULE_NEXT_FIELD_OFFSET = 40"

definition IPA_IPV6CT_RULE_PROTO_FIELD_OFFSET :: u32 where "IPA_IPV6CT_RULE_PROTO_FIELD_OFFSET = 38"

definition IPA_IPV6CT_INVALID_PROTO_FIELD_VALUE :: u16 where "IPA_IPV6CT_INVALID_PROTO_FIELD_VALUE = 0xFF00"

definition IPA_IPV6CT_INVALID_PROTO_FIELD_CMP :: u8 where "IPA_IPV6CT_INVALID_PROTO_FIELD_CMP = 0xFF"

lemmas ipv6ct_consts = IPA_IPV6CT_MAX_TBLS_def IPA_IPV6CT_RULE_FLAG_FIELD_OFFSET_def
  IPA_IPV6CT_RULE_NEXT_FIELD_OFFSET_def IPA_IPV6CT_RULE_PROTO_FIELD_OFFSET_def
  IPA_IPV6CT_INVALID_PROTO_FIELD_VALUE_def IPA_IPV6CT_INVALID_PROTO_FIELD_CMP_def

text \<open>The direction settings are an \<open>enum\<close>, so a caller can pass any 32-bit value.\<close>

definition IPA_IPV6CT_DIRECTION_DENY_ALL :: u32 where "IPA_IPV6CT_DIRECTION_DENY_ALL = 0"

definition IPA_IPV6CT_DIRECTION_ALLOW_OUT :: u32 where "IPA_IPV6CT_DIRECTION_ALLOW_OUT = 1"

definition IPA_IPV6CT_DIRECTION_ALLOW_IN :: u32 where "IPA_IPV6CT_DIRECTION_ALLOW_IN = 2"

definition IPA_IPV6CT_DIRECTION_ALLOW_ALL :: u32 where "IPA_IPV6CT_DIRECTION_ALLOW_ALL = 3"

lemmas direction_consts = IPA_IPV6CT_DIRECTION_DENY_ALL_def IPA_IPV6CT_DIRECTION_ALLOW_OUT_def
  IPA_IPV6CT_DIRECTION_ALLOW_IN_def IPA_IPV6CT_DIRECTION_ALLOW_ALL_def

record ipa_ipv6ct_rule =
  r_src_ipv6_lsb :: u64
  r_src_ipv6_msb :: u64
  r_dest_ipv6_lsb :: u64
  r_dest_ipv6_msb :: u64
  r_direction_settings :: u32
  r_ucp :: bool
  r_s :: bool
  r_uc_activation_index :: u16
  r_src_port :: u16
  r_dest_port :: u16
  r_protocol :: u8

text \<open>The record of the hardware, field by field with its bits; a field of one bit is a \<open>bool\<close>.\<close>

record ipa_ipv6ct_hw_entry =
  src_ipv6_lsb :: u64
  src_ipv6_msb :: u64
  dest_ipv6_lsb :: u64
  dest_ipv6_msb :: u64
  uc_activation_index :: "13 word"
  s_bit :: bool
  rsvd1 :: "16 word"
  redirect :: bool
  enable :: bool
  time_stamp :: "24 word"
  protocol :: u8
  ct_next_index :: u16
  dest_port :: u16
  src_port :: u16
  ucp :: bool
  rsvd2 :: "5 word"
  out_allowed :: bool
  in_allowed :: bool
  rsvd3 :: "8 word"
  rsvd4 :: "48 word"
  ct_prev_index :: u16
  rsvd5 :: u64

definition zero_ct_entry :: ipa_ipv6ct_hw_entry where
  "zero_ct_entry = \<lparr>src_ipv6_lsb = 0, src_ipv6_msb = 0, dest_ipv6_lsb = 0, dest_ipv6_msb = 0, uc_activation_index = 0,
     s_bit = False, rsvd1 = 0, redirect = False, enable = False, time_stamp = 0, protocol = 0, ct_next_index = 0,
     dest_port = 0, src_port = 0, ucp = False, rsvd2 = 0, out_allowed = False, in_allowed = False, rsvd3 = 0,
     rsvd4 = 0, ct_prev_index = 0, rsvd5 = 0\<rparr>"

text \<open>The layout: eight words of 64 bits, the first field of a word in its lowest bits.\<close>

definition hw_word_4 :: "ipa_ipv6ct_hw_entry \<Rightarrow> u64" where
  "hw_word_4 e =
     ucast (uc_activation_index e) OR push_bit 13 (of_bool (s_bit e)) OR push_bit 14 (ucast (rsvd1 e)) OR
     push_bit 30 (of_bool (redirect e)) OR push_bit 31 (of_bool (enable e)) OR push_bit 32 (ucast (time_stamp e)) OR
     push_bit 56 (ucast (protocol e))"

definition hw_word_5 :: "ipa_ipv6ct_hw_entry \<Rightarrow> u64" where
  "hw_word_5 e =
     ucast (ct_next_index e) OR push_bit 16 (ucast (dest_port e)) OR push_bit 32 (ucast (src_port e)) OR
     push_bit 48 (of_bool (ucp e)) OR push_bit 49 (ucast (rsvd2 e)) OR push_bit 54 (of_bool (out_allowed e)) OR
     push_bit 55 (of_bool (in_allowed e)) OR push_bit 56 (ucast (rsvd3 e))"

definition hw_word_6 :: "ipa_ipv6ct_hw_entry \<Rightarrow> u64" where
  "hw_word_6 e = ucast (rsvd4 e) OR push_bit 48 (ucast (ct_prev_index e))"

definition hw_words :: "ipa_ipv6ct_hw_entry \<Rightarrow> u64 list" where
  "hw_words e = [src_ipv6_lsb e, src_ipv6_msb e, dest_ipv6_lsb e, dest_ipv6_msb e,
     hw_word_4 e, hw_word_5 e, hw_word_6 e, rsvd5 e]"

definition hw_entry_of :: "u64 list \<Rightarrow> ipa_ipv6ct_hw_entry" where
  "hw_entry_of ws =
     \<lparr>src_ipv6_lsb = ws ! 0, src_ipv6_msb = ws ! 1, dest_ipv6_lsb = ws ! 2, dest_ipv6_msb = ws ! 3,
      uc_activation_index = ucast (ws ! 4), s_bit = bit (ws ! 4) 13, rsvd1 = ucast (drop_bit 14 (ws ! 4)),
      redirect = bit (ws ! 4) 30, enable = bit (ws ! 4) 31, time_stamp = ucast (drop_bit 32 (ws ! 4)),
      protocol = ucast (drop_bit 56 (ws ! 4)), ct_next_index = ucast (ws ! 5), dest_port = ucast (drop_bit 16 (ws ! 5)),
      src_port = ucast (drop_bit 32 (ws ! 5)), ucp = bit (ws ! 5) 48, rsvd2 = ucast (drop_bit 49 (ws ! 5)),
      out_allowed = bit (ws ! 5) 54, in_allowed = bit (ws ! 5) 55, rsvd3 = ucast (drop_bit 56 (ws ! 5)),
      rsvd4 = ucast (ws ! 6), ct_prev_index = ucast (drop_bit 48 (ws ! 6)), rsvd5 = ws ! 7\<rparr>"

lemma layout_word_4:
  "ucast (hw_word_4 e) = uc_activation_index e" "bit (hw_word_4 e) 13 = s_bit e"
  "ucast (drop_bit 14 (hw_word_4 e)) = rsvd1 e" "bit (hw_word_4 e) 30 = redirect e" "bit (hw_word_4 e) 31 = enable e"
  "ucast (drop_bit 32 (hw_word_4 e)) = time_stamp e" "ucast (drop_bit 56 (hw_word_4 e)) = protocol e"
  unfolding hw_word_4_def
  subgoal by (rule bit_word_eqI) (simp add: layout_bits not_bit_above)
  subgoal by (simp add: layout_bits not_bit_above)
  subgoal by (rule bit_word_eqI) (simp add: layout_bits not_bit_above)
  subgoal by (simp add: layout_bits not_bit_above)
  subgoal by (simp add: layout_bits not_bit_above)
  subgoal by (rule bit_word_eqI) (simp add: layout_bits not_bit_above)
  subgoal by (rule bit_word_eqI) (simp add: layout_bits not_bit_above)
  done

lemma layout_word_5:
  "ucast (hw_word_5 e) = ct_next_index e" "ucast (drop_bit 16 (hw_word_5 e)) = dest_port e"
  "ucast (drop_bit 32 (hw_word_5 e)) = src_port e" "bit (hw_word_5 e) 48 = ucp e"
  "ucast (drop_bit 49 (hw_word_5 e)) = rsvd2 e" "bit (hw_word_5 e) 54 = out_allowed e"
  "bit (hw_word_5 e) 55 = in_allowed e" "ucast (drop_bit 56 (hw_word_5 e)) = rsvd3 e"
  unfolding hw_word_5_def
  subgoal by (rule bit_word_eqI) (simp add: layout_bits not_bit_above)
  subgoal by (rule bit_word_eqI) (simp add: layout_bits not_bit_above)
  subgoal by (rule bit_word_eqI) (simp add: layout_bits not_bit_above)
  subgoal by (simp add: layout_bits not_bit_above)
  subgoal by (rule bit_word_eqI) (simp add: layout_bits not_bit_above)
  subgoal by (simp add: layout_bits not_bit_above)
  subgoal by (simp add: layout_bits not_bit_above)
  subgoal by (rule bit_word_eqI) (simp add: layout_bits not_bit_above)
  done

lemma layout_word_6:
  "ucast (hw_word_6 e) = rsvd4 e" "ucast (drop_bit 48 (hw_word_6 e)) = ct_prev_index e"
  unfolding hw_word_6_def by (rule bit_word_eqI, simp add: layout_bits not_bit_above)+

lemmas layout = layout_word_4 layout_word_5 layout_word_6

lemma hw_entry_of_hw_words [simp]: "hw_entry_of (hw_words e) = e"
  by (simp add: hw_entry_of_def hw_words_def layout)

text \<open>What the three stores of the library change.\<close>

lemma store16_flags:
  "hw_entry_of (store16 34 d (hw_words e)) =
     e\<lparr>rsvd1 := take_bit 2 (rsvd1 e) OR push_bit 2 (take_bit 14 d), redirect := bit d 14, enable := bit d 15\<rparr>"
proof -
  have "(ucast (drop_bit 14 (put16 16 d (hw_word_4 e))) :: u16) = take_bit 2 (rsvd1 e) OR push_bit 2 (take_bit 14 d)"
    unfolding layout_word_4(3) [symmetric]
    by (rule bit_word_eqI) (auto simp: bit_put16 layout_bits bit_take_bit_iff)
  then show ?thesis
    by (simp add: store16_def hw_words_def hw_entry_of_def put16_field put16_field_0 bit_put16 layout)
qed

lemma store16_next: "hw_entry_of (store16 40 d (hw_words e)) = e\<lparr>ct_next_index := d\<rparr>"
proof -
  have "(ucast (put16 0 d (hw_word_5 e)) :: u16) = d"
    by (rule bit_word_eqI) (simp add: bit_put16 layout_bits)
  then show ?thesis by (simp add: store16_def hw_words_def hw_entry_of_def put16_field bit_put16 layout)
qed

text \<open>The protocol shares its 16 bits with the highest byte of the time stamp.\<close>

lemma store16_protocol:
  "hw_entry_of (store16 38 d (hw_words e)) =
     e\<lparr>time_stamp := take_bit 16 (time_stamp e) OR push_bit 16 (ucast (take_bit 8 d)), protocol := ucast (drop_bit 8 d)\<rparr>"
proof -
  have "(ucast (drop_bit 56 (put16 48 d (hw_word_4 e))) :: u8) = ucast (drop_bit 8 d)"
    by (rule bit_word_eqI) (simp add: bit_put16 layout_bits)
  moreover have "(ucast (drop_bit 32 (put16 48 d (hw_word_4 e))) :: 24 word) =
      take_bit 16 (time_stamp e) OR push_bit 16 (ucast (take_bit 8 d))"
    unfolding layout_word_4(6) [symmetric]
    by (rule bit_word_eqI) (auto simp: bit_put16 layout_bits bit_take_bit_iff)
  ultimately show ?thesis
    by (simp add: store16_def hw_words_def hw_entry_of_def put16_field put16_field_0 bit_put16 layout)
qed

section \<open>The hash\<close>

function xor_segments_loop :: "u64 \<Rightarrow> u16 \<Rightarrow> u16" where
  "xor_segments_loop num ret =
     (if num = 0 then ret else xor_segments_loop (drop_bit 16 num) (ret XOR ucast (num AND 0xffff)))"
  by pat_completeness auto
termination
proof (relation "measure (\<lambda>(num, ret). unat num)", goal_cases)
  case (2 num ret)
  then have "0 < unat num" by (simp add: unat_gt_0)
  then show ?case by (simp add: drop_bit_eq_div unat_div)
qed simp

declare xor_segments_loop.simps [simp del]

definition ipa_ipv6ct_xor_segments :: "u64 \<Rightarrow> u16" where
  "ipa_ipv6ct_xor_segments num = xor_segments_loop num 0"

definition ipa_ipv6ct_hash :: "ipa_ipv6ct_rule \<Rightarrow> u16 \<Rightarrow> u16" where
  "ipa_ipv6ct_hash rule n =
     (let hash = 0 XOR ipa_ipv6ct_xor_segments (r_src_ipv6_lsb rule);
          hash = hash XOR ipa_ipv6ct_xor_segments (r_src_ipv6_msb rule);
          hash = hash XOR ipa_ipv6ct_xor_segments (r_dest_ipv6_lsb rule);
          hash = hash XOR ipa_ipv6ct_xor_segments (r_dest_ipv6_msb rule);
          hash = hash XOR r_src_port rule;
          hash = hash XOR r_dest_port rule;
          hash = hash XOR ucast (r_protocol rule);
          hash = hash AND n
      in if hash = 0 then n else hash)"

lemma xor_segments_eq:
  "xor_segments_loop num ret =
     ret XOR ucast num XOR ucast (drop_bit 16 num) XOR ucast (drop_bit 32 num) XOR ucast (drop_bit 48 num)"
proof -
  have seg: "(ucast (w AND 0xffff) :: u16) = ucast w" for w :: u64
    by (rule bit_word_eqI) (simp add: mask_16_64 layout_bits)
  have end_: "drop_bit 16 (drop_bit 16 (drop_bit 16 (drop_bit 16 num))) = 0"
    by (rule bit_word_eqI) (simp add: layout_bits not_bit_above)
  have step: "xor_segments_loop w r = xor_segments_loop (drop_bit 16 w) (r XOR ucast w)" for w r
    by (cases "w = 0") (simp_all add: xor_segments_loop.simps seg)
  show ?thesis
    unfolding step [of num] step [of "drop_bit 16 num"] step [of "drop_bit 16 (drop_bit 16 num)"]
      step [of "drop_bit 16 (drop_bit 16 (drop_bit 16 num))"] end_
    by (simp add: xor_segments_loop.simps xor.assoc)
qed

lemma hash_slot:
  assumes "n \<noteq> 0"
  shows "ipa_ipv6ct_hash rule n \<noteq> 0" "ipa_ipv6ct_hash rule n \<le> n"
  using assms by (auto simp: ipa_ipv6ct_hash_def Let_def word_and_le1)

section \<open>The functions of the record\<close>

definition table_entry_is_valid :: "ipa_ipv6ct_hw_entry \<Rightarrow> bool" where
  "table_entry_is_valid entry = enable entry"

definition table_entry_get_next_index :: "ipa_ipv6ct_hw_entry \<Rightarrow> u16" where
  "table_entry_get_next_index entry = ct_next_index entry"

definition table_entry_get_prev_index :: "ipa_ipv6ct_hw_entry \<Rightarrow> u16 \<Rightarrow> unit option \<Rightarrow> u16 \<Rightarrow> u16" where
  "table_entry_get_prev_index entry entry_index meta_data base_table_size = ct_prev_index entry"

definition table_entry_set_prev_index ::
  "ipa_ipv6ct_hw_entry \<Rightarrow> u16 \<Rightarrow> u16 \<Rightarrow> unit option \<Rightarrow> u16 \<Rightarrow> ipa_ipv6ct_hw_entry \<times> unit option" where
  "table_entry_set_prev_index entry entry_index prev meta_data base_table_size =
     (entry\<lparr>ct_prev_index := prev\<rparr>, meta_data)"

definition table_entry_copy_from_user ::
  "ipa_ipv6ct_hw_entry \<Rightarrow> ipa_ipv6ct_rule \<Rightarrow> unit result \<times> ipa_ipv6ct_hw_entry" where
  "table_entry_copy_from_user entry user_rule =
     (let entry = entry\<lparr>src_ipv6_lsb := r_src_ipv6_lsb user_rule, src_ipv6_msb := r_src_ipv6_msb user_rule,
            dest_ipv6_lsb := r_dest_ipv6_lsb user_rule, dest_ipv6_msb := r_dest_ipv6_msb user_rule,
            protocol := r_protocol user_rule, src_port := r_src_port user_rule, dest_port := r_dest_port user_rule,
            ucp := r_ucp user_rule, uc_activation_index := ucast (r_uc_activation_index user_rule),
            s_bit := r_s user_rule\<rparr>;
          dir = r_direction_settings user_rule
      in if dir = IPA_IPV6CT_DIRECTION_DENY_ALL then (Inr (), entry)
         else if dir = IPA_IPV6CT_DIRECTION_ALLOW_OUT then (Inr (), entry\<lparr>out_allowed := True\<rparr>)
         else if dir = IPA_IPV6CT_DIRECTION_ALLOW_IN then (Inr (), entry\<lparr>in_allowed := True\<rparr>)
         else if dir = IPA_IPV6CT_DIRECTION_ALLOW_ALL then (Inr (), entry\<lparr>out_allowed := True, in_allowed := True\<rparr>)
         else (Inl EINVAL, entry))"

text \<open>The flags of the command: only the enable bit, the highest of the 16, is set.\<close>

definition table_entry_head_insert ::
  "ipa_ipv6ct_hw_entry \<Rightarrow> ipa_ipv6ct_rule \<Rightarrow> u16 result \<times> ipa_ipv6ct_hw_entry" where
  "table_entry_head_insert entry user_data =
     (case table_entry_copy_from_user entry user_data of
        (Inl err, entry) \<Rightarrow> (Inl err, entry)
      | (Inr _, entry) \<Rightarrow> (Inr (set_bit 15 0), entry))"

definition table_entry_tail_insert ::
  "ipa_ipv6ct_hw_entry \<Rightarrow> ipa_ipv6ct_rule \<Rightarrow> unit result \<times> ipa_ipv6ct_hw_entry" where
  "table_entry_tail_insert entry user_data =
     (case table_entry_copy_from_user entry user_data of
        (Inl err, entry) \<Rightarrow> (Inl err, entry)
      | (Inr _, entry) \<Rightarrow> (Inr (), entry\<lparr>enable := True\<rparr>))"

definition table_entry_get_delete_head_dma_command_data :: "ipa_ipv6ct_hw_entry \<Rightarrow> ipa_ipv6ct_hw_entry \<Rightarrow> u16" where
  "table_entry_get_delete_head_dma_command_data head next_rec = IPA_IPV6CT_INVALID_PROTO_FIELD_VALUE"

definition ct_entry_interface :: "(ipa_ipv6ct_hw_entry, unit, ipa_ipv6ct_rule) ipa_table_entry_interface" where
  "ct_entry_interface = \<lparr>entry_is_valid = table_entry_is_valid, entry_get_next_index = table_entry_get_next_index,
     entry_get_prev_index = table_entry_get_prev_index, entry_set_prev_index = table_entry_set_prev_index,
     entry_head_insert = table_entry_head_insert, entry_tail_insert = table_entry_tail_insert,
     entry_get_delete_head_dma_command_data = table_entry_get_delete_head_dma_command_data\<rparr>"

lemmas ct_entry_defs = ct_entry_interface_def table_entry_is_valid_def table_entry_get_next_index_def
  table_entry_get_prev_index_def table_entry_set_prev_index_def table_entry_head_insert_def
  table_entry_get_delete_head_dma_command_data_def

section \<open>The hardware\<close>

text \<open>The command that tells the driver and the hardware where the tables are
  (\<open>struct ipa_ioc_ipv6ct_init\<close>).\<close>

record ipa_ioc_ipv6ct_init =
  ini_base_table_offset :: u32
  ini_expn_table_offset :: u32
  ini_tbl_index :: u8
  ini_table_entries :: u16
  ini_expn_table_entries :: u16

text \<open>
  The hardware that carries out a DMA command on the memory of the two tables is an argument, and
  so is what it does for each command. What the library relies on: a command names the table and
  the offset of 16 bits in it, as the offsets of the init command place the tables, and the
  hardware stores the data there.
\<close>

type_synonym ct_engine =
  "ipa_ioc_ipv6ct_init \<Rightarrow> ipa_ioc_nat_dma_one \<Rightarrow> ipa_ipv6ct_hw_entry list \<Rightarrow> ipa_ipv6ct_hw_entry list"

definition ct_table_start :: "ipa_ioc_ipv6ct_init \<Rightarrow> ipa_table_dma_type \<Rightarrow> int" where
  "ct_table_start ini which =
     (if which = IPA_IPV6CT_EXPN_TBL then uint (ini_expn_table_offset ini) - uint (ini_base_table_offset ini) else 0)"

definition dma_engine :: "ct_engine \<Rightarrow> bool" where
  "dma_engine engine \<longleftrightarrow> (\<forall>ini one rs k off.
     dma_base_addr one \<in> {IPA_IPV6CT_BASE_TBL, IPA_IPV6CT_EXPN_TBL} \<and> k < length rs \<and> off < 64 \<and> even off \<and>
     ct_table_start ini (dma_base_addr one) + uint (dma_offset one) = 64 * int k + int off \<longrightarrow>
     engine ini one rs = rs[k := hw_entry_of (store16 off (dma_data one) (hw_words (rs ! k)))])"

text \<open>Hardware that does so.\<close>

definition simple_engine :: ct_engine where
  "simple_engine ini one rs =
     (let pos = nat (ct_table_start ini (dma_base_addr one) + uint (dma_offset one)); k = pos div 64
      in rs[k := hw_entry_of (store16 (pos mod 64) (dma_data one) (hw_words (rs ! k)))])"

lemma dma_engine_simple: "dma_engine simple_engine"
proof -
  have "simple_engine ini one rs = rs[k := hw_entry_of (store16 off (dma_data one) (hw_words (rs ! k)))]"
    if "off < 64" "ct_table_start ini (dma_base_addr one) + uint (dma_offset one) = 64 * int k + int off"
    for ini one rs k off
  proof -
    have "nat (64 * int k + int off) = 64 * k + off" by (simp add: nat_add_distrib nat_mult_distrib)
    then show ?thesis using that by (simp add: simple_engine_def Let_def)
  qed
  then show ?thesis unfolding dma_engine_def by blast
qed

section \<open>The table and its records\<close>

type_synonym ct_table = "(ipa_ipv6ct_hw_entry, unit, ipa_ipv6ct_rule) ipa_table"

datatype ipa_ipv6ct_table_dma_cmd_type =
  IPA_IPV6CT_TABLE_FLAGS | IPA_IPV6CT_TABLE_NEXT_INDEX | IPA_IPV6CT_TABLE_PROTOCOL

record ipa_ipv6ct_table =
  mem_desc :: ipa_mem_descriptor
  ct_tbl :: ct_table
  table_dma_cmd_helpers :: "ipa_ipv6ct_table_dma_cmd_type \<Rightarrow> ipa_table_dma_cmd_helper"

text \<open>The rule that a record holds, and the rule as it is stored: the index of the activation entry
  has 13 bits.\<close>

definition rule_of_entry :: "ipa_ipv6ct_hw_entry \<Rightarrow> ipa_ipv6ct_rule" where
  "rule_of_entry e =
     \<lparr>r_src_ipv6_lsb = src_ipv6_lsb e, r_src_ipv6_msb = src_ipv6_msb e, r_dest_ipv6_lsb = dest_ipv6_lsb e,
      r_dest_ipv6_msb = dest_ipv6_msb e,
      r_direction_settings = (if out_allowed e then 1 else 0) + (if in_allowed e then 2 else 0),
      r_ucp = ucp e, r_s = s_bit e, r_uc_activation_index = ucast (uc_activation_index e), r_src_port = src_port e,
      r_dest_port = dest_port e, r_protocol = protocol e\<rparr>"

definition stored_rule :: "ipa_ipv6ct_rule \<Rightarrow> ipa_ipv6ct_rule" where
  "stored_rule u = u\<lparr>r_uc_activation_index := take_bit 13 (r_uc_activation_index u)\<rparr>"

definition ct_view :: "u16 \<Rightarrow> ipa_ipv6ct_hw_entry node_view" where
  "ct_view n = \<lparr>n_valid = enable, n_pv = ct_prev_index, n_nx = ct_next_index,
     n_fresh = (\<lambda>e. \<not> enable e \<and> ct_next_index e = 0 \<and> ct_prev_index e = 0 \<and> \<not> out_allowed e \<and> \<not> in_allowed e),
     n_dead = (\<lambda>e. protocol e = IPA_IPV6CT_INVALID_PROTO_FIELD_CMP), n_hash = (\<lambda>e. ipa_ipv6ct_hash (rule_of_entry e) n)\<rparr>"

text \<open>The field that each kind of command changes.\<close>

definition field_offset :: "dma_help_type \<Rightarrow> u32" where
  "field_offset ht = (case ht of HELP_UPDATE_HEAD \<Rightarrow> IPA_IPV6CT_RULE_FLAG_FIELD_OFFSET
     | HELP_UPDATE_ENTRY \<Rightarrow> IPA_IPV6CT_RULE_NEXT_FIELD_OFFSET | HELP_DELETE_HEAD \<Rightarrow> IPA_IPV6CT_RULE_PROTO_FIELD_OFFSET)"

definition ct_set_field :: "dma_help_type \<Rightarrow> u16 \<Rightarrow> ipa_ipv6ct_hw_entry \<Rightarrow> ipa_ipv6ct_hw_entry" where
  "ct_set_field ht d e = hw_entry_of (store16 (unat (field_offset ht)) d (hw_words e))"

lemma ct_set_field_simps:
  "ct_set_field HELP_UPDATE_HEAD d e =
     e\<lparr>rsvd1 := take_bit 2 (rsvd1 e) OR push_bit 2 (take_bit 14 d), redirect := bit d 14, enable := bit d 15\<rparr>"
  "ct_set_field HELP_UPDATE_ENTRY d e = e\<lparr>ct_next_index := d\<rparr>"
  "ct_set_field HELP_DELETE_HEAD d e =
     e\<lparr>time_stamp := take_bit 16 (time_stamp e) OR push_bit 16 (ucast (take_bit 8 d)), protocol := ucast (drop_bit 8 d)\<rparr>"
  by (simp_all add: ct_set_field_def field_offset_def ipv6ct_consts store16_flags store16_next store16_protocol)

text \<open>A table that was set up for these records, as the init command described it to the hardware.\<close>

definition ct_prepared :: "ct_engine \<Rightarrow> ipa_ioc_ipv6ct_init \<Rightarrow> ct_table \<Rightarrow> bool" where
  "ct_prepared engine ini t \<longleftrightarrow> dma_engine engine \<and> entry_interface t = ct_entry_interface \<and> zero_rec t = zero_ct_entry \<and>
     entry_size t = 64 \<and> expn_table_addr t = table_addr t + 64 * uint (table_entries t) \<and>
     uint (ini_expn_table_offset ini) = uint (ini_base_table_offset ini) + 64 * uint (table_entries t) \<and>
     (\<forall>ht. dh_offset (dma_help t ht) = field_offset ht \<and> dh_table_type (dma_help t ht) = IPA_IPV6CT_BASE_TBL \<and>
        dh_expn_table_type (dma_help t ht) = IPA_IPV6CT_EXPN_TBL)"

lemma unat_field_offset: "unat (field_offset ht) < 64" "even (unat (field_offset ht))"
  by (cases ht; simp add: field_offset_def ipv6ct_consts)+

text \<open>A command for a record reaches that record, in the base table and in the expansion table.\<close>

lemma ct_dma:
  assumes p: "ct_prepared engine ini t" and ok: "sizes_ok t" and len: "length rs = unat (tot_tbl_ents t)"
    and i: "unat i < unat (tot_tbl_ents t)"
  shows "engine ini (cmd_one t ht i d) rs = rs[unat i := ct_set_field ht d (rs ! unat i)]"
proof -
  let ?one = "cmd_one t ht i d"
  let ?x = "table_entries t \<le> i"
  have P: "entry_size t = 64" "expn_table_addr t = table_addr t + 64 * uint (table_entries t)"
    "uint (ini_expn_table_offset ini) = uint (ini_base_table_offset ini) + 64 * uint (table_entries t)"
    "dh_offset (dma_help t ht) = field_offset ht" "dh_table_type (dma_help t ht) = IPA_IPV6CT_BASE_TBL"
    "dh_expn_table_type (dma_help t ht) = IPA_IPV6CT_EXPN_TBL" "dma_engine engine"
    using p by (auto simp: ct_prepared_def)
  have lt: "uint i < uint (table_entries t) + uint (expn_table_entries t)"
  proof -
    have "int (unat i) < int (unat (table_entries t) + unat (expn_table_entries t))"
      using i sizes_okD(5) [OF ok] by (simp only: of_nat_less_iff)
    then show ?thesis by simp
  qed
  define off where "off = (if ?x then uint i - uint (table_entries t) else uint i)"
  have one: "?one = \<lparr>dma_table_index = dh_table_indx (dma_help t ht),
      dma_base_addr = (if ?x then IPA_IPV6CT_EXPN_TBL else IPA_IPV6CT_BASE_TBL),
      dma_offset = field_offset ht + of_int (64 * off), dma_data = d\<rparr>"
    using lt P by (simp add: cmd_one_def ipa_table_add_dma_cmd_def ipa_table_dma_cmd_generate_def GOTO_REC_def Let_def
        off_def algebra_simps)
  have "0 \<le> off \<and> off < 2 ^ 16"
  proof (cases ?x)
    case True
    then have "uint (table_entries t) \<le> uint i" "uint i < 2 ^ 16" "0 \<le> uint (table_entries t)"
      using unsigned_less [of i] by (simp_all add: word_le_def)
    then show ?thesis unfolding off_def using True by (simp only: if_True) linarith
  qed (use unsigned_less [of i] in \<open>simp add: off_def\<close>)
  then have "0 \<le> off" "off < 2 ^ 16" by simp_all
  then have "take_bit 32 (64 * off) = 64 * off" by (intro take_bit_int_eq_self) simp_all
  then have "uint (of_int (64 * off) :: u32) = 64 * off" by (simp only: uint_word_of_int_eq) simp
  moreover have "uint (field_offset ht) < 64" by (cases ht) (simp_all add: field_offset_def ipv6ct_consts)
  ultimately have pos: "uint (field_offset ht + of_int (64 * off)) = uint (field_offset ht) + 64 * off"
    using \<open>off < 2 ^ 16\<close> by (simp add: uint_add_lem [THEN iffD1])
  have "ct_table_start ini (dma_base_addr ?one) + uint (dma_offset ?one) = 64 * int (unat i) + int (unat (field_offset ht))"
    using P(3) pos by (simp add: one ct_table_start_def off_def)
  then show ?thesis
    using P(7) [unfolded dma_engine_def, rule_format, of ?one "unat i" rs "unat (field_offset ht)" ini] len i unat_field_offset [of ht]
    by (simp add: one ct_set_field_def)
qed

definition direction_ok :: "ipa_ipv6ct_rule \<Rightarrow> bool" where
  "direction_ok u \<longleftrightarrow> r_direction_settings u \<le> IPA_IPV6CT_DIRECTION_ALLOW_ALL"

definition protocol_ok :: "ipa_ipv6ct_rule \<Rightarrow> bool" where
  "protocol_ok u \<longleftrightarrow> r_protocol u \<noteq> IPA_IPV6CT_INVALID_PROTO_FIELD_CMP"

lemma direction_cases: "direction_ok u \<longleftrightarrow> r_direction_settings u \<in> {0, 1, 2, 3}"
proof -
  have "unat x \<le> 3 \<longleftrightarrow> x \<in> {0, 1, 2, 3}" for x :: u32
  proof -
    have "unat x \<le> 3 \<longleftrightarrow> unat x = 0 \<or> unat x = 1 \<or> unat x = 2 \<or> unat x = 3" by linarith
    then show ?thesis by (simp add: word_unat_eq_iff [of x 0] word_unat_eq_iff [of x 1] word_unat_eq_iff [of x 2] word_unat_eq_iff [of x 3])
  qed
  then show ?thesis by (simp add: direction_ok_def direction_consts word_le_nat_alt)
qed

lemma ucast_take_13: "(ucast (ucast (x :: u16) :: 13 word) :: u16) = take_bit 13 x"
  by (rule bit_word_eqI) (auto simp: layout_bits bit_take_bit_iff)

lemma copy_from_user_fails:
  "\<not> direction_ok u \<Longrightarrow> \<exists>e'. table_entry_copy_from_user e u = (Inl EINVAL, e') \<and> enable e' = enable e \<and>
     ct_next_index e' = ct_next_index e \<and> ct_prev_index e' = ct_prev_index e \<and> out_allowed e' = out_allowed e \<and>
     in_allowed e' = in_allowed e"
  by (simp add: direction_cases table_entry_copy_from_user_def direction_consts)

lemma copy_from_user_ok:
  assumes "direction_ok u" "\<not> out_allowed e" "\<not> in_allowed e"
  shows "\<exists>e'. table_entry_copy_from_user e u = (Inr (), e') \<and> rule_of_entry e' = stored_rule u \<and> enable e' = enable e \<and>
    ct_next_index e' = ct_next_index e \<and> ct_prev_index e' = ct_prev_index e \<and> protocol e' = r_protocol u"
proof -
  note defs = table_entry_copy_from_user_def direction_consts rule_of_entry_def stored_rule_def ucast_take_13
  consider "r_direction_settings u = 0" | "r_direction_settings u = 1" | "r_direction_settings u = 2" | "r_direction_settings u = 3"
    using assms(1) by (auto simp: direction_cases)
  then show ?thesis using assms(2,3) by cases (cases u; simp add: defs Let_def)+
qed

interpretation ct: ipa_records ct_entry_interface zero_ct_entry "ct_view n" "engine ini" "ct_prepared engine ini" ct_set_field
  direction_ok protocol_ok rule_of_entry stored_rule "\<lambda>r. ipa_ipv6ct_hash r n" for n engine ini
proof (unfold_locales, goal_cases)
  case (5 t)
  then show ?case by (simp add: ct_prepared_def)
next
  case (6 t t')
  then show ?case by (simp add: ct_prepared_def same_setup_def)
next
  case (7 t rs i help_type d)
  then show ?case by (rule ct_dma)
next
  case (11 e u)
  then show ?case
    using copy_from_user_fails [of u e] by (auto simp: ct_view_def ct_entry_defs)
next
  case (12 e u)
  then show ?case
    using copy_from_user_ok [of u e]
    by (auto simp: ct_view_def ct_entry_defs ct_set_field_simps protocol_ok_def bit_simps)
qed (auto simp: ct_view_def ct_entry_defs ct_set_field_simps zero_ct_entry_def rule_of_entry_def same_node_def ipv6ct_consts)

section \<open>The tables of the library\<close>

text \<open>The file's static state, and the init command that the hardware was given last.\<close>

record ipa_ipv6ct =
  ct_ipa_desc :: "ipa_descriptor option"
  ct_tables :: "ipa_ipv6ct_table list"
  ct_table_cnt :: u8
  ct_hw :: "ipa_ioc_ipv6ct_init option"

text \<open>Memory set to 0. A table that is not valid is not looked at, so its interface and the requests of
  its descriptor do not matter.\<close>

definition zero_ct_table :: ipa_ipv6ct_table where
  "zero_ct_table = \<lparr>mem_desc = zero_mem_desc,
     ct_tbl = ipa_table_init zero_ct_entry [] IPA_NAT_MEM_IN_DDR 0 None 0 ct_entry_interface (\<lambda>_. zero_helper),
     table_dma_cmd_helpers = (\<lambda>_. zero_helper)\<rparr>"

definition ct_start :: ipa_ipv6ct where
  "ct_start = \<lparr>ct_ipa_desc = None, ct_tables = [zero_ct_table], ct_table_cnt = 0, ct_hw = None\<rparr>"

definition ipa_ipv6ct_create_table_dma_cmd_helpers :: "ipa_ipv6ct_table \<Rightarrow> u8 \<Rightarrow> ipa_ipv6ct_table" where
  "ipa_ipv6ct_create_table_dma_cmd_helpers ct table_indx =
     (let helper = (\<lambda>field. ipa_table_dma_cmd_helper_init table_indx IPA_IPV6CT_BASE_TBL IPA_IPV6CT_EXPN_TBL
                      (addr_offset (mem_desc ct) + field));
          helpers = (\<lambda>c. case c of
              IPA_IPV6CT_TABLE_FLAGS \<Rightarrow> helper IPA_IPV6CT_RULE_FLAG_FIELD_OFFSET
            | IPA_IPV6CT_TABLE_NEXT_INDEX \<Rightarrow> helper IPA_IPV6CT_RULE_NEXT_FIELD_OFFSET
            | IPA_IPV6CT_TABLE_PROTOCOL \<Rightarrow> helper IPA_IPV6CT_RULE_PROTO_FIELD_OFFSET)
      in ct\<lparr>table_dma_cmd_helpers := helpers,
            ct_tbl := (ct_tbl ct)\<lparr>dma_help := (\<lambda>ht. case ht of
              HELP_UPDATE_HEAD \<Rightarrow> helpers IPA_IPV6CT_TABLE_FLAGS
            | HELP_UPDATE_ENTRY \<Rightarrow> helpers IPA_IPV6CT_TABLE_NEXT_INDEX
            | HELP_DELETE_HEAD \<Rightarrow> helpers IPA_IPV6CT_TABLE_PROTOCOL)\<rparr>\<rparr>)"

definition ipa_ipv6ct_create_table ::
  "ipa_header \<Rightarrow> sys \<Rightarrow> ipa_ipv6ct_table \<Rightarrow> u16 \<Rightarrow> u8 \<Rightarrow> unit result \<times> ipa_ipv6ct_table" where
  "ipa_ipv6ct_create_table hdr os ct number_of_entries index =
     (let t = ipa_table_init zero_ct_entry ''IPA IPv6CT table'' IPA_NAT_MEM_IN_DDR 64 None 0 ct_entry_interface (\<lambda>_. zero_helper)
      in case ipa_table_calculate_entries_num t number_of_entries IPA_NAT_MEM_IN_DDR of
           (Inl err, t) \<Rightarrow> (Inl err, ct\<lparr>ct_tbl := t\<rparr>)
         | (Inr _, t) \<Rightarrow>
             let desc = ipa_mem_descriptor_init hdr (mem_desc ct) (hdr_IPA_IPV6CT_DEV_NAME hdr)
                          (ipa_table_calculate_size t) index IPA_IOC_ALLOC_IPV6CT_TABLE IPA_IOC_DEL_IPV6CT_TABLE False
             in case ipa_mem_descriptor_allocate_memory hdr os desc of
                  (Inl err, _) \<Rightarrow> (Inl err, zero_ct_table)
                | (Inr _, desc) \<Rightarrow>
                    let t = ipa_table_reset (snd (ipa_table_calculate_addresses t (base_addr desc)))
                    in (Inr (), ipa_ipv6ct_create_table_dma_cmd_helpers (ct\<lparr>mem_desc := desc, ct_tbl := t\<rparr>) index))"

text \<open>The table is cleared even when the kernel does not delete it.\<close>

definition ipa_ipv6ct_destroy_table :: "sys \<Rightarrow> ipa_ipv6ct_table \<Rightarrow> unit result \<times> ipa_ipv6ct_table" where
  "ipa_ipv6ct_destroy_table os ct = (fst (ipa_mem_descriptor_delete os (mem_desc ct)), zero_ct_table)"

definition ct_init_cmd :: "ipa_ipv6ct_table \<Rightarrow> u8 \<Rightarrow> ipa_ioc_ipv6ct_init" where
  "ct_init_cmd ct tbl_index =
     (let base = addr_offset (mem_desc ct)
      in \<lparr>ini_base_table_offset = base, ini_expn_table_offset = base + ucast (table_entries (ct_tbl ct)) * 64,
          ini_tbl_index = tbl_index, ini_table_entries = table_entries (ct_tbl ct) - 1,
          ini_expn_table_entries = expn_table_entries (ct_tbl ct)\<rparr>)"

definition ipa_ipv6ct_post_init_cmd :: "sys \<Rightarrow> ipa_ipv6ct_table \<Rightarrow> u8 \<Rightarrow> ipa_ipv6ct \<Rightarrow> unit result \<times> ipa_ipv6ct" where
  "ipa_ipv6ct_post_init_cmd os ct tbl_index s =
     (if init_table_ok os then (Inr (), s\<lparr>ct_hw := Some (ct_init_cmd ct tbl_index)\<rparr>) else (Inl EFAIL, s))"

text \<open>A command that the driver refuses is not carried out.\<close>

definition ipa_ipv6ct_post_dma_cmd ::
  "ct_engine \<Rightarrow> sys \<Rightarrow> ipa_ipv6ct \<Rightarrow> ipa_ioc_nat_dma_one list \<Rightarrow> ct_table \<Rightarrow> unit result \<times> ct_table" where
  "ipa_ipv6ct_post_dma_cmd engine os s cmd t =
     (if dma_cmd_ok os
      then (Inr (), case ct_hw s of None \<Rightarrow> t | Some ini \<Rightarrow> post_cmd (engine ini) cmd t)
      else (Inl EIO, t))"

section \<open>The operations\<close>

definition ct_close_unused :: "ipa_ipv6ct \<Rightarrow> ipa_ipv6ct" where
  "ct_close_unused s = (if ct_table_cnt s = 0 then s\<lparr>ct_ipa_desc := None\<rparr> else s)"

definition ct_set_table :: "nat \<Rightarrow> ipa_ipv6ct_table \<Rightarrow> ipa_ipv6ct \<Rightarrow> ipa_ipv6ct" where
  "ct_set_table i ct s = s\<lparr>ct_tables := (ct_tables s)[i := ct]\<rparr>"

text \<open>\<open>table_handle\<close> says whether the caller passed a pointer for the handle.\<close>

definition ipa_ipv6ct_add_tbl :: "ipa_header \<Rightarrow> sys \<Rightarrow> u16 \<Rightarrow> bool \<Rightarrow> ipa_ipv6ct \<Rightarrow> u32 result \<times> ipa_ipv6ct" where
  "ipa_ipv6ct_add_tbl hdr os number_of_entries table_handle s =
     (if \<not> table_handle \<or> number_of_entries = 0 then (Inl EINVAL, s)
      else if IPA_IPV6CT_MAX_TBLS \<le> ucast (ct_table_cnt s) then (Inl EINVAL, s)
      else
        let s = (if ct_ipa_desc s = None then s\<lparr>ct_ipa_desc := ipa_descriptor_open hdr os\<rparr> else s) in
        case ct_ipa_desc s of
          None \<Rightarrow> (Inl EIO, s)
        | Some desc \<Rightarrow>
            if desc_ver desc < hdr_IPA_HW_v4_0 hdr then (Inl EPERM, ct_close_unused s)
            else
              let i = unat (ct_table_cnt s) in
              (case ipa_ipv6ct_create_table hdr os (ct_tables s ! i) number_of_entries (ct_table_cnt s) of
                 (Inl err, ct) \<Rightarrow> (Inl err, ct_close_unused (ct_set_table i ct s))
               | (Inr _, ct) \<Rightarrow>
                   let s = ct_set_table i ct s in
                   (case ipa_ipv6ct_post_init_cmd os ct (ct_table_cnt s) s of
                      (Inl err, s) \<Rightarrow> (Inl err, ct_close_unused (ct_set_table i (snd (ipa_ipv6ct_destroy_table os ct)) s))
                    | (Inr _, s) \<Rightarrow>
                        let cnt = ct_table_cnt s + 1 in (Inr (ucast cnt), s\<lparr>ct_table_cnt := cnt\<rparr>))))"

definition bad_table_handle :: "u32 \<Rightarrow> bool" where
  "bad_table_handle table_handle \<longleftrightarrow> table_handle = ucast IPA_TABLE_INVALID_ENTRY \<or> IPA_IPV6CT_MAX_TBLS < table_handle"

definition ipa_ipv6ct_del_tbl :: "ipa_header \<Rightarrow> sys \<Rightarrow> u32 \<Rightarrow> ipa_ipv6ct \<Rightarrow> unit result \<times> ipa_ipv6ct" where
  "ipa_ipv6ct_del_tbl hdr os table_handle s =
     (case ct_ipa_desc s of
        None \<Rightarrow> (Inl CRASH, s)
      | Some desc \<Rightarrow>
          if desc_ver desc < hdr_IPA_HW_v4_0 hdr then (Inl EINVAL, s)
          else if bad_table_handle table_handle then (Inl EINVAL, s)
          else if \<not> lock_ok os then (Inl EINVAL, s)
          else
            let i = unat (table_handle - 1); ct = ct_tables s ! i in
            if \<not> md_valid (mem_desc ct) then (mutex_unlock os (Inl EINVAL), s)
            else
              let (ret, ct) = ipa_ipv6ct_destroy_table os ct; s = ct_set_table i ct s in
              if \<not> is_ok ret then (mutex_unlock os ret, s)
              else (mutex_unlock os ret, ct_close_unused (s\<lparr>ct_table_cnt := ct_table_cnt s - 1\<rparr>)))"

text \<open>\<open>user_rule\<close> is \<open>None\<close> for a null pointer, \<open>rule_handle\<close> says whether there is a pointer for the
  handle. \<open>None\<close> is a call that does not return.\<close>

definition ipa_ipv6ct_add_rule ::
  "ipa_header \<Rightarrow> ct_engine \<Rightarrow> sys \<Rightarrow> u32 \<Rightarrow> ipa_ipv6ct_rule option \<Rightarrow> bool \<Rightarrow> ipa_ipv6ct \<Rightarrow>
   (u32 result \<times> ipa_ipv6ct) option" where
  "ipa_ipv6ct_add_rule hdr engine os table_handle user_rule rule_handle s =
     (case ct_ipa_desc s of
        None \<Rightarrow> Some (Inl CRASH, s)
      | Some desc \<Rightarrow>
          if desc_ver desc < hdr_IPA_HW_v4_0 hdr then Some (Inl EINVAL, s)
          else if bad_table_handle table_handle \<or> \<not> rule_handle \<or> user_rule = None then Some (Inl EINVAL, s)
          else
            let u = the user_rule in
            if r_protocol u = IPA_IPV6CT_INVALID_PROTO_FIELD_CMP then Some (Inl EINVAL, s)
            else if \<not> lock_ok os then Some (Inl EINVAL, s)
            else
              let i = unat (table_handle - 1); ct = ct_tables s ! i; t = ct_tbl ct in
              if \<not> md_valid (mem_desc ct) then Some (Inl EINVAL, s)
              else
                do {
                  (ret, cmd, t) \<leftarrow> ipa_table_add_entry t u (ipa_ipv6ct_hash u (table_entries t - 1)) [];
                  Some (case ret of
                      Inl err \<Rightarrow> (Inl err, ct_set_table i (ct\<lparr>ct_tbl := t\<rparr>) s)
                    | Inr (new_entry_index, new_entry_handle) \<Rightarrow>
                        (case ipa_ipv6ct_post_dma_cmd engine os s cmd t of
                           (Inl err, t) \<Rightarrow>
                             (Inl err, ct_set_table i (ct\<lparr>ct_tbl := ipa_table_erase_entry t new_entry_index\<rparr>) s)
                         | (Inr _, t) \<Rightarrow>
                             (mutex_unlock os (Inr new_entry_handle), ct_set_table i (ct\<lparr>ct_tbl := t\<rparr>) s)))
                })"

definition ipa_ipv6ct_del_rule ::
  "ipa_header \<Rightarrow> ct_engine \<Rightarrow> sys \<Rightarrow> u32 \<Rightarrow> u32 \<Rightarrow> ipa_ipv6ct \<Rightarrow> unit result \<times> ipa_ipv6ct" where
  "ipa_ipv6ct_del_rule hdr engine os table_handle rule_handle s =
     (case ct_ipa_desc s of
        None \<Rightarrow> (Inl CRASH, s)
      | Some desc \<Rightarrow>
          if desc_ver desc < hdr_IPA_HW_v4_0 hdr then (Inl EINVAL, s)
          else if bad_table_handle table_handle \<or> rule_handle = ucast IPA_TABLE_INVALID_ENTRY then (Inl EINVAL, s)
          else if \<not> lock_ok os then (Inl EINVAL, s)
          else
            let i = unat (table_handle - 1); ct = ct_tables s ! i; t = ct_tbl ct in
            if \<not> md_valid (mem_desc ct) then (mutex_unlock os (Inl EINVAL), s)
            else
              (case ipa_table_get_entry t rule_handle of
                 Inl err \<Rightarrow> (mutex_unlock os (Inl err), s)
               | Inr index \<Rightarrow>
                   (case ipa_table_iterator_init t index of
                      Inl err \<Rightarrow> (mutex_unlock os (Inl err), s)
                    | Inr it \<Rightarrow>
                        (case ipa_ipv6ct_post_dma_cmd engine os s (ipa_table_create_delete_command t [] it) t of
                           (Inl err, t) \<Rightarrow> (mutex_unlock os (Inl err), s)
                         | (Inr _, t) \<Rightarrow>
                             let t = (if ipa_table_iterator_is_head_with_tail it then t
                               else ipa_table_delete_entry t it
                                 (case prev_entry it of None \<Rightarrow> False
                                  | Some r \<Rightarrow> protocol (rec_at t r) = IPA_IPV6CT_INVALID_PROTO_FIELD_CMP))
                             in (mutex_unlock os (Inr ()), ct_set_table i (ct\<lparr>ct_tbl := t\<rparr>) s)))))"

definition ipa_ipv6ct_query_timestamp ::
  "ipa_header \<Rightarrow> sys \<Rightarrow> u32 \<Rightarrow> u32 \<Rightarrow> bool \<Rightarrow> ipa_ipv6ct \<Rightarrow> u32 result" where
  "ipa_ipv6ct_query_timestamp hdr os table_handle rule_handle time_stamp_ptr s =
     (case ct_ipa_desc s of
        None \<Rightarrow> Inl CRASH
      | Some desc \<Rightarrow>
          if desc_ver desc < hdr_IPA_HW_v4_0 hdr then Inl EINVAL
          else if bad_table_handle table_handle \<or> rule_handle = ucast IPA_TABLE_INVALID_ENTRY \<or> \<not> time_stamp_ptr then Inl EINVAL
          else if \<not> lock_ok os then Inl EINVAL
          else
            let ct = ct_tables s ! unat (table_handle - 1); t = ct_tbl ct in
            if \<not> md_valid (mem_desc ct) then mutex_unlock os (Inl EINVAL)
            else mutex_unlock os (map_sum id (\<lambda>i. ucast (time_stamp (rec_at t i))) (ipa_table_get_entry t rule_handle)))"

definition ipa_ipv6ct_add_uc_act_entry :: "sys \<Rightarrow> ipa_ipv6ct \<Rightarrow> unit result" where
  "ipa_ipv6ct_add_uc_act_entry os s =
     (if ct_ipa_desc s = None then Inl CRASH else if uc_act_ok os then Inr () else Inl EIO)"

definition ipa_ipv6ct_del_uc_act_entry :: "sys \<Rightarrow> ipa_ipv6ct \<Rightarrow> unit result" where
  "ipa_ipv6ct_del_uc_act_entry os s =
     (if ct_ipa_desc s = None then Inl CRASH else if uc_act_ok os then Inr () else Inl EIO)"

end
