(* ===== verification/IPA_IPv6CT_Rules.thy ===== *)
theory IPA_IPv6CT_Rules
  imports IPA_IPv6CT
begin

text \<open>
  What the operations of IPv6 connection tracking (\<open>ipa_ipv6ct.c\<close>) do to the rules of the table: the
  invariant of the library's state, that every call keeps it, and that adding and deleting a rule
  update the map from indices to rules, through the contract of the table.
\<close>

section \<open>The invariant\<close>

abbreviation ct_table_of :: "ipa_ipv6ct \<Rightarrow> ct_table" where
  "ct_table_of s \<equiv> ct_tbl (ct_tables s ! 0)"

abbreviation ct_valid :: "ipa_ipv6ct \<Rightarrow> bool" where
  "ct_valid s \<equiv> md_valid (mem_desc (ct_tables s ! 0))"

abbreviation ct_node_view :: "ct_table \<Rightarrow> ipa_ipv6ct_hw_entry node_view" where
  "ct_node_view t \<equiv> ct_view (table_entries t - 1)"

text \<open>The rules of the library's table, by the index of their record.\<close>

definition ct_rules :: "ipa_ipv6ct \<Rightarrow> u16 \<rightharpoonup> ipa_ipv6ct_rule" where
  "ct_rules s = (if ct_valid s then content (ct_node_view (ct_table_of s)) rule_of_entry (ct_table_of s) else Map.empty)"

text \<open>
  There is one table. A valid table is well formed and was described to the hardware, and the
  device is open while a table is counted, and only then.
\<close>

definition ct_inv :: "ct_engine \<Rightarrow> ipa_ipv6ct \<Rightarrow> bool" where
  "ct_inv engine s \<longleftrightarrow> length (ct_tables s) = 1 \<and> (ct_table_cnt s = 0 \<or> ct_table_cnt s = 1) \<and>
     (ct_ipa_desc s = None \<longleftrightarrow> ct_table_cnt s = 0) \<and>
     (ct_valid s \<longrightarrow> ct_table_cnt s = 1 \<and> (\<exists>ini bk. ct_hw s = Some ini \<and> ct_prepared engine ini (ct_table_of s) \<and>
        table_ok (ct_node_view (ct_table_of s)) (ct_table_of s) bk))"

lemma ct_inv_validE:
  assumes "ct_inv engine s" "ct_valid s"
  obtains ini bk where "ct_hw s = Some ini" "ct_prepared engine ini (ct_table_of s)"
    "table_ok (ct_node_view (ct_table_of s)) (ct_table_of s) bk"
  using assms by (auto simp: ct_inv_def)

text \<open>A new table of the library's state.\<close>

lemma ct_inv_set_table:
  assumes inv: "ct_inv engine s" "ct_valid s" and hw: "ct_hw s = Some ini" "ct_prepared engine ini (ct_table_of s)"
    and t: "same_setup (ct_table_of s) t" "table_ok (ct_node_view (ct_table_of s)) t bk"
  shows "ct_inv engine (ct_set_table 0 ((ct_tables s ! 0)\<lparr>ct_tbl := t\<rparr>) s)"
    "ct_rules (ct_set_table 0 ((ct_tables s ! 0)\<lparr>ct_tbl := t\<rparr>) s) = content (ct_node_view (ct_table_of s)) rule_of_entry t"
proof -
  have "table_entries t = table_entries (ct_table_of s)" using t(1) by (simp add: same_setup_def)
  moreover have "ct_prepared engine ini t" by (rule ct.prepared(2) [OF hw(2) t(1)])
  moreover have "length (ct_tables s) = 1" "ct_table_cnt s = 1" "ct_ipa_desc s \<noteq> None"
    using inv by (auto simp: ct_inv_def)
  ultimately show "ct_inv engine (ct_set_table 0 ((ct_tables s ! 0)\<lparr>ct_tbl := t\<rparr>) s)"
    "ct_rules (ct_set_table 0 ((ct_tables s ! 0)\<lparr>ct_tbl := t\<rparr>) s) = content (ct_node_view (ct_table_of s)) rule_of_entry t"
    using inv(2) hw(1) t(2) by (auto simp: ct_inv_def ct_set_table_def ct_rules_def)
qed

section \<open>Adding and deleting rules\<close>

text \<open>The device is supported, the table exists and the mutex can be taken.\<close>

definition ct_usable :: "ipa_header \<Rightarrow> sys \<Rightarrow> ipa_ipv6ct \<Rightarrow> bool" where
  "ct_usable hdr os s \<longleftrightarrow> (case ct_ipa_desc s of None \<Rightarrow> False | Some desc \<Rightarrow> \<not> desc_ver desc < hdr_IPA_HW_v4_0 hdr) \<and>
     ct_valid s \<and> lock_ok os"

lemma ct_hash_slot:
  assumes "sizes_ok t"
  shows "ipa_ipv6ct_hash u (table_entries t - 1) \<in> base_slots t"
proof -
  have "2 \<le> unat (table_entries t)" using sizes_okD(1) [OF assms] .
  then have u: "unat (table_entries t - 1) = unat (table_entries t) - 1" "0 < unat (table_entries t)"
    using unat_minus_one [of "table_entries t"] by (cases "table_entries t = 0"; simp)+
  then have "table_entries t - 1 \<noteq> 0" using \<open>2 \<le> unat (table_entries t)\<close> by auto
  from hash_slot [OF this, of u] show ?thesis
    using u by (auto simp: base_slots_def word_less_nat_alt word_le_nat_alt)
qed

lemma stored_rule_hash: "ipa_ipv6ct_hash (stored_rule u) n = ipa_ipv6ct_hash u n"
  by (simp add: stored_rule_def ipa_ipv6ct_hash_def)

text \<open>What a call of \<open>ipa_ipv6ct_add_rule\<close> does to the rules.\<close>

definition ct_added :: "sys \<Rightarrow> ipa_ipv6ct_rule \<Rightarrow> ipa_ipv6ct \<Rightarrow> u32 result \<Rightarrow> ipa_ipv6ct \<Rightarrow> bool" where
  "ct_added os u s ret s' \<longleftrightarrow>
     (let t = ct_table_of s; fails = add_fails (ct_node_view t) direction_ok t u (ipa_ipv6ct_hash u (table_entries t - 1))
      in case ret of
           Inl err \<Rightarrow> (fails \<or> \<not> dma_cmd_ok os) \<and> ct_rules s' = ct_rules s
         | Inr hdl \<Rightarrow> \<not> fails \<and> dma_cmd_ok os \<and>
             (\<exists>i. i \<noteq> 0 \<and> hdl = ucast (MakeEntryHdl t i) \<and> hdl \<noteq> 0 \<and> ipa_table_get_entry (ct_table_of s') hdl = Inr i \<and>
                ct_rules s i = None \<and> ct_rules s' = (ct_rules s)(i \<mapsto> stored_rule u)))"

lemma mutex_unlock_simps [simp]: "mutex_unlock os (Inl err) = Inl err" "unlock_ok os \<Longrightarrow> mutex_unlock os r = r"
  by (simp_all add: mutex_unlock_def)

lemma good_handle [simp]: "\<not> bad_table_handle 1"
  by (simp add: bad_table_handle_def ipa_table_consts ipv6ct_consts)

lemma ucast_16_32_eq_0: "(ucast (x :: u16) :: u32) = 0 \<longleftrightarrow> x = 0"
  by (simp add: word_unat_eq_iff)

text \<open>Past the checks of its arguments, the call adds to the table.\<close>

lemma add_rule_call:
  assumes use: "ct_usable hdr os s" and u: "protocol_ok u"
  shows "ipa_ipv6ct_add_rule hdr engine os 1 (Some u) True s =
    (let ct = ct_tables s ! 0; t = ct_tbl ct in do {
       (ret, cmd, t) \<leftarrow> ipa_table_add_entry t u (ipa_ipv6ct_hash u (table_entries t - 1)) [];
       Some (case ret of
           Inl err \<Rightarrow> (Inl err, ct_set_table 0 (ct\<lparr>ct_tbl := t\<rparr>) s)
         | Inr (i, hdl) \<Rightarrow> (case ipa_ipv6ct_post_dma_cmd engine os s cmd t of
             (Inl err, t) \<Rightarrow> (Inl err, ct_set_table 0 (ct\<lparr>ct_tbl := ipa_table_erase_entry t i\<rparr>) s)
           | (Inr _, t) \<Rightarrow> (mutex_unlock os (Inr hdl), ct_set_table 0 (ct\<lparr>ct_tbl := t\<rparr>) s)))
     })"
  using assms unfolding ipa_ipv6ct_add_rule_def
  by (simp add: ct_usable_def protocol_ok_def Let_def split: option.splits)

lemma add_rule_fails:
  assumes inv: "ct_inv engine s" and use: "ct_usable hdr os s" and u: "protocol_ok u"
    and f: "add_fails (ct_node_view (ct_table_of s)) direction_ok (ct_table_of s) u
      (ipa_ipv6ct_hash u (table_entries (ct_table_of s) - 1))"
  shows "\<exists>err s'. ipa_ipv6ct_add_rule hdr engine os 1 (Some u) True s = Some (Inl err, s') \<and> ct_inv engine s' \<and>
    ct_added os u s (Inl err) s'"
proof -
  let ?t = "ct_table_of s"
  have v: "ct_valid s" using use by (simp add: ct_usable_def)
  obtain ini bk where P: "ct_hw s = Some ini" "ct_prepared engine ini ?t" and ok: "table_ok (ct_node_view ?t) ?t bk"
    by (rule ct_inv_validE [OF inv v])
  obtain err t where add: "ipa_table_add_entry ?t u (ipa_ipv6ct_hash u (table_entries ?t - 1)) [] = Some (Inl err, [], t)"
    and t: "same_setup ?t t" "table_ok (ct_node_view ?t) t bk"
      "content (ct_node_view ?t) rule_of_entry t = content (ct_node_view ?t) rule_of_entry ?t"
    using ct.add_entry_fails [OF ok P(2) ct_hash_slot [OF table_okD(1) [OF ok]] f] by auto
  note S = ct_inv_set_table [OF inv v P t(1,2)]
  show ?thesis
    using add S t(3) f v
    by (intro exI [of _ err] exI [of _ "ct_set_table 0 ((ct_tables s ! 0)\<lparr>ct_tbl := t\<rparr>) s"])
      (simp add: add_rule_call [OF use u] ct_added_def Let_def ct_rules_def)
qed

lemma add_rule_succeeds:
  assumes inv: "ct_inv engine s" and use: "ct_usable hdr os s" and u: "protocol_ok u"
    and f: "\<not> add_fails (ct_node_view (ct_table_of s)) direction_ok (ct_table_of s) u
      (ipa_ipv6ct_hash u (table_entries (ct_table_of s) - 1))"
  shows "\<exists>r s'. ipa_ipv6ct_add_rule hdr engine os 1 (Some u) True s = Some (mutex_unlock os r, s') \<and> ct_inv engine s' \<and>
    ct_added os u s r s'"
proof -
  let ?t = "ct_table_of s"
  let ?N = "ct_node_view ?t" and ?s = "\<lambda>t. ct_set_table 0 ((ct_tables s ! 0)\<lparr>ct_tbl := t\<rparr>) s"
  have v: "ct_valid s" using use by (simp add: ct_usable_def)
  obtain ini bk where P: "ct_hw s = Some ini" "ct_prepared engine ini ?t" and ok: "table_ok ?N ?t bk"
    by (rule ct_inv_validE [OF inv v])
  note sz = table_okD(1) [OF ok]
  obtain i cmd t bk' where add: "ipa_table_add_entry ?t u (ipa_ipv6ct_hash u (table_entries ?t - 1)) [] =
      Some (Inr (i, ucast (MakeEntryHdl ?t i)), cmd, t)"
    and i: "i \<in> base_slots ?t \<union> expn_slots ?t" "content ?N rule_of_entry ?t i = None"
    and t: "same_setup ?t t" "table_ok ?N (post_cmd (engine ini) cmd t) bk'"
      "content ?N rule_of_entry (post_cmd (engine ini) cmd t) = (content ?N rule_of_entry ?t)(i \<mapsto> stored_rule u)"
      "table_ok ?N (ipa_table_erase_entry t i) bk" "content ?N rule_of_entry (ipa_table_erase_entry t i) = content ?N rule_of_entry ?t"
    using ct.add_entry [OF ok P(2) ct_hash_slot [OF sz] f u stored_rule_hash] by blast
  show ?thesis
  proof (cases "dma_cmd_ok os")
    case True
    let ?p = "post_cmd (engine ini) cmd t"
    have st: "same_setup ?t ?p"
      using t(1) table_okD(2) [OF t(2)] table_okD(2) [OF ok] by (simp add: post_cmd_def same_setup_def)
    note S = ct_inv_set_table [OF inv v P st t(2)]
    have lt: "unat i < unat (tot_tbl_ents ?t)" "i \<noteq> 0" using slot_less [OF sz i(1)] by auto
    have "ipa_table_get_entry ?p (ucast (MakeEntryHdl ?t i)) = Inr i"
      using handle_roundtrip [of ?p i] same_setup_slots(3,5) [OF st] sz lt(1) st by (simp add: same_setup_def)
    moreover have "MakeEntryHdl ?t i \<noteq> 0" using handle_roundtrip [OF sz lt(1)] lt(2) by blast
    moreover have "length (ct_tables s) = 1" using inv by (simp add: ct_inv_def)
    ultimately have "ct_added os u s (Inr (ucast (MakeEntryHdl ?t i))) (?s ?p)"
      using f S(2) t(3) i(2) lt(2) v True
      by (auto simp: ct_added_def Let_def ct_rules_def ct_set_table_def ucast_16_32_eq_0)
    then show ?thesis
      using add S(1) True P(1)
      by (intro exI [of _ "Inr (ucast (MakeEntryHdl ?t i))"] exI [of _ "?s ?p"])
        (simp add: add_rule_call [OF use u] Let_def ipa_ipv6ct_post_dma_cmd_def)
  next
    case False
    let ?e = "ipa_table_erase_entry t i"
    have st: "same_setup ?t ?e" using t(1) by (simp add: ipa_table_erase_entry_def Let_def)
    note S = ct_inv_set_table [OF inv v P st t(4)]
    have "ct_added os u s (Inl EIO) (?s ?e)" using S(2) t(5) v False by (simp add: ct_added_def Let_def ct_rules_def)
    then show ?thesis
      using add S(1) False
      by (intro exI [of _ "Inl EIO"] exI [of _ "?s ?e"])
        (simp add: add_rule_call [OF use u] Let_def ipa_ipv6ct_post_dma_cmd_def)
  qed
qed

lemma add_rule_works:
  assumes inv: "ct_inv engine s" and use: "ct_usable hdr os s" and u: "protocol_ok u"
  shows "\<exists>r s'. ipa_ipv6ct_add_rule hdr engine os 1 (Some u) True s = Some (mutex_unlock os r, s') \<and> ct_inv engine s' \<and>
    ct_added os u s r s'"
proof (cases "add_fails (ct_node_view (ct_table_of s)) direction_ok (ct_table_of s) u
    (ipa_ipv6ct_hash u (table_entries (ct_table_of s) - 1))")
  case True
  from add_rule_fails [OF inv use u True] obtain err s' where
    "ipa_ipv6ct_add_rule hdr engine os 1 (Some u) True s = Some (mutex_unlock os (Inl err), s')" "ct_inv engine s'"
    "ct_added os u s (Inl err) s'" by auto
  then show ?thesis by blast
next
  case False
  then show ?thesis by (rule add_rule_succeeds [OF inv use u])
qed

text \<open>Deleting: the record of a handle is not in use, or its rule goes.\<close>

lemma del_rule_call:
  assumes use: "ct_usable hdr os s" and hdl: "hdl \<noteq> 0" "ipa_table_get_entry (ct_table_of s) hdl = Inr i"
    and it: "ipa_table_iterator_init (ct_table_of s) i = Inr it"
    and hw: "ct_hw s = Some ini" and dma: "dma_cmd_ok os"
  shows "ipa_ipv6ct_del_rule hdr engine os 1 hdl s = (mutex_unlock os (Inr ()),
    ct_set_table 0 ((ct_tables s ! 0)\<lparr>ct_tbl := delete_with (engine ini) (ct_node_view (ct_table_of s)) (ct_table_of s) it\<rparr>) s)"
proof -
  have "n_dead (ct_node_view t) = (\<lambda>e. protocol e = IPA_IPV6CT_INVALID_PROTO_FIELD_CMP)" for t
    by (simp add: ct_view_def)
  then show ?thesis
    using assms unfolding ipa_ipv6ct_del_rule_def delete_with_def
    by (auto simp: ct_usable_def ipa_table_consts Let_def ipa_ipv6ct_post_dma_cmd_def split: option.splits)
qed

lemma del_rule_works:
  assumes inv: "ct_inv engine s" and use: "ct_usable hdr os s" and dma: "dma_cmd_ok os"
    and hdl: "hdl \<noteq> 0" "ipa_table_get_entry (ct_table_of s) hdl = Inr i" "i \<noteq> 0"
    and e: "enable (rec_at (ct_table_of s) i)"
  shows "\<exists>s'. ipa_ipv6ct_del_rule hdr engine os 1 hdl s = (mutex_unlock os (Inr ()), s') \<and> ct_inv engine s' \<and>
    ct_rules s' = (ct_rules s)(i := None)"
proof -
  let ?t = "ct_table_of s"
  let ?N = "ct_node_view ?t"
  have v: "ct_valid s" using use by (simp add: ct_usable_def)
  obtain ini bk where P: "ct_hw s = Some ini" "ct_prepared engine ini ?t" and ok: "table_ok ?N ?t bk"
    by (rule ct_inv_validE [OF inv v])
  have lt: "unat i < unat (tot_tbl_ents ?t)"
    using hdl(2) by (auto simp: ipa_table_get_entry_def Let_def word_le_nat_alt split: prod.splits if_splits)
  have "n_valid ?N (rec_at ?t i)" using e by (simp add: ct_view_def)
  from ct.delete_entry [OF ok P(2) lt hdl(3) this] obtain it bk' where
    d: "deleted (engine ini) ?N rule_of_entry ?t i it bk'" by auto
  note D = d [unfolded deleted_def]
  note S = ct_inv_set_table [OF inv v P, of "delete_with (engine ini) ?N ?t it" bk']
  show ?thesis
    using del_rule_call [OF use hdl(1,2) _ P(1) dma, of it engine] D S v by (auto simp: ct_rules_def)
qed

lemma del_rule_unused:
  assumes use: "ct_usable hdr os s" and hdl: "hdl \<noteq> 0" "ipa_table_get_entry (ct_table_of s) hdl = Inr i"
    and inv: "ct_inv engine s" and e: "\<not> enable (rec_at (ct_table_of s) i)"
  shows "ipa_ipv6ct_del_rule hdr engine os 1 hdl s = (Inl EINVAL, s)"
proof -
  obtain ini where "ct_prepared engine ini (ct_table_of s)"
    using ct_inv_validE [OF inv] use by (auto simp: ct_usable_def)
  then have "ipa_table_iterator_init (ct_table_of s) i = Inl EINVAL"
    using e by (simp add: ipa_table_iterator_init_def ct_prepared_def ct_entry_defs Let_def)
  then show ?thesis
    using use hdl unfolding ipa_ipv6ct_del_rule_def
    by (auto simp: ct_usable_def ipa_table_consts Let_def split: option.splits)
qed

section \<open>Creating and deleting the table\<close>

text \<open>The driver places a table at the start of the memory it allocates.\<close>

definition alloc_at_start :: "sys \<Rightarrow> bool" where
  "alloc_at_start os \<longleftrightarrow> (case alloc_table os IPA_IOC_ALLOC_IPV6CT_TABLE of None \<Rightarrow> True | Some offset \<Rightarrow> offset = 0)"

lemma create_table_ok:
  assumes c: "ipa_ipv6ct_create_table hdr os ct n index = (Inr (), ct')" and a: "alloc_at_start os"
    and e: "dma_engine engine"
  shows "md_valid (mem_desc ct')" "ct_prepared engine (ct_init_cmd ct' index) (ct_tbl ct')"
    "table_ok (ct_node_view (ct_tbl ct')) (ct_tbl ct') (\<lambda>_. [])"
    "content (ct_node_view (ct_tbl ct')) rule_of_entry (ct_tbl ct') = Map.empty"
proof -
  let ?t0 = "ipa_table_init zero_ct_entry ''IPA IPv6CT table'' IPA_NAT_MEM_IN_DDR 64 None 0 ct_entry_interface (\<lambda>_. zero_helper)"
  obtain t1 where t1: "ipa_table_calculate_entries_num ?t0 n IPA_NAT_MEM_IN_DDR = (Inr (), t1)"
    using c by (auto simp: ipa_ipv6ct_create_table_def Let_def split: prod.splits sum.splits)
  let ?d = "ipa_mem_descriptor_init hdr (mem_desc ct) (hdr_IPA_IPV6CT_DEV_NAME hdr) (ipa_table_calculate_size t1) index
      IPA_IOC_ALLOC_IPV6CT_TABLE IPA_IOC_DEL_IPV6CT_TABLE False"
  obtain d where d: "ipa_mem_descriptor_allocate_memory hdr os ?d = (Inr (), d)"
    using c t1 by (auto simp: ipa_ipv6ct_create_table_def Let_def split: prod.splits sum.splits)
  define t2 where "t2 = ipa_table_reset (snd (ipa_table_calculate_addresses t1 (base_addr d)))"
  have ct': "ct' = ipa_ipv6ct_create_table_dma_cmd_helpers (ct\<lparr>mem_desc := d, ct_tbl := t2\<rparr>) index"
    using c t1 d by (simp add: ipa_ipv6ct_create_table_def Let_def t2_def)
  have off: "addr_offset d = 0" "md_valid d"
    using allocate_memory_ok(1,2) [OF d] a by (simp_all add: alloc_at_start_def ipa_mem_descriptor_init_def)
  have sz: "sizes_ok t1" using calculate_entries_num_ok [OF t1] by simp
  have t1f: "entry_interface t1 = ct_entry_interface" "zero_rec t1 = zero_ct_entry" "entry_size t1 = 64" "meta t1 = None"
    "cur_tbl_cnt t1 = 0" "cur_expn_tbl_cnt t1 = 0"
    using t1 by (auto simp: ipa_table_calculate_entries_num_def ipa_table_init_def Let_def split: if_splits)
  have t': "mem_desc ct' = d" "ct_tbl ct' = t2\<lparr>dma_help := dma_help (ct_tbl ct')\<rparr>"
    "dma_help (ct_tbl ct') ht = ipa_table_dma_cmd_helper_init index IPA_IPV6CT_BASE_TBL IPA_IPV6CT_EXPN_TBL (field_offset ht)" for ht
    using off(1) by (simp_all add: ct' ipa_ipv6ct_create_table_dma_cmd_helpers_def Let_def field_offset_def split: dma_help_type.splits)
  have f: "entry_interface (ct_tbl ct') = ct_entry_interface" "zero_rec (ct_tbl ct') = zero_ct_entry" "entry_size (ct_tbl ct') = 64"
    "meta (ct_tbl ct') = None" "cur_tbl_cnt (ct_tbl ct') = 0" "cur_expn_tbl_cnt (ct_tbl ct') = 0"
    "table_entries (ct_tbl ct') = table_entries t1" "expn_table_entries (ct_tbl ct') = expn_table_entries t1"
    "tot_tbl_ents (ct_tbl ct') = tot_tbl_ents t1" "table_addr (ct_tbl ct') = base_addr d"
    "expn_table_addr (ct_tbl ct') = base_addr d + 64 * uint (table_entries t1)"
    "recs (ct_tbl ct') = replicate (unat (table_entries t1) + unat (expn_table_entries t1)) zero_ct_entry"
    using t1f by (subst t'(2), simp add: t2_def ipa_table_reset_def ipa_table_calculate_addresses_def Let_def)+
  have sz': "sizes_ok (ct_tbl ct')" using sz f by (simp add: sizes_ok_def)
  show "md_valid (mem_desc ct')" using t'(1) off by simp
  have "uint (ucast (table_entries t1) * 64 :: u32) = 64 * uint (table_entries t1)"
  proof -
    have "unat (ucast (table_entries t1) * 64 :: u32) = 64 * unat (table_entries t1)"
      using sizes_okD(2) [OF sz] by (simp add: unat_word_ariths)
    then have "int (unat (ucast (table_entries t1) * 64 :: u32)) = int (64 * unat (table_entries t1))" by simp
    then show ?thesis by simp
  qed
  then show "ct_prepared engine (ct_init_cmd ct' index) (ct_tbl ct')"
    using e f t' off by (simp add: ct_prepared_def ct_init_cmd_def Let_def ipa_table_dma_cmd_helper_init_def)
  have "recs (ct_tbl ct') = replicate (unat (tot_tbl_ents (ct_tbl ct'))) zero_ct_entry"
    using f sizes_okD(5) [OF sz] by simp
  from ct.fresh_table [OF sz' this f(4-6)]
  show "table_ok (ct_node_view (ct_tbl ct')) (ct_tbl ct') (\<lambda>_. [])"
    "content (ct_node_view (ct_tbl ct')) rule_of_entry (ct_tbl ct') = Map.empty" by auto
qed

lemma create_table_fails:
  assumes "ipa_ipv6ct_create_table hdr os ct n index = (Inl err, ct')" "\<not> md_valid (mem_desc ct)"
  shows "\<not> md_valid (mem_desc ct')"
  using assms by (auto simp: ipa_ipv6ct_create_table_def Let_def zero_ct_table_def zero_mem_desc_def
      split: prod.splits sum.splits)

lemma ct_set_table_simps [simp]:
  "ct_table_cnt (ct_set_table i ct s) = ct_table_cnt s" "ct_ipa_desc (ct_set_table i ct s) = ct_ipa_desc s"
  "ct_hw (ct_set_table i ct s) = ct_hw s" "length (ct_tables (ct_set_table i ct s)) = length (ct_tables s)"
  "length (ct_tables s) = 1 \<Longrightarrow> ct_tables (ct_set_table 0 ct s) ! 0 = ct"
  by (simp_all add: ct_set_table_def)

lemma zero_ct_table_invalid [simp]: "\<not> md_valid (mem_desc zero_ct_table)"
  by (simp add: zero_ct_table_def zero_mem_desc_def)

text \<open>The two ways through \<open>ipa_ipv6ct_add_tbl\<close>: refused, or with no table so far.\<close>

lemma add_tbl_refused:
  "\<not> ptr \<or> n = 0 \<or> ct_table_cnt s = 1 \<Longrightarrow> ipa_ipv6ct_add_tbl hdr os n ptr s = (Inl EINVAL, s)"
  by (auto simp: ipa_ipv6ct_add_tbl_def ipv6ct_consts)

lemma add_tbl_call:
  assumes "ptr" "n \<noteq> 0" "ct_table_cnt s = 0" "ct_ipa_desc s = None"
  shows "ipa_ipv6ct_add_tbl hdr os n ptr s =
    (case ipa_descriptor_open hdr os of
       None \<Rightarrow> (Inl EIO, s)
     | Some desc \<Rightarrow>
         if desc_ver desc < hdr_IPA_HW_v4_0 hdr then (Inl EPERM, s)
         else case ipa_ipv6ct_create_table hdr os (ct_tables s ! 0) n 0 of
             (Inl err, ct) \<Rightarrow> (Inl err, ct_set_table 0 ct s)
           | (Inr _, ct) \<Rightarrow>
               if init_table_ok os
               then (Inr 1, (ct_set_table 0 ct s)\<lparr>ct_ipa_desc := Some desc, ct_hw := Some (ct_init_cmd ct 0), ct_table_cnt := 1\<rparr>)
               else (Inl EFAIL, ct_set_table 0 zero_ct_table s))"
  using assms
  by (cases s) (auto simp: ipa_ipv6ct_add_tbl_def ipv6ct_consts Let_def ct_close_unused_def ct_set_table_def
      ipa_ipv6ct_post_init_cmd_def ipa_ipv6ct_destroy_table_def split: option.splits prod.splits sum.splits)

lemma add_tbl_works:
  assumes inv: "ct_inv engine s" and a: "alloc_at_start os" and e: "dma_engine engine"
    and add: "ipa_ipv6ct_add_tbl hdr os n ptr s = (ret, s')"
  shows "ct_inv engine s' \<and> (case ret of Inr h \<Rightarrow> h = 1 \<and> ct_valid s' \<and> ct_rules s' = Map.empty | Inl _ \<Rightarrow> ct_rules s' = ct_rules s)"
proof (cases "\<not> ptr \<or> n = 0 \<or> ct_table_cnt s = 1")
  case True
  then show ?thesis using add add_tbl_refused [OF True] inv by auto
next
  case False
  then have z: "ct_table_cnt s = 0" "ct_ipa_desc s = None" "\<not> ct_valid s" "length (ct_tables s) = 1" "ct_rules s = Map.empty"
    using inv by (auto simp: ct_inv_def ct_rules_def)
  have closed: "ct_inv engine (ct_set_table 0 ct s)" "ct_rules (ct_set_table 0 ct s) = Map.empty" if "\<not> md_valid (mem_desc ct)" for ct
    using z that by (simp_all add: ct_inv_def ct_rules_def)
  have "ptr" "n \<noteq> 0" using False by auto
  note call = add [unfolded add_tbl_call [OF this z(1,2)]]
  obtain r ct where c: "ipa_ipv6ct_create_table hdr os (ct_tables s ! 0) n 0 = (r, ct)" by fastforce
  consider "r = Inr ()" "init_table_ok os" | err where "ret = Inl err" "s' = s" | err where "ret = Inl err" "r = Inl err" "s' = ct_set_table 0 ct s"
    | "ret = Inl EFAIL" "s' = ct_set_table 0 zero_ct_table s"
    using call c by (auto split: option.splits sum.splits if_splits)
  then show ?thesis
  proof cases
    case 1
    note C = create_table_ok [OF c [unfolded 1] a e]
    have "ret = Inl EPERM \<and> s' = s \<or> ret = Inl EIO \<and> s' = s \<or> (\<exists>desc. ret = Inr 1 \<and>
        s' = (ct_set_table 0 ct s)\<lparr>ct_ipa_desc := Some desc, ct_hw := Some (ct_init_cmd ct 0), ct_table_cnt := 1\<rparr>)"
      using call c 1 by (auto split: option.splits if_splits)
    then show ?thesis using C z inv by (auto simp: ct_inv_def ct_rules_def)
  next
    case (3 err)
    then show ?thesis using closed create_table_fails [OF c [unfolded 3] z(3)] z by simp
  qed (use closed inv z in simp_all)
qed

lemma del_tbl_works:
  assumes inv: "ct_inv engine s" and del: "ipa_ipv6ct_del_tbl hdr os table_handle s = (ret, s')"
  shows "ct_inv engine s' \<and> (s' = s \<or> \<not> ct_valid s' \<and> ct_rules s' = Map.empty)"
proof (cases "s' = s")
  case False
  then have "table_handle = 1"
    using del by (auto simp: ipa_ipv6ct_del_tbl_def bad_table_handle_def ipa_table_consts ipv6ct_consts word_less_nat_alt
        word_unat_eq_iff Let_def split: option.splits if_splits)
  then have "ct_valid s" "s' = ct_set_table 0 zero_ct_table s \<or>
      s' = ct_close_unused ((ct_set_table 0 zero_ct_table s)\<lparr>ct_table_cnt := ct_table_cnt s - 1\<rparr>)"
    using del False by (auto simp: ipa_ipv6ct_del_tbl_def ipa_ipv6ct_destroy_table_def Let_def split: option.splits if_splits)
  then show ?thesis using inv by (auto simp: ct_inv_def ct_rules_def ct_close_unused_def)
qed (use inv in simp)

section \<open>Every call keeps the invariant\<close>

lemma handle_is_1: "\<not> bad_table_handle h \<Longrightarrow> h = 1"
  by (auto simp: bad_table_handle_def ipa_table_consts ipv6ct_consts word_less_nat_alt word_unat_eq_iff)

lemma add_rule_cases:
  "ipa_ipv6ct_add_rule hdr engine os h user_rule ptr s = Some (Inl CRASH, s) \<or>
   ipa_ipv6ct_add_rule hdr engine os h user_rule ptr s = Some (Inl EINVAL, s) \<or>
   (\<exists>u. h = 1 \<and> user_rule = Some u \<and> ptr \<and> ct_usable hdr os s \<and> protocol_ok u)"
proof (cases "bad_table_handle h")
  case True
  then show ?thesis by (auto simp: ipa_ipv6ct_add_rule_def split: option.splits)
next
  case False
  then show ?thesis
    using handle_is_1 [OF False]
    by (cases user_rule) (auto simp: ipa_ipv6ct_add_rule_def ct_usable_def protocol_ok_def Let_def split: option.splits)
qed

lemma add_rule_keeps:
  assumes inv: "ct_inv engine s"
  shows "\<exists>ret s'. ipa_ipv6ct_add_rule hdr engine os h user_rule ptr s = Some (ret, s') \<and> ct_inv engine s'"
  using add_rule_cases [of hdr engine os h user_rule ptr s]
proof (elim disjE exE conjE)
  fix u assume "h = 1" "user_rule = Some u" "ptr" "ct_usable hdr os s" "protocol_ok u"
  then show ?thesis using add_rule_works [OF inv, of hdr os u] by auto
qed (use inv in auto)

lemma del_rule_cases:
  "(\<exists>err. ipa_ipv6ct_del_rule hdr engine os h hdl s = (Inl err, s)) \<or>
   (\<exists>i. h = 1 \<and> hdl \<noteq> 0 \<and> ct_usable hdr os s \<and> dma_cmd_ok os \<and> ipa_table_get_entry (ct_table_of s) hdl = Inr i)"
proof (cases "bad_table_handle h")
  case True
  then show ?thesis by (simp add: ipa_ipv6ct_del_rule_def split: option.splits)
next
  case False
  then show ?thesis
    using handle_is_1 [OF False]
    by (cases "dma_cmd_ok os")
      (simp_all add: ipa_ipv6ct_del_rule_def ct_usable_def ipa_table_consts Let_def ipa_ipv6ct_post_dma_cmd_def split: option.splits sum.splits)
qed

lemma del_rule_keeps:
  assumes inv: "ct_inv engine s" and del: "ipa_ipv6ct_del_rule hdr engine os h hdl s = (ret, s')"
  shows "ct_inv engine s'"
  using del_rule_cases [of hdr engine os h hdl s]
proof (elim disjE exE conjE)
  fix i assume h: "h = 1" and hdl: "hdl \<noteq> 0" and use: "ct_usable hdr os s" and dma: "dma_cmd_ok os"
    and i: "ipa_table_get_entry (ct_table_of s) hdl = Inr i"
  show ?thesis
  proof (cases "enable (rec_at (ct_table_of s) i)")
    case True
    obtain bk where "table_ok (ct_node_view (ct_table_of s)) (ct_table_of s) bk"
      using ct_inv_validE [OF inv] use by (auto simp: ct_usable_def)
    from table_okD(7) [OF this] have "i \<noteq> 0" using True by (auto simp: ct_view_def)
    then show ?thesis using del_rule_works [OF inv use dma hdl i _ True] del h by auto
  next
    case False
    then show ?thesis using del_rule_unused [OF use hdl i inv] del h inv by simp
  qed
qed (use inv del in auto)

section \<open>Properties\<close>

text \<open>The states that calls of the library lead to, with any answers of the system, one of them being
  that an allocated table is placed at the start of its memory.\<close>

inductive ct_reachable :: "ct_engine \<Rightarrow> ipa_ipv6ct \<Rightarrow> bool" for engine where
  start: "ct_reachable engine ct_start"
| add_tbl: "ct_reachable engine s \<Longrightarrow> alloc_at_start os \<Longrightarrow> ipa_ipv6ct_add_tbl hdr os n ptr s = (ret, s') \<Longrightarrow>
    ct_reachable engine s'"
| del_tbl: "ct_reachable engine s \<Longrightarrow> ipa_ipv6ct_del_tbl hdr os h s = (ret', s') \<Longrightarrow> ct_reachable engine s'"
| add_rule: "ct_reachable engine s \<Longrightarrow> ipa_ipv6ct_add_rule hdr engine os h u ptr s = Some (ret, s') \<Longrightarrow>
    ct_reachable engine s'"
| del_rule: "ct_reachable engine s \<Longrightarrow> ipa_ipv6ct_del_rule hdr engine os h hdl s = (ret', s') \<Longrightarrow> ct_reachable engine s'"

lemma ct_inv_start: "ct_inv engine ct_start"
  by (simp add: ct_inv_def ct_start_def)

text \<open>A device and a system that grant everything, for concrete runs.\<close>

definition w_hdr :: ipa_header where
  "w_hdr = \<lparr>hdr_IPA_HW_None = 0, hdr_IPA_HW_v4_0 = 13, hdr_IPA_RESOURCE_NAME_MAX = 32, hdr_IPA_DEV_NAME = ''/dev/ipa'',
     hdr_IPA_IPV6CT_DEV_NAME = ''ipaIpv6CTTable''\<rparr>"

definition w_os :: sys where
  "w_os = \<lparr>calloc_ok = True, open_dev = (\<lambda>_. 5), get_hw_version = Some 21, get_nat_in_sram_info = None,
     alloc_table = (\<lambda>_. Some 0), del_table_ok = (\<lambda>_ _ _. True), mmap_addr_of = (\<lambda>_. Some 4096), close_ok = True,
     init_table_ok = True, dma_cmd_ok = True, uc_act_ok = True, lock_ok = True, unlock_ok = True\<rparr>"

definition w_rule :: ipa_ipv6ct_rule where
  "w_rule = \<lparr>r_src_ipv6_lsb = 1, r_src_ipv6_msb = 2, r_dest_ipv6_lsb = 3, r_dest_ipv6_msb = 4, r_direction_settings = 3,
     r_ucp = False, r_s = False, r_uc_activation_index = 7, r_src_port = 80, r_dest_port = 443, r_protocol = 6\<rparr>"

definition w_table :: ipa_ipv6ct where
  "w_table = snd (ipa_ipv6ct_add_tbl w_hdr w_os 2 True ct_start)"

lemma w_table_ok: "ct_inv simple_engine w_table" "ct_valid w_table" "ct_usable w_hdr w_os w_table"
proof -
  have a: "alloc_at_start w_os" by (simp add: alloc_at_start_def w_os_def)
  have ok: "is_ok (fst (ipa_ipv6ct_add_tbl w_hdr w_os 2 True ct_start))" by code_simp
  obtain ret s where r: "ipa_ipv6ct_add_tbl w_hdr w_os 2 True ct_start = (ret, s)" by fastforce
  show "ct_inv simple_engine w_table" "ct_valid w_table"
    using add_tbl_works [OF ct_inv_start a dma_engine_simple r] ok r by (auto simp: w_table_def is_ok_def split: sum.splits)
  show "ct_usable w_hdr w_os w_table" by code_simp
qed

text \<open>C5. Whatever the library was called with and the system answered, the state is well formed: the
  lists of the table are linked in both directions and disjoint, they hold exactly the records in
  use and the counts are right, every rule is in the list of its hash value, and the device is
  open just while a table is counted. In each such state a call to add a rule returns, so the walk
  to the end of a list never runs in a circle.\<close>

theorem ipa_ipv6ct_reachable_ok:
  assumes "dma_engine engine" "ct_reachable engine s"
  shows "ct_inv engine s \<and> (\<forall>hdr os h u ptr. \<exists>ret s'. ipa_ipv6ct_add_rule hdr engine os h u ptr s = Some (ret, s'))"
proof -
  have "ct_inv engine s"
    using assms(2)
  proof induction
    case start
    show ?case by (rule ct_inv_start)
  next
    case (add_tbl s os hdr n ptr ret s')
    then show ?case using add_tbl_works [OF _ _ assms(1)] by blast
  next
    case (del_tbl s hdr os h ret s')
    then show ?case using del_tbl_works by blast
  next
    case (add_rule s hdr os h u ptr ret s')
    then show ?case using add_rule_keeps [OF add_rule.IH, of hdr os h u ptr] by auto
  next
    case (del_rule s hdr os h hdl ret s')
    then show ?case using del_rule_keeps by blast
  qed
  then show ?thesis using add_rule_keeps by blast
qed

text \<open>C6. Adding a rule refines an update of the map from indices to rules: a successful call adds the
  rule, with its activation index cut to 13 bits, at an index that had none, and the handle it
  returns denotes this index; a failing call leaves the rules alone. It fails just when the
  driver refuses the command, when the direction is not one of the four, or when the slot of its
  hash is in use and the expansion table is full.\<close>

theorem ipa_ipv6ct_add_rule_refines:
  assumes "ct_inv engine s" "ct_usable hdr os s" "unlock_ok os" "protocol_ok u"
  shows "\<exists>ret s'. ipa_ipv6ct_add_rule hdr engine os 1 (Some u) True s = Some (ret, s') \<and> ct_inv engine s' \<and>
    ct_added os u s ret s'"
  using add_rule_works [OF assms(1,2,4)] assms(3) by auto

text \<open>C7. Deleting refines the removal from that map: with the handle of a record in use the call
  succeeds, the rule of that index is gone and all others are kept, whether the record is
  alone in its slot, heads a list, is inside it or leaves a deleted head behind. With the handle of
  a record that is not in use the call fails and changes nothing.\<close>

theorem ipa_ipv6ct_del_rule_refines:
  assumes "ct_inv engine s" "ct_usable hdr os s" "unlock_ok os" "dma_cmd_ok os"
    "hdl \<noteq> 0" "ipa_table_get_entry (ct_table_of s) hdl = Inr i" "i \<noteq> 0"
  shows "if enable (rec_at (ct_table_of s) i)
    then \<exists>s'. ipa_ipv6ct_del_rule hdr engine os 1 hdl s = (Inr (), s') \<and> ct_inv engine s' \<and> ct_rules s' = (ct_rules s)(i := None)
    else ipa_ipv6ct_del_rule hdr engine os 1 hdl s = (Inl EINVAL, s)"
  using del_rule_works [OF assms(1,2,4-7)] del_rule_unused [OF assms(2,5,6,1)] assms(3) by auto

text \<open>When the driver refuses to delete the table, the library forgets it all the same but keeps
  counting it: from then on no table can be added, and the deletion cannot be tried again.\<close>

theorem ipa_ipv6ct_del_tbl_failure_sticks:
  assumes "ct_inv engine s" "ipa_ipv6ct_del_tbl hdr os h s = (Inl EFAIL, s')"
  shows "\<not> ct_valid s' \<and> ct_ipa_desc s' \<noteq> None \<and>
    (\<forall>hdr os n ptr. ipa_ipv6ct_add_tbl hdr os n ptr s' = (Inl EINVAL, s')) \<and>
    (\<forall>hdr os h. \<exists>err. ipa_ipv6ct_del_tbl hdr os h s' = (Inl err, s'))"
proof -
  have "\<not> bad_table_handle h" using assms(2) by (auto simp: ipa_ipv6ct_del_tbl_def split: option.splits if_splits)
  then have h: "h = 1" by (rule handle_is_1)
  have v: "ct_valid s" "ct_ipa_desc s \<noteq> None" and s': "s' = ct_set_table 0 zero_ct_table s"
    using assms(2) h
    by (auto simp: ipa_ipv6ct_del_tbl_def ipa_ipv6ct_destroy_table_def Let_def is_ok_def mutex_unlock_def
        split: option.splits if_splits sum.splits)
  then have inv': "\<not> ct_valid s'" "ct_ipa_desc s' \<noteq> None" "ct_table_cnt s' = 1"
    using assms(1) v by (auto simp: ct_inv_def)
  have "\<exists>err. ipa_ipv6ct_del_tbl hdr os h s' = (Inl err, s')" for hdr os h
    using inv' handle_is_1 [of h] by (cases "bad_table_handle h")
      (auto simp: ipa_ipv6ct_del_tbl_def Let_def split: option.splits)
  then show ?thesis using inv' add_tbl_refused by blast
qed

text \<open>The 16-bit segments that a rule's hash combines.\<close>

definition segments16 :: "u64 \<Rightarrow> u16 list" where
  "segments16 w = map (\<lambda>i. ucast (drop_bit (16 * i) w)) [0..<4]"

definition rule_segments :: "ipa_ipv6ct_rule \<Rightarrow> u16 list" where
  "rule_segments r = concat (map segments16 [r_src_ipv6_lsb r, r_src_ipv6_msb r, r_dest_ipv6_lsb r, r_dest_ipv6_msb r]) @
     [r_src_port r, r_dest_port r, ucast (r_protocol r)]"

lemma xor_segments_fold: "ipa_ipv6ct_xor_segments w = foldl (XOR) 0 (segments16 w)"
  by (simp add: ipa_ipv6ct_xor_segments_def xor_segments_eq segments16_def upt_rec xor.assoc)

lemma foldl_xor: "foldl (XOR) (a :: u16) xs = a XOR foldl (XOR) 0 xs"
proof (induction xs arbitrary: a)
  case (Cons x xs)
  show ?case using Cons.IH [of "a XOR x"] Cons.IH [of x] by (simp add: xor.assoc)
qed simp

text \<open>C33. The hash of a rule: the loops over the addresses, which stop at the highest segment that is
  not 0, give the exclusive or of all 16-bit segments of the two addresses, the ports and the
  protocol, cut to the size; 0 is replaced by the size, so that the unused record 0 is never hit
  and no index is past the base table.\<close>

theorem ipa_ipv6ct_hash_reference:
  "ipa_ipv6ct_hash r n = (let h = foldl (XOR) 0 (rule_segments r) AND n in if h = 0 then n else h) \<and>
   ipa_ipv6ct_hash r n \<le> n \<and> (ipa_ipv6ct_hash r n = 0 \<longleftrightarrow> n = 0)"
proof -
  have "foldl (XOR) 0 (rule_segments r) =
      ipa_ipv6ct_xor_segments (r_src_ipv6_lsb r) XOR (ipa_ipv6ct_xor_segments (r_src_ipv6_msb r) XOR
      (ipa_ipv6ct_xor_segments (r_dest_ipv6_lsb r) XOR (ipa_ipv6ct_xor_segments (r_dest_ipv6_msb r) XOR
      (r_src_port r XOR (r_dest_port r XOR ucast (r_protocol r))))))"
    by (simp add: rule_segments_def xor_segments_fold foldl_xor [of "foldl (XOR) _ _"] foldl_xor [of "_ XOR _"] xor.assoc)
  then show ?thesis by (auto simp: ipa_ipv6ct_hash_def Let_def xor.assoc word_and_le1)
qed

text \<open>Concrete runs.\<close>

lemma w_reachable: "ct_reachable simple_engine w_table"
  unfolding w_table_def
  by (rule ct_reachable.add_tbl [OF ct_reachable.start, of w_os w_hdr 2 True "fst (ipa_ipv6ct_add_tbl w_hdr w_os 2 True ct_start)"])
    (simp_all add: alloc_at_start_def w_os_def)

theorem ipa_ipv6ct_reachable_ok_witness:
  "ct_reachable simple_engine w_table \<and> dma_engine simple_engine \<and> ct_inv simple_engine w_table"
  using ipa_ipv6ct_reachable_ok [OF dma_engine_simple w_reachable] w_reachable dma_engine_simple by blast

theorem ipa_ipv6ct_add_rule_refines_witness:
  "ct_usable w_hdr w_os w_table \<and> protocol_ok w_rule \<and>
   (\<exists>ret s'. ipa_ipv6ct_add_rule w_hdr simple_engine w_os 1 (Some w_rule) True w_table = Some (ret, s') \<and>
     ct_added w_os w_rule w_table ret s')"
proof -
  have "unlock_ok w_os" "protocol_ok w_rule" by (simp_all add: w_os_def w_rule_def protocol_ok_def ipv6ct_consts)
  then show ?thesis using ipa_ipv6ct_add_rule_refines [OF w_table_ok(1,3)] w_table_ok(3) by blast
qed

definition w_added :: ipa_ipv6ct where
  "w_added = snd (the (ipa_ipv6ct_add_rule w_hdr simple_engine w_os 1 (Some w_rule) True w_table))"

lemma w_added_ok: "ct_inv simple_engine w_added" "ct_usable w_hdr w_os w_added"
proof -
  show "ct_inv simple_engine w_added"
    using add_rule_keeps [OF w_table_ok(1), of w_hdr w_os 1 "Some w_rule" True] by (auto simp: w_added_def)
  show "ct_usable w_hdr w_os w_added" by code_simp
qed

theorem ipa_ipv6ct_del_rule_refines_witness:
  "ipa_table_get_entry (ct_table_of w_added) 2 = Inr 1 \<and> enable (rec_at (ct_table_of w_added) 1) \<and>
   (\<exists>s'. ipa_ipv6ct_del_rule w_hdr simple_engine w_os 1 2 w_added = (Inr (), s') \<and> ct_rules s' = (ct_rules w_added)(1 := None))"
proof -
  have g: "ipa_table_get_entry (ct_table_of w_added) 2 = Inr 1" "enable (rec_at (ct_table_of w_added) 1)" by code_simp+
  have "unlock_ok w_os" "dma_cmd_ok w_os" by (simp_all add: w_os_def)
  from ipa_ipv6ct_del_rule_refines [OF w_added_ok this _ g(1)] show ?thesis using g by auto
qed

theorem ipa_ipv6ct_del_tbl_failure_sticks_witness:
  "\<exists>s'. ipa_ipv6ct_del_tbl w_hdr (w_os\<lparr>del_table_ok := (\<lambda>_ _ _. False)\<rparr>) 1 w_table = (Inl EFAIL, s') \<and>
     ipa_ipv6ct_add_tbl w_hdr w_os 2 True s' = (Inl EINVAL, s')"
proof -
  let ?d = "ipa_ipv6ct_del_tbl w_hdr (w_os\<lparr>del_table_ok := (\<lambda>_ _ _. False)\<rparr>) 1 w_table"
  have "fst ?d = Inl EFAIL" by code_simp
  then have d: "?d = (Inl EFAIL, snd ?d)" by (cases ?d) simp
  from ipa_ipv6ct_del_tbl_failure_sticks [OF w_table_ok(1) d] d show ?thesis by blast
qed

end
