(* ===== verification/IPA_NAT.thy ===== *)
theory IPA_NAT
  imports IPA_Mem IPA_Table_Lists IPA_Layout
begin

text \<open>
  IPv4 network address translation of the IPA user space library
  (\<open>qcom/opensource/dataipa/ipanat/src/ipa_nat_drvi.c\<close>, \<open>inc/ipa_nat_drvi.h\<close> and the checks of
  \<open>src/ipa_nat_drv.c\<close>): the records of the rule table and of its index table, the checksums and
  hashes, the public addresses (PDNs), and the operations that create, delete, clear and walk the
  tables in either memory and add and delete rules. What they satisfy is shown in
  \<open>IPA_NAT_Rules\<close>.
\<close>

section \<open>Constants and handles of tables\<close>

definition IPA_NAT_MAX_IP4_TBLS :: u32 where "IPA_NAT_MAX_IP4_TBLS = 1"

definition IPA_NAT_RULE_FLAG_FIELD_OFFSET :: u32 where "IPA_NAT_RULE_FLAG_FIELD_OFFSET = 18"

definition IPA_NAT_RULE_NEXT_FIELD_OFFSET :: u32 where "IPA_NAT_RULE_NEXT_FIELD_OFFSET = 8"

definition IPA_NAT_RULE_PROTO_FIELD_OFFSET :: u32 where "IPA_NAT_RULE_PROTO_FIELD_OFFSET = 22"

definition IPA_NAT_INDEX_RULE_NEXT_FIELD_OFFSET :: u32 where "IPA_NAT_INDEX_RULE_NEXT_FIELD_OFFSET = 2"

definition IPA_NAT_INDEX_RULE_NAT_INDEX_FIELD_OFFSET :: u32 where "IPA_NAT_INDEX_RULE_NAT_INDEX_FIELD_OFFSET = 0"

definition IPA_NAT_INVALID_PROTO_FIELD_VALUE :: u16 where "IPA_NAT_INVALID_PROTO_FIELD_VALUE = 0xFF00"

definition MAX_DMA_ENTRIES_FOR_ADD :: nat where "MAX_DMA_ENTRIES_FOR_ADD = 4"

definition MAX_DMA_ENTRIES_FOR_DEL :: nat where "MAX_DMA_ENTRIES_FOR_DEL = 3"

lemmas nat_consts = IPA_NAT_MAX_IP4_TBLS_def IPA_NAT_RULE_FLAG_FIELD_OFFSET_def IPA_NAT_RULE_NEXT_FIELD_OFFSET_def
  IPA_NAT_RULE_PROTO_FIELD_OFFSET_def IPA_NAT_INDEX_RULE_NEXT_FIELD_OFFSET_def
  IPA_NAT_INDEX_RULE_NAT_INDEX_FIELD_OFFSET_def IPA_NAT_INVALID_PROTO_FIELD_VALUE_def

text \<open>The constants of the system's headers: the protocol numbers of \<open>netinet/in.h\<close>.\<close>

definition IPPROTO_TCP :: u8 where "IPPROTO_TCP = 6"

definition IPPROTO_UDP :: u8 where "IPPROTO_UDP = 17"

text \<open>The constants of the kernel's header that only this client uses.\<close>

record nat_header =
  base_header :: ipa_header
  hdr_IPA_NAT_DEV_NAME :: string
  hdr_IPA_MAX_PDN_NUM :: nat
  hdr_IPAHAL_NAT_INVALID_PROTOCOL :: u8

text \<open>The handle of a table: its number and, in the highest bit, the memory that it is in. A bit is
  one of the two memories, so the checks for another value of the \<open>enum\<close> never fail.\<close>

definition mem_bit :: "ipa3_nat_mem_in \<Rightarrow> u32" where
  "mem_bit mem = (case mem of IPA_NAT_MEM_IN_DDR \<Rightarrow> 0 | IPA_NAT_MEM_IN_SRAM \<Rightarrow> 1)"

definition MAKE_TBL_HDL :: "u32 \<Rightarrow> ipa3_nat_mem_in \<Rightarrow> u32" where
  "MAKE_TBL_HDL hdl mem = push_bit 31 (mem_bit mem) OR hdl"

definition BREAK_TBL_HDL :: "u32 \<Rightarrow> ipa3_nat_mem_in \<times> u32" where
  "BREAK_TBL_HDL hdl_in =
     (if drop_bit 31 hdl_in AND 1 = 0 then IPA_NAT_MEM_IN_DDR else IPA_NAT_MEM_IN_SRAM, hdl_in AND 0xFF)"

definition VALID_TBL_HDL :: "u32 \<Rightarrow> bool" where
  "VALID_TBL_HDL h \<longleftrightarrow> h AND 0xFF = IPA_NAT_MAX_IP4_TBLS"

section \<open>Rules and records\<close>

record ipa_nat_ipv4_rule =
  cr_target_ip :: u32
  cr_private_ip :: u32
  cr_target_port :: u16
  cr_private_port :: u16
  cr_public_port :: u16
  cr_protocol :: u8
  cr_pdn_index :: u8
  cr_redirect :: u8
  cr_enable :: u8
  cr_time_stamp :: u32
  cr_uc_activation_index :: u16
  cr_s :: bool
  cr_ucp :: bool
  cr_dst_only :: bool
  cr_src_only :: bool

record ipa_nat_pdn_entry =
  public_ip :: u32
  src_metadata :: u32
  dst_metadata :: u32

definition zero_pdn :: ipa_nat_pdn_entry where
  "zero_pdn = \<lparr>public_ip = 0, src_metadata = 0, dst_metadata = 0\<rparr>"

text \<open>The record of the hardware, field by field with its bits; a field of one bit is a \<open>bool\<close>.\<close>

record ipa_nat_rule =
  nr_private_ip :: u32
  nr_target_ip :: u32
  nr_next_index :: u16
  nr_public_port :: u16
  nr_private_port :: u16
  nr_target_port :: u16
  nr_ip_chksum :: u16
  nr_uc_activation_index :: "13 word"
  nr_s :: bool
  nr_redirect :: bool
  nr_enable :: bool
  nr_time_stamp :: "24 word"
  nr_protocol :: u8
  nr_prev_index :: u16
  nr_indx_tbl_entry :: u16
  nr_rsvd2 :: u8
  nr_rsvd3 :: bool
  nr_dst_only :: bool
  nr_src_only :: bool
  nr_ucp :: bool
  nr_pdn_index :: "4 word"
  nr_tcp_udp_chksum :: u16

definition zero_nat_rule :: ipa_nat_rule where
  "zero_nat_rule = \<lparr>nr_private_ip = 0, nr_target_ip = 0, nr_next_index = 0, nr_public_port = 0, nr_private_port = 0,
     nr_target_port = 0, nr_ip_chksum = 0, nr_uc_activation_index = 0, nr_s = False, nr_redirect = False,
     nr_enable = False, nr_time_stamp = 0, nr_protocol = 0, nr_prev_index = 0, nr_indx_tbl_entry = 0, nr_rsvd2 = 0,
     nr_rsvd3 = False, nr_dst_only = False, nr_src_only = False, nr_ucp = False, nr_pdn_index = 0,
     nr_tcp_udp_chksum = 0\<rparr>"

text \<open>The layout: four words of 64 bits, the first field of a word in its lowest bits.\<close>

definition nat_word_0 :: "ipa_nat_rule \<Rightarrow> u64" where
  "nat_word_0 e = ucast (nr_private_ip e) OR push_bit 32 (ucast (nr_target_ip e))"

definition nat_word_1 :: "ipa_nat_rule \<Rightarrow> u64" where
  "nat_word_1 e =
     ucast (nr_next_index e) OR push_bit 16 (ucast (nr_public_port e)) OR push_bit 32 (ucast (nr_private_port e)) OR
     push_bit 48 (ucast (nr_target_port e))"

definition nat_word_2 :: "ipa_nat_rule \<Rightarrow> u64" where
  "nat_word_2 e =
     ucast (nr_ip_chksum e) OR push_bit 16 (ucast (nr_uc_activation_index e)) OR push_bit 29 (of_bool (nr_s e)) OR
     push_bit 30 (of_bool (nr_redirect e)) OR push_bit 31 (of_bool (nr_enable e)) OR
     push_bit 32 (ucast (nr_time_stamp e)) OR push_bit 56 (ucast (nr_protocol e))"

definition nat_word_3 :: "ipa_nat_rule \<Rightarrow> u64" where
  "nat_word_3 e =
     ucast (nr_prev_index e) OR push_bit 16 (ucast (nr_indx_tbl_entry e)) OR push_bit 32 (ucast (nr_rsvd2 e)) OR
     push_bit 40 (of_bool (nr_rsvd3 e)) OR push_bit 41 (of_bool (nr_dst_only e)) OR
     push_bit 42 (of_bool (nr_src_only e)) OR push_bit 43 (of_bool (nr_ucp e)) OR
     push_bit 44 (ucast (nr_pdn_index e)) OR push_bit 48 (ucast (nr_tcp_udp_chksum e))"

definition nat_words :: "ipa_nat_rule \<Rightarrow> u64 list" where
  "nat_words e = [nat_word_0 e, nat_word_1 e, nat_word_2 e, nat_word_3 e]"

definition nat_rule_of :: "u64 list \<Rightarrow> ipa_nat_rule" where
  "nat_rule_of ws =
     \<lparr>nr_private_ip = ucast (ws ! 0), nr_target_ip = ucast (drop_bit 32 (ws ! 0)),
      nr_next_index = ucast (ws ! 1), nr_public_port = ucast (drop_bit 16 (ws ! 1)),
      nr_private_port = ucast (drop_bit 32 (ws ! 1)), nr_target_port = ucast (drop_bit 48 (ws ! 1)),
      nr_ip_chksum = ucast (ws ! 2), nr_uc_activation_index = ucast (drop_bit 16 (ws ! 2)), nr_s = bit (ws ! 2) 29,
      nr_redirect = bit (ws ! 2) 30, nr_enable = bit (ws ! 2) 31, nr_time_stamp = ucast (drop_bit 32 (ws ! 2)),
      nr_protocol = ucast (drop_bit 56 (ws ! 2)),
      nr_prev_index = ucast (ws ! 3), nr_indx_tbl_entry = ucast (drop_bit 16 (ws ! 3)),
      nr_rsvd2 = ucast (drop_bit 32 (ws ! 3)), nr_rsvd3 = bit (ws ! 3) 40, nr_dst_only = bit (ws ! 3) 41,
      nr_src_only = bit (ws ! 3) 42, nr_ucp = bit (ws ! 3) 43, nr_pdn_index = ucast (drop_bit 44 (ws ! 3)),
      nr_tcp_udp_chksum = ucast (drop_bit 48 (ws ! 3))\<rparr>"

text \<open>The record of the index table: the index of a rule in the rule table, and the next index record. The
  index of the previous record is kept outside of the memory that the hardware sees, for the
  records of the expansion table only.\<close>

record ipa_nat_indx_tbl_rule =
  tbl_entry :: u16
  ix_next_index :: u16

definition zero_indx_rule :: ipa_nat_indx_tbl_rule where
  "zero_indx_rule = \<lparr>tbl_entry = 0, ix_next_index = 0\<rparr>"

type_synonym ipa_nat_indx_tbl_meta_info = u16

section \<open>Checksums\<close>

text \<open>An addition of 16-bit numbers in 32 bits, whose carry is added again.\<close>

definition add_carry :: "u32 \<Rightarrow> u32 \<Rightarrow> u32" where
  "add_carry cksum x =
     (let cksum = cksum + x in if drop_bit 16 cksum \<noteq> 0 then (cksum AND 0x0000FFFF) + 1 else cksum)"

definition ipa_nati_calc_ip_cksum :: "u32 \<Rightarrow> u32 \<Rightarrow> u16" where
  "ipa_nati_calc_ip_cksum pub_ip_addr priv_ip_addr =
     (let cksum = (0 :: u32) + (pub_ip_addr AND 0xFFFF);
          cksum = add_carry cksum (drop_bit 16 pub_ip_addr);
          priv_ip_addr = NOT priv_ip_addr;
          cksum = add_carry cksum (priv_ip_addr AND 0xFFFF);
          cksum = add_carry cksum (drop_bit 16 priv_ip_addr)
      in ucast cksum)"

definition ipa_nati_calc_tcp_udp_cksum :: "u32 \<Rightarrow> u16 \<Rightarrow> u32 \<Rightarrow> u16 \<Rightarrow> u16" where
  "ipa_nati_calc_tcp_udp_cksum pub_ip_addr pub_port priv_ip_addr priv_port =
     (let cksum = (0 :: u32) + (pub_ip_addr AND 0xFFFF);
          cksum = add_carry cksum (drop_bit 16 pub_ip_addr);
          cksum = add_carry cksum (ucast pub_port);
          priv_ip_addr = NOT priv_ip_addr;
          cksum = add_carry cksum (priv_ip_addr AND 0xFFFF);
          cksum = add_carry cksum (drop_bit 16 priv_ip_addr);
          priv_port = NOT priv_port;
          cksum = add_carry cksum (ucast priv_port)
      in ucast cksum)"

section \<open>The functions of the records\<close>

text \<open>The inserter of the rule table reads the file's array of public addresses, which the table
  passes to it together with the caller's rule.\<close>

type_synonym nat_user = "ipa_nat_pdn_entry list \<times> ipa_nat_ipv4_rule"

definition nat_table_entry_is_valid :: "ipa_nat_rule \<Rightarrow> bool" where
  "nat_table_entry_is_valid entry = nr_enable entry"

definition nat_table_entry_get_next_index :: "ipa_nat_rule \<Rightarrow> u16" where
  "nat_table_entry_get_next_index entry = nr_next_index entry"

definition nat_table_entry_get_prev_index :: "ipa_nat_rule \<Rightarrow> u16 \<Rightarrow> unit option \<Rightarrow> u16 \<Rightarrow> u16" where
  "nat_table_entry_get_prev_index entry entry_index meta_data base_table_size = nr_prev_index entry"

definition nat_table_entry_set_prev_index ::
  "ipa_nat_rule \<Rightarrow> u16 \<Rightarrow> u16 \<Rightarrow> unit option \<Rightarrow> u16 \<Rightarrow> ipa_nat_rule \<times> unit option" where
  "nat_table_entry_set_prev_index entry entry_index prev meta_data base_table_size =
     (entry\<lparr>nr_prev_index := prev\<rparr>, meta_data)"

definition nat_table_entry_copy_from_user :: "ipa_nat_rule \<Rightarrow> nat_user \<Rightarrow> unit result \<times> ipa_nat_rule" where
  "nat_table_entry_copy_from_user entry user_data =
     (let (pdns, user_rule) = user_data;
          pub_ip_addr = public_ip (pdns ! unat (cr_pdn_index user_rule));
          entry = entry\<lparr>nr_private_ip := cr_private_ip user_rule, nr_private_port := cr_private_port user_rule,
            nr_protocol := cr_protocol user_rule, nr_public_port := cr_public_port user_rule,
            nr_target_ip := cr_target_ip user_rule, nr_target_port := cr_target_port user_rule,
            nr_pdn_index := ucast (cr_pdn_index user_rule),
            nr_uc_activation_index := ucast (cr_uc_activation_index user_rule), nr_s := cr_s user_rule,
            nr_ucp := cr_ucp user_rule, nr_dst_only := cr_dst_only user_rule, nr_src_only := cr_src_only user_rule,
            nr_ip_chksum := ipa_nati_calc_ip_cksum pub_ip_addr (cr_private_ip user_rule)\<rparr>
      in (Inr (),
          if nr_protocol entry = IPPROTO_TCP \<or> nr_protocol entry = IPPROTO_UDP
          then entry\<lparr>nr_tcp_udp_chksum := ipa_nati_calc_tcp_udp_cksum pub_ip_addr (cr_public_port user_rule)
                       (cr_private_ip user_rule) (cr_private_port user_rule)\<rparr>
          else entry))"

text \<open>The flags of the command (\<open>ipa_nat_flags\<close>), the activation index in the lowest bits.\<close>

definition nat_flags :: "13 word \<Rightarrow> bool \<Rightarrow> bool \<Rightarrow> bool \<Rightarrow> u16" where
  "nat_flags uc_index s_flag redirect_flag enable_flag =
     ucast uc_index OR push_bit 13 (of_bool s_flag) OR push_bit 14 (of_bool redirect_flag) OR
     push_bit 15 (of_bool enable_flag)"

definition nat_table_entry_head_insert :: "ipa_nat_rule \<Rightarrow> nat_user \<Rightarrow> u16 result \<times> ipa_nat_rule" where
  "nat_table_entry_head_insert entry user_data =
     (case nat_table_entry_copy_from_user entry user_data of
        (Inl err, entry) \<Rightarrow> (Inl err, entry)
      | (Inr _, entry) \<Rightarrow> (Inr (nat_flags (nr_uc_activation_index entry) (nr_s entry) False True), entry))"

definition nat_table_entry_tail_insert :: "ipa_nat_rule \<Rightarrow> nat_user \<Rightarrow> unit result \<times> ipa_nat_rule" where
  "nat_table_entry_tail_insert entry user_data =
     (case nat_table_entry_copy_from_user entry user_data of
        (Inl err, entry) \<Rightarrow> (Inl err, entry)
      | (Inr _, entry) \<Rightarrow> (Inr (), entry\<lparr>nr_enable := True\<rparr>))"

definition nat_table_entry_get_delete_head_dma_command_data :: "ipa_nat_rule \<Rightarrow> ipa_nat_rule \<Rightarrow> u16" where
  "nat_table_entry_get_delete_head_dma_command_data head next_rec = IPA_NAT_INVALID_PROTO_FIELD_VALUE"

definition index_table_entry_is_valid :: "ipa_nat_indx_tbl_rule \<Rightarrow> bool" where
  "index_table_entry_is_valid entry \<longleftrightarrow> tbl_entry entry \<noteq> 0"

definition index_table_entry_get_next_index :: "ipa_nat_indx_tbl_rule \<Rightarrow> u16" where
  "index_table_entry_get_next_index entry = ix_next_index entry"

definition index_table_entry_get_prev_index ::
  "ipa_nat_indx_tbl_rule \<Rightarrow> u16 \<Rightarrow> ipa_nat_indx_tbl_meta_info list option \<Rightarrow> u16 \<Rightarrow> u16" where
  "index_table_entry_get_prev_index entry entry_index meta_data base_table_size =
     (if base_table_size \<le> entry_index then the meta_data ! unat (entry_index - base_table_size) else 0)"

definition index_table_entry_set_prev_index ::
  "ipa_nat_indx_tbl_rule \<Rightarrow> u16 \<Rightarrow> u16 \<Rightarrow> ipa_nat_indx_tbl_meta_info list option \<Rightarrow> u16 \<Rightarrow>
   ipa_nat_indx_tbl_rule \<times> ipa_nat_indx_tbl_meta_info list option" where
  "index_table_entry_set_prev_index entry entry_index prev meta_data base_table_size =
     (entry, if base_table_size \<le> entry_index
             then map_option (\<lambda>m. m[unat (entry_index - base_table_size) := prev]) meta_data else meta_data)"

definition index_table_entry_head_insert :: "ipa_nat_indx_tbl_rule \<Rightarrow> u16 \<Rightarrow> u16 result \<times> ipa_nat_indx_tbl_rule" where
  "index_table_entry_head_insert entry user_data = (Inr user_data, entry)"

definition index_table_entry_tail_insert :: "ipa_nat_indx_tbl_rule \<Rightarrow> u16 \<Rightarrow> unit result \<times> ipa_nat_indx_tbl_rule" where
  "index_table_entry_tail_insert entry user_data = (Inr (), entry\<lparr>tbl_entry := user_data\<rparr>)"

definition index_table_entry_get_delete_head_dma_command_data ::
  "ipa_nat_indx_tbl_rule \<Rightarrow> ipa_nat_indx_tbl_rule \<Rightarrow> u16" where
  "index_table_entry_get_delete_head_dma_command_data head next_rec = tbl_entry next_rec"

definition nat_entry_interface :: "(ipa_nat_rule, unit, nat_user) ipa_table_entry_interface" where
  "nat_entry_interface = \<lparr>entry_is_valid = nat_table_entry_is_valid,
     entry_get_next_index = nat_table_entry_get_next_index, entry_get_prev_index = nat_table_entry_get_prev_index,
     entry_set_prev_index = nat_table_entry_set_prev_index, entry_head_insert = nat_table_entry_head_insert,
     entry_tail_insert = nat_table_entry_tail_insert,
     entry_get_delete_head_dma_command_data = nat_table_entry_get_delete_head_dma_command_data\<rparr>"

definition index_entry_interface ::
  "(ipa_nat_indx_tbl_rule, ipa_nat_indx_tbl_meta_info list, u16) ipa_table_entry_interface" where
  "index_entry_interface = \<lparr>entry_is_valid = index_table_entry_is_valid,
     entry_get_next_index = index_table_entry_get_next_index, entry_get_prev_index = index_table_entry_get_prev_index,
     entry_set_prev_index = index_table_entry_set_prev_index, entry_head_insert = index_table_entry_head_insert,
     entry_tail_insert = index_table_entry_tail_insert,
     entry_get_delete_head_dma_command_data = index_table_entry_get_delete_head_dma_command_data\<rparr>"

section \<open>The hardware\<close>

text \<open>The command that tells the driver and the hardware where the four tables are
  (\<open>struct ipa_ioc_v4_nat_init\<close>).\<close>

record ipa_ioc_v4_nat_init =
  ni_tbl_index :: u8
  ni_focus_change :: bool
  ni_mem_type :: ipa3_nat_mem_in
  ni_ipv4_rules_offset :: u32
  ni_expn_rules_offset :: u32
  ni_index_offset :: u32
  ni_index_expn_offset :: u32
  ni_table_entries :: u16
  ni_expn_table_entries :: u16
  ni_ip_addr :: u32

text \<open>The memory of a rule table and its index table, and the hardware that carries out one element of a
  DMA command on it, as an argument.\<close>

type_synonym nat_memory = "ipa_nat_rule list \<times> ipa_nat_indx_tbl_rule list"

type_synonym nat_engine = "ipa_ioc_v4_nat_init \<Rightarrow> ipa_ioc_nat_dma_one \<Rightarrow> nat_memory \<Rightarrow> nat_memory"

section \<open>State\<close>

type_synonym nat_table = "(ipa_nat_rule, unit, nat_user) ipa_table"

type_synonym nat_index_table = "(ipa_nat_indx_tbl_rule, ipa_nat_indx_tbl_meta_info list, u16) ipa_table"

datatype ipa_nat_table_dma_cmd_type =
  IPA_NAT_TABLE_FLAGS | IPA_NAT_TABLE_NEXT_INDEX | IPA_NAT_TABLE_PROTOCOL | IPA_NAT_INDEX_TABLE_ENTRY |
  IPA_NAT_INDEX_TABLE_NEXT_INDEX

text \<open>The pointer \<open>index_expn_table_meta\<close> is that of the index table's meta data, which is kept there.\<close>

record ipa_nat_ip4_table_cache =
  public_addr :: u32
  nat_mem_desc :: ipa_mem_descriptor
  table :: nat_table
  index_table :: nat_index_table
  nat_table_dma_cmd_helpers :: "ipa_nat_table_dma_cmd_type \<Rightarrow> ipa_table_dma_cmd_helper"

record ipa_nat_cache =
  nc_ipa_desc :: "ipa_descriptor option"
  ip4_tbl :: "ipa_nat_ip4_table_cache list"
  table_cnt :: u8
  nc_nmi :: ipa3_nat_mem_in

text \<open>
  The file's static state, and the init command that the hardware was given last for each memory.
  The active cache is named by its memory. Only the lower 16 bits of \<open>Hash_token\<close>
  are used.
\<close>

record nat_lib =
  ipv4_nat_cache :: "ipa3_nat_mem_in \<Rightarrow> ipa_nat_cache"
  active_nat_cache :: "ipa3_nat_mem_in option"
  pdns :: "ipa_nat_pdn_entry list"
  num_pdns :: int
  Hash_token :: u32
  nat_hw :: "ipa3_nat_mem_in \<Rightarrow> ipa_ioc_v4_nat_init option"

text \<open>The entry of the kernel's request to modify a PDN (\<open>struct ipa_ioc_nat_pdn_entry\<close>).\<close>

record ipa_ioc_nat_pdn_entry =
  pdn_index :: u8
  pdn_entry :: ipa_nat_pdn_entry

text \<open>The answers of the system to the calls that only this client makes, besides the others.\<close>

record nat_sys =
  base_sys :: sys
  meta_calloc_ok :: bool
  modify_pdn_ok :: "ipa_ioc_nat_pdn_entry \<Rightarrow> bool"
  clock_vote_ok :: bool

definition zero_nat_table :: ipa_nat_ip4_table_cache where
  "zero_nat_table = \<lparr>public_addr = 0, nat_mem_desc = zero_mem_desc,
     table = ipa_table_init zero_nat_rule [] IPA_NAT_MEM_IN_DDR 0 None 0 nat_entry_interface (\<lambda>_. zero_helper),
     index_table = ipa_table_init zero_indx_rule [] IPA_NAT_MEM_IN_DDR 0 None 0 index_entry_interface (\<lambda>_. zero_helper),
     nat_table_dma_cmd_helpers = (\<lambda>_. zero_helper)\<rparr>"

definition nat_start :: "nat_header \<Rightarrow> nat_lib" where
  "nat_start hdr = \<lparr>ipv4_nat_cache = (\<lambda>_. \<lparr>nc_ipa_desc = None, ip4_tbl = [zero_nat_table], table_cnt = 0,
       nc_nmi = IPA_NAT_MEM_IN_DDR\<rparr>), active_nat_cache = None,
     pdns = replicate (hdr_IPA_MAX_PDN_NUM hdr) zero_pdn, num_pdns = 0, Hash_token = 69, nat_hw = (\<lambda>_. None)\<rparr>"

definition set_cache :: "ipa3_nat_mem_in \<Rightarrow> ipa_nat_cache \<Rightarrow> nat_lib \<Rightarrow> nat_lib" where
  "set_cache mem c s = s\<lparr>ipv4_nat_cache := (ipv4_nat_cache s)(mem := c)\<rparr>"

definition set_ip4_tbl :: "ipa3_nat_mem_in \<Rightarrow> nat \<Rightarrow> ipa_nat_ip4_table_cache \<Rightarrow> nat_lib \<Rightarrow> nat_lib" where
  "set_ip4_tbl mem i nt s =
     (let c = ipv4_nat_cache s mem in set_cache mem (c\<lparr>ip4_tbl := (ip4_tbl c)[i := nt]\<rparr>) s)"

text \<open>The table of a broken handle: the C code takes the element before the handle's number without a
  check, \<open>None\<close> is memory outside of the array.\<close>

definition tbl_of :: "ipa_nat_cache \<Rightarrow> u32 \<Rightarrow> ipa_nat_ip4_table_cache option" where
  "tbl_of c tbl_hdl =
     (let i = unat (tbl_hdl - 1) in if i < length (ip4_tbl c) then Some (ip4_tbl c ! i) else None)"

section \<open>Creating and deleting tables\<close>

definition ipa_nati_create_table_dma_cmd_helpers :: "ipa_nat_ip4_table_cache \<Rightarrow> u8 \<Rightarrow> ipa_nat_ip4_table_cache" where
  "ipa_nati_create_table_dma_cmd_helpers nt table_indx =
     (let off = addr_offset (nat_mem_desc nt);
          rule_helper = (\<lambda>field. ipa_table_dma_cmd_helper_init table_indx IPA_NAT_BASE_TBL IPA_NAT_EXPN_TBL (off + field));
          index_helper = (\<lambda>field. ipa_table_dma_cmd_helper_init table_indx IPA_NAT_INDX_TBL IPA_NAT_INDEX_EXPN_TBL (off + field));
          helpers = (\<lambda>c. case c of
              IPA_NAT_TABLE_FLAGS \<Rightarrow> rule_helper IPA_NAT_RULE_FLAG_FIELD_OFFSET
            | IPA_NAT_TABLE_NEXT_INDEX \<Rightarrow> rule_helper IPA_NAT_RULE_NEXT_FIELD_OFFSET
            | IPA_NAT_TABLE_PROTOCOL \<Rightarrow> rule_helper IPA_NAT_RULE_PROTO_FIELD_OFFSET
            | IPA_NAT_INDEX_TABLE_ENTRY \<Rightarrow> index_helper IPA_NAT_INDEX_RULE_NAT_INDEX_FIELD_OFFSET
            | IPA_NAT_INDEX_TABLE_NEXT_INDEX \<Rightarrow> index_helper IPA_NAT_INDEX_RULE_NEXT_FIELD_OFFSET)
      in nt\<lparr>nat_table_dma_cmd_helpers := helpers,
            table := (table nt)\<lparr>dma_help := (\<lambda>ht. case ht of
                HELP_UPDATE_HEAD \<Rightarrow> helpers IPA_NAT_TABLE_FLAGS
              | HELP_UPDATE_ENTRY \<Rightarrow> helpers IPA_NAT_TABLE_NEXT_INDEX
              | HELP_DELETE_HEAD \<Rightarrow> helpers IPA_NAT_TABLE_PROTOCOL)\<rparr>,
            index_table := (index_table nt)\<lparr>dma_help := (\<lambda>ht. case ht of
                HELP_UPDATE_HEAD \<Rightarrow> helpers IPA_NAT_INDEX_TABLE_ENTRY
              | HELP_UPDATE_ENTRY \<Rightarrow> helpers IPA_NAT_INDEX_TABLE_NEXT_INDEX
              | HELP_DELETE_HEAD \<Rightarrow> helpers IPA_NAT_INDEX_TABLE_ENTRY)\<rparr>\<rparr>)"

text \<open>The index table gets the sizes of the rule table and lies behind it.\<close>

definition ipa_nati_create_table ::
  "nat_header \<Rightarrow> nat_sys \<Rightarrow> ipa3_nat_mem_in \<Rightarrow> ipa_nat_ip4_table_cache \<Rightarrow> u32 \<Rightarrow> u16 \<Rightarrow> u8 \<Rightarrow>
   unit result \<times> ipa_nat_ip4_table_cache" where
  "ipa_nati_create_table hdr os mem nt public_ip_addr number_of_entries table_idx =
     (let t = ipa_table_init zero_nat_rule ''IPA NAT table'' mem 32 None 0 nat_entry_interface (\<lambda>_. zero_helper);
          nt = nt\<lparr>public_addr := public_ip_addr\<rparr>
      in case ipa_table_calculate_entries_num t number_of_entries mem of
           (Inl err, t) \<Rightarrow> (Inl err, nt\<lparr>table := t\<rparr>)
         | (Inr _, t) \<Rightarrow>
             if \<not> meta_calloc_ok os then (Inl ENOMEM, nt\<lparr>table := t\<rparr>)
             else
               let x = ipa_table_init zero_indx_rule ''IPA NAT index table'' mem 4
                         (Some (replicate (unat (expn_table_entries t)) 0)) 2 index_entry_interface (\<lambda>_. zero_helper);
                   x = x\<lparr>table_entries := table_entries t, expn_table_entries := expn_table_entries t,
                         tot_tbl_ents := tot_tbl_ents t\<rparr>;
                   desc = ipa_mem_descriptor_init (base_header hdr) (nat_mem_desc nt) (hdr_IPA_NAT_DEV_NAME hdr)
                            (ipa_table_calculate_size t + ipa_table_calculate_size x) table_idx
                            IPA_IOC_ALLOC_NAT_TABLE IPA_IOC_DEL_NAT_TABLE True
               in case ipa_mem_descriptor_allocate_memory (base_header hdr) (base_sys os) desc of
                    (Inl err, _) \<Rightarrow> (Inl err, zero_nat_table)
                  | (Inr _, desc) \<Rightarrow>
                      let (behind, t) = ipa_table_calculate_addresses t (base_addr desc);
                          x = snd (ipa_table_calculate_addresses x behind)
                      in (Inr (), ipa_nati_create_table_dma_cmd_helpers
                            (nt\<lparr>nat_mem_desc := desc, table := ipa_table_reset t, index_table := ipa_table_reset x\<rparr>) table_idx))"

definition ipa_nati_destroy_table :: "sys \<Rightarrow> ipa_nat_ip4_table_cache \<Rightarrow> unit result \<times> ipa_nat_ip4_table_cache" where
  "ipa_nati_destroy_table os nt = (fst (ipa_mem_descriptor_delete os (nat_mem_desc nt)), zero_nat_table)"

definition nat_init_cmd :: "ipa3_nat_mem_in \<Rightarrow> ipa_nat_ip4_table_cache \<Rightarrow> u8 \<Rightarrow> bool \<Rightarrow> ipa_ioc_v4_nat_init" where
  "nat_init_cmd mem nt tbl_index focus_change =
     (let rules = addr_offset (nat_mem_desc nt);
          expn = rules + ucast (table_entries (table nt)) * 32;
          idx = expn + ucast (expn_table_entries (table nt)) * 32
      in \<lparr>ni_tbl_index = tbl_index, ni_focus_change = focus_change, ni_mem_type = mem, ni_ipv4_rules_offset = rules,
          ni_expn_rules_offset = expn, ni_index_offset = idx,
          ni_index_expn_offset = idx + ucast (table_entries (index_table nt)) * 4,
          ni_table_entries = table_entries (table nt) - 1, ni_expn_table_entries = expn_table_entries (table nt),
          ni_ip_addr = public_addr nt\<rparr>)"

definition ipa_nati_post_ipv4_init_cmd ::
  "sys \<Rightarrow> ipa3_nat_mem_in \<Rightarrow> ipa_nat_ip4_table_cache \<Rightarrow> u8 \<Rightarrow> bool \<Rightarrow> nat_lib \<Rightarrow> unit result \<times> nat_lib" where
  "ipa_nati_post_ipv4_init_cmd os mem nt tbl_index focus_change s =
     (if init_table_ok os
      then (Inr (), s\<lparr>nat_hw := (nat_hw s)(mem := Some (nat_init_cmd mem nt tbl_index focus_change))\<rparr>)
      else (Inl EFAIL, s))"

text \<open>A command that the driver refuses is not carried out.\<close>

definition ipa_nati_post_ipv4_dma_cmd ::
  "nat_engine \<Rightarrow> sys \<Rightarrow> nat_lib \<Rightarrow> ipa3_nat_mem_in \<Rightarrow> ipa_ioc_nat_dma_one list \<Rightarrow> ipa_nat_ip4_table_cache \<Rightarrow>
   unit result \<times> ipa_nat_ip4_table_cache" where
  "ipa_nati_post_ipv4_dma_cmd engine os s mem cmd nt =
     (if dma_cmd_ok os
      then (Inr (), case nat_hw s mem of
          None \<Rightarrow> nt
        | Some ini \<Rightarrow>
            let (rs, xs) = fold (engine ini) cmd (recs (table nt), recs (index_table nt))
            in nt\<lparr>table := (table nt)\<lparr>recs := rs\<rparr>, index_table := (index_table nt)\<lparr>recs := xs\<rparr>\<rparr>)
      else (Inl EIO, nt))"

definition close_unused :: "ipa3_nat_mem_in \<Rightarrow> nat_lib \<Rightarrow> nat_lib" where
  "close_unused mem s =
     (let c = ipv4_nat_cache s mem in if table_cnt c = 0 then set_cache mem (c\<lparr>nc_ipa_desc := None\<rparr>) s else s)"

text \<open>Opens the device unless it is open.\<close>

definition open_ipa :: "nat_header \<Rightarrow> sys \<Rightarrow> ipa3_nat_mem_in \<Rightarrow> nat_lib \<Rightarrow> nat_lib" where
  "open_ipa hdr os mem s =
     (let c = ipv4_nat_cache s mem
      in if nc_ipa_desc c = None then set_cache mem (c\<lparr>nc_ipa_desc := ipa_descriptor_open (base_header hdr) os\<rparr>) s
         else s)"

text \<open>The table is created and posted to the hardware; its address becomes the first public one.\<close>

definition create_and_post ::
  "nat_header \<Rightarrow> nat_sys \<Rightarrow> ipa3_nat_mem_in \<Rightarrow> u32 \<Rightarrow> u16 \<Rightarrow> nat_lib \<Rightarrow> u32 result \<times> nat_lib" where
  "create_and_post hdr os mem public_ip_addr number_of_entries s =
     (let cnt = table_cnt (ipv4_nat_cache s mem); i = unat cnt; nt = ip4_tbl (ipv4_nat_cache s mem) ! i in
      case ipa_nati_create_table hdr os mem nt public_ip_addr number_of_entries cnt of
        (Inl err, nt) \<Rightarrow> (Inl err, close_unused mem (set_ip4_tbl mem i nt s))
      | (Inr _, nt) \<Rightarrow>
          let s = set_ip4_tbl mem i nt s in
          (case ipa_nati_post_ipv4_init_cmd (base_sys os) mem nt cnt False s of
             (Inl err, s) \<Rightarrow>
               (Inl err, close_unused mem (set_ip4_tbl mem i (snd (ipa_nati_destroy_table (base_sys os) nt)) s))
           | (Inr _, s) \<Rightarrow>
               let s = s\<lparr>active_nat_cache := Some mem,
                         pdns := (pdns s)[0 := (pdns s ! 0)\<lparr>public_ip := public_ip_addr\<rparr>], num_pdns := 1\<rparr>;
                   c = ipv4_nat_cache s mem
               in (Inr (MAKE_TBL_HDL (ucast (cnt + 1)) mem), set_cache mem (c\<lparr>table_cnt := cnt + 1\<rparr>) s)))"

text \<open>A failed unlock overrides what the call returns.\<close>

definition ipa_NATI_add_ipv4_tbl ::
  "nat_header \<Rightarrow> nat_sys \<Rightarrow> ipa3_nat_mem_in \<Rightarrow> u32 \<Rightarrow> u16 \<Rightarrow> nat_lib \<Rightarrow> u32 result \<times> nat_lib" where
  "ipa_NATI_add_ipv4_tbl hdr os mem public_ip_addr number_of_entries s =
     (if \<not> lock_ok (base_sys os) then (Inl EINVAL, s)
      else
        let s = set_cache mem ((ipv4_nat_cache s mem)\<lparr>nc_nmi := mem\<rparr>) s;
            (ret, s) =
              (if IPA_NAT_MAX_IP4_TBLS \<le> ucast (table_cnt (ipv4_nat_cache s mem)) then (Inl EINVAL, s)
               else
                 let s = open_ipa hdr (base_sys os) mem s in
                 if nc_ipa_desc (ipv4_nat_cache s mem) = None then (Inl EIO, s)
                 else create_and_post hdr os mem public_ip_addr number_of_entries s)
        in (if unlock_ok (base_sys os) then ret else Inl EPERM, s))"

definition ipa_NATI_post_ipv4_init_cmd :: "sys \<Rightarrow> u32 \<Rightarrow> nat_lib \<Rightarrow> unit result \<times> nat_lib" where
  "ipa_NATI_post_ipv4_init_cmd os tbl_hdl s =
     (let (mem, h) = BREAK_TBL_HDL tbl_hdl; c = ipv4_nat_cache s mem in
      if \<not> lock_ok os then (Inl EINVAL, s)
      else if table_cnt c = 0 then (mutex_unlock os (Inl EINVAL), s)
      else
        (case tbl_of c h of
           None \<Rightarrow> (Inl CRASH, s)
         | Some nt \<Rightarrow>
             (case ipa_nati_post_ipv4_init_cmd os mem nt (ucast (h - 1)) True s of
                (Inl err, s) \<Rightarrow> (mutex_unlock os (Inl err), s)
              | (Inr _, s) \<Rightarrow> (mutex_unlock os (Inr ()), s\<lparr>active_nat_cache := Some mem\<rparr>))))"

definition ipa_NATI_del_ipv4_table :: "sys \<Rightarrow> u32 \<Rightarrow> nat_lib \<Rightarrow> unit result \<times> nat_lib" where
  "ipa_NATI_del_ipv4_table os tbl_hdl s =
     (let (mem, h) = BREAK_TBL_HDL tbl_hdl; c = ipv4_nat_cache s mem in
      if \<not> lock_ok os then (Inl EINVAL, s)
      else
        (case tbl_of c h of
           None \<Rightarrow> (Inl CRASH, s)
         | Some nt \<Rightarrow>
             if \<not> md_valid (nat_mem_desc nt) then (mutex_unlock os (Inl EINVAL), s)
             else
               let (ret, nt) = ipa_nati_destroy_table os nt; s = set_ip4_tbl mem (unat (h - 1)) nt s in
               if \<not> is_ok ret then (mutex_unlock os ret, s)
               else
                 let c = ipv4_nat_cache s mem
                 in (mutex_unlock os ret, close_unused mem (set_cache mem (c\<lparr>table_cnt := table_cnt c - 1\<rparr>) s))))"

text \<open>The counts and the records are cleared, the index table's meta data is not.\<close>

definition clear_table :: "('e, 'm, 'u) ipa_table \<Rightarrow> ('e, 'm, 'u) ipa_table" where
  "clear_table t = (ipa_table_reset t)\<lparr>cur_tbl_cnt := 0, cur_expn_tbl_cnt := 0\<rparr>"

definition ipa_NATI_clear_ipv4_tbl :: "sys \<Rightarrow> u32 \<Rightarrow> nat_lib \<Rightarrow> unit result \<times> nat_lib" where
  "ipa_NATI_clear_ipv4_tbl os tbl_hdl s =
     (let (mem, h) = BREAK_TBL_HDL tbl_hdl; c = ipv4_nat_cache s mem in
      if \<not> lock_ok os then (Inl EINVAL, s)
      else if table_cnt c = 0 then (mutex_unlock os (Inl EINVAL), s)
      else
        (case tbl_of c h of
           None \<Rightarrow> (Inl CRASH, s)
         | Some nt \<Rightarrow>
             (mutex_unlock os (Inr ()),
              set_ip4_tbl mem (unat (h - 1))
                (nt\<lparr>table := clear_table (table nt), index_table := clear_table (index_table nt)\<rparr>) s)))"

section \<open>Public addresses\<close>

definition modify_cache :: "nat_lib \<Rightarrow> ipa_nat_cache" where
  "modify_cache s =
     (if nc_ipa_desc (ipv4_nat_cache s IPA_NAT_MEM_IN_DDR) \<noteq> None then ipv4_nat_cache s IPA_NAT_MEM_IN_DDR
      else ipv4_nat_cache s IPA_NAT_MEM_IN_SRAM)"

text \<open>The index is not checked before the array is written: past its end is a \<open>CRASH\<close>.\<close>

definition ipa_nati_modify_pdn :: "nat_sys \<Rightarrow> ipa_ioc_nat_pdn_entry \<Rightarrow> nat_lib \<Rightarrow> unit result \<times> nat_lib" where
  "ipa_nati_modify_pdn os entry s =
     (if nc_ipa_desc (modify_cache s) = None then (Inl EIO, s)
      else if \<not> modify_pdn_ok os entry then (Inl EFAIL, s)
      else
        let i = unat (pdn_index entry) in
        if length (pdns s) \<le> i then (Inl CRASH, s)
        else (Inr (), s\<lparr>pdns := (pdns s)[i := pdn_entry entry]\<rparr>))"

text \<open>The searches leave out the last entry of the array.\<close>

fun pdn_index_loop :: "u32 \<Rightarrow> ipa_nat_pdn_entry list \<Rightarrow> nat \<Rightarrow> nat option" where
  "pdn_index_loop ip [] i = None"
| "pdn_index_loop ip (p # ps) i = (if public_ip p = ip then Some i else pdn_index_loop ip ps (Suc i))"

definition ipa_nati_get_pdn_index :: "nat_header \<Rightarrow> u32 \<Rightarrow> nat_lib \<Rightarrow> u8 result" where
  "ipa_nati_get_pdn_index hdr ip s =
     (case pdn_index_loop ip (take (hdr_IPA_MAX_PDN_NUM hdr - 1) (pdns s)) 0 of
        Some i \<Rightarrow> Inr (of_nat i)
      | None \<Rightarrow> Inl EIO)"

datatype pdn_search = Same_Pdn nat | Empty_Pdn nat | No_Pdn

fun alloc_pdn_loop :: "u32 \<Rightarrow> ipa_nat_pdn_entry list \<Rightarrow> nat \<Rightarrow> pdn_search" where
  "alloc_pdn_loop ip [] i = No_Pdn"
| "alloc_pdn_loop ip (p # ps) i =
     (if public_ip p = ip then Same_Pdn i
      else if p = zero_pdn then Empty_Pdn i
      else alloc_pdn_loop ip ps (Suc i))"

definition ipa_nati_alloc_pdn ::
  "nat_header \<Rightarrow> nat_sys \<Rightarrow> ipa_nat_pdn_entry \<Rightarrow> nat_lib \<Rightarrow> u8 result \<times> nat_lib" where
  "ipa_nati_alloc_pdn hdr os pdn_info s =
     (if int (hdr_IPA_MAX_PDN_NUM hdr) - 1 \<le> num_pdns s then (Inl EIO, s)
      else
        (case alloc_pdn_loop (public_ip pdn_info) (take (hdr_IPA_MAX_PDN_NUM hdr - 1) (pdns s)) 0 of
           Same_Pdn i \<Rightarrow> (Inr (of_nat i), s)
         | No_Pdn \<Rightarrow> (Inl EIO, s)
         | Empty_Pdn i \<Rightarrow>
             (case ipa_nati_modify_pdn os \<lparr>pdn_index = of_nat i, pdn_entry = pdn_info\<rparr> s of
                (Inl err, s) \<Rightarrow> (Inl err, s)
              | (Inr _, s) \<Rightarrow> (Inr (of_nat i), s\<lparr>num_pdns := num_pdns s + 1\<rparr>))))"

definition ipa_nati_get_pdn_cnt :: "nat_lib \<Rightarrow> int" where
  "ipa_nati_get_pdn_cnt s = num_pdns s"

definition ipa_nati_dealloc_pdn :: "nat_sys \<Rightarrow> u8 \<Rightarrow> nat_lib \<Rightarrow> unit result \<times> nat_lib" where
  "ipa_nati_dealloc_pdn os index s =
     (if num_pdns s = 0 then (Inl EIO, s)
      else if length (pdns s) \<le> unat index then (Inl CRASH, s)
      else if pdns s ! unat index = zero_pdn then (Inl EIO, s)
      else
        (case ipa_nati_modify_pdn os \<lparr>pdn_index = index, pdn_entry = zero_pdn\<rparr> s of
           (Inl err, s) \<Rightarrow> (Inl (if err = CRASH then CRASH else EIO), s)
         | (Inr _, s) \<Rightarrow>
             (Inr (), s\<lparr>pdns := (pdns s)[unat index := zero_pdn], num_pdns := num_pdns s - 1\<rparr>)))"

section \<open>Hashes\<close>

text \<open>The size that is passed is one less than that of the table; 0 is not used.\<close>

definition dst_hash :: "nat_header \<Rightarrow> u32 \<Rightarrow> u32 \<Rightarrow> u32 \<Rightarrow> u16 \<Rightarrow> u16 \<Rightarrow> u8 \<Rightarrow> u16 \<Rightarrow> u16" where
  "dst_hash hdr ver pub_ip trgt_ip trgt_port public_port proto n =
     (let hash = ucast trgt_ip XOR ucast (drop_bit 16 trgt_ip) XOR trgt_port XOR public_port XOR ucast proto;
          hash = (if hdr_IPA_HW_v4_0 (base_header hdr) \<le> ver
                  then hash XOR (ucast pub_ip XOR ucast (drop_bit 16 pub_ip)) else hash);
          hash = hash AND n
      in if hash = 0 then n else hash)"

definition src_hash :: "u32 \<Rightarrow> u16 \<Rightarrow> u32 \<Rightarrow> u16 \<Rightarrow> u8 \<Rightarrow> u16 \<Rightarrow> u16" where
  "src_hash priv_ip priv_port trgt_ip trgt_port proto n =
     (let hash = ucast priv_ip XOR ucast (drop_bit 16 priv_ip) XOR priv_port XOR ucast trgt_ip XOR
            ucast (drop_bit 16 trgt_ip) XOR trgt_port XOR ucast proto;
          hash = hash AND n
      in if hash = 0 then n else hash)"

text \<open>A rule for one direction only is put at a slot that depends on the token instead.\<close>

definition token_slot :: "u16 \<Rightarrow> u32 \<Rightarrow> u16 \<Rightarrow> u16" where
  "token_slot hash token n = (let i = (hash + ucast token) AND n in if i = 0 then n else i)"

text \<open>The slot and the token after it, for the two tables.\<close>

definition rule_slot :: "nat_header \<Rightarrow> u32 \<Rightarrow> nat_user \<Rightarrow> u16 \<Rightarrow> u32 \<Rightarrow> u16 \<times> u32" where
  "rule_slot hdr ver user_data n token =
     (let (ps, rule) = user_data;
          hash = dst_hash hdr ver (public_ip (ps ! unat (cr_pdn_index rule))) (cr_target_ip rule) (cr_target_port rule)
                   (cr_public_port rule) (cr_protocol rule) n
      in if cr_src_only rule then (token_slot hash token n, token + 1) else (hash, token))"

definition index_slot :: "ipa_nat_ipv4_rule \<Rightarrow> u16 \<Rightarrow> u32 \<Rightarrow> u16 \<times> u32" where
  "index_slot rule n token =
     (let hash = src_hash (cr_private_ip rule) (cr_private_port rule) (cr_target_ip rule) (cr_target_port rule)
                   (cr_protocol rule) n
      in if cr_dst_only rule then (token_slot hash token n, token + 1) else (hash, token))"

section \<open>Adding and deleting rules\<close>

text \<open>The second half of adding a rule, once its record is in the rule table at \<open>idx\<close> under the handle
  \<open>hdl\<close>: the index record, the fields that are only set here, and the command.\<close>

definition finish_record :: "ipa_nat_ipv4_rule \<Rightarrow> u16 \<Rightarrow> ipa_nat_rule \<Rightarrow> ipa_nat_rule" where
  "finish_record rule index_entry e =
     e\<lparr>nr_indx_tbl_entry := index_entry, nr_redirect := bit (cr_redirect rule) 0, nr_enable := bit (cr_enable rule) 0,
       nr_time_stamp := ucast (cr_time_stamp rule)\<rparr>"

definition add_index_entry ::
  "nat_engine \<Rightarrow> sys \<Rightarrow> ipa3_nat_mem_in \<Rightarrow> nat_lib \<Rightarrow> ipa_nat_ipv4_rule \<Rightarrow> u16 \<Rightarrow> u32 \<Rightarrow> u16 \<Rightarrow>
   ipa_ioc_nat_dma_one list \<Rightarrow> ipa_nat_ip4_table_cache \<Rightarrow> (u32 result \<times> ipa_nat_ip4_table_cache) option" where
  "add_index_entry engine os mem s rule idx hdl index_idx cmd nt =
     do {
       (ret, cmd, x) \<leftarrow> ipa_table_add_entry (index_table nt) idx index_idx cmd;
       Some (let nt = nt\<lparr>index_table := x\<rparr>;
                 erase_rule = (\<lambda>nt. nt\<lparr>table := ipa_table_erase_entry (table nt) idx\<rparr>)
             in case ret of
                  Inl err \<Rightarrow> (Inl err, erase_rule nt)
                | Inr (j, _) \<Rightarrow>
                    let bail = (\<lambda>nt. erase_rule (nt\<lparr>index_table := ipa_table_erase_entry (index_table nt) j\<rparr>))
                    in (case ipa_table_get_entry_by_index (table nt) idx of
                          None \<Rightarrow> (Inl EPERM, bail nt)
                        | Some r \<Rightarrow>
                            let nt = nt\<lparr>table := set_rec r (finish_record rule j (rec_at (table nt) r)) (table nt)\<rparr>
                            in (case ipa_nati_post_ipv4_dma_cmd engine os s mem cmd nt of
                                  (Inl err, nt) \<Rightarrow> (Inl err, bail nt)
                                | (Inr _, nt) \<Rightarrow> (if unlock_ok os then Inr hdl else Inl EPERM, nt))))
     }"

text \<open>\<open>clnt_rule\<close> is \<open>None\<close> for a null pointer, \<open>rule_hdl\<close> says whether there is a pointer for the handle.
  \<open>None\<close> is a call that does not return.\<close>

definition ipa_NATI_add_ipv4_rule ::
  "nat_header \<Rightarrow> nat_engine \<Rightarrow> sys \<Rightarrow> u32 \<Rightarrow> ipa_nat_ipv4_rule option \<Rightarrow> bool \<Rightarrow> nat_lib \<Rightarrow>
   (u32 result \<times> nat_lib) option" where
  "ipa_NATI_add_ipv4_rule hdr engine os tbl_hdl clnt_rule rule_hdl s =
     (if \<not> VALID_TBL_HDL tbl_hdl \<or> clnt_rule = None \<or> \<not> rule_hdl then Some (Inl EINVAL, s)
      else
        let rule = the clnt_rule; (mem, h) = BREAK_TBL_HDL tbl_hdl; c = ipv4_nat_cache s mem in
        if cr_protocol rule = hdr_IPAHAL_NAT_INVALID_PROTOCOL hdr then Some (Inl EINVAL, s)
        else if hdr_IPA_MAX_PDN_NUM hdr \<le> unat (cr_pdn_index rule) \<or> public_ip (pdns s ! unat (cr_pdn_index rule)) = 0
        then Some (Inl EINVAL, s)
        else if \<not> lock_ok os then Some (Inl EINVAL, s)
        else
          (case tbl_of c h of
             None \<Rightarrow> Some (Inl CRASH, s)
           | Some nt \<Rightarrow>
               if \<not> md_valid (nat_mem_desc nt) then Some (Inl EINVAL, s)
               else
                 (case nc_ipa_desc c of
                    None \<Rightarrow> Some (Inl CRASH, s)
                  | Some desc \<Rightarrow>
                      let n = table_entries (table nt) - 1;
                          (slot, token) = rule_slot hdr (desc_ver desc) (pdns s, rule) n (Hash_token s)
                      in do {
                        (ret, cmd, t) \<leftarrow> ipa_table_add_entry (table nt) (pdns s, rule) slot [];
                        let nt = nt\<lparr>table := t\<rparr>;
                        (case ret of
                             Inl err \<Rightarrow> Some (Inl err, set_ip4_tbl mem (unat (h - 1)) nt (s\<lparr>Hash_token := token\<rparr>))
                           | Inr (idx, hdl) \<Rightarrow>
                               let (index_idx, token) = index_slot rule n token
                               in do {
                                 (ret, nt) \<leftarrow> add_index_entry engine os mem s rule idx hdl index_idx cmd nt;
                                 Some (ret, set_ip4_tbl mem (unat (h - 1)) nt (s\<lparr>Hash_token := token\<rparr>))
                               })
                      })))"

text \<open>When the index record to delete heads a list, the record after it is moved to the head: the commands
  copy its fields, and the rule that it leads to learns its new place at once. An index past the
  tables, which is not checked, leaves them alone in the model.\<close>

definition ipa_nati_copy_second_index_entry_to_head ::
  "ipa_nat_ip4_table_cache \<Rightarrow> ipa_table_iterator \<Rightarrow> ipa_ioc_nat_dma_one list \<Rightarrow>
   ipa_ioc_nat_dma_one list \<times> ipa_nat_ip4_table_cache" where
  "ipa_nati_copy_second_index_entry_to_head nt it cmd =
     (let second = rec_at (index_table nt) (the (next_entry it));
          cmd = snd (ipa_table_add_dma_cmd (index_table nt) HELP_UPDATE_ENTRY (curr_entry it) (curr_index it)
                  (ix_next_index second) cmd);
          r = tbl_entry second
      in (cmd, nt\<lparr>table := set_rec r ((rec_at (table nt) r)\<lparr>nr_indx_tbl_entry := curr_index it\<rparr>) (table nt)\<rparr>))"

text \<open>The commands of a deletion, with the iterator of the index record that is to be erased.\<close>

definition delete_cmds ::
  "ipa_nat_ip4_table_cache \<Rightarrow> ipa_table_iterator \<Rightarrow> ipa_table_iterator \<Rightarrow>
   (ipa_table_iterator \<times> ipa_ioc_nat_dma_one list) result \<times> ipa_nat_ip4_table_cache" where
  "delete_cmds nt table_it index_it =
     (let cmd = ipa_table_create_delete_command (index_table nt) [] index_it in
      if ipa_table_iterator_is_head_with_tail index_it then
        let (cmd, nt) = ipa_nati_copy_second_index_entry_to_head nt index_it cmd in
        (case ipa_table_iterator_next index_it (index_table nt) of
           (Inl err, _) \<Rightarrow> (Inl err, nt)
         | (Inr _, index_it) \<Rightarrow> (Inr (index_it, ipa_table_create_delete_command (table nt) cmd table_it), nt))
      else (Inr (index_it, ipa_table_create_delete_command (table nt) cmd table_it), nt))"

text \<open>What remains once the commands have been carried out.\<close>

definition delete_records ::
  "nat_header \<Rightarrow> ipa_table_iterator \<Rightarrow> ipa_table_iterator \<Rightarrow> ipa_nat_ip4_table_cache \<Rightarrow> ipa_nat_ip4_table_cache" where
  "delete_records hdr table_it index_it nt =
     (let is_prev_empty = (case prev_entry table_it of
              None \<Rightarrow> False
            | Some r \<Rightarrow> nr_protocol (rec_at (table nt) r) = hdr_IPAHAL_NAT_INVALID_PROTOCOL hdr);
          t = (if ipa_table_iterator_is_head_with_tail table_it then table nt
               else ipa_table_delete_entry (table nt) table_it is_prev_empty);
          x = ipa_table_delete_entry (index_table nt) index_it False;
          i = curr_index index_it;
          x = (if table_entries x \<le> i
               then x\<lparr>meta := map_option (\<lambda>m. m[unat (i - table_entries x) := 0]) (meta x)\<rparr> else x)
      in nt\<lparr>table := t, index_table := x\<rparr>)"

text \<open>The iterators of the rule that a handle denotes and of its index record.\<close>

definition find_rule :: "ipa_nat_ip4_table_cache \<Rightarrow> u32 \<Rightarrow> (ipa_table_iterator \<times> ipa_table_iterator) result" where
  "find_rule nt rule_hdl =
     (case ipa_table_get_entry (table nt) rule_hdl of
        Inl err \<Rightarrow> Inl err
      | Inr i \<Rightarrow>
          (case ipa_table_iterator_init (table nt) i of
             Inl err \<Rightarrow> Inl err
           | Inr table_it \<Rightarrow>
               (case ipa_table_get_entry_by_index (index_table nt) (nr_indx_tbl_entry (rec_at (table nt) i)) of
                  None \<Rightarrow> Inl EPERM
                | Some j \<Rightarrow>
                    (case ipa_table_iterator_init (index_table nt) j of
                       Inl err \<Rightarrow> Inl err
                     | Inr index_it \<Rightarrow> Inr (table_it, index_it)))))"

definition delete_rule ::
  "nat_header \<Rightarrow> nat_engine \<Rightarrow> sys \<Rightarrow> nat_lib \<Rightarrow> ipa3_nat_mem_in \<Rightarrow> ipa_table_iterator \<Rightarrow> ipa_table_iterator \<Rightarrow>
   ipa_nat_ip4_table_cache \<Rightarrow> unit result \<times> ipa_nat_ip4_table_cache" where
  "delete_rule hdr engine os s mem table_it index_it nt =
     (case delete_cmds nt table_it index_it of
        (Inl err, nt) \<Rightarrow> (Inl err, nt)
      | (Inr (index_it, cmd), nt) \<Rightarrow>
          (case ipa_nati_post_ipv4_dma_cmd engine os s mem cmd nt of
             (Inl err, nt) \<Rightarrow> (Inl err, nt)
           | (Inr _, nt) \<Rightarrow> (Inr (), delete_records hdr table_it index_it nt)))"

definition ipa_NATI_del_ipv4_rule ::
  "nat_header \<Rightarrow> nat_engine \<Rightarrow> sys \<Rightarrow> u32 \<Rightarrow> u32 \<Rightarrow> nat_lib \<Rightarrow> unit result \<times> nat_lib" where
  "ipa_NATI_del_ipv4_rule hdr engine os tbl_hdl rule_hdl s =
     (let (mem, h) = BREAK_TBL_HDL tbl_hdl; c = ipv4_nat_cache s mem in
      if \<not> lock_ok os then (Inl EINVAL, s)
      else
        (case tbl_of c h of
           None \<Rightarrow> (Inl CRASH, s)
         | Some nt \<Rightarrow>
             if \<not> md_valid (nat_mem_desc nt) then (mutex_unlock os (Inl EINVAL), s)
             else
               (case find_rule nt rule_hdl of
                  Inl err \<Rightarrow> (mutex_unlock os (Inl err), s)
                | Inr (table_it, index_it) \<Rightarrow>
                    let (ret, nt) = delete_rule hdr engine os s mem table_it index_it nt
                    in (mutex_unlock os ret, set_ip4_tbl mem (unat (h - 1)) nt s))))"

definition ipa_NATI_query_timestamp :: "sys \<Rightarrow> u32 \<Rightarrow> u32 \<Rightarrow> nat_lib \<Rightarrow> u32 result" where
  "ipa_NATI_query_timestamp os tbl_hdl rule_hdl s =
     (let (mem, h) = BREAK_TBL_HDL tbl_hdl in
      if \<not> lock_ok os then Inl EINVAL
      else
        (case tbl_of (ipv4_nat_cache s mem) h of
           None \<Rightarrow> Inl CRASH
         | Some nt \<Rightarrow>
             if \<not> md_valid (nat_mem_desc nt) then mutex_unlock os (Inl EINVAL)
             else mutex_unlock os (map_sum id (\<lambda>i. ucast (nr_time_stamp (rec_at (table nt) i)))
                    (ipa_table_get_entry (table nt) rule_hdl))))"

definition ipa_nati_get_sram_size :: "nat_header \<Rightarrow> sys \<Rightarrow> nat_lib \<Rightarrow> u32 result \<times> nat_lib" where
  "ipa_nati_get_sram_size hdr os s =
     (if \<not> lock_ok os then (Inl EINVAL, s)
      else
        let s = open_ipa hdr os IPA_NAT_MEM_IN_SRAM s in
        if nc_ipa_desc (ipv4_nat_cache s IPA_NAT_MEM_IN_SRAM) = None then (mutex_unlock os (Inl EIO), s)
        else
          (case get_nat_in_sram_info os of
             None \<Rightarrow> (mutex_unlock os (Inl EFAIL), s)
           | Some info \<Rightarrow>
               (mutex_unlock os (if sram_mem_available_for_nat info = 0 then Inl EINVAL
                                 else Inr (sram_mem_available_for_nat info)), s)))"

definition ipa_nati_vote_clock :: "nat_header \<Rightarrow> nat_sys \<Rightarrow> nat_lib \<Rightarrow> unit result \<times> nat_lib" where
  "ipa_nati_vote_clock hdr os s =
     (let s = open_ipa hdr (base_sys os) IPA_NAT_MEM_IN_SRAM s in
      if nc_ipa_desc (ipv4_nat_cache s IPA_NAT_MEM_IN_SRAM) = None then (Inl EIO, s)
      else if clock_vote_ok os then (Inr (), s) else (Inl EFAIL, s))"

section \<open>The checks of the public interface\<close>

text \<open>The functions of \<open>ipa_nat_drv.c\<close> for public addresses; those for tables and rules go through the
  state machine of \<open>ipa_nat_statemach.c\<close>. A null pointer is \<open>None\<close>, \<open>index_ptr\<close> says whether there is a
  pointer for the result.\<close>

definition ipa_nat_modify_pdn ::
  "nat_header \<Rightarrow> nat_sys \<Rightarrow> u32 \<Rightarrow> u8 \<Rightarrow> ipa_nat_pdn_entry option \<Rightarrow> nat_lib \<Rightarrow> unit result \<times> nat_lib" where
  "ipa_nat_modify_pdn hdr os tbl_hdl index pdn_info s =
     (if \<not> VALID_TBL_HDL tbl_hdl \<or> pdn_info = None then (Inl EINVAL, s)
      else if hdr_IPA_MAX_PDN_NUM hdr < unat index then (Inl EINVAL, s)
      else ipa_nati_modify_pdn os \<lparr>pdn_index = index, pdn_entry = the pdn_info\<rparr> s)"

definition ipa_nat_get_pdn_index :: "nat_header \<Rightarrow> u32 \<Rightarrow> bool \<Rightarrow> nat_lib \<Rightarrow> u8 result" where
  "ipa_nat_get_pdn_index hdr ip index_ptr s = (if index_ptr then ipa_nati_get_pdn_index hdr ip s else Inl EINVAL)"

definition ipa_nat_alloc_pdn ::
  "nat_header \<Rightarrow> nat_sys \<Rightarrow> ipa_nat_pdn_entry option \<Rightarrow> bool \<Rightarrow> nat_lib \<Rightarrow> u8 result \<times> nat_lib" where
  "ipa_nat_alloc_pdn hdr os pdn_info index_ptr s =
     (if pdn_info = None then (Inl EINVAL, s)
      else if \<not> index_ptr then (Inl EINVAL, s)
      else ipa_nati_alloc_pdn hdr os (the pdn_info) s)"

definition ipa_nat_get_pdn_count :: "bool \<Rightarrow> nat_lib \<Rightarrow> u8 result" where
  "ipa_nat_get_pdn_count count_ptr s = (if count_ptr then Inr (of_int (ipa_nati_get_pdn_cnt s)) else Inl EINVAL)"

definition ipa_nat_dealloc_pdn :: "nat_header \<Rightarrow> nat_sys \<Rightarrow> u8 \<Rightarrow> nat_lib \<Rightarrow> unit result \<times> nat_lib" where
  "ipa_nat_dealloc_pdn hdr os index s =
     (if hdr_IPA_MAX_PDN_NUM hdr < unat index then (Inl EINVAL, s) else ipa_nati_dealloc_pdn os index s)"

end
