(* ===== verification/IPA_NAT_SM.thy ===== *)
theory IPA_NAT_SM
  imports IPA_NAT
begin

text \<open>
  The state machine in front of the NAT tables (\<open>qcom/opensource/dataipa/ipanat/src/ipa_nat_statemach.c\<close>,
  \<open>inc/ipa_nat_statemach.h\<close>), with its maps of rule handles (\<open>src/ipa_nat_map.cpp\<close>), the copying of a table
  (\<open>src/ipa_nat_drvi.c\<close>) and the public functions that lead to it (\<open>src/ipa_nat_drv.c\<close>). It keeps one table in
  DDR, one in SRAM or both, and moves all rules from one to the other when SRAM becomes full or
  DDR nearly empty. What it satisfies is shown in \<open>IPA_NAT_SM_Rules\<close>.
\<close>

section \<open>Maps of rule handles\<close>

text \<open>The array of maps; \<open>VALID_IPA_USE_MAP\<close> holds for every number, so its checks never fail.\<close>

datatype ipa_which_map = MAP_NUM_00 | MAP_NUM_01 | MAP_NUM_02 | MAP_NUM_03 | MAP_NUM_99

type_synonym nat_maps = "ipa_which_map \<Rightarrow> u32 \<rightharpoonup> u32"

definition ipa_nat_map_add :: "ipa_which_map \<Rightarrow> u32 \<Rightarrow> u32 \<Rightarrow> nat_maps \<Rightarrow> unit result \<times> nat_maps" where
  "ipa_nat_map_add which key val maps =
     (case maps which key of
        None \<Rightarrow> (Inr (), maps(which := (maps which)(key \<mapsto> val)))
      | Some _ \<Rightarrow> (Inl EFAIL, maps))"

definition ipa_nat_map_find :: "ipa_which_map \<Rightarrow> u32 \<Rightarrow> nat_maps \<Rightarrow> u32 result" where
  "ipa_nat_map_find which key maps = (case maps which key of None \<Rightarrow> Inl EFAIL | Some val \<Rightarrow> Inr val)"

definition ipa_nat_map_del :: "ipa_which_map \<Rightarrow> u32 \<Rightarrow> nat_maps \<Rightarrow> u32 result \<times> nat_maps" where
  "ipa_nat_map_del which key maps =
     (case maps which key of
        None \<Rightarrow> (Inl EFAIL, maps)
      | Some val \<Rightarrow> (Inr val, maps(which := (maps which)(key := None))))"

definition ipa_nat_map_clear :: "ipa_which_map \<Rightarrow> nat_maps \<Rightarrow> nat_maps" where
  "ipa_nat_map_clear which maps = maps(which := (\<lambda>_. None))"

section \<open>States and triggers\<close>

datatype ipa_nati_state =
  NATI_STATE_NULL | NATI_STATE_DDR_ONLY | NATI_STATE_SRAM_ONLY | NATI_STATE_HYBRID | NATI_STATE_HYBRID_DDR |
  NATI_STATE_LAST

definition tolower :: "char \<Rightarrow> char" where
  "tolower c = (let n = of_char c :: nat in if 65 \<le> n \<and> n \<le> 90 then char_of (n + 32) else c)"

definition strcasesame :: "string \<Rightarrow> string \<Rightarrow> bool" where
  "strcasesame a b \<longleftrightarrow> map tolower a = map tolower b"

definition mem_type_str_to_ipa_nati_state :: "string option \<Rightarrow> ipa_nati_state" where
  "mem_type_str_to_ipa_nati_state str =
     (case str of
        None \<Rightarrow> NATI_STATE_DDR_ONLY
      | Some str \<Rightarrow>
          if strcasesame str ''HYBRID'' then NATI_STATE_HYBRID
          else if strcasesame str ''SRAM'' then NATI_STATE_SRAM_ONLY
          else NATI_STATE_DDR_ONLY)"

text \<open>
  A trigger with the arguments that its callers put into the array \<open>arb_data_ptr\<close>; the pointers
  for results are the state's field \<open>out_val\<close> below. The two triggers that only read, the walk with a
  caller's callback and the statistics, are left out.
\<close>

datatype ipa_nati_trigger =
  NATI_TRIG_NULL |
  NATI_TRIG_ADD_TABLE u32 u16 "string option" |
  NATI_TRIG_DEL_TABLE u32 |
  NATI_TRIG_CLR_TABLE u32 |
  NATI_TRIG_ADD_RULE u32 ipa_nat_ipv4_rule |
  NATI_TRIG_DEL_RULE u32 u32 |
  NATI_TRIG_TBL_SWITCH |
  NATI_TRIG_GOTO_DDR |
  NATI_TRIG_GOTO_SRAM |
  NATI_TRIG_GET_TSTAMP u32 u32 |
  NATI_TRIG_LAST

record nati_switch_stats =
  sw_pass :: u32
  sw_fail :: u32

record nati_map_pair =
  orig2new_map :: ipa_which_map
  new2orig_map :: ipa_which_map

text \<open>The arrays with an element for DDR and one for SRAM are functions of the memory.\<close>

record ipa_nati_obj =
  prev_state :: ipa_nati_state
  curr_state :: ipa_nati_state
  hold_state :: bool
  state_to_hold :: ipa_nati_state
  ddr_tbl_hdl :: u32
  sram_tbl_hdl :: u32
  tot_slots_in_sram :: u32
  back_to_sram_thresh :: u32
  tot_rules_in_table :: "ipa3_nat_mem_in \<Rightarrow> u32"
  map_pairs :: "ipa3_nat_mem_in \<Rightarrow> nati_map_pair"
  sw_stats :: "ipa3_nat_mem_in \<Rightarrow> nati_switch_stats"

text \<open>
  The state of the whole client: the object, the maps, the tables below, whether the mutex has been
  initialised, and the variable that the result pointer of the call refers to. The system answers
  each call of the layer below on its own: \<open>calls\<close> numbers them, and the environment gives the answers
  to the call of a number.
\<close>

record nat_sm =
  nati_obj :: ipa_nati_obj
  map_array :: nat_maps
  lib :: nat_lib
  nat_mutex_init :: bool
  out_val :: u32
  calls :: nat

record sm_sys =
  low_sys :: nat_sys
  mutex_init_ok :: bool

type_synonym sm_env = "nat \<Rightarrow> sm_sys"

definition nati_obj_start :: ipa_nati_obj where
  "nati_obj_start = \<lparr>prev_state = NATI_STATE_NULL, curr_state = NATI_STATE_NULL, hold_state = False,
     state_to_hold = NATI_STATE_NULL, ddr_tbl_hdl = 0, sram_tbl_hdl = 0, tot_slots_in_sram = 0,
     back_to_sram_thresh = 0, tot_rules_in_table = (\<lambda>_. 0),
     map_pairs = (\<lambda>mem. case mem of
         IPA_NAT_MEM_IN_DDR \<Rightarrow> \<lparr>orig2new_map = MAP_NUM_00, new2orig_map = MAP_NUM_01\<rparr>
       | IPA_NAT_MEM_IN_SRAM \<Rightarrow> \<lparr>orig2new_map = MAP_NUM_02, new2orig_map = MAP_NUM_03\<rparr>),
     sw_stats = (\<lambda>_. \<lparr>sw_pass = 0, sw_fail = 0\<rparr>)\<rparr>"

definition sm_start :: "nat_header \<Rightarrow> nat_sm" where
  "sm_start hdr = \<lparr>nati_obj = nati_obj_start, map_array = (\<lambda>_ _. None), lib = nat_start hdr, nat_mutex_init = False,
     out_val = 0, calls = 0\<rparr>"

definition BACK2_UNSTARTED_STATE :: "ipa_nati_obj \<Rightarrow> ipa_nati_obj" where
  "BACK2_UNSTARTED_STATE ob = ob\<lparr>prev_state := NATI_STATE_NULL, curr_state := NATI_STATE_NULL\<rparr>"

definition IN_UNSTARTED_STATE :: "ipa_nati_obj \<Rightarrow> bool" where
  "IN_UNSTARTED_STATE ob \<longleftrightarrow> prev_state ob = NATI_STATE_NULL"

definition IN_HYBRID_STATE :: "ipa_nati_obj \<Rightarrow> bool" where
  "IN_HYBRID_STATE ob \<longleftrightarrow> curr_state ob = NATI_STATE_HYBRID \<or> curr_state ob = NATI_STATE_HYBRID_DDR"

definition COMPATIBLE_NMI_4SWITCH :: "ipa3_nat_mem_in \<Rightarrow> ipa_nati_obj \<Rightarrow> bool" where
  "COMPATIBLE_NMI_4SWITCH mem ob \<longleftrightarrow>
     (mem = IPA_NAT_MEM_IN_SRAM \<and> curr_state ob = NATI_STATE_HYBRID_DDR) \<or>
     (mem = IPA_NAT_MEM_IN_DDR \<and> curr_state ob = NATI_STATE_HYBRID) \<or>
     (mem = IPA_NAT_MEM_IN_DDR \<and> curr_state ob = NATI_STATE_DDR_ONLY) \<or>
     (mem = IPA_NAT_MEM_IN_SRAM \<and> curr_state ob = NATI_STATE_SRAM_ONLY)"

definition GEN_HOLD_STATE :: "ipa_nati_obj \<Rightarrow> ipa_nati_state" where
  "GEN_HOLD_STATE ob =
     (if \<not> IN_HYBRID_STATE ob then curr_state ob
      else if curr_state ob = NATI_STATE_HYBRID then NATI_STATE_SRAM_ONLY
      else NATI_STATE_DDR_ONLY)"

definition SRAM_CURRENTLY_ACTIVE :: "ipa_nati_obj \<Rightarrow> bool" where
  "SRAM_CURRENTLY_ACTIVE ob \<longleftrightarrow> curr_state ob = NATI_STATE_SRAM_ONLY \<or> curr_state ob = NATI_STATE_HYBRID"

definition SRAM_TO_BE_ACCESSED :: "ipa_nati_trigger \<Rightarrow> ipa_nati_obj \<Rightarrow> bool" where
  "SRAM_TO_BE_ACCESSED t ob \<longleftrightarrow> SRAM_CURRENTLY_ACTIVE ob \<or> t = NATI_TRIG_GOTO_SRAM \<or> t = NATI_TRIG_TBL_SWITCH"

definition VOTE_REQUIRED :: "ipa_nati_trigger \<Rightarrow> ipa_nati_obj \<Rightarrow> bool" where
  "VOTE_REQUIRED t ob \<longleftrightarrow> SRAM_TO_BE_ACCESSED t ob \<and>
     (case t of NATI_TRIG_GET_TSTAMP _ _ \<Rightarrow> False | NATI_TRIG_ADD_TABLE _ _ _ \<Rightarrow> False | _ \<Rightarrow> True)"

definition SET_NATIOBJ_STATE :: "ipa_nati_state \<Rightarrow> nat_sm \<Rightarrow> nat_sm" where
  "SET_NATIOBJ_STATE st s =
     s\<lparr>nati_obj := (nati_obj s)\<lparr>prev_state := curr_state (nati_obj s), curr_state := st\<rparr>\<rparr>"

definition CHOOSE_MEM_SUB :: "nat_sm \<Rightarrow> ipa3_nat_mem_in" where
  "CHOOSE_MEM_SUB s = (if curr_state (nati_obj s) = NATI_STATE_HYBRID then IPA_NAT_MEM_IN_SRAM else IPA_NAT_MEM_IN_DDR)"

definition o2n :: "ipa3_nat_mem_in \<Rightarrow> nat_sm \<Rightarrow> ipa_which_map" where
  "o2n mem s = orig2new_map (map_pairs (nati_obj s) mem)"

definition n2o :: "ipa3_nat_mem_in \<Rightarrow> nat_sm \<Rightarrow> ipa_which_map" where
  "n2o mem s = new2orig_map (map_pairs (nati_obj s) mem)"

definition set_count :: "ipa3_nat_mem_in \<Rightarrow> u32 \<Rightarrow> nat_sm \<Rightarrow> nat_sm" where
  "set_count mem n s = s\<lparr>nati_obj := (nati_obj s)\<lparr>tot_rules_in_table := (tot_rules_in_table (nati_obj s))(mem := n)\<rparr>\<rparr>"

definition count_of :: "ipa3_nat_mem_in \<Rightarrow> nat_sm \<Rightarrow> u32" where
  "count_of mem s = tot_rules_in_table (nati_obj s) mem"

text \<open>The counter and both maps of a memory are cleared.\<close>

definition clear_maps :: "ipa3_nat_mem_in \<Rightarrow> nat_sm \<Rightarrow> nat_sm" where
  "clear_maps mem s =
     (let s = set_count mem 0 s
      in s\<lparr>map_array := ipa_nat_map_clear (n2o mem s) (ipa_nat_map_clear (o2n mem s) (map_array s))\<rparr>)"

section \<open>Calls of the layer below\<close>

definition sys_now :: "sm_env \<Rightarrow> nat_sm \<Rightarrow> nat_sys" where
  "sys_now env s = low_sys (env (calls s))"

definition next_call :: "nat_sm \<Rightarrow> nat_sm" where
  "next_call s = s\<lparr>calls := Suc (calls s)\<rparr>"

definition low :: "sm_env \<Rightarrow> (nat_sys \<Rightarrow> nat_lib \<Rightarrow> 'a \<times> nat_lib) \<Rightarrow> nat_sm \<Rightarrow> 'a \<times> nat_sm" where
  "low env f s = (let (ret, l) = f (sys_now env s) (lib s) in (ret, (next_call s)\<lparr>lib := l\<rparr>))"

text \<open>An error of \<open>pthread\<close> is \<open>EINVAL\<close> or \<open>EPERM\<close> here.\<close>

definition take_mutex :: "sm_env \<Rightarrow> nat_sm \<Rightarrow> unit result \<times> nat_sm" where
  "take_mutex env s =
     (if \<not> nat_mutex_init s \<and> \<not> mutex_init_ok (env (calls s)) then (Inl EINVAL, next_call s)
      else (if lock_ok (base_sys (sys_now env s)) then Inr () else Inl EINVAL, (next_call s)\<lparr>nat_mutex_init := True\<rparr>))"

definition give_mutex :: "sm_env \<Rightarrow> nat_sm \<Rightarrow> unit result \<times> nat_sm" where
  "give_mutex env s =
     (if \<not> nat_mutex_init s then Inl EFAIL
      else if unlock_ok (base_sys (sys_now env s)) then Inr () else Inl EPERM, next_call s)"

definition ipa_nat_vote_clock :: "nat_header \<Rightarrow> sm_env \<Rightarrow> nat_sm \<Rightarrow> unit result \<times> nat_sm" where
  "ipa_nat_vote_clock hdr env s = low env (ipa_nati_vote_clock hdr) s"

text \<open>\<open>ipa_NATI_add_ipv4_tbl\<close> with the content of its result variable: 0, or the handle if a table was created,
  even if unlocking failed after that.\<close>

definition add_ipv4_tbl_hdl ::
  "nat_header \<Rightarrow> sm_env \<Rightarrow> ipa3_nat_mem_in \<Rightarrow> u32 \<Rightarrow> u16 \<Rightarrow> nat_sm \<Rightarrow> (unit result \<times> u32) \<times> nat_sm" where
  "add_ipv4_tbl_hdl hdr env mem public_ip_addr number_of_entries s =
     low env (\<lambda>os l.
       let (ret, l') = ipa_NATI_add_ipv4_tbl hdr os mem public_ip_addr number_of_entries l;
           unlocking = os\<lparr>base_sys := (base_sys os)\<lparr>unlock_ok := True\<rparr>\<rparr>;
           hdl = (case fst (ipa_NATI_add_ipv4_tbl hdr unlocking mem public_ip_addr number_of_entries l) of
                    Inr hdl \<Rightarrow> hdl | Inl _ \<Rightarrow> 0)
       in ((map_sum id (\<lambda>_. ()) ret, hdl), l')) s"

section \<open>Copying a table\<close>

definition IPA_NAT_INVALID_PROTO_FIELD_VALUE_IN_RULE :: u8 where
  "IPA_NAT_INVALID_PROTO_FIELD_VALUE_IN_RULE = 0xFF"

text \<open>Walks the rule table, which is what \<open>USE_NAT_TABLE\<close> asks for. The error of a callback is not told
  from others.\<close>

definition ipa_NATI_walk_ipv4_tbl ::
  "sys \<Rightarrow> u32 \<Rightarrow> (ipa_nat_rule, unit, nat_user, 'a) ipa_table_walk_cb \<Rightarrow> nat_lib \<Rightarrow> 'a \<Rightarrow> unit result \<times> 'a" where
  "ipa_NATI_walk_ipv4_tbl os tbl_hdl walk_cb l arb =
     (if \<not> VALID_TBL_HDL tbl_hdl then (Inl EINVAL, arb)
      else if \<not> lock_ok os then (Inl EINVAL, arb)
      else
        let (mem, h) = BREAK_TBL_HDL tbl_hdl; c = ipv4_nat_cache l mem in
        if table_cnt c = 0 then (mutex_unlock os (Inl EINVAL), arb)
        else
          (case tbl_of c h of
             None \<Rightarrow> (Inl CRASH, arb)
           | Some nt \<Rightarrow>
               let (ret, arb) = ipa_table_walk (table nt) 0 WHEN_SLOT_FILLED walk_cb arb
               in (mutex_unlock os (if ret = 0 then Inr () else Inl EFAIL), arb)))"

text \<open>The rule of a client that a record was made from.\<close>

definition v4_rule_of :: "ipa_nat_rule \<Rightarrow> ipa_nat_ipv4_rule" where
  "v4_rule_of r = \<lparr>cr_target_ip = nr_target_ip r, cr_private_ip = nr_private_ip r, cr_target_port = nr_target_port r,
     cr_private_port = nr_private_port r, cr_public_port = nr_public_port r, cr_protocol = nr_protocol r,
     cr_pdn_index = ucast (nr_pdn_index r), cr_redirect = of_bool (nr_redirect r), cr_enable = of_bool (nr_enable r),
     cr_time_stamp = ucast (nr_time_stamp r), cr_uc_activation_index = ucast (nr_uc_activation_index r),
     cr_s = nr_s r, cr_ucp = nr_ucp r, cr_dst_only = nr_dst_only r, cr_src_only = nr_src_only r\<rparr>"

text \<open>One rule is copied: the callback of a walk whose data is the whole state, \<open>None\<close> when adding
  the rule does not return. The walked table is not the one that rules are added to.\<close>

definition add_new_handle :: "ipa3_nat_mem_in \<Rightarrow> u32 \<Rightarrow> u32 \<Rightarrow> nat_sm \<Rightarrow> unit result \<times> nat_sm" where
  "add_new_handle mem orig_rule_hdl new_rule_hdl s =
     (case ipa_nat_map_add (o2n mem s) orig_rule_hdl new_rule_hdl (map_array s) of
        (Inl err, m) \<Rightarrow> (Inl err, s\<lparr>map_array := m\<rparr>)
      | (Inr _, m) \<Rightarrow>
          let (ret, m) = ipa_nat_map_add (n2o mem s) new_rule_hdl orig_rule_hdl m in (ret, s\<lparr>map_array := m\<rparr>))"

definition add_rule_low ::
  "nat_header \<Rightarrow> nat_engine \<Rightarrow> sm_env \<Rightarrow> u32 \<Rightarrow> ipa_nat_ipv4_rule \<Rightarrow> nat_sm \<Rightarrow> (u32 result \<times> nat_sm) option" where
  "add_rule_low hdr engine env tbl_hdl rule s =
     map_option (\<lambda>(ret, l). (ret, (next_call s)\<lparr>lib := l\<rparr>))
       (ipa_NATI_add_ipv4_rule hdr engine (base_sys (sys_now env s)) tbl_hdl (Some rule) True (lib s))"

definition migrate_rule ::
  "nat_header \<Rightarrow> nat_engine \<Rightarrow> sm_env \<Rightarrow> u32 \<Rightarrow> (ipa_nat_rule, unit, nat_user, nat_sm option) ipa_table_walk_cb" where
  "migrate_rule hdr engine env dst_tbl_hdl table_ptr tbl_rule_hdl record_index meta_record arb =
     (case arb of
        None \<Rightarrow> (-1, None)
      | Some s \<Rightarrow>
          let src = nmi table_ptr;
              dst = (if src = IPA_NAT_MEM_IN_SRAM then IPA_NAT_MEM_IN_DDR else IPA_NAT_MEM_IN_SRAM);
              nat_rule = rec_at table_ptr record_index
          in if nr_protocol nat_rule = IPA_NAT_INVALID_PROTO_FIELD_VALUE_IN_RULE then (0, Some s)
             else
               (case ipa_nat_map_find (n2o src s) tbl_rule_hdl (map_array s) of
                  Inl _ \<Rightarrow> (-1, Some s)
                | Inr orig_rule_hdl \<Rightarrow>
                    (case add_rule_low hdr engine env dst_tbl_hdl (v4_rule_of nat_rule) s of
                       None \<Rightarrow> (-1, None)
                     | Some (Inl _, s) \<Rightarrow> (-1, Some s)
                     | Some (Inr new_rule_hdl, s) \<Rightarrow>
                         let s = set_count dst (count_of dst s + 1) s;
                             (ret, s) = add_new_handle dst orig_rule_hdl new_rule_hdl s
                         in (if is_ok ret then 0 else -1, Some s))))"

definition ipa_nati_copy_ipv4_tbl ::
  "sm_env \<Rightarrow> u32 \<Rightarrow> u32 \<Rightarrow> (u32 \<Rightarrow> (ipa_nat_rule, unit, nat_user, nat_sm option) ipa_table_walk_cb) \<Rightarrow> nat_sm \<Rightarrow>
   (unit result \<times> nat_sm) option" where
  "ipa_nati_copy_ipv4_tbl env src_tbl_hdl dst_tbl_hdl copy_cb s =
     (let os = base_sys (sys_now env s); s = next_call s in
      if \<not> lock_ok os then Some (Inl EINVAL, s)
      else
        (case low env (\<lambda>os. ipa_NATI_clear_ipv4_tbl (base_sys os) dst_tbl_hdl) s of
           (Inl err, s) \<Rightarrow> Some (mutex_unlock os (Inl err), s)
         | (Inr _, s) \<Rightarrow>
             let (ret, arb) = ipa_NATI_walk_ipv4_tbl (base_sys (sys_now env s)) src_tbl_hdl (copy_cb dst_tbl_hdl) (lib s)
                                (Some (next_call s))
             in map_option (\<lambda>s. (mutex_unlock os ret, s)) arb))"

section \<open>The actions\<close>

text \<open>Actions that run the state machine again get it as their first argument.\<close>

type_synonym sm_run = "ipa_nati_trigger \<Rightarrow> nat_sm \<Rightarrow> (unit result \<times> nat_sm) option"

definition smUndef :: "nat_sm \<Rightarrow> unit result \<times> nat_sm" where
  "smUndef s = (Inl EFAIL, s)"

definition smDelTbl :: "sm_env \<Rightarrow> u32 \<Rightarrow> nat_sm \<Rightarrow> unit result \<times> nat_sm" where
  "smDelTbl env tbl_hdl s =
     (let (ret, s) = low env (\<lambda>os. ipa_NATI_del_ipv4_table (base_sys os) tbl_hdl) s
      in (ret, if is_ok ret \<and> \<not> IN_HYBRID_STATE (nati_obj s)
               then s\<lparr>nati_obj := BACK2_UNSTARTED_STATE (nati_obj s)\<rparr> else s))"

definition smFirstTbl :: "sm_run \<Rightarrow> u32 \<Rightarrow> u16 \<Rightarrow> string option \<Rightarrow> nat_sm \<Rightarrow> (unit result \<times> nat_sm) option" where
  "smFirstTbl run public_ip_addr number_of_entries mem_type s =
     (let ob = nati_obj s;
          s = SET_NATIOBJ_STATE (if hold_state ob \<and> state_to_hold ob \<noteq> NATI_STATE_NULL then state_to_hold ob
                                 else mem_type_str_to_ipa_nati_state mem_type) s
      in run (NATI_TRIG_ADD_TABLE public_ip_addr number_of_entries mem_type) s)"

definition smAddDdrTbl :: "nat_header \<Rightarrow> sm_env \<Rightarrow> u32 \<Rightarrow> u16 \<Rightarrow> nat_sm \<Rightarrow> unit result \<times> nat_sm" where
  "smAddDdrTbl hdr env public_ip_addr number_of_entries s =
     (let ((ret, hdl), s) = add_ipv4_tbl_hdl hdr env IPA_NAT_MEM_IN_DDR public_ip_addr number_of_entries s;
          s = s\<lparr>nati_obj := (nati_obj s)\<lparr>ddr_tbl_hdl := hdl\<rparr>\<rparr>
      in (ret, if is_ok ret then s\<lparr>out_val := hdl\<rparr> else s))"

text \<open>The number of entries has 16 bits and is stored in the lower half of a field whose upper half is
  never written; a quarter of it, rounded down, is the threshold for going back.\<close>

definition smAddSramTbl :: "nat_header \<Rightarrow> sm_env \<Rightarrow> u32 \<Rightarrow> nat_sm \<Rightarrow> (unit result \<times> nat_sm) option" where
  "smAddSramTbl hdr env public_ip_addr s =
     (case low env (\<lambda>os. ipa_nati_get_sram_size hdr (base_sys os)) s of
        (Inl err, s) \<Rightarrow> Some (Inl err, s)
      | (Inr sram_size, s) \<Rightarrow>
          do {
            entries \<leftarrow> ipa_calc_num_sram_table_entries sram_size 32 4;
            Some (case entries of
                Inl err \<Rightarrow> (Inl err, s\<lparr>nati_obj := (nati_obj s)\<lparr>tot_slots_in_sram := 0\<rparr>\<rparr>)
              | Inr n \<Rightarrow>
                  let s = s\<lparr>nati_obj := (nati_obj s)\<lparr>tot_slots_in_sram := ucast n, back_to_sram_thresh := ucast n div 4\<rparr>\<rparr> in
                  (case ipa_nat_vote_clock hdr env s of
                     (Inl err, s) \<Rightarrow> (Inl err, s)
                   | (Inr _, s) \<Rightarrow>
                       let ((ret, hdl), s) = add_ipv4_tbl_hdl hdr env IPA_NAT_MEM_IN_SRAM public_ip_addr n s;
                           s = s\<lparr>nati_obj := (nati_obj s)\<lparr>sram_tbl_hdl := hdl\<rparr>\<rparr>;
                           s = snd (ipa_nat_vote_clock hdr env s)
                       in (ret, if is_ok ret then s\<lparr>out_val := hdl\<rparr> else s)))
          })"

text \<open>The handle of the table in DDR goes to a local variable when there is one in SRAM.\<close>

definition smAddSramAndDdrTbl ::
  "nat_header \<Rightarrow> sm_env \<Rightarrow> sm_run \<Rightarrow> u32 \<Rightarrow> u16 \<Rightarrow> nat_sm \<Rightarrow> (unit result \<times> nat_sm) option" where
  "smAddSramAndDdrTbl hdr env run public_ip_addr number_of_entries s =
     do {
       let s = clear_maps IPA_NAT_MEM_IN_DDR (clear_maps IPA_NAT_MEM_IN_SRAM s);
       (ret, s) \<leftarrow> smAddSramTbl hdr env public_ip_addr s;
       if is_ok ret then
         if ucast number_of_entries \<le> tot_slots_in_sram (nati_obj s)
         then Some (Inr (), SET_NATIOBJ_STATE NATI_STATE_SRAM_ONLY s)
         else
           let app_hdl = out_val s;
               (ret, s) = smAddDdrTbl hdr env public_ip_addr number_of_entries s;
               s = s\<lparr>out_val := app_hdl\<rparr>
           in if is_ok ret then run NATI_TRIG_GOTO_SRAM s else Some (ret, s)
       else
         let (ret, s) = smAddDdrTbl hdr env public_ip_addr number_of_entries s
         in Some (ret, if is_ok ret then SET_NATIOBJ_STATE NATI_STATE_DDR_ONLY s else s)
     }"

definition smDelSramAndDdrTbl :: "sm_env \<Rightarrow> u32 \<Rightarrow> nat_sm \<Rightarrow> unit result \<times> nat_sm" where
  "smDelSramAndDdrTbl env tbl_hdl s =
     (let s = clear_maps IPA_NAT_MEM_IN_DDR (clear_maps IPA_NAT_MEM_IN_SRAM s);
          (ret, s) = smDelTbl env tbl_hdl s;
          (ret, s) = (if is_ok ret then smDelTbl env (ddr_tbl_hdl (nati_obj s)) s else (ret, s))
      in (ret, if is_ok ret then s\<lparr>nati_obj := BACK2_UNSTARTED_STATE (nati_obj s)\<rparr> else s))"

definition smClrTbl :: "sm_env \<Rightarrow> u32 \<Rightarrow> nat_sm \<Rightarrow> unit result \<times> nat_sm" where
  "smClrTbl env tbl_hdl s =
     low env (\<lambda>os. ipa_NATI_clear_ipv4_tbl (base_sys os) tbl_hdl) (clear_maps (fst (BREAK_TBL_HDL tbl_hdl)) s)"

text \<open>The table that is in use: that of the application's handle, which is the one in SRAM, or that in DDR.\<close>

definition hybrid_tbl :: "u32 \<Rightarrow> nat_sm \<Rightarrow> u32" where
  "hybrid_tbl tbl_hdl s =
     (if curr_state (nati_obj s) = NATI_STATE_HYBRID then tbl_hdl else ddr_tbl_hdl (nati_obj s))"

definition smClrTblHybrid :: "sm_env \<Rightarrow> u32 \<Rightarrow> nat_sm \<Rightarrow> unit result \<times> nat_sm" where
  "smClrTblHybrid env tbl_hdl s = smClrTbl env (hybrid_tbl tbl_hdl s) s"

text \<open>The client's rule is changed in place, although the pointer to it is one to a constant.\<close>

definition smAddRuleToTbl ::
  "nat_header \<Rightarrow> nat_engine \<Rightarrow> sm_env \<Rightarrow> u32 \<Rightarrow> ipa_nat_ipv4_rule \<Rightarrow> nat_sm \<Rightarrow> (unit result \<times> nat_sm) option" where
  "smAddRuleToTbl hdr engine env tbl_hdl clnt_rule s =
     do {
       (ret, s) \<leftarrow> add_rule_low hdr engine env tbl_hdl (clnt_rule\<lparr>cr_redirect := 0, cr_enable := 0, cr_time_stamp := 0\<rparr>) s;
       Some (case ret of
           Inl err \<Rightarrow> (Inl err, s)
         | Inr hdl \<Rightarrow> (Inr (), set_count (CHOOSE_MEM_SUB s) (count_of (CHOOSE_MEM_SUB s) s + 1) (s\<lparr>out_val := hdl\<rparr>)))
     }"

definition smDelRuleFromTbl ::
  "nat_header \<Rightarrow> nat_engine \<Rightarrow> sm_env \<Rightarrow> u32 \<Rightarrow> u32 \<Rightarrow> nat_sm \<Rightarrow> unit result \<times> nat_sm" where
  "smDelRuleFromTbl hdr engine env tbl_hdl rule_hdl s =
     (let (ret, s) = low env (\<lambda>os. ipa_NATI_del_ipv4_rule hdr engine (base_sys os) tbl_hdl rule_hdl) s
      in (ret, if is_ok ret then set_count (CHOOSE_MEM_SUB s) (count_of (CHOOSE_MEM_SUB s) s - 1) s else s))"

text \<open>A crash ends the process and is not an error that the code can go on after.\<close>

definition smAddRuleHybrid ::
  "nat_header \<Rightarrow> nat_engine \<Rightarrow> sm_env \<Rightarrow> sm_run \<Rightarrow> u32 \<Rightarrow> ipa_nat_ipv4_rule \<Rightarrow> nat_sm \<Rightarrow> (unit result \<times> nat_sm) option" where
  "smAddRuleHybrid hdr engine env run tbl_hdl clnt_rule s =
     do {
       (ret, s) \<leftarrow> smAddRuleToTbl hdr engine env (hybrid_tbl tbl_hdl s) clnt_rule s;
       if ret = Inl CRASH then Some (ret, s)
       else if is_ok ret then Some (add_new_handle (CHOOSE_MEM_SUB s) (out_val s) (out_val s) s)
       else if curr_state (nati_obj s) = NATI_STATE_HYBRID \<and> \<not> hold_state (nati_obj s) then
         do {
           (ret, s) \<leftarrow> run NATI_TRIG_TBL_SWITCH s;
           if is_ok ret
           then run (NATI_TRIG_ADD_RULE tbl_hdl clnt_rule) (SET_NATIOBJ_STATE NATI_STATE_HYBRID_DDR s)
           else Some (ret, s)
         }
       else Some (ret, s)
     }"

definition smDelRuleHybrid ::
  "nat_header \<Rightarrow> nat_engine \<Rightarrow> sm_env \<Rightarrow> sm_run \<Rightarrow> u32 \<Rightarrow> u32 \<Rightarrow> nat_sm \<Rightarrow> (unit result \<times> nat_sm) option" where
  "smDelRuleHybrid hdr engine env run tbl_hdl orig_rule_hdl s =
     (let mem = CHOOSE_MEM_SUB s in
      case ipa_nat_map_del (o2n mem s) orig_rule_hdl (map_array s) of
        (Inl err, m) \<Rightarrow> Some (Inl err, s\<lparr>map_array := m\<rparr>)
      | (Inr new_rule_hdl, m) \<Rightarrow>
          let s = s\<lparr>map_array := snd (ipa_nat_map_del (n2o mem s) new_rule_hdl m)\<rparr>;
              (ret, s) = smDelRuleFromTbl hdr engine env (hybrid_tbl tbl_hdl s) new_rule_hdl s
          in if is_ok ret \<and> curr_state (nati_obj s) = NATI_STATE_HYBRID_DDR \<and>
                count_of (CHOOSE_MEM_SUB s) s \<le> back_to_sram_thresh (nati_obj s) \<and> \<not> hold_state (nati_obj s)
             then
               do {
                 (ret, s) \<leftarrow> run NATI_TRIG_TBL_SWITCH s;
                 Some (if ret = Inl CRASH then (ret, s)
                       else if is_ok ret then (Inr (), SET_NATIOBJ_STATE NATI_STATE_HYBRID s)
                       else (Inr (), s))
               }
             else Some (ret, s))"

definition smGoTo :: "sm_env \<Rightarrow> u32 \<Rightarrow> ipa_nati_state \<Rightarrow> nat_sm \<Rightarrow> unit result \<times> nat_sm" where
  "smGoTo env hdl st s =
     (let (ret, s) = low env (\<lambda>os. ipa_NATI_post_ipv4_init_cmd (base_sys os) hdl) s
      in (ret, if is_ok ret then SET_NATIOBJ_STATE st s else s))"

definition smGoToDdr :: "sm_env \<Rightarrow> nat_sm \<Rightarrow> unit result \<times> nat_sm" where
  "smGoToDdr env s = smGoTo env (ddr_tbl_hdl (nati_obj s)) NATI_STATE_HYBRID_DDR s"

definition smGoToSram :: "sm_env \<Rightarrow> nat_sm \<Rightarrow> unit result \<times> nat_sm" where
  "smGoToSram env s = smGoTo env (sram_tbl_hdl (nati_obj s)) NATI_STATE_HYBRID s"

definition count_switch :: "ipa3_nat_mem_in \<Rightarrow> unit result \<Rightarrow> nat_sm \<Rightarrow> nat_sm" where
  "count_switch mem ret s =
     (let ob = nati_obj s; st = sw_stats ob mem;
          st = (if is_ok ret then st\<lparr>sw_pass := sw_pass st + 1\<rparr> else st\<lparr>sw_fail := sw_fail st + 1\<rparr>)
      in s\<lparr>nati_obj := ob\<lparr>sw_stats := (sw_stats ob)(mem := st)\<rparr>\<rparr>)"

text \<open>The two switches are the same code with the memories exchanged. The triggers that lead to them have no
  argument, so no statistics are collected. Which element of \<open>sw_stats\<close> is counted up is chosen at the
  beginning.\<close>

definition smSwitch ::
  "nat_header \<Rightarrow> nat_engine \<Rightarrow> sm_env \<Rightarrow> sm_run \<Rightarrow> ipa_nati_trigger \<Rightarrow> ipa3_nat_mem_in \<Rightarrow>
   (ipa_nati_obj \<Rightarrow> u32) \<Rightarrow> (ipa_nati_obj \<Rightarrow> u32) \<Rightarrow> nat_sm \<Rightarrow> (unit result \<times> nat_sm) option" where
  "smSwitch hdr engine env run goto dst src_hdl dst_hdl s =
     do {
       let sub = CHOOSE_MEM_SUB s;
       (ret, s) \<leftarrow> run goto s;
       if \<not> is_ok ret then Some (ret, s)
       else
         do {
           let s = clear_maps dst s;
           (ret, s) \<leftarrow> ipa_nati_copy_ipv4_tbl env (src_hdl (nati_obj s)) (dst_hdl (nati_obj s)) (migrate_rule hdr engine env) s;
           Some (ret, if ret = Inl CRASH then s else count_switch sub ret s)
         }
     }"

definition smSwitchFromDdrToSram ::
  "nat_header \<Rightarrow> nat_engine \<Rightarrow> sm_env \<Rightarrow> sm_run \<Rightarrow> nat_sm \<Rightarrow> (unit result \<times> nat_sm) option" where
  "smSwitchFromDdrToSram hdr engine env run s =
     smSwitch hdr engine env run NATI_TRIG_GOTO_SRAM IPA_NAT_MEM_IN_SRAM ddr_tbl_hdl sram_tbl_hdl s"

definition smSwitchFromSramToDdr ::
  "nat_header \<Rightarrow> nat_engine \<Rightarrow> sm_env \<Rightarrow> sm_run \<Rightarrow> nat_sm \<Rightarrow> (unit result \<times> nat_sm) option" where
  "smSwitchFromSramToDdr hdr engine env run s =
     smSwitch hdr engine env run NATI_TRIG_GOTO_DDR IPA_NAT_MEM_IN_DDR sram_tbl_hdl ddr_tbl_hdl s"

definition smGetTmStmp :: "sm_env \<Rightarrow> u32 \<Rightarrow> u32 \<Rightarrow> nat_sm \<Rightarrow> unit result \<times> nat_sm" where
  "smGetTmStmp env tbl_hdl rule_hdl s =
     (case ipa_NATI_query_timestamp (base_sys (sys_now env s)) tbl_hdl rule_hdl (lib s) of
        Inl err \<Rightarrow> (Inl err, next_call s)
      | Inr time_stamp \<Rightarrow> (Inr (), (next_call s)\<lparr>out_val := time_stamp\<rparr>))"

definition smGetTmStmpHybrid :: "sm_env \<Rightarrow> u32 \<Rightarrow> u32 \<Rightarrow> nat_sm \<Rightarrow> unit result \<times> nat_sm" where
  "smGetTmStmpHybrid env tbl_hdl orig_rule_hdl s =
     (case ipa_nat_map_find (o2n (CHOOSE_MEM_SUB s) s) orig_rule_hdl (map_array s) of
        Inl err \<Rightarrow> (Inl err, s)
      | Inr new_rule_hdl \<Rightarrow> smGetTmStmp env (hybrid_tbl tbl_hdl s) new_rule_hdl s)"

section \<open>The machine\<close>

text \<open>The table of actions: what a state does with a trigger.\<close>

definition state_mach_tbl ::
  "nat_header \<Rightarrow> nat_engine \<Rightarrow> sm_env \<Rightarrow> sm_run \<Rightarrow> ipa_nati_state \<Rightarrow> sm_run" where
  "state_mach_tbl hdr engine env run st t s =
     (case st of
        NATI_STATE_NULL \<Rightarrow>
          (case t of
             NATI_TRIG_ADD_TABLE ip n mem_type \<Rightarrow> smFirstTbl run ip n mem_type s
           | _ \<Rightarrow> Some (smUndef s))
      | NATI_STATE_DDR_ONLY \<Rightarrow>
          (case t of
             NATI_TRIG_ADD_TABLE ip n _ \<Rightarrow> Some (smAddDdrTbl hdr env ip n s)
           | NATI_TRIG_DEL_TABLE h \<Rightarrow> Some (smDelTbl env h s)
           | NATI_TRIG_CLR_TABLE h \<Rightarrow> Some (smClrTbl env h s)
           | NATI_TRIG_ADD_RULE h rule \<Rightarrow> smAddRuleToTbl hdr engine env h rule s
           | NATI_TRIG_DEL_RULE h r \<Rightarrow> Some (smDelRuleFromTbl hdr engine env h r s)
           | NATI_TRIG_GET_TSTAMP h r \<Rightarrow> Some (smGetTmStmp env h r s)
           | _ \<Rightarrow> Some (smUndef s))
      | NATI_STATE_SRAM_ONLY \<Rightarrow>
          (case t of
             NATI_TRIG_ADD_TABLE ip _ _ \<Rightarrow> smAddSramTbl hdr env ip s
           | NATI_TRIG_DEL_TABLE h \<Rightarrow> Some (smDelTbl env h s)
           | NATI_TRIG_CLR_TABLE h \<Rightarrow> Some (smClrTbl env h s)
           | NATI_TRIG_ADD_RULE h rule \<Rightarrow> smAddRuleToTbl hdr engine env h rule s
           | NATI_TRIG_DEL_RULE h r \<Rightarrow> Some (smDelRuleFromTbl hdr engine env h r s)
           | NATI_TRIG_GET_TSTAMP h r \<Rightarrow> Some (smGetTmStmp env h r s)
           | _ \<Rightarrow> Some (smUndef s))
      | NATI_STATE_HYBRID \<Rightarrow>
          (case t of
             NATI_TRIG_ADD_TABLE ip n _ \<Rightarrow> smAddSramAndDdrTbl hdr env run ip n s
           | NATI_TRIG_DEL_TABLE h \<Rightarrow> Some (smDelSramAndDdrTbl env h s)
           | NATI_TRIG_CLR_TABLE h \<Rightarrow> Some (smClrTblHybrid env h s)
           | NATI_TRIG_ADD_RULE h rule \<Rightarrow> smAddRuleHybrid hdr engine env run h rule s
           | NATI_TRIG_DEL_RULE h r \<Rightarrow> smDelRuleHybrid hdr engine env run h r s
           | NATI_TRIG_TBL_SWITCH \<Rightarrow> smSwitchFromSramToDdr hdr engine env run s
           | NATI_TRIG_GOTO_DDR \<Rightarrow> Some (smGoToDdr env s)
           | NATI_TRIG_GOTO_SRAM \<Rightarrow> Some (smGoToSram env s)
           | NATI_TRIG_GET_TSTAMP h r \<Rightarrow> Some (smGetTmStmpHybrid env h r s)
           | _ \<Rightarrow> Some (smUndef s))
      | NATI_STATE_HYBRID_DDR \<Rightarrow>
          (case t of
             NATI_TRIG_DEL_TABLE h \<Rightarrow> Some (smDelSramAndDdrTbl env h s)
           | NATI_TRIG_CLR_TABLE h \<Rightarrow> Some (smClrTblHybrid env h s)
           | NATI_TRIG_ADD_RULE h rule \<Rightarrow> smAddRuleHybrid hdr engine env run h rule s
           | NATI_TRIG_DEL_RULE h r \<Rightarrow> smDelRuleHybrid hdr engine env run h r s
           | NATI_TRIG_TBL_SWITCH \<Rightarrow> smSwitchFromDdrToSram hdr engine env run s
           | NATI_TRIG_GOTO_DDR \<Rightarrow> Some (smGoToDdr env s)
           | NATI_TRIG_GOTO_SRAM \<Rightarrow> Some (smGoToSram env s)
           | NATI_TRIG_GET_TSTAMP h r \<Rightarrow> Some (smGetTmStmpHybrid env h r s)
           | _ \<Rightarrow> Some (smUndef s))
      | NATI_STATE_LAST \<Rightarrow> Some (smUndef s))"

text \<open>The function around an action: lock, vote for the clock, act, take the vote back, unlock. What it
  returns is the result of the last step, as in the code. A crash ends it at once.\<close>

definition statemach_body :: "nat_header \<Rightarrow> nat_engine \<Rightarrow> sm_env \<Rightarrow> sm_run \<Rightarrow> sm_run" where
  "statemach_body hdr engine env run t s =
     (let (ret, s) = take_mutex env s in
      if \<not> is_ok ret then Some (ret, s)
      else
        let vote = VOTE_REQUIRED t (nati_obj s);
            (voted, s) = (if vote then ipa_nat_vote_clock hdr env s else (Inr (), s))
        in if \<not> is_ok voted then Some (give_mutex env s)
           else
             do {
               (ret, s) \<leftarrow> state_mach_tbl hdr engine env run (curr_state (nati_obj s)) t s;
               Some (if ret = Inl CRASH then (ret, s)
                     else give_mutex env (if vote then snd (ipa_nat_vote_clock hdr env s) else s))
             })"

text \<open>The machine runs itself from its actions. The first argument bounds the depth of these calls, \<open>None\<close>
  being a call that goes deeper; three levels are enough for every state and trigger.\<close>

fun statemach_depth :: "nat_header \<Rightarrow> nat_engine \<Rightarrow> sm_env \<Rightarrow> nat \<Rightarrow> sm_run" where
  "statemach_depth hdr engine env 0 t s = None"
| "statemach_depth hdr engine env (Suc n) t s = statemach_body hdr engine env (statemach_depth hdr engine env n) t s"

definition ipa_nati_statemach :: "nat_header \<Rightarrow> nat_engine \<Rightarrow> sm_env \<Rightarrow> sm_run" where
  "ipa_nati_statemach hdr engine env t s = statemach_depth hdr engine env 3 t s"

section \<open>Switching on request\<close>

definition ipa_nat_switch_to ::
  "nat_header \<Rightarrow> nat_engine \<Rightarrow> sm_env \<Rightarrow> ipa3_nat_mem_in \<Rightarrow> bool \<Rightarrow> nat_sm \<Rightarrow> (unit result \<times> nat_sm) option" where
  "ipa_nat_switch_to hdr engine env mem hold s =
     (let (ret, s) = take_mutex env s; ob = nati_obj s in
      if \<not> is_ok ret then Some (ret, s)
      else if IN_UNSTARTED_STATE ob then
        Some (give_mutex env (s\<lparr>nati_obj := ob\<lparr>hold_state := hold, state_to_hold :=
          (if mem = IPA_NAT_MEM_IN_DDR then NATI_STATE_DDR_ONLY else NATI_STATE_SRAM_ONLY)\<rparr>\<rparr>))
      else if IN_HYBRID_STATE ob then
        do {
          (ret, s) \<leftarrow> (if COMPATIBLE_NMI_4SWITCH mem ob then ipa_nati_statemach hdr engine env NATI_TRIG_TBL_SWITCH s
                       else Some (Inr (), s));
          let ob = nati_obj s;
          Some (if ret = Inl CRASH then (ret, s)
                else if is_ok ret
                then give_mutex env (s\<lparr>nati_obj := ob\<lparr>hold_state := hold,
                       state_to_hold := (if hold then GEN_HOLD_STATE ob else state_to_hold ob)\<rparr>\<rparr>)
                else give_mutex env s)
        }
      else if hold then
        Some (give_mutex env (if COMPATIBLE_NMI_4SWITCH mem ob
                              then s\<lparr>nati_obj := ob\<lparr>hold_state := hold, state_to_hold := GEN_HOLD_STATE ob\<rparr>\<rparr> else s))
      else Some (give_mutex env (s\<lparr>nati_obj := ob\<lparr>hold_state := hold, state_to_hold := NATI_STATE_NULL\<rparr>\<rparr>)))"

definition ipa_nat_is_sram_supported :: "nat_sm \<Rightarrow> bool" where
  "ipa_nat_is_sram_supported s \<longleftrightarrow> VALID_TBL_HDL (sram_tbl_hdl (nati_obj s))"

section \<open>The public functions\<close>

text \<open>The caller's result variable has the value \<open>out\<close> before the call, or there is no pointer to it.\<close>

definition ipa_nat_add_ipv4_tbl ::
  "nat_header \<Rightarrow> nat_engine \<Rightarrow> sm_env \<Rightarrow> u32 \<Rightarrow> string option \<Rightarrow> u16 \<Rightarrow> bool \<Rightarrow> nat_sm \<Rightarrow> (unit result \<times> nat_sm) option" where
  "ipa_nat_add_ipv4_tbl hdr engine env public_ip_addr mem_type number_of_entries tbl_hdl_ptr s =
     (if \<not> tbl_hdl_ptr \<or> mem_type = None \<or> number_of_entries = 0 then Some (Inl EINVAL, s)
      else ipa_nati_statemach hdr engine env (NATI_TRIG_ADD_TABLE public_ip_addr number_of_entries mem_type)
             (s\<lparr>out_val := 0\<rparr>))"

definition ipa_nat_del_ipv4_tbl :: "nat_header \<Rightarrow> nat_engine \<Rightarrow> sm_env \<Rightarrow> u32 \<Rightarrow> nat_sm \<Rightarrow> (unit result \<times> nat_sm) option" where
  "ipa_nat_del_ipv4_tbl hdr engine env tbl_hdl s =
     (if \<not> VALID_TBL_HDL tbl_hdl then Some (Inl EINVAL, s)
      else ipa_nati_statemach hdr engine env (NATI_TRIG_DEL_TABLE tbl_hdl) s)"

definition ipa_nati_clear_ipv4_tbl :: "nat_header \<Rightarrow> nat_engine \<Rightarrow> sm_env \<Rightarrow> u32 \<Rightarrow> nat_sm \<Rightarrow> (unit result \<times> nat_sm) option" where
  "ipa_nati_clear_ipv4_tbl hdr engine env tbl_hdl s = ipa_nati_statemach hdr engine env (NATI_TRIG_CLR_TABLE tbl_hdl) s"

definition ipa_nat_add_ipv4_rule ::
  "nat_header \<Rightarrow> nat_engine \<Rightarrow> sm_env \<Rightarrow> u32 \<Rightarrow> ipa_nat_ipv4_rule option \<Rightarrow> u32 option \<Rightarrow> nat_sm \<Rightarrow>
   (unit result \<times> nat_sm) option" where
  "ipa_nat_add_ipv4_rule hdr engine env tbl_hdl clnt_rule out s =
     (if \<not> VALID_TBL_HDL tbl_hdl \<or> out = None \<or> clnt_rule = None then Some (Inl EINVAL, s)
      else
        do {
          (ret, s) \<leftarrow> ipa_nati_statemach hdr engine env (NATI_TRIG_ADD_RULE tbl_hdl (the clnt_rule)) (s\<lparr>out_val := the out\<rparr>);
          Some (if is_ok ret \<or> ret = Inl CRASH then ret else Inl EINVAL, s)
        })"

definition ipa_nat_del_ipv4_rule ::
  "nat_header \<Rightarrow> nat_engine \<Rightarrow> sm_env \<Rightarrow> u32 \<Rightarrow> u32 \<Rightarrow> nat_sm \<Rightarrow> (unit result \<times> nat_sm) option" where
  "ipa_nat_del_ipv4_rule hdr engine env tbl_hdl rule_hdl s =
     (if \<not> VALID_TBL_HDL tbl_hdl \<or> rule_hdl = ucast IPA_TABLE_INVALID_ENTRY then Some (Inl EINVAL, s)
      else ipa_nati_statemach hdr engine env (NATI_TRIG_DEL_RULE tbl_hdl rule_hdl) s)"

definition ipa_nat_query_timestamp ::
  "nat_header \<Rightarrow> nat_engine \<Rightarrow> sm_env \<Rightarrow> u32 \<Rightarrow> u32 \<Rightarrow> u32 option \<Rightarrow> nat_sm \<Rightarrow> (unit result \<times> nat_sm) option" where
  "ipa_nat_query_timestamp hdr engine env tbl_hdl rule_hdl out s =
     (if \<not> VALID_TBL_HDL tbl_hdl \<or> rule_hdl = ucast IPA_TABLE_INVALID_ENTRY \<or> out = None then Some (Inl EINVAL, s)
      else ipa_nati_statemach hdr engine env (NATI_TRIG_GET_TSTAMP tbl_hdl rule_hdl) (s\<lparr>out_val := the out\<rparr>))"

end
