(* ===== verification/IPA_NAT_Rules.thy ===== *)
theory IPA_NAT_Rules
  imports IPA_NAT
begin

text \<open>
  What the parts of the IPv4 NAT client of the IPA library satisfy: its checksums are the
  differences that an address translation needs, its records have the layout that the commands to
  the hardware assume, slots and commands stay within their tables and buffers, and the functions
  of both tables keep the shape of their tables.
\<close>

section \<open>Checksums\<close>

lemma and_ffff: "unat (x AND 0xFFFF) = unat (x :: u32) mod 2 ^ 16"
proof -
  have "(0xFFFF :: u32) = mask 16" by (simp add: mask_eq_exp_minus_1)
  then have "x AND 0xFFFF = take_bit 16 x" by (simp add: take_bit_eq_mask)
  then show ?thesis by (simp add: take_bit_eq_mod unat_mod)
qed

lemma unat_drop_16: "unat (drop_bit 16 (x :: u32)) = unat x div 2 ^ 16"
  by (simp add: drop_bit_eq_div unat_div)

lemma unat_not: "unat (NOT x) = 2 ^ LENGTH('a) - 1 - unat (x :: 'a::len word)"
proof -
  have "NOT x = - 1 - x" by (simp add: not_eq_complement)
  moreover have "unat (- 1 - x) = unat (- 1 :: 'a word) - unat x" by (intro unat_sub word_order.extremum)
  moreover have "unat (- 1 :: 'a word) = 2 ^ LENGTH('a) - 1" by (simp add: unsigned_minus_1_eq_mask mask_eq_exp_minus_1)
  ultimately show ?thesis by simp
qed

text \<open>A sum modulo 65535, kept within 16 bits.\<close>

definition ones :: "u32 \<Rightarrow> int \<Rightarrow> bool" where
  "ones c n \<longleftrightarrow> unat c < 2 ^ 16 \<and> int (unat c) mod 65535 = n mod 65535"

lemma ones_add_carry:
  assumes "ones c n" "unat x < 2 ^ 16"
  shows "ones (add_carry c x) (n + int (unat x))"
proof -
  let ?s = "unat c + unat x"
  have sum: "unat (c + x) = ?s" using assms by (intro unat_add_u32) (simp add: ones_def)
  have carry: "drop_bit 16 (c + x) \<noteq> 0 \<longleftrightarrow> 2 ^ 16 \<le> ?s"
    by (simp add: unat_eq_0 [symmetric] unat_drop_16 sum del: unat_eq_zero) linarith
  have n: "(n + int (unat x)) mod 65535 = int ?s mod 65535"
    using assms(1) mod_add_cong [of n 65535 "int (unat c)" "int (unat x)" "int (unat x)"] by (simp add: ones_def)
  show ?thesis
  proof (cases "2 ^ 16 \<le> ?s")
    case True
    have small: "?s - 2 ^ 16 < 2 ^ 16 - 1" using assms by (auto simp: ones_def)
    have "unat ((c + x) AND 0xFFFF) = ?s - 2 ^ 16"
      using True small by (simp add: and_ffff sum) (simp add: mod_if)
    then have "unat ((c + x) AND 0xFFFF) + unat (1 :: u32) < 2 ^ 32" using small by simp
    then have "unat (add_carry c x) = ?s - 2 ^ 16 + 1"
      using carry True \<open>unat ((c + x) AND 0xFFFF) = ?s - 2 ^ 16\<close> unat_add_u32 [of "(c + x) AND 0xFFFF" 1]
      by (simp add: add_carry_def Let_def)
    then have "unat (add_carry c x) + 65535 = ?s" "unat (add_carry c x) < 2 ^ 16" using True small by simp_all
    then have "int ?s = int (unat (add_carry c x)) + 65535" by linarith
    then show ?thesis using n \<open>unat (add_carry c x) < 2 ^ 16\<close> by (simp add: ones_def)
  next
    case False
    then have "add_carry c x = c + x" using carry by (simp add: add_carry_def Let_def)
    then show ?thesis using n sum False by (simp add: ones_def)
  qed
qed

text \<open>The sum of the two halves of an address.\<close>

definition halves :: "u32 \<Rightarrow> int" where
  "halves ip = int (unat (ip AND 0xFFFF)) + int (unat (drop_bit 16 ip))"

lemma ones_start: "ones (0 + (ip AND 0xFFFF)) (int (unat (ip AND 0xFFFF)))"
  by (simp add: ones_def and_ffff)

lemma half_less: "unat (ip AND 0xFFFF :: u32) < 2 ^ 16" "unat (drop_bit 16 (ip :: u32)) < 2 ^ 16"
  using unat_u32_less [of ip] by (simp_all add: and_ffff unat_drop_16 less_mult_imp_div_less)

lemma halves_unat: "halves ip = int (unat ip mod 2 ^ 16) + int (unat ip div 2 ^ 16)"
  unfolding halves_def and_ffff unat_drop_16 ..

lemma halves_split: "l < 2 ^ 16 \<Longrightarrow> unat ip = 2 ^ 16 * h + l \<Longrightarrow> halves ip = int l + int h"
  unfolding halves_unat by (simp only: mod_mult_self4 div_mult_self4) simp

lemma halves_not: "halves (NOT ip) = 2 * 65535 - halves ip"
proof -
  define h l where "h = unat ip div 2 ^ 16" and "l = unat ip mod 2 ^ 16"
  have ip: "unat ip = 2 ^ 16 * h + l" "l < 2 ^ 16" "h < 2 ^ 16"
    using half_less(2) [of ip] unfolding h_def l_def unat_drop_16 by simp_all
  have "unat (NOT ip) = 2 ^ 16 * (65535 - h) + (65535 - l)" using ip by (simp add: unat_not)
  moreover have "(65535 - l) < 2 ^ 16" by simp
  ultimately have "halves (NOT ip) = int (65535 - l) + int (65535 - h)" by (rule halves_split [rotated])
  then show ?thesis using ip halves_split [OF ip(2,1)] by (simp add: of_nat_diff)
qed

lemma ones_ucast: "ones c n \<Longrightarrow> int (unat (ucast c :: u16)) mod 65535 = n mod 65535"
  by (simp add: ones_def unsigned_ucast_eq take_bit_nat_eq_self)

lemma ip_cksum_mod: "int (unat (ipa_nati_calc_ip_cksum pub priv)) mod 65535 = (halves pub - halves priv) mod 65535"
proof -
  have "int (unat (ipa_nati_calc_ip_cksum pub priv)) mod 65535 = (halves pub + halves (NOT priv)) mod 65535"
    unfolding ipa_nati_calc_ip_cksum_def Let_def halves_def add.assoc [symmetric]
    by (intro ones_ucast ones_add_carry ones_start half_less)
  then show ?thesis using mod_mult_self3 [of 2 65535 "halves pub - halves priv"] by (simp add: halves_not algebra_simps)
qed

lemma tcp_udp_cksum_mod:
  "int (unat (ipa_nati_calc_tcp_udp_cksum pub pub_port priv priv_port)) mod 65535 =
     (halves pub + int (unat pub_port) - (halves priv + int (unat priv_port))) mod 65535"
proof -
  let ?n = "int (unat (pub AND 0xFFFF)) + int (unat (drop_bit 16 pub)) + int (unat (ucast pub_port :: u32)) +
      int (unat (NOT priv AND 0xFFFF)) + int (unat (drop_bit 16 (NOT priv))) + int (unat (ucast (NOT priv_port) :: u32))"
  have port: "unat (ucast p :: u32) < 2 ^ 16" for p :: u16 using unat_u16_less [of p] by simp
  have n: "int (unat (ipa_nati_calc_tcp_udp_cksum pub pub_port priv priv_port)) mod 65535 = ?n mod 65535"
    unfolding ipa_nati_calc_tcp_udp_cksum_def Let_def
    by (intro ones_ucast ones_add_carry ones_start half_less port)
  have "int (unat (NOT priv_port)) = 65535 - int (unat priv_port)"
    using unat_u16_less [of priv_port] by (simp add: unat_not of_nat_diff)
  then have "?n = 3 * 65535 + (halves pub + int (unat pub_port) - (halves priv + int (unat priv_port)))"
    using halves_not [of priv] unfolding halves_def unat_ucast_16_32 by linarith
  then show ?thesis using n by (simp only: mod_mult_self3)
qed

text \<open>The check of a received header or segment: the one's complement sum of its 16-bit words is 0.\<close>

definition verifies :: "int list \<Rightarrow> bool" where
  "verifies ws \<longleftrightarrow> sum_list ws mod 65535 = 0"

definition ip_words :: "u32 \<Rightarrow> int list" where
  "ip_words ip = [int (unat (drop_bit 16 ip)), int (unat (ip AND 0xFFFF))]"

lemma sum_ip_words: "sum_list (ip_words ip) = halves ip"
  by (simp add: ip_words_def halves_def)

text \<open>C13. The checksum differences that a rule stores are what the translation from the private to the
  public address needs: a header that verifies with the private address, and a TCP or UDP segment
  that verifies with the private address and port, verify with the public ones once the stored
  difference is subtracted from the checksum in one's complement.\<close>

theorem ipa_nati_cksum_translates:
  "(verifies (ip_words priv @ cks # ws) \<longleftrightarrow>
      verifies (ip_words pub @ (cks - int (unat (ipa_nati_calc_ip_cksum pub priv))) # ws)) \<and>
   (verifies (ip_words priv @ int (unat priv_port) # cks # ws) \<longleftrightarrow>
      verifies (ip_words pub @ int (unat pub_port) #
        (cks - int (unat (ipa_nati_calc_tcp_udp_cksum pub pub_port priv priv_port))) # ws))"
proof -
  let ?r = "sum_list ws + cks"
  have ip: "(?r + halves pub - int (unat (ipa_nati_calc_ip_cksum pub priv))) mod 65535 =
      (?r + halves pub - (halves pub - halves priv)) mod 65535"
    by (rule mod_diff_cong [OF refl ip_cksum_mod])
  have tcp: "(?r + halves pub + int (unat pub_port) - int (unat (ipa_nati_calc_tcp_udp_cksum pub pub_port priv priv_port))) mod 65535 =
      (?r + halves pub + int (unat pub_port) - (halves pub + int (unat pub_port) - (halves priv + int (unat priv_port)))) mod 65535"
    by (rule mod_diff_cong [OF refl tcp_udp_cksum_mod])
  show ?thesis using ip tcp by (simp add: verifies_def sum_ip_words algebra_simps)
qed

section \<open>The layout of a rule\<close>

lemma nat_layout_0: "ucast (nat_word_0 e) = nr_private_ip e" "ucast (drop_bit 32 (nat_word_0 e)) = nr_target_ip e"
  unfolding nat_word_0_def by (rule bit_word_eqI, simp add: layout_bits not_bit_above)+

lemma nat_layout_1:
  "ucast (nat_word_1 e) = nr_next_index e" "ucast (drop_bit 16 (nat_word_1 e)) = nr_public_port e"
  "ucast (drop_bit 32 (nat_word_1 e)) = nr_private_port e" "ucast (drop_bit 48 (nat_word_1 e)) = nr_target_port e"
  unfolding nat_word_1_def by (rule bit_word_eqI, simp add: layout_bits not_bit_above)+

lemma nat_layout_2:
  "ucast (nat_word_2 e) = nr_ip_chksum e" "ucast (drop_bit 16 (nat_word_2 e)) = nr_uc_activation_index e"
  "ucast (drop_bit 32 (nat_word_2 e)) = nr_time_stamp e" "ucast (drop_bit 56 (nat_word_2 e)) = nr_protocol e"
  unfolding nat_word_2_def by (rule bit_word_eqI, simp add: layout_bits not_bit_above)+

lemma nat_layout_2_bits:
  "bit (nat_word_2 e) 29 = nr_s e" "bit (nat_word_2 e) 30 = nr_redirect e" "bit (nat_word_2 e) 31 = nr_enable e"
  unfolding nat_word_2_def by (simp_all add: layout_bits not_bit_above)

lemma nat_layout_3:
  "ucast (nat_word_3 e) = nr_prev_index e" "ucast (drop_bit 16 (nat_word_3 e)) = nr_indx_tbl_entry e"
  "ucast (drop_bit 32 (nat_word_3 e)) = nr_rsvd2 e" "ucast (drop_bit 44 (nat_word_3 e)) = nr_pdn_index e"
  "ucast (drop_bit 48 (nat_word_3 e)) = nr_tcp_udp_chksum e"
  unfolding nat_word_3_def by (rule bit_word_eqI, simp add: layout_bits not_bit_above)+

lemma nat_layout_3_bits:
  "bit (nat_word_3 e) 40 = nr_rsvd3 e" "bit (nat_word_3 e) 41 = nr_dst_only e" "bit (nat_word_3 e) 42 = nr_src_only e"
  "bit (nat_word_3 e) 43 = nr_ucp e"
  unfolding nat_word_3_def by (simp_all add: layout_bits not_bit_above)

lemmas nat_layout = nat_layout_0 nat_layout_1 nat_layout_2 nat_layout_2_bits nat_layout_3 nat_layout_3_bits

lemma nat_rule_of_nat_words [simp]: "nat_rule_of (nat_words e) = e"
  by (simp add: nat_rule_of_def nat_words_def nat_layout)

lemma nat_flags_bits:
  "bit (nat_flags u sf rf ef) 13 = sf" "bit (nat_flags u sf rf ef) 14 = rf" "bit (nat_flags u sf rf ef) 15 = ef"
  unfolding nat_flags_def by (simp_all add: layout_bits not_bit_above)

lemma nat_flags_index: "(ucast (nat_flags u sf rf ef) :: 13 word) = u"
  unfolding nat_flags_def by (rule bit_word_eqI) (simp add: layout_bits not_bit_above)

lemma nat_store_flags:
  "nat_rule_of (store16 18 d (nat_words e)) =
     e\<lparr>nr_uc_activation_index := ucast d, nr_s := bit d 13, nr_redirect := bit d 14, nr_enable := bit d 15\<rparr>"
proof -
  have "(ucast (drop_bit 16 (put16 16 d (nat_word_2 e))) :: 13 word) = ucast d"
    by (rule bit_word_eqI) (auto simp: bit_put16 layout_bits)
  then show ?thesis
    by (simp add: store16_def nat_words_def nat_rule_of_def put16_field put16_field_0 bit_put16 nat_layout)
qed

lemma nat_store_next: "nat_rule_of (store16 8 d (nat_words e)) = e\<lparr>nr_next_index := d\<rparr>"
proof -
  have "(ucast (put16 0 d (nat_word_1 e)) :: u16) = d"
    by (rule bit_word_eqI) (simp add: bit_put16 layout_bits)
  then show ?thesis by (simp add: store16_def nat_words_def nat_rule_of_def put16_field bit_put16 nat_layout)
qed

lemma nat_store_protocol:
  "nat_rule_of (store16 22 d (nat_words e)) =
     e\<lparr>nr_time_stamp := take_bit 16 (nr_time_stamp e) OR push_bit 16 (ucast (take_bit 8 d)), nr_protocol := ucast (drop_bit 8 d)\<rparr>"
proof -
  have "(ucast (drop_bit 56 (put16 48 d (nat_word_2 e))) :: u8) = ucast (drop_bit 8 d)"
    by (rule bit_word_eqI) (simp add: bit_put16 layout_bits)
  moreover have "(ucast (drop_bit 32 (put16 48 d (nat_word_2 e))) :: 24 word) =
      take_bit 16 (nr_time_stamp e) OR push_bit 16 (ucast (take_bit 8 d))"
    unfolding nat_layout_2(3) [symmetric]
    by (rule bit_word_eqI) (auto simp: bit_put16 layout_bits bit_take_bit_iff)
  ultimately show ?thesis
    by (simp add: store16_def nat_words_def nat_rule_of_def put16_field put16_field_0 bit_put16 nat_layout)
qed

text \<open>C35. The layout of a rule agrees with the offsets of its commands: the 16 bits at the offset of the
  flags, of the next index and of the protocol are exactly those fields (the protocol shares its
  bits with the highest byte of the time stamp). So the command for a new rule enables it and sets
  the activation index and the direction bit of the rule; a deleted head gets the protocol 0xFF.\<close>

theorem ipa_nat_rule_layout:
  "nat_rule_of (nat_words e) = e \<and>
   nat_rule_of (store16 (unat IPA_NAT_RULE_FLAG_FIELD_OFFSET) (nat_flags u sf rf ef) (nat_words e)) =
     e\<lparr>nr_uc_activation_index := u, nr_s := sf, nr_redirect := rf, nr_enable := ef\<rparr> \<and>
   nat_rule_of (store16 (unat IPA_NAT_RULE_NEXT_FIELD_OFFSET) d (nat_words e)) = e\<lparr>nr_next_index := d\<rparr> \<and>
   nat_rule_of (store16 (unat IPA_NAT_RULE_PROTO_FIELD_OFFSET) IPA_NAT_INVALID_PROTO_FIELD_VALUE (nat_words e)) =
     e\<lparr>nr_time_stamp := take_bit 16 (nr_time_stamp e), nr_protocol := 0xFF\<rparr>"
  by (simp add: nat_consts nat_store_flags nat_store_next nat_store_protocol nat_flags_bits nat_flags_index)

section \<open>The hardware's memory\<close>

text \<open>Storing 16 bits into a record of the index table.\<close>

definition indx_store :: "nat \<Rightarrow> u16 \<Rightarrow> ipa_nat_indx_tbl_rule \<Rightarrow> ipa_nat_indx_tbl_rule" where
  "indx_store off d e = (if off = 0 then e\<lparr>tbl_entry := d\<rparr> else e\<lparr>ix_next_index := d\<rparr>)"

text \<open>
  What the library relies on: a command names one of the four tables and the offset of 16 bits in
  it, as the offsets of the init command place the tables, and the hardware stores the data there.
\<close>

definition nat_table_start :: "ipa_ioc_v4_nat_init \<Rightarrow> ipa_table_dma_type \<Rightarrow> int" where
  "nat_table_start ini which =
     (if which = IPA_NAT_EXPN_TBL then uint (ni_expn_rules_offset ini) - uint (ni_ipv4_rules_offset ini)
      else if which = IPA_NAT_INDEX_EXPN_TBL then uint (ni_index_expn_offset ini) - uint (ni_index_offset ini) else 0)"

definition nat_dma_engine :: "nat_engine \<Rightarrow> bool" where
  "nat_dma_engine engine \<longleftrightarrow>
     (\<forall>ini one rs xs k off. dma_base_addr one \<in> {IPA_NAT_BASE_TBL, IPA_NAT_EXPN_TBL} \<and> k < length rs \<and> off < 32 \<and> even off \<and>
        nat_table_start ini (dma_base_addr one) + uint (dma_offset one) = 32 * int k + int off \<longrightarrow>
        engine ini one (rs, xs) = (rs[k := nat_rule_of (store16 off (dma_data one) (nat_words (rs ! k)))], xs)) \<and>
     (\<forall>ini one rs xs k off. dma_base_addr one \<in> {IPA_NAT_INDX_TBL, IPA_NAT_INDEX_EXPN_TBL} \<and> k < length xs \<and> off \<in> {0, 2} \<and>
        nat_table_start ini (dma_base_addr one) + uint (dma_offset one) = 4 * int k + int off \<longrightarrow>
        engine ini one (rs, xs) = (rs, xs[k := indx_store off (dma_data one) (xs ! k)]))"

text \<open>Hardware that does so.\<close>

definition nat_simple_engine :: nat_engine where
  "nat_simple_engine ini one m =
     (let (rs, xs) = m; pos = nat (nat_table_start ini (dma_base_addr one) + uint (dma_offset one))
      in if dma_base_addr one = IPA_NAT_BASE_TBL \<or> dma_base_addr one = IPA_NAT_EXPN_TBL
         then (rs[pos div 32 := nat_rule_of (store16 (pos mod 32) (dma_data one) (nat_words (rs ! (pos div 32))))], xs)
         else (rs, xs[pos div 4 := indx_store (pos mod 4) (dma_data one) (xs ! (pos div 4))]))"

lemma nat_dma_engine_simple: "nat_dma_engine nat_simple_engine"
proof -
  have "nat (32 * int k + int off) = 32 * k + off" "nat (4 * int k + int off) = 4 * k + off" for k off
    by (simp_all add: nat_add_distrib nat_mult_distrib)
  then show ?thesis unfolding nat_dma_engine_def by (auto simp: nat_simple_engine_def Let_def)
qed

section \<open>Handles, slots and commands\<close>

lemma break_make_tbl_hdl: "BREAK_TBL_HDL (MAKE_TBL_HDL 1 mem) = (mem, 1)" "VALID_TBL_HDL (MAKE_TBL_HDL 1 mem)"
  by (cases mem; simp add: BREAK_TBL_HDL_def MAKE_TBL_HDL_def VALID_TBL_HDL_def mem_bit_def nat_consts)+

lemma valid_tbl_hdl: "VALID_TBL_HDL h \<longleftrightarrow> snd (BREAK_TBL_HDL h) = 1"
  by (simp add: VALID_TBL_HDL_def BREAK_TBL_HDL_def nat_consts)

lemma slot_in_base:
  assumes "sizes_ok t" "n = table_entries t - 1"
  shows "(if x AND n = 0 then n else x AND n) \<in> base_slots t"
proof -
  have "2 \<le> unat (table_entries t)" by (rule sizes_okD(1) [OF assms(1)])
  then have n: "unat n = unat (table_entries t) - 1" "2 \<le> unat (table_entries t)"
    unfolding assms(2) using unat_minus_one [of "table_entries t"] by (cases "table_entries t = 0"; simp)+
  then have "n \<noteq> 0" by auto
  moreover have "unat (x AND n) \<le> unat n" using word_and_le1 [of x n] by (simp add: word_le_nat_alt)
  ultimately show ?thesis using n by (auto simp: base_slots_def word_less_nat_alt)
qed

lemma hash_in_base:
  assumes "sizes_ok t"
  shows "dst_hash hdr ver pub_ip ip tp pp proto (table_entries t - 1) \<in> base_slots t"
    "src_hash ip port tip tp proto (table_entries t - 1) \<in> base_slots t"
    "token_slot hash token (table_entries t - 1) \<in> base_slots t"
  unfolding dst_hash_def src_hash_def token_slot_def Let_def by (rule slot_in_base [OF assms refl])+

text \<open>The slots of a new rule and of its index record, whether they come from the hash or from the
  token of a rule for one direction, are used slots of the base tables: never slot 0, and never
  past the end. The token is counted up exactly for each such choice.\<close>

theorem ipa_nat_slots_in_table:
  assumes "sizes_ok t"
  shows "fst (rule_slot hdr ver u (table_entries t - 1) token) \<in> base_slots t \<and>
    fst (index_slot rule (table_entries t - 1) token) \<in> base_slots t \<and>
    snd (rule_slot hdr ver u (table_entries t - 1) token) = token + of_bool (cr_src_only (snd u)) \<and>
    snd (index_slot rule (table_entries t - 1) token) = token + of_bool (cr_dst_only rule)"
  using hash_in_base [OF assms] by (simp add: rule_slot_def index_slot_def Let_def split: prod.splits)

text \<open>Each step of adding or deleting appends at most so many elements to a command.\<close>

lemma add_dma_cmd_length: "length (snd (ipa_table_add_dma_cmd t ht r i d cmd)) \<le> Suc (length cmd)"
  by (simp add: ipa_table_add_dma_cmd_def ipa_table_dma_cmd_generate_def Let_def split: option.splits)

lemma InsertHead_length:
  assumes "InsertHead t i u cmd = (ret, cmd', t')"
  shows "length cmd' \<le> Suc (length cmd)"
  using assms add_dma_cmd_length [of _ HELP_UPDATE_HEAD "Some i" i _ cmd]
  by (auto simp: InsertHead_def Let_def split: sum.splits prod.splits)

lemma InsertTail_length:
  assumes "InsertTail t i u cmd = Some (ret, cmd', t')"
  shows "length cmd' \<le> Suc (Suc (length cmd))"
proof -
  obtain r where "ipa_table_iterator_end t i = Some r" using assms by (auto simp: InsertTail_def bind_eq_Some_conv)
  note run = assms [unfolded InsertTail_def this, simplified]
  show ?thesis
  proof (cases "r")
    case (Inr it)
    show ?thesis
    proof (cases "FindExpnTblFreeEntry t")
      case (Inr slot)
      obtain res t1 where fs: "fill_slot t slot (prev_index it) u = (res, t1)" by fastforce
      show ?thesis
      proof (cases res)
        case (Inr d)
        define c where "c = (if meta t1 \<noteq> None then cmd else snd (ipa_table_add_dma_cmd t1 HELP_UPDATE_HEAD (Some slot) slot d cmd))"
        have "length c \<le> Suc (length cmd)"
          using add_dma_cmd_length [of t1 HELP_UPDATE_HEAD "Some slot" slot d cmd] by (simp add: c_def)
        moreover have "cmd' = snd (ipa_table_add_dma_cmd t1 HELP_UPDATE_ENTRY (prev_entry it) (prev_index it) slot c)"
          using run \<open>r = Inr it\<close> \<open>FindExpnTblFreeEntry t = Inr slot\<close> fs Inr by (simp add: Let_def c_def)
        ultimately show ?thesis
          using add_dma_cmd_length [of t1 HELP_UPDATE_ENTRY "prev_entry it" "prev_index it" slot c] by simp
      qed (use run \<open>r = Inr it\<close> Inr fs in simp)
    qed (use run Inr in simp)
  qed (use run in simp)
qed

lemma add_entry_length:
  assumes "ipa_table_add_entry t u i cmd = Some (ret, cmd', t')"
  shows "length cmd' \<le> Suc (Suc (length cmd))"
  using assms InsertHead_length [of t i u cmd] InsertTail_length [of t i u cmd]
  by (fastforce simp: ipa_table_add_entry_def bind_eq_Some_conv split: if_splits)

lemma create_delete_length: "length (ipa_table_create_delete_command t cmd it) \<le> Suc (length cmd)"
  by (auto simp: ipa_table_create_delete_command_def Let_def add_dma_cmd_length split: prod.splits)

text \<open>C36. The buffers for DMA commands are large enough: adding a rule and its index record makes a
  command of at most four elements, and deleting a rule one of at most three, also when the index
  record is the head of a list, whatever the tables contain.\<close>

theorem ipa_nat_commands_fit:
  "(ipa_table_add_entry t u i [] = Some (Inr (idx, hdl), cmd, t') \<and> ipa_table_add_entry x idx j cmd = Some (ret, cmd', x') \<longrightarrow>
      length cmd' \<le> MAX_DMA_ENTRIES_FOR_ADD) \<and>
   (delete_cmds nt table_it index_it = (Inr (it, dcmd), nt') \<longrightarrow> length dcmd \<le> MAX_DMA_ENTRIES_FOR_DEL)"
proof (intro conjI impI)
  assume "ipa_table_add_entry t u i [] = Some (Inr (idx, hdl), cmd, t') \<and> ipa_table_add_entry x idx j cmd = Some (ret, cmd', x')"
  then show "length cmd' \<le> MAX_DMA_ENTRIES_FOR_ADD"
    using add_entry_length [of t u i "[]"] add_entry_length [of x idx j cmd] by (fastforce simp: MAX_DMA_ENTRIES_FOR_ADD_def)
next
  assume d: "delete_cmds nt table_it index_it = (Inr (it, dcmd), nt')"
  let ?c = "ipa_table_create_delete_command (index_table nt) [] index_it"
  have c: "length ?c \<le> 1" using create_delete_length [of "index_table nt" "[]" index_it] by simp
  obtain c' and t1 :: nat_table where "dcmd = ipa_table_create_delete_command t1 c' table_it" "length c' \<le> Suc (length ?c)"
  proof (cases "ipa_table_iterator_is_head_with_tail index_it")
    case True
    obtain c1 nt1 where cp: "ipa_nati_copy_second_index_entry_to_head nt index_it ?c = (c1, nt1)" by fastforce
    then have "length c1 \<le> Suc (length ?c)"
      using add_dma_cmd_length by (auto simp: ipa_nati_copy_second_index_entry_to_head_def Let_def)
    moreover have "dcmd = ipa_table_create_delete_command (table nt1) c1 table_it"
      using d True cp by (auto simp: delete_cmds_def split: prod.splits sum.splits)
    ultimately show ?thesis by (intro that)
  qed (use d that [of "table nt" ?c] in \<open>auto simp: delete_cmds_def Let_def\<close>)
  then show "length dcmd \<le> MAX_DMA_ENTRIES_FOR_DEL"
    using c create_delete_length [of t1 c' table_it] by (simp add: MAX_DMA_ENTRIES_FOR_DEL_def)
qed

section \<open>Well-formed tables\<close>

text \<open>What the operations of a table leave alone, with the meta data related by \<open>mk\<close>.\<close>

definition keeps :: "('m option \<Rightarrow> 'm option \<Rightarrow> bool) \<Rightarrow> ('e, 'm, 'u) ipa_table \<Rightarrow> ('e, 'm, 'u) ipa_table \<Rightarrow> bool" where
  "keeps mk t t' \<longleftrightarrow> table_entries t' = table_entries t \<and> expn_table_entries t' = expn_table_entries t \<and>
     tot_tbl_ents t' = tot_tbl_ents t \<and> entry_interface t' = entry_interface t \<and> length (recs t') = length (recs t) \<and>
     mk (meta t) (meta t')"

text \<open>
  A type of records whose functions keep the shape of the meta data and report no crash. The
  rule table and the index table interpret it, so that what follows holds for both.
\<close>

locale safe_records =
  fixes iface :: "('e, 'm, 'u) ipa_table_entry_interface" and mk :: "'m option \<Rightarrow> 'm option \<Rightarrow> bool"
  assumes mk_refl: "mk m m" and mk_trans: "mk m m' \<Longrightarrow> mk m' m'' \<Longrightarrow> mk m m''"
    and set_prev_mk: "entry_set_prev_index iface e i prv m b = (e', m') \<Longrightarrow> mk m m'"
    and head_safe: "entry_head_insert iface e u = (Inl err, e') \<Longrightarrow> err \<noteq> CRASH"
    and tail_safe: "entry_tail_insert iface e u = (Inl err, e') \<Longrightarrow> err \<noteq> CRASH"
begin

lemma keeps_refl [simp]: "keeps mk t t"
  by (simp add: keeps_def mk_refl)

lemma keeps_trans: "keeps mk t t' \<Longrightarrow> keeps mk t' t'' \<Longrightarrow> keeps mk t t''"
  by (auto simp: keeps_def intro: mk_trans)

lemma keeps_set [simp]:
  "keeps mk t (set_rec i e t') = keeps mk t t'" "keeps mk t (t'\<lparr>cur_tbl_cnt := n\<rparr>) = keeps mk t t'"
  "keeps mk t (t'\<lparr>cur_expn_tbl_cnt := n\<rparr>) = keeps mk t t'"
  by (simp_all add: keeps_def)

lemma keeps_meta: "keeps mk t t' \<Longrightarrow> mk (meta t') m \<Longrightarrow> keeps mk t (t'\<lparr>meta := m\<rparr>)"
  by (auto simp: keeps_def intro: mk_trans)

lemma InsertHead_safe:
  assumes "entry_interface t = iface" "InsertHead t i u cmd = (ret, cmd', t')"
  shows "keeps mk t t' \<and> ret \<noteq> Inl CRASH"
  using assms head_safe by (auto simp: InsertHead_def Let_def split: prod.splits sum.splits)

lemma fill_slot_safe:
  assumes i: "entry_interface t = iface" and f: "fill_slot t slot prv u = (ret, t')"
  shows "keeps mk t t' \<and> ret \<noteq> Inl CRASH"
proof -
  define ins where "ins = (if meta t \<noteq> None
      then apfst (map_sum id (\<lambda>_. 0)) (entry_tail_insert iface (rec_at t slot) u)
      else entry_head_insert iface (rec_at t slot) u)"
  obtain r e where re: "ins = (r, e)" by fastforce
  have run: "fill_slot t slot prv u = (case r of Inl err \<Rightarrow> (Inl err, set_rec slot e t)
      | Inr d \<Rightarrow> let (e', m) = entry_set_prev_index iface e slot prv (meta t) (table_entries t)
               in (Inr d, (set_rec slot e' t)\<lparr>meta := m\<rparr>))"
    unfolding fill_slot_def i Let_def ins_def [symmetric] re by simp
  show ?thesis
  proof (cases r)
    case (Inl err)
    have "err \<noteq> CRASH"
      using re Inl head_safe [of "rec_at t slot" u] tail_safe [of "rec_at t slot" u] unfolding ins_def
      by (cases "entry_tail_insert iface (rec_at t slot) u"; cases "fst (entry_tail_insert iface (rec_at t slot) u)")
        (auto split: if_splits)
    then show ?thesis using f run Inl by auto
  next
    case (Inr d)
    obtain e' m where "entry_set_prev_index iface e slot prv (meta t) (table_entries t) = (e', m)" by fastforce
    then show ?thesis using f run Inr set_prev_mk by (auto intro!: keeps_meta)
  qed
qed

lemma InsertTail_safe:
  assumes i: "entry_interface t = iface" and run: "InsertTail t i u cmd = Some (ret, cmd', t')"
  shows "keeps mk t t' \<and> ret \<noteq> Inl CRASH"
proof -
  obtain r where r: "ipa_table_iterator_end t i = Some r" using run by (auto simp: InsertTail_def bind_eq_Some_conv)
  then have err: "r \<noteq> Inl CRASH"
  proof -
    have loop: "x \<noteq> Inl CRASH" if "end_loop t j = Some x" for x j
      using that by (induction rule: end_loop.raw_induct [rotated, consumes 1]) (auto simp: Let_def split: if_splits)
    obtain l where "end_loop t i = Some l" using r by (auto simp: ipa_table_iterator_end_def bind_eq_Some_conv)
    then show ?thesis using r loop [of i l] by (cases l) (auto simp: ipa_table_iterator_end_def)
  qed
  have free: "FindExpnTblFreeEntry t \<noteq> Inl CRASH" by (simp add: FindExpnTblFreeEntry_def Let_def)
  show ?thesis
    using run r err free fill_slot_safe [OF i]
    by (fastforce simp: InsertTail_def Let_def split: sum.splits prod.splits)
qed

lemma add_entry_safe:
  assumes "entry_interface t = iface" "ipa_table_add_entry t u i cmd = Some (ret, cmd', t')"
  shows "keeps mk t t' \<and> ret \<noteq> Inl CRASH"
proof -
  obtain r where r: "(if entry_is_valid (entry_interface t) (rec_at t i) then InsertTail t i u cmd
      else Some (InsertHead t i u cmd)) = Some (r, cmd', t')" "ret = map_sum id (\<lambda>i. (i, ucast (MakeEntryHdl t' i))) r"
    using assms(2) by (auto simp: ipa_table_add_entry_def bind_eq_Some_conv)
  have "keeps mk t t' \<and> r \<noteq> Inl CRASH"
    using r(1) InsertTail_safe [OF assms(1)] InsertHead_safe [OF assms(1)]
    by (cases "entry_is_valid (entry_interface t) (rec_at t i)") auto
  then show ?thesis using r(2) by (cases r) auto
qed

lemma erase_entry_keeps: "keeps mk t t' \<Longrightarrow> keeps mk t (ipa_table_erase_entry t' i)"
  by (simp add: ipa_table_erase_entry_def Let_def)

lemma delete_entry_keeps:
  assumes "entry_interface t = iface"
  shows "keeps mk t (ipa_table_delete_entry t it b)"
proof -
  obtain e m where e: "entry_set_prev_index iface (rec_at t (the (next_entry it))) (next_index it) (prev_index it)
      (meta t) (table_entries t) = (e, m)" by fastforce
  show ?thesis
    unfolding ipa_table_delete_entry_def Let_def
    by (rule erase_entry_keeps) (use assms e set_prev_mk [OF e] in \<open>auto intro!: keeps_meta split: option.splits\<close>)
qed

end

text \<open>The index table's meta data stays allocated with its size.\<close>

definition same_length :: "'a list option \<Rightarrow> 'a list option \<Rightarrow> bool" where
  "same_length m m' \<longleftrightarrow> map_option length m' = map_option length m"

interpretation rule_tbl: safe_records nat_entry_interface "(=)"
  by unfold_locales (auto simp: nat_entry_interface_def nat_table_entry_set_prev_index_def nat_table_entry_head_insert_def
      nat_table_entry_tail_insert_def nat_table_entry_copy_from_user_def Let_def split: prod.splits)

interpretation index_tbl: safe_records index_entry_interface same_length
  by unfold_locales (auto simp: same_length_def index_entry_interface_def index_table_entry_set_prev_index_def
      index_table_entry_head_insert_def index_table_entry_tail_insert_def option.map_comp comp_def split: if_splits)

end
