(* ===== verification/IPA_NAT_Safe.thy ===== *)
theory IPA_NAT_Safe
  imports IPA_NAT_Rules
begin

text \<open>
  The states that the NAT client can reach (\<open>ipa_nat_drvi.c\<close>): every sequence of its calls, with
  whatever the system and the hardware answer, leaves the tables of both memories well formed, and
  calls with a valid handle do not leave the library's memory.
\<close>

section \<open>The invariant\<close>

text \<open>A rule table and its index table have the same sizes and all their records, and the index
  table has its meta data.\<close>

definition nt_ok :: "ipa_nat_ip4_table_cache \<Rightarrow> bool" where
  "nt_ok nt \<longleftrightarrow> (let t = table nt; x = index_table nt in
     sizes_ok t \<and> length (recs t) = unat (tot_tbl_ents t) \<and> length (recs x) = unat (tot_tbl_ents t) \<and>
     table_entries x = table_entries t \<and> expn_table_entries x = expn_table_entries t \<and> tot_tbl_ents x = tot_tbl_ents t \<and>
     entry_interface t = nat_entry_interface \<and> entry_interface x = index_entry_interface \<and> meta t = None \<and>
     map_option length (meta x) = Some (unat (expn_table_entries t)))"

definition nt_valid :: "ipa_nat_ip4_table_cache \<Rightarrow> bool" where
  "nt_valid nt \<longleftrightarrow> md_valid (nat_mem_desc nt)"

definition cache_ok :: "ipa_nat_cache \<Rightarrow> bool" where
  "cache_ok c \<longleftrightarrow> (\<exists>nt. ip4_tbl c = [nt] \<and> table_cnt c \<le> 1 \<and>
     (nt_valid nt \<longrightarrow> table_cnt c = 1 \<and> nc_ipa_desc c \<noteq> None \<and> nt_ok nt))"

definition nat_inv :: "nat_header \<Rightarrow> nat_lib \<Rightarrow> bool" where
  "nat_inv hdr s \<longleftrightarrow> length (pdns s) = hdr_IPA_MAX_PDN_NUM hdr \<and> (\<forall>mem. cache_ok (ipv4_nat_cache s mem))"

lemma nt_ok_keeps:
  assumes "nt_ok nt" "keeps (=) (table nt) t" "keeps same_length (index_table nt) x"
  shows "nt_ok (nt\<lparr>table := t, index_table := x\<rparr>)"
  using assms by (auto simp: nt_ok_def keeps_def Let_def same_length_def sizes_ok_def)

lemma nt_ok_table: "nt_ok nt \<Longrightarrow> keeps (=) (table nt) t \<Longrightarrow> nt_ok (nt\<lparr>table := t\<rparr>)"
  using nt_ok_keeps [of nt t "index_table nt"] by simp

lemma nt_ok_index: "nt_ok nt \<Longrightarrow> keeps same_length (index_table nt) x \<Longrightarrow> nt_ok (nt\<lparr>index_table := x\<rparr>)"
  using nt_ok_keeps [of nt "table nt" x] by simp

lemma nt_ok_ifaces:
  assumes "nt_ok nt"
  shows "entry_interface (table nt) = nat_entry_interface" "entry_interface (index_table nt) = index_entry_interface"
  using assms by (auto simp: nt_ok_def Let_def)

lemma nat_inv_cache: "nat_inv hdr s \<Longrightarrow> cache_ok (ipv4_nat_cache s mem)"
  by (simp add: nat_inv_def)

lemma nat_inv_set_cache: "nat_inv hdr s \<Longrightarrow> cache_ok c \<Longrightarrow> nat_inv hdr (set_cache mem c s)"
  by (simp add: nat_inv_def set_cache_def)

text \<open>Fields of the state that the invariant does not look at.\<close>

lemma nat_inv_fields [simp]:
  "nat_inv hdr (s\<lparr>active_nat_cache := a\<rparr>) = nat_inv hdr s" "nat_inv hdr (s\<lparr>num_pdns := n\<rparr>) = nat_inv hdr s"
  "nat_inv hdr (s\<lparr>Hash_token := tok\<rparr>) = nat_inv hdr s" "nat_inv hdr (s\<lparr>nat_hw := hw\<rparr>) = nat_inv hdr s"
  "nat_inv hdr (s\<lparr>pdns := (pdns s)[i := p]\<rparr>) = nat_inv hdr s"
  by (simp_all add: nat_inv_def)

text \<open>A valid handle denotes the only table of a memory.\<close>

lemma tbl_of_cases:
  assumes "cache_ok c" "tbl_of c h = Some nt"
  shows "ip4_tbl c = [nt]" "unat (h - 1) = 0"
  using assms by (auto simp: cache_ok_def tbl_of_def Let_def split: if_splits)

lemma tbl_of_valid: "cache_ok c \<Longrightarrow> tbl_of c 1 \<noteq> None"
  by (auto simp: cache_ok_def tbl_of_def)

text \<open>A new table for the only slot: either not valid, or as good as the old one was.\<close>

lemma nat_inv_set_tbl:
  assumes "nat_inv hdr s" "ip4_tbl (ipv4_nat_cache s mem) = [nt]" "nt_valid nt' \<Longrightarrow> nt_valid nt"
    "nt_valid nt' \<Longrightarrow> nt_ok nt \<Longrightarrow> nt_ok nt'"
  shows "nat_inv hdr (set_ip4_tbl mem 0 nt' s)"
  unfolding set_ip4_tbl_def Let_def
  by (rule nat_inv_set_cache [OF assms(1)]) (use assms(2-4) nat_inv_cache [OF assms(1), of mem] in \<open>auto simp: cache_ok_def\<close>)

lemma not_valid_zero [simp]: "\<not> nt_valid zero_nat_table"
  by (simp add: nt_valid_def zero_nat_table_def zero_mem_desc_def)

section \<open>Tables\<close>

lemma nat_create_table_ok:
  assumes "ipa_nati_create_table hdr os mem nt ip n i = (Inr (), nt')"
  shows "nt_valid nt' \<and> nt_ok nt'"
proof -
  obtain t where t: "ipa_table_calculate_entries_num
      (ipa_table_init zero_nat_rule ''IPA NAT table'' mem 32 None 0 nat_entry_interface (\<lambda>_. zero_helper)) n mem = (Inr (), t)"
    using assms by (auto simp: ipa_nati_create_table_def Let_def split: prod.splits sum.splits if_splits)
  have sz: "sizes_ok t" using calculate_entries_num_ok [OF t] by simp
  have f: "entry_interface t = nat_entry_interface" "meta t = None" "recs t = []"
    using t by (auto simp: ipa_table_calculate_entries_num_def ipa_table_init_def Let_def split: if_splits)
  define x where "x = (ipa_table_init zero_indx_rule ''IPA NAT index table'' mem 4
      (Some (replicate (unat (expn_table_entries t)) 0)) 2 index_entry_interface (\<lambda>_. zero_helper))
      \<lparr>table_entries := table_entries t, expn_table_entries := expn_table_entries t, tot_tbl_ents := tot_tbl_ents t\<rparr>"
  obtain d desc where "ipa_mem_descriptor_allocate_memory (base_header hdr) (base_sys os) d = (Inr (), desc)"
    and nt': "nt' = ipa_nati_create_table_dma_cmd_helpers (nt\<lparr>public_addr := ip, nat_mem_desc := desc,
        table := ipa_table_reset (snd (ipa_table_calculate_addresses t (base_addr desc))),
        index_table := ipa_table_reset (snd (ipa_table_calculate_addresses x (fst (ipa_table_calculate_addresses t (base_addr desc)))))\<rparr>) i"
    using assms unfolding ipa_nati_create_table_def Let_def t prod.case sum.case x_def [symmetric]
    by (auto split: prod.splits sum.splits if_splits)
  then show ?thesis
    using sz f sizes_okD(5) [OF sz] allocate_memory_ok(1) [of "base_header hdr" "base_sys os" d desc]
    by (auto simp: nt_valid_def nt_ok_def nt' x_def ipa_nati_create_table_dma_cmd_helpers_def
        ipa_table_calculate_addresses_def ipa_table_reset_def ipa_table_init_def sizes_ok_def Let_def)
qed

lemma nat_create_table_fails:
  assumes "ipa_nati_create_table hdr os mem nt ip n i = (Inl err, nt')" "\<not> nt_valid nt"
  shows "\<not> nt_valid nt'"
  using assms by (auto simp: ipa_nati_create_table_def nt_valid_def zero_nat_table_def zero_mem_desc_def Let_def
      split: prod.splits sum.splits if_splits)

lemma open_ipa_inv: "nat_inv hdr s \<Longrightarrow> nat_inv hdr (open_ipa h os mem s)"
  unfolding open_ipa_def Let_def
  using nat_inv_cache [of hdr s mem] by (auto simp: cache_ok_def intro!: nat_inv_set_cache)

lemma close_unused_inv: "nat_inv hdr s \<Longrightarrow> nat_inv hdr (close_unused mem s)"
  unfolding close_unused_def Let_def
  using nat_inv_cache [of hdr s mem] by (auto simp: cache_ok_def intro!: nat_inv_set_cache)

lemma set_ip4_tbl_twice [simp]: "set_ip4_tbl mem i nt' (set_ip4_tbl mem i nt s) = set_ip4_tbl mem i nt' s"
  by (simp add: set_ip4_tbl_def set_cache_def Let_def)

lemma cache_set_ip4_tbl [simp]:
  "ipv4_nat_cache (set_ip4_tbl mem i nt s) mem = (ipv4_nat_cache s mem)\<lparr>ip4_tbl := (ip4_tbl (ipv4_nat_cache s mem))[i := nt]\<rparr>"
  "pdns (set_ip4_tbl mem i nt s) = pdns s" "nat_hw (set_ip4_tbl mem i nt s) = nat_hw s"
  by (simp_all add: set_ip4_tbl_def set_cache_def Let_def)

lemma cache_set_cache [simp]:
  "ipv4_nat_cache (set_cache mem c s) mem = c" "pdns (set_cache mem c s) = pdns s"
  by (simp_all add: set_cache_def)

lemma cache_open_ipa:
  "ip4_tbl (ipv4_nat_cache (open_ipa h os mem s) mem) = ip4_tbl (ipv4_nat_cache s mem)"
  "table_cnt (ipv4_nat_cache (open_ipa h os mem s) mem) = table_cnt (ipv4_nat_cache s mem)"
  by (simp_all add: open_ipa_def Let_def)

lemma cnt_cases: "\<not> IPA_NAT_MAX_IP4_TBLS \<le> ucast (c :: u8) \<Longrightarrow> c = 0"
proof -
  have "unat (ucast c :: u32) = unat c"
    using unsigned_less [where 'a = nat, of c] by (simp add: unsigned_ucast_eq take_bit_nat_eq_self)
  then show "\<not> IPA_NAT_MAX_IP4_TBLS \<le> ucast c \<Longrightarrow> c = 0" by (simp add: nat_consts word_le_nat_alt word_unat_eq_iff)
qed

text \<open>What adding a table does once the device is open and the memory has no table.\<close>

lemma create_and_post_inv:
  assumes inv: "nat_inv hdr s" and cnt: "table_cnt (ipv4_nat_cache s mem) = 0"
    and desc: "nc_ipa_desc (ipv4_nat_cache s mem) \<noteq> None" and run: "create_and_post h os mem ip n s = (ret, s')"
  shows "nat_inv hdr s'"
proof -
  obtain nt where nt: "ip4_tbl (ipv4_nat_cache s mem) = [nt]" "\<not> nt_valid nt"
    using nat_inv_cache [OF inv, of mem] cnt by (auto simp: cache_ok_def)
  obtain r nt' where c: "ipa_nati_create_table h os mem nt ip n 0 = (r, nt')" by fastforce
  note run1 = run [unfolded create_and_post_def Let_def cnt nt unat_0 nth_Cons_0 c prod.case]
  show ?thesis
  proof (cases r)
    case (Inl err)
    have "nat_inv hdr (set_ip4_tbl mem 0 nt' s)"
      using nat_create_table_fails [OF _ nt(2)] c Inl by (intro nat_inv_set_tbl [OF inv nt(1)]) auto
    then show ?thesis using run1 Inl by (auto simp: close_unused_inv)
  next
    case (Inr u)
    have good: "nat_inv hdr (set_cache mem ((ipv4_nat_cache s mem)\<lparr>ip4_tbl := [nt'], table_cnt := 1\<rparr>) s)"
      using nat_create_table_ok [of h os mem nt ip n 0 nt'] c Inr desc
      by (intro nat_inv_set_cache [OF inv]) (auto simp: cache_ok_def)
    have zero: "nat_inv hdr (set_ip4_tbl mem 0 zero_nat_table s)" by (intro nat_inv_set_tbl [OF inv nt(1)]) auto
    show ?thesis
    proof (cases "init_table_ok (base_sys os)")
      case True
      then show ?thesis
        using run1 Inr good nt
        by (auto simp: ipa_nati_post_ipv4_init_cmd_def nat_inv_def set_cache_def set_ip4_tbl_def Let_def)
    next
      case False
      then show ?thesis
        using run1 Inr zero by (auto simp: ipa_nati_post_ipv4_init_cmd_def ipa_nati_destroy_table_def close_unused_inv)
    qed
  qed
qed

lemma add_tbl_inv:
  assumes inv: "nat_inv hdr s" and run: "ipa_NATI_add_ipv4_tbl h os mem ip n s = (ret, s')"
  shows "nat_inv hdr s'"
proof (cases "lock_ok (base_sys os)")
  case False
  then show ?thesis using assms by (simp add: ipa_NATI_add_ipv4_tbl_def)
next
  case lock: True
  define s1 where "s1 = set_cache mem ((ipv4_nat_cache s mem)\<lparr>nc_nmi := mem\<rparr>) s"
  define s2 where "s2 = open_ipa h (base_sys os) mem s1"
  have inv1: "nat_inv hdr s1"
    unfolding s1_def using nat_inv_cache [OF inv, of mem] by (intro nat_inv_set_cache [OF inv]) (auto simp: cache_ok_def)
  then have inv2: "nat_inv hdr s2" unfolding s2_def by (rule open_ipa_inv)
  obtain r' s3 where s3: "create_and_post h os mem ip n s2 = (r', s3)" by fastforce
  have "s' = (if IPA_NAT_MAX_IP4_TBLS \<le> ucast (table_cnt (ipv4_nat_cache s1 mem)) then s1
      else if nc_ipa_desc (ipv4_nat_cache s2 mem) = None then s2 else s3)"
    using run lock s3 unfolding ipa_NATI_add_ipv4_tbl_def s1_def [symmetric] Let_def s2_def [symmetric]
    by (auto split: if_splits)
  moreover have "table_cnt (ipv4_nat_cache s2 mem) = 0" if "\<not> IPA_NAT_MAX_IP4_TBLS \<le> ucast (table_cnt (ipv4_nat_cache s1 mem))"
    using cnt_cases [OF that] by (simp add: s2_def cache_open_ipa)
  ultimately show ?thesis using inv1 inv2 create_and_post_inv [OF inv2 _ _ s3] by auto
qed

lemma post_init_inv:
  assumes "nat_inv hdr s" "ipa_NATI_post_ipv4_init_cmd os h s = (ret, s')"
  shows "nat_inv hdr s'"
  using assms by (auto simp: ipa_NATI_post_ipv4_init_cmd_def ipa_nati_post_ipv4_init_cmd_def Let_def
      split: prod.splits if_splits option.splits)

lemma del_tbl_inv:
  assumes inv: "nat_inv hdr s" and run: "ipa_NATI_del_ipv4_table os h s = (ret, s')"
  shows "nat_inv hdr s'"
proof -
  obtain mem i where h: "BREAK_TBL_HDL h = (mem, i)" by fastforce
  note C = nat_inv_cache [OF inv, of mem]
  note run1 = run [unfolded ipa_NATI_del_ipv4_table_def h Let_def prod.case]
  show ?thesis
  proof (cases "lock_ok os \<and> (\<exists>nt. tbl_of (ipv4_nat_cache s mem) i = Some nt \<and> nt_valid nt)")
    case False
    then show ?thesis using run1 inv by (auto simp: nt_valid_def split: if_splits option.splits)
  next
    case True
    then obtain nt where nt: "lock_ok os" "tbl_of (ipv4_nat_cache s mem) i = Some nt" "nt_valid nt" by auto
    note T = tbl_of_cases [OF C nt(2)]
    have zero: "nat_inv hdr (set_ip4_tbl mem 0 zero_nat_table s)" by (intro nat_inv_set_tbl [OF inv T(1)]) auto
    have "cache_ok ((ipv4_nat_cache s mem)\<lparr>ip4_tbl := [zero_nat_table], table_cnt := 0, nc_ipa_desc := None\<rparr>)"
      by (simp add: cache_ok_def)
    then have gone: "nat_inv hdr (set_cache mem ((ipv4_nat_cache s mem)\<lparr>ip4_tbl := [zero_nat_table], table_cnt := 0,
        nc_ipa_desc := None\<rparr>) s)" by (rule nat_inv_set_cache [OF inv])
    have cnt: "table_cnt (ipv4_nat_cache s mem) = 1" using C T nt(3) by (auto simp: cache_ok_def)
    show ?thesis
    proof (cases "is_ok (fst (ipa_mem_descriptor_delete os (nat_mem_desc nt)))")
      case True
      then have "s' = close_unused mem (set_cache mem ((ipv4_nat_cache (set_ip4_tbl mem 0 zero_nat_table s) mem)\<lparr>table_cnt := 0\<rparr>)
          (set_ip4_tbl mem 0 zero_nat_table s))"
        using run1 nt T cnt by (simp add: nt_valid_def ipa_nati_destroy_table_def)
      also have "\<dots> = set_cache mem ((ipv4_nat_cache s mem)\<lparr>ip4_tbl := [zero_nat_table], table_cnt := 0, nc_ipa_desc := None\<rparr>) s"
        using T(1) by (simp add: close_unused_def set_ip4_tbl_def set_cache_def Let_def)
      finally show ?thesis using gone by simp
    next
      case False
      then show ?thesis using run1 nt T zero by (simp add: nt_valid_def ipa_nati_destroy_table_def)
    qed
  qed
qed

lemma keeps_clear_table:
  assumes "sizes_ok t" "length (recs t) = unat (tot_tbl_ents t)" "mk (meta t) (meta t)"
  shows "keeps mk t (clear_table t)"
  using assms sizes_okD(5) [OF assms(1)] by (simp add: keeps_def clear_table_def ipa_table_reset_def)

lemma clear_inv:
  assumes inv: "nat_inv hdr s" and run: "ipa_NATI_clear_ipv4_tbl os h s = (ret, s')"
  shows "nat_inv hdr s'"
proof -
  obtain mem i where h: "BREAK_TBL_HDL h = (mem, i)" by fastforce
  have "nat_inv hdr (set_ip4_tbl mem (unat (i - 1)) (nt\<lparr>table := clear_table (table nt), index_table := clear_table (index_table nt)\<rparr>) s)"
    if nt: "tbl_of (ipv4_nat_cache s mem) i = Some nt" for nt
  proof -
    note T = tbl_of_cases [OF nat_inv_cache [OF inv] nt]
    have "nt_ok (nt\<lparr>table := clear_table (table nt), index_table := clear_table (index_table nt)\<rparr>)" if "nt_ok nt"
      using that by (intro nt_ok_keeps [OF that] keeps_clear_table) (auto simp: nt_ok_def Let_def sizes_ok_def same_length_def)
    then show ?thesis unfolding T(2) by (intro nat_inv_set_tbl [OF inv T(1)]) (auto simp: nt_valid_def)
  qed
  then show ?thesis
    using run inv by (auto simp: ipa_NATI_clear_ipv4_tbl_def h Let_def split: if_splits option.splits)
qed

section \<open>Rules\<close>

text \<open>What is assumed of the hardware here: it writes into the records of the tables.\<close>

definition engine_keeps :: "nat_engine \<Rightarrow> bool" where
  "engine_keeps engine \<longleftrightarrow> (\<forall>ini one rs xs. length (fst (engine ini one (rs, xs))) = length rs \<and>
     length (snd (engine ini one (rs, xs))) = length xs)"

lemma fold_engine_keeps:
  assumes "engine_keeps engine"
  shows "length (fst (fold (engine ini) cmd m)) = length (fst m) \<and> length (snd (fold (engine ini) cmd m)) = length (snd m)"
proof (induction cmd arbitrary: m)
  case (Cons one cmd)
  then show ?case using assms by (cases m) (simp add: engine_keeps_def)
qed simp

lemma post_dma_ok:
  assumes "engine_keeps engine" "ipa_nati_post_ipv4_dma_cmd engine os s mem cmd nt = (r, nt')"
  shows "nt_ok nt \<Longrightarrow> nt_ok nt'" "nt_valid nt' = nt_valid nt" "r \<noteq> Inl CRASH" "\<not> is_ok r \<Longrightarrow> nt' = nt"
proof -
  show "nt_ok nt'" if "nt_ok nt"
  proof (cases "\<exists>ini. dma_cmd_ok os \<and> nat_hw s mem = Some ini")
    case True
    then obtain ini where ini: "dma_cmd_ok os" "nat_hw s mem = Some ini" by auto
    obtain rs xs where f: "fold (engine ini) cmd (recs (table nt), recs (index_table nt)) = (rs, xs)" by fastforce
    have "nt' = nt\<lparr>table := (table nt)\<lparr>recs := rs\<rparr>, index_table := (index_table nt)\<lparr>recs := xs\<rparr>\<rparr>"
      using assms(2) ini f by (simp add: ipa_nati_post_ipv4_dma_cmd_def)
    moreover have "length rs = length (recs (table nt))" "length xs = length (recs (index_table nt))"
      using fold_engine_keeps [OF assms(1), of ini cmd "(recs (table nt), recs (index_table nt))"] f by simp_all
    ultimately show ?thesis using that by (auto intro!: nt_ok_keeps simp: keeps_def same_length_def)
  qed (use assms(2) that in \<open>auto simp: ipa_nati_post_ipv4_dma_cmd_def split: if_splits option.splits\<close>)
qed (use assms(2) in \<open>auto simp: ipa_nati_post_ipv4_dma_cmd_def nt_valid_def Let_def split: if_splits option.splits prod.splits\<close>)

lemma nt_valid_fields [simp]:
  "nt_valid (nt\<lparr>table := t\<rparr>) = nt_valid nt" "nt_valid (nt\<lparr>index_table := x\<rparr>) = nt_valid nt"
  by (simp_all add: nt_valid_def)

lemma nt_ok_erase:
  "nt_ok nt \<Longrightarrow> nt_ok (nt\<lparr>table := ipa_table_erase_entry (table nt) i\<rparr>)"
  "nt_ok nt \<Longrightarrow> nt_ok (nt\<lparr>index_table := ipa_table_erase_entry (index_table nt) j\<rparr>)"
  by (simp_all add: nt_ok_table nt_ok_index rule_tbl.erase_entry_keeps index_tbl.erase_entry_keeps)

lemma nt_ok_bail:
  "nt_ok nt \<Longrightarrow> nt_ok (nt\<lparr>index_table := ipa_table_erase_entry (index_table nt) j, table := ipa_table_erase_entry (table nt) i\<rparr>)"
  using nt_ok_erase(1) [OF nt_ok_erase(2)] by simp

lemma nt_ok_set_rec: "nt_ok nt \<Longrightarrow> nt_ok (nt\<lparr>table := set_rec i e (table nt)\<rparr>)"
  by (simp add: nt_ok_table)

lemma add_index_entry_safe:
  assumes eng: "engine_keeps engine" and ok: "nt_ok nt"
    and run: "add_index_entry engine os mem s rule idx hdl j cmd nt = Some (ret, nt')"
  shows "nt_ok nt' \<and> nt_valid nt' = nt_valid nt \<and> ret \<noteq> Inl CRASH"
proof -
  obtain r cmd' x where x: "ipa_table_add_entry (index_table nt) idx j cmd = Some (r, cmd', x)"
    using run by (auto simp: add_index_entry_def bind_eq_Some_conv)
  note X = index_tbl.add_entry_safe [OF nt_ok_ifaces(2) [OF ok] x]
  define nt1 where "nt1 = nt\<lparr>index_table := x\<rparr>"
  have ok1: "nt_ok nt1" "nt_valid nt1 = nt_valid nt" using nt_ok_index [OF ok] X by (simp_all add: nt1_def)
  note run1 = run [unfolded add_index_entry_def x bind.bind_lunit prod.case Let_def, folded nt1_def]
  show ?thesis
  proof (cases r)
    case (Inl err)
    then show ?thesis using run1 X ok1 nt_ok_erase by auto
  next
    case (Inr jh)
    obtain j' h' where jh: "jh = (j', h')" by fastforce
    show ?thesis
    proof (cases "ipa_table_get_entry_by_index (table nt1) idx")
      case None
      then show ?thesis using run1 Inr jh ok1 nt_ok_bail by (auto simp: Let_def)
    next
      case (Some k)
      define nt2 where "nt2 = nt1\<lparr>table := set_rec k (finish_record rule j' (rec_at (table nt1) k)) (table nt1)\<rparr>"
      have ok2: "nt_ok nt2" "nt_valid nt2 = nt_valid nt" using ok1 nt_ok_set_rec by (simp_all add: nt2_def)
      obtain p nt3 where post: "ipa_nati_post_ipv4_dma_cmd engine os s mem cmd' nt2 = (p, nt3)" by fastforce
      note P = post_dma_ok [OF eng post]
      show ?thesis
        using run1 Inr jh Some post P(1) [OF ok2(1)] P(2,3) ok2 nt_ok_bail
        unfolding nt2_def [symmetric] by (auto simp: Let_def nt2_def [symmetric] split: sum.splits if_splits)
    qed
  qed
qed

lemma add_rule_safe:
  assumes eng: "engine_keeps engine" and inv: "nat_inv hdr s"
    and run: "ipa_NATI_add_ipv4_rule h engine os tbl_hdl u ptr s = Some (ret, s')"
  shows "nat_inv hdr s' \<and> ret \<noteq> Inl CRASH"
proof (cases "\<not> VALID_TBL_HDL tbl_hdl \<or> u = None \<or> \<not> ptr")
  case True
  then show ?thesis using run inv by (auto simp: ipa_NATI_add_ipv4_rule_def)
next
  case False
  then obtain rule where u: "u = Some rule" "ptr" "VALID_TBL_HDL tbl_hdl" by auto
  obtain mem where m: "BREAK_TBL_HDL tbl_hdl = (mem, 1)" using u(3) by (metis valid_tbl_hdl prod.collapse)
  define c where "c = ipv4_nat_cache s mem"
  have C: "cache_ok c" unfolding c_def by (rule nat_inv_cache [OF inv])
  obtain nt where nt: "tbl_of c 1 = Some nt" using tbl_of_valid [OF C] by auto
  note T = tbl_of_cases [OF C nt]
  note run1 = run [unfolded ipa_NATI_add_ipv4_rule_def Let_def u m prod.case c_def [symmetric] nt option.case]
  show ?thesis
  proof (cases "nt_valid nt")
    case False
    then show ?thesis using run1 inv u by (auto simp: nt_valid_def split: if_splits)
  next
    case True
    then obtain desc where desc: "nc_ipa_desc c = Some desc" and ok: "nt_ok nt" using C T(1) by (auto simp: cache_ok_def)
    obtain slot token where slot: "rule_slot h (desc_ver desc) (pdns s, rule) (table_entries (table nt) - 1) (Hash_token s) = (slot, token)"
      by fastforce
    obtain j token' where j: "index_slot rule (table_entries (table nt) - 1) token = (j, token')" by fastforce
    have upd: "nat_inv hdr (set_ip4_tbl mem 0 nt' (s\<lparr>Hash_token := tk\<rparr>))" if "nt_ok nt'" for nt' tk
      using that inv T(1) True by (intro nat_inv_set_tbl [where nt = nt]) (auto simp: c_def)
    have "nat_inv hdr s' \<and> ret \<noteq> Inl CRASH"
      if step: "ipa_table_add_entry (table nt) (pdns s, rule) slot [] = Some (r, cmd, t)"
        "(case r of Inl err \<Rightarrow> Some (Inl err, set_ip4_tbl mem 0 (nt\<lparr>table := t\<rparr>) (s\<lparr>Hash_token := token\<rparr>))
          | Inr (idx, hdl) \<Rightarrow> do {
              (ret, nt) \<leftarrow> add_index_entry engine os mem s rule idx hdl j cmd (nt\<lparr>table := t\<rparr>);
              Some (ret, set_ip4_tbl mem 0 nt (s\<lparr>Hash_token := token'\<rparr>)) }) = Some (ret, s')" for r cmd t
    proof -
      note A = rule_tbl.add_entry_safe [OF nt_ok_ifaces(1) [OF ok] step(1)]
      have ok1: "nt_ok (nt\<lparr>table := t\<rparr>)" using A nt_ok_table [OF ok] by simp
      show ?thesis
      proof (cases r)
        case (Inr ih)
        obtain idx hdl where ih: "ih = (idx, hdl)" by fastforce
        then obtain nt2 where n: "add_index_entry engine os mem s rule idx hdl j cmd (nt\<lparr>table := t\<rparr>) = Some (ret, nt2)"
          "s' = set_ip4_tbl mem 0 nt2 (s\<lparr>Hash_token := token'\<rparr>)"
          using step(2) Inr by (auto simp: bind_eq_Some_conv)
        then show ?thesis using add_index_entry_safe [OF eng ok1 n(1)] upd by simp
      qed (use step(2) A upd [OF ok1] in auto)
    qed
    then show ?thesis
      using run1 [unfolded desc option.case option.sel slot prod.case j diff_self unat_0] inv True
      by (auto simp: nt_valid_def bind_eq_Some_conv split: if_splits)
  qed
qed

text \<open>An iterator at a record in use with a successor has that successor at hand.\<close>

lemma iterator_init_next:
  assumes "ipa_table_iterator_init t i = Inr it" "VALID_INDEX (next_index it)"
  shows "next_entry it \<noteq> None"
  using assms by (auto simp: ipa_table_iterator_init_def Let_def split: if_splits)

lemma delete_cmds_safe:
  assumes ok: "nt_ok nt" and it: "ipa_table_iterator_init (index_table nt) j = Inr index_it"
    and run: "delete_cmds nt table_it index_it = (r, nt')"
  shows "nt_ok nt' \<and> nt_valid nt' = nt_valid nt \<and> r \<noteq> Inl CRASH"
proof (cases "ipa_table_iterator_is_head_with_tail index_it")
  case True
  then have "next_entry index_it \<noteq> None"
    using iterator_init_next [OF it] by (simp add: ipa_table_iterator_is_head_with_tail_def)
  then have "fst (ipa_table_iterator_next index_it x) \<noteq> Inl CRASH" for x :: nat_index_table
    by (auto simp: ipa_table_iterator_next_def Let_def split: if_splits)
  then have crash: "\<nexists>i. ipa_table_iterator_next index_it x = (Inl CRASH, i)" for x :: nat_index_table
    by (metis fst_conv)
  show ?thesis
    using run True crash nt_ok_set_rec [OF ok]
    by (auto simp: delete_cmds_def ipa_nati_copy_second_index_entry_to_head_def Let_def split: prod.splits sum.splits)
next
  case False
  then show ?thesis using run ok by (auto simp: delete_cmds_def Let_def)
qed

lemma delete_records_ok:
  assumes ok: "nt_ok nt"
  shows "nt_ok (delete_records h table_it index_it nt) \<and> nt_valid (delete_records h table_it index_it nt) = nt_valid nt"
proof -
  let ?x = "ipa_table_delete_entry (index_table nt) index_it False"
  have "keeps same_length (index_table nt) ?x" by (rule index_tbl.delete_entry_keeps [OF nt_ok_ifaces(2) [OF ok]])
  then have x: "keeps same_length (index_table nt) (if table_entries ?x \<le> k
      then ?x\<lparr>meta := map_option (\<lambda>m. m[l := 0]) (meta ?x)\<rparr> else ?x)" for k l
    by (auto simp: keeps_def same_length_def option.map_comp comp_def)
  have "keeps (=) (table nt) (if b then table nt else ipa_table_delete_entry (table nt) table_it b')" for b b'
    using rule_tbl.delete_entry_keeps [OF nt_ok_ifaces(1) [OF ok]] by simp
  then show ?thesis using x unfolding delete_records_def Let_def by (simp add: nt_ok_keeps [OF ok])
qed

lemma get_entry_no_crash: "ipa_table_get_entry t hdl \<noteq> Inl CRASH" "ipa_table_iterator_init t i \<noteq> Inl CRASH"
  by (auto simp: ipa_table_get_entry_def ipa_table_iterator_init_def Let_def split: prod.splits)

lemma mutex_unlock_crash: "mutex_unlock os r = Inl CRASH \<Longrightarrow> r = Inl CRASH"
  by (auto simp: mutex_unlock_def split: if_splits sum.splits)

lemma find_rule_safe:
  shows "find_rule nt hdl \<noteq> Inl CRASH"
    "find_rule nt hdl = Inr (ta, ib) \<Longrightarrow> \<exists>j. ipa_table_iterator_init (index_table nt) j = Inr ib"
  using get_entry_no_crash(1) [of "table nt" hdl] get_entry_no_crash(2) [of "table nt"]
    get_entry_no_crash(2) [of "index_table nt"]
  by (auto simp: find_rule_def split: sum.splits option.splits)

lemma delete_rule_safe:
  assumes eng: "engine_keeps engine" and ok: "nt_ok nt" and it: "ipa_table_iterator_init (index_table nt) j = Inr ib"
    and run: "delete_rule h engine os s mem ta ib nt = (r, nt')"
  shows "nt_ok nt' \<and> r \<noteq> Inl CRASH"
proof -
  obtain q nt1 where d: "delete_cmds nt ta ib = (q, nt1)" by fastforce
  note D = delete_cmds_safe [OF ok it d]
  show ?thesis
  proof (cases q)
    case (Inr ic)
    obtain ib2 cmd where ic: "ic = (ib2, cmd)" by fastforce
    obtain p nt2 where p: "ipa_nati_post_ipv4_dma_cmd engine os s mem cmd nt1 = (p, nt2)" by fastforce
    note P = post_dma_ok [OF eng p]
    show ?thesis
      using run d Inr ic p P(3) P(1) D delete_records_ok [of nt2] by (auto simp: delete_rule_def split: sum.splits)
  qed (use run d D in \<open>auto simp: delete_rule_def\<close>)
qed

lemma del_rule_safe:
  assumes eng: "engine_keeps engine" and inv: "nat_inv hdr s"
    and run: "ipa_NATI_del_ipv4_rule h engine os tbl_hdl rule_hdl s = (ret, s')"
  shows "nat_inv hdr s' \<and> (VALID_TBL_HDL tbl_hdl \<longrightarrow> ret \<noteq> Inl CRASH)"
proof -
  obtain mem i where m: "BREAK_TBL_HDL tbl_hdl = (mem, i)" by fastforce
  define c where "c = ipv4_nat_cache s mem"
  have C: "cache_ok c" unfolding c_def by (rule nat_inv_cache [OF inv])
  note run1 = run [unfolded ipa_NATI_del_ipv4_rule_def Let_def m prod.case c_def [symmetric]]
  show ?thesis
  proof (cases "lock_ok os \<and> (\<exists>nt. tbl_of c i = Some nt \<and> nt_valid nt)")
    case False
    then show ?thesis
      using run1 inv tbl_of_valid [OF C] m
      by (auto simp: nt_valid_def valid_tbl_hdl dest: mutex_unlock_crash split: if_splits option.splits)
  next
    case True
    then obtain nt where nt: "lock_ok os" "tbl_of c i = Some nt" "nt_valid nt" by auto
    note T = tbl_of_cases [OF C nt(2)]
    have ok: "nt_ok nt" using C T(1) nt(3) by (auto simp: cache_ok_def)
    have upd: "nat_inv hdr (set_ip4_tbl mem 0 nt' s)" if "nt_ok nt'" for nt'
      using that inv T(1) nt(3) by (intro nat_inv_set_tbl [where nt = nt]) (auto simp: c_def)
    note run2 = run1 [unfolded nt(2) option.case T(2)]
    show ?thesis
    proof (cases "find_rule nt rule_hdl")
      case (Inl err)
      then show ?thesis using run2 nt(1,3) inv find_rule_safe(1) [of nt rule_hdl]
        by (auto simp: nt_valid_def dest: mutex_unlock_crash)
    next
      case (Inr its)
      obtain ta ib where its: "its = (ta, ib)" by fastforce
      obtain j where j: "ipa_table_iterator_init (index_table nt) j = Inr ib" using find_rule_safe(2) Inr its by blast
      obtain r nt' where r: "delete_rule h engine os s mem ta ib nt = (r, nt')" by fastforce
      show ?thesis
        using run2 nt(1,3) Inr its r delete_rule_safe [OF eng ok j r] upd
        by (auto simp: nt_valid_def dest: mutex_unlock_crash)
    qed
  qed
qed

section \<open>Reachable states\<close>

lemma modify_pdn_inv:
  assumes "nat_inv hdr s" "ipa_nati_modify_pdn os e s = (ret, s')"
  shows "nat_inv hdr s'"
  using assms by (auto simp: ipa_nati_modify_pdn_def Let_def split: if_splits)

lemma alloc_pdn_inv:
  assumes "nat_inv hdr s" "ipa_nati_alloc_pdn h os p s = (ret, s')"
  shows "nat_inv hdr s'"
  using assms by (auto simp: ipa_nati_alloc_pdn_def ipa_nati_modify_pdn_def nat_inv_def Let_def
      split: if_splits pdn_search.splits)

lemma dealloc_pdn_inv:
  assumes "nat_inv hdr s" "ipa_nati_dealloc_pdn os i s = (ret, s')"
  shows "nat_inv hdr s'"
  using assms by (auto simp: ipa_nati_dealloc_pdn_def ipa_nati_modify_pdn_def nat_inv_def Let_def split: if_splits)

lemma sram_vote_inv:
  "nat_inv hdr s \<Longrightarrow> ipa_nati_get_sram_size h os s = (ret, s') \<Longrightarrow> nat_inv hdr s'"
  "nat_inv hdr s \<Longrightarrow> ipa_nati_vote_clock h nos s = (ret', s') \<Longrightarrow> nat_inv hdr s'"
  by (auto simp: ipa_nati_get_sram_size_def ipa_nati_vote_clock_def Let_def intro: open_ipa_inv split: if_splits option.splits)

text \<open>The states after any sequence of calls, with any arguments and any answers of the system.\<close>

inductive nat_reachable :: "nat_header \<Rightarrow> nat_engine \<Rightarrow> nat_lib \<Rightarrow> bool" for hdr engine where
  start: "nat_reachable hdr engine (nat_start hdr)"
| add_tbl: "nat_reachable hdr engine s \<Longrightarrow> ipa_NATI_add_ipv4_tbl hdr nos mem ip n s = (ret, s') \<Longrightarrow> nat_reachable hdr engine s'"
| post_init: "nat_reachable hdr engine s \<Longrightarrow> ipa_NATI_post_ipv4_init_cmd os h s = (r, s') \<Longrightarrow> nat_reachable hdr engine s'"
| del_tbl: "nat_reachable hdr engine s \<Longrightarrow> ipa_NATI_del_ipv4_table os h s = (r, s') \<Longrightarrow> nat_reachable hdr engine s'"
| clear: "nat_reachable hdr engine s \<Longrightarrow> ipa_NATI_clear_ipv4_tbl os h s = (r, s') \<Longrightarrow> nat_reachable hdr engine s'"
| add_rule: "nat_reachable hdr engine s \<Longrightarrow> ipa_NATI_add_ipv4_rule hdr engine os h u ptr s = Some (ret, s') \<Longrightarrow>
    nat_reachable hdr engine s'"
| del_rule: "nat_reachable hdr engine s \<Longrightarrow> ipa_NATI_del_ipv4_rule hdr engine os h rule_hdl s = (r, s') \<Longrightarrow>
    nat_reachable hdr engine s'"
| modify_pdn: "nat_reachable hdr engine s \<Longrightarrow> ipa_nati_modify_pdn nos e s = (r, s') \<Longrightarrow> nat_reachable hdr engine s'"
| alloc_pdn: "nat_reachable hdr engine s \<Longrightarrow> ipa_nati_alloc_pdn hdr nos p s = (ri, s') \<Longrightarrow> nat_reachable hdr engine s'"
| dealloc_pdn: "nat_reachable hdr engine s \<Longrightarrow> ipa_nati_dealloc_pdn nos i s = (r, s') \<Longrightarrow> nat_reachable hdr engine s'"
| sram_size: "nat_reachable hdr engine s \<Longrightarrow> ipa_nati_get_sram_size hdr os s = (ret, s') \<Longrightarrow> nat_reachable hdr engine s'"
| vote_clock: "nat_reachable hdr engine s \<Longrightarrow> ipa_nati_vote_clock hdr nos s = (r, s') \<Longrightarrow> nat_reachable hdr engine s'"

lemma nat_inv_start: "nat_inv hdr (nat_start hdr)"
  by (simp add: nat_inv_def nat_start_def cache_ok_def)

lemma nat_reachable_inv:
  assumes "engine_keeps engine" "nat_reachable hdr engine s"
  shows "nat_inv hdr s"
  using assms(2)
proof (induction rule: nat_reachable.induct)
  case start
  show ?case by (rule nat_inv_start)
qed (use assms(1) in \<open>blast intro: add_tbl_inv post_init_inv del_tbl_inv clear_inv modify_pdn_inv alloc_pdn_inv dealloc_pdn_inv
    sram_vote_inv dest: add_rule_safe del_rule_safe\<close>)+

lemma query_safe:
  assumes "nat_inv hdr s" "VALID_TBL_HDL tbl_hdl"
  shows "ipa_NATI_query_timestamp os tbl_hdl rule_hdl s \<noteq> Inl CRASH"
proof -
  obtain mem where m: "BREAK_TBL_HDL tbl_hdl = (mem, 1)" using assms(2) by (metis valid_tbl_hdl prod.collapse)
  have "map_sum id f (ipa_table_get_entry t rule_hdl) \<noteq> Inl CRASH" for f :: "u16 \<Rightarrow> u32" and t :: nat_table
    using get_entry_no_crash(1) [of t rule_hdl] by (cases "ipa_table_get_entry t rule_hdl") auto
  then show ?thesis
    using tbl_of_valid [OF nat_inv_cache [OF assms(1)], of mem] m
    by (auto simp: ipa_NATI_query_timestamp_def Let_def dest: mutex_unlock_crash split: option.splits)
qed


end
