(* ===== verification/IPA_NAT_Pdn.thy ===== *)
theory IPA_NAT_Pdn
  imports IPA_NAT_Safe
begin

text \<open>
  The public addresses (PDNs) of the NAT client (\<open>ipa_nat_drvi.c\<close>, with the checks of
  \<open>ipa_nat_drv.c\<close>): allocating and freeing are inverse, and a found index denotes its address; the
  last section shows the cases in which entries are duplicated, miscounted or written past the
  array. It also holds the concrete runs of the client.
\<close>

section \<open>Searching\<close>

lemma pdn_index_loop_spec:
  "pdn_index_loop ip ps k = (case find (\<lambda>i. public_ip (ps ! i) = ip) [0..<length ps] of
     None \<Rightarrow> None | Some i \<Rightarrow> Some (k + i))"
proof (induction ps arbitrary: k)
  case (Cons p ps)
  have shift: "find P (map Suc xs) = map_option Suc (find (\<lambda>i. P (Suc i)) xs)" for P xs
    by (induction xs) auto
  have "[0..<length (p # ps)] = 0 # map Suc [0..<length ps]" by (simp add: map_Suc_upt upt_conv_Cons del: upt_Suc)
  then show ?case using Cons.IH [of "Suc k"] by (simp add: shift split: option.splits)
qed simp

lemma alloc_pdn_loop_spec:
  "alloc_pdn_loop ip ps k = Same_Pdn i \<Longrightarrow> k \<le> i \<and> i - k < length ps \<and> public_ip (ps ! (i - k)) = ip"
  "alloc_pdn_loop ip ps k = Empty_Pdn i \<Longrightarrow> k \<le> i \<and> i - k < length ps \<and> ps ! (i - k) = zero_pdn \<and>
     (\<forall>j<i - k. public_ip (ps ! j) \<noteq> ip \<and> ps ! j \<noteq> zero_pdn)"
proof (induction ps arbitrary: k)
  case (Cons p ps)
  { case 1
    then show ?case using Cons.IH(1) [of "Suc k"] by (auto simp: Suc_diff_le nth_Cons' split: if_splits)
  next
    case 2
    then consider "p = zero_pdn" "i = k" | "public_ip p \<noteq> ip" "p \<noteq> zero_pdn" "alloc_pdn_loop ip ps (Suc k) = Empty_Pdn i"
      by (auto split: if_splits)
    then show ?case
    proof cases
      case 2
      note I = Cons.IH(2) [OF 2(3)]
      have "public_ip ((p # ps) ! j) \<noteq> ip \<and> (p # ps) ! j \<noteq> zero_pdn" if "j < i - k" for j
        using that I 2 by (cases j) auto
      then show ?thesis using I by (auto simp: nth_Cons')
    qed auto
  }
qed simp_all

section \<open>Allocating and freeing\<close>

text \<open>C37. Allocating a public address other than 0 either finds an entry with that address and changes
  nothing, or fills an entry that was free and counts it; the index that is returned denotes the
  address and is never the last of the array. Freeing a new entry undoes the allocation.\<close>

theorem ipa_nati_alloc_pdn_correct:
  assumes len: "length (pdns s) = hdr_IPA_MAX_PDN_NUM hdr" "hdr_IPA_MAX_PDN_NUM hdr \<le> 256"
    and ip: "public_ip p \<noteq> 0" "0 \<le> num_pdns s" and run: "ipa_nati_alloc_pdn hdr os p s = (Inr i, s')"
  shows "unat i < hdr_IPA_MAX_PDN_NUM hdr - 1 \<and> public_ip (pdns s' ! unat i) = public_ip p \<and>
    (s' = s \<or>
     pdns s ! unat i = zero_pdn \<and> s' = s\<lparr>pdns := (pdns s)[unat i := p], num_pdns := num_pdns s + 1\<rparr> \<and>
     (modify_pdn_ok os \<lparr>pdn_index = i, pdn_entry = zero_pdn\<rparr> \<longrightarrow> ipa_nati_dealloc_pdn os i s' = (Inr (), s)))"
proof -
  let ?n = "hdr_IPA_MAX_PDN_NUM hdr - 1"
  let ?ps = "take ?n (pdns s)"
  have small: "unat (of_nat k :: u8) = k" if "k < ?n" for k
    using that len(2) by (simp add: unsigned_of_nat take_bit_nat_eq_self)
  consider (same) k where "alloc_pdn_loop (public_ip p) ?ps 0 = Same_Pdn k" "i = of_nat k" "s' = s"
    | (new) k where "alloc_pdn_loop (public_ip p) ?ps 0 = Empty_Pdn k" "i = of_nat k" "nc_ipa_desc (modify_cache s) \<noteq> None"
        "\<not> length (pdns s) \<le> unat (of_nat k :: u8)"
        "s' = s\<lparr>pdns := (pdns s)[unat (of_nat k :: u8) := p], num_pdns := num_pdns s + 1\<rparr>"
    using run by (auto simp: ipa_nati_alloc_pdn_def ipa_nati_modify_pdn_def Let_def split: if_splits pdn_search.splits)
  then show ?thesis
  proof cases
    case same
    then show ?thesis using alloc_pdn_loop_spec(1) [OF same(1)] small [of k] len by auto
  next
    case new
    have k: "k < ?n" "pdns s ! k = zero_pdn" using alloc_pdn_loop_spec(2) [OF new(1)] len by auto
    note u = small [OF k(1)]
    have "p \<noteq> zero_pdn" using ip by (auto simp: zero_pdn_def)
    moreover have "modify_cache s' = modify_cache s" using new(5) by (simp add: modify_cache_def)
    ultimately have "ipa_nati_dealloc_pdn os i s' = (Inr (), s)" if "modify_pdn_ok os \<lparr>pdn_index = i, pdn_entry = zero_pdn\<rparr>"
      using that new k u len ip
      by (simp add: ipa_nati_dealloc_pdn_def ipa_nati_modify_pdn_def Let_def list_update_same_conv)
    then show ?thesis using new k u len by simp
  qed
qed

section \<open>Concrete runs\<close>

text \<open>A device and a system that grant everything, and a rule.\<close>

definition w_nat_hdr :: nat_header where
  "w_nat_hdr = \<lparr>base_header = \<lparr>hdr_IPA_HW_None = 0, hdr_IPA_HW_v4_0 = 13, hdr_IPA_RESOURCE_NAME_MAX = 32,
     hdr_IPA_DEV_NAME = ''/dev/ipa'', hdr_IPA_IPV6CT_DEV_NAME = ''ipaIpv6CTTable''\<rparr>,
     hdr_IPA_NAT_DEV_NAME = ''ipaNatTable'', hdr_IPA_MAX_PDN_NUM = 16, hdr_IPAHAL_NAT_INVALID_PROTOCOL = 0xFF\<rparr>"

definition w_nat_os :: sys where
  "w_nat_os = \<lparr>calloc_ok = True, open_dev = (\<lambda>_. 5), get_hw_version = Some 21, get_nat_in_sram_info = None,
     alloc_table = (\<lambda>_. Some 0), del_table_ok = (\<lambda>_ _ _. True), mmap_addr_of = (\<lambda>_. Some 4096), close_ok = True,
     init_table_ok = True, dma_cmd_ok = True, uc_act_ok = True, lock_ok = True, unlock_ok = True\<rparr>"

definition w_nat_sys :: nat_sys where
  "w_nat_sys = \<lparr>base_sys = w_nat_os, meta_calloc_ok = True, modify_pdn_ok = (\<lambda>_. True), clock_vote_ok = True\<rparr>"

definition w_nat_rule :: ipa_nat_ipv4_rule where
  "w_nat_rule = \<lparr>cr_target_ip = 0x08080808, cr_private_ip = 0xC0A80002, cr_target_port = 443, cr_private_port = 5000,
     cr_public_port = 6000, cr_protocol = 6, cr_pdn_index = 0, cr_redirect = 1, cr_enable = 0, cr_time_stamp = 0,
     cr_uc_activation_index = 3, cr_s = False, cr_ucp = False, cr_dst_only = False, cr_src_only = False\<rparr>"

definition w_pdn :: "u32 \<Rightarrow> ipa_nat_pdn_entry" where
  "w_pdn ip = \<lparr>public_ip = ip, src_metadata = 1, dst_metadata = 2\<rparr>"

definition w_nat_table :: nat_lib where
  "w_nat_table = snd (ipa_NATI_add_ipv4_tbl w_nat_hdr w_nat_sys IPA_NAT_MEM_IN_DDR 0x0A000001 2 (nat_start w_nat_hdr))"

lemma w_nat_reachable: "nat_reachable w_nat_hdr engine w_nat_table"
  unfolding w_nat_table_def by (rule nat_reachable.add_tbl [OF nat_reachable.start]) (rule prod.collapse [symmetric])

lemma engine_keeps_simple: "engine_keeps nat_simple_engine"
  by (auto simp: engine_keeps_def nat_simple_engine_def Let_def)


theorem ipa_nati_alloc_pdn_correct_witness:
  "fst (ipa_nati_alloc_pdn w_nat_hdr w_nat_sys (w_pdn 7) w_nat_table) = Inr 1 \<and>
   ipa_nati_dealloc_pdn w_nat_sys 1 (snd (ipa_nati_alloc_pdn w_nat_hdr w_nat_sys (w_pdn 7) w_nat_table)) = (Inr (), w_nat_table)"
proof -
  let ?r = "ipa_nati_alloc_pdn w_nat_hdr w_nat_sys (w_pdn 7) w_nat_table"
  have f: "fst ?r = Inr 1" by code_simp
  then have r: "?r = (Inr 1, snd ?r)" by (cases ?r) simp
  have n: "num_pdns (snd ?r) = 2" "num_pdns w_nat_table = 1" by code_simp+
  have len: "length (pdns w_nat_table) = hdr_IPA_MAX_PDN_NUM w_nat_hdr" by code_simp
  have h: "hdr_IPA_MAX_PDN_NUM w_nat_hdr \<le> 256" "public_ip (w_pdn 7) \<noteq> 0" by (simp_all add: w_nat_hdr_def w_pdn_def)
  have m: "modify_pdn_ok w_nat_sys e" for e by (simp add: w_nat_sys_def)
  have ne: "snd ?r \<noteq> w_nat_table" using n by auto
  have "0 \<le> num_pdns w_nat_table" using n by simp
  from ipa_nati_alloc_pdn_correct [OF len h(1,2) this r] m ne f show ?thesis by blast
qed

definition w_nt :: ipa_nat_ip4_table_cache where
  "w_nt = ip4_tbl (ipv4_nat_cache w_nat_table IPA_NAT_MEM_IN_DDR) ! 0"

lemma w_nt_ok: "sizes_ok (table w_nt)"
proof -
  have "nat_inv w_nat_hdr w_nat_table" by (rule nat_reachable_inv [OF engine_keeps_simple w_nat_reachable])
  moreover have "nt_valid w_nt" unfolding nt_valid_def by code_simp
  ultimately show ?thesis
    using nat_inv_cache [of w_nat_hdr w_nat_table IPA_NAT_MEM_IN_DDR] by (auto simp: w_nt_def cache_ok_def nt_ok_def Let_def)
qed

theorem ipa_nat_slots_in_table_witness:
  "sizes_ok (table w_nt) \<and>
   fst (rule_slot w_nat_hdr 21 (pdns w_nat_table, w_nat_rule) (table_entries (table w_nt) - 1) 69) \<in> base_slots (table w_nt)"
  using ipa_nat_slots_in_table [OF w_nt_ok, of w_nat_hdr 21 "(pdns w_nat_table, w_nat_rule)" 69] w_nt_ok by blast

theorem ipa_nat_commands_fit_witness:
  "\<exists>hdl cmd t'. ipa_table_add_entry (table w_nt) (pdns w_nat_table, w_nat_rule) 1 [] = Some (Inr (1, hdl), cmd, t') \<and>
     (\<exists>ret cmd' x'. ipa_table_add_entry (index_table w_nt) 1 1 cmd = Some (ret, cmd', x') \<and> length cmd' \<le> MAX_DMA_ENTRIES_FOR_ADD)"
proof -
  let ?a = "ipa_table_add_entry (table w_nt) (pdns w_nat_table, w_nat_rule) 1 []"
  let ?b = "ipa_table_add_entry (index_table w_nt) 1 1 (fst (snd (the ?a)))"
  have s: "?a \<noteq> None" and r: "fst (the ?a) = Inr (1, 2)" by code_simp+
  obtain cmd t' where a: "?a = Some (Inr (1, 2), cmd, t')"
    using s r by (cases ?a; cases "the ?a") auto
  have "?b \<noteq> None" by code_simp
  then obtain ret cmd' x' where b: "ipa_table_add_entry (index_table w_nt) 1 1 cmd = Some (ret, cmd', x')" using a by auto
  show ?thesis
    using ipa_nat_commands_fit [of "table w_nt" "(pdns w_nat_table, w_nat_rule)" 1 1 2 cmd t' "index_table w_nt" 1 ret cmd' x'] a b
    by auto
qed

section \<open>Where the addresses go wrong\<close>

text \<open>The search for a free entry stops at the first one, before the address has been looked for in the
  rest of the array: when an entry before it was freed, an address that is allocated already is
  allocated a second time and counted twice.\<close>

theorem ipa_nati_alloc_pdn_duplicates:
  "let alloc = (\<lambda>ip s. snd (ipa_nati_alloc_pdn w_nat_hdr w_nat_sys (w_pdn ip) s));
       s = snd (ipa_nati_dealloc_pdn w_nat_sys 1 (alloc 8 (alloc 7 w_nat_table)))
   in public_ip (pdns s ! 2) = 8 \<and> fst (ipa_nati_alloc_pdn w_nat_hdr w_nat_sys (w_pdn 8) s) = Inr 1 \<and>
      public_ip (pdns (alloc 8 s) ! 1) = 8 \<and> public_ip (pdns (alloc 8 s) ! 2) = 8 \<and> num_pdns (alloc 8 s) = 3"
  by code_simp

text \<open>The checks of the public interface let the index through that is one past the array.\<close>

lemma ipa_nat_pdn_past_end:
  assumes len: "length (pdns s) = hdr_IPA_MAX_PDN_NUM hdr" "hdr_IPA_MAX_PDN_NUM hdr < 256"
  shows "num_pdns s \<noteq> 0 \<Longrightarrow> ipa_nat_dealloc_pdn hdr os (of_nat (hdr_IPA_MAX_PDN_NUM hdr)) s = (Inl CRASH, s)"
    "VALID_TBL_HDL h \<Longrightarrow> nc_ipa_desc (modify_cache s) \<noteq> None \<Longrightarrow>
      modify_pdn_ok os \<lparr>pdn_index = of_nat (hdr_IPA_MAX_PDN_NUM hdr), pdn_entry = p\<rparr> \<Longrightarrow>
      ipa_nat_modify_pdn hdr os h (of_nat (hdr_IPA_MAX_PDN_NUM hdr)) (Some p) s = (Inl CRASH, s)"
proof -
  have u: "unat (of_nat (hdr_IPA_MAX_PDN_NUM hdr) :: u8) = hdr_IPA_MAX_PDN_NUM hdr"
    using len(2) by (simp add: unsigned_of_nat take_bit_nat_eq_self)
  show "num_pdns s \<noteq> 0 \<Longrightarrow> ipa_nat_dealloc_pdn hdr os (of_nat (hdr_IPA_MAX_PDN_NUM hdr)) s = (Inl CRASH, s)"
    using len u by (simp add: ipa_nat_dealloc_pdn_def ipa_nati_dealloc_pdn_def)
  show "VALID_TBL_HDL h \<Longrightarrow> nc_ipa_desc (modify_cache s) \<noteq> None \<Longrightarrow>
      modify_pdn_ok os \<lparr>pdn_index = of_nat (hdr_IPA_MAX_PDN_NUM hdr), pdn_entry = p\<rparr> \<Longrightarrow>
      ipa_nat_modify_pdn hdr os h (of_nat (hdr_IPA_MAX_PDN_NUM hdr)) (Some p) s = (Inl CRASH, s)"
    using len u by (simp add: ipa_nat_modify_pdn_def ipa_nati_modify_pdn_def Let_def)
qed

text \<open>A table in the other memory starts the count anew but leaves the entries.\<close>

lemma ipa_NATI_add_ipv4_tbl_miscounts:
  "let s = snd (ipa_nati_alloc_pdn w_nat_hdr w_nat_sys (w_pdn 7) w_nat_table);
       s' = snd (ipa_NATI_add_ipv4_tbl w_nat_hdr w_nat_sys IPA_NAT_MEM_IN_SRAM 0x0A000001 2 s)
   in num_pdns s = 2 \<and> num_pdns s' = 1 \<and> public_ip (pdns s' ! 0) \<noteq> 0 \<and> public_ip (pdns s' ! 1) = 7"
  by code_simp

end
