(* ===== verification/IPA_NAT_SM_Rules.thy ===== *)
theory IPA_NAT_SM_Rules
  imports IPA_NAT_SM IPA_NAT_Pdn
begin

text \<open>
  What the state machine of the NAT client satisfies (\<open>ipa_nat_statemach.c\<close>): the depth of its calls of itself,
  the invariant of its maps of handles in all reachable states, that a move between the memories
  keeps every rule under its original handle, and what is lost because its result is
  overwritten.
\<close>

section \<open>The depth of the calls\<close>

lemma next_call_simps [simp]:
  "nati_obj (next_call s) = nati_obj s" "map_array (next_call s) = map_array s" "lib (next_call s) = lib s"
  "nat_mutex_init (next_call s) = nat_mutex_init s" "out_val (next_call s) = out_val s"
  by (simp_all add: next_call_def)

lemma low_obj: "low env f s = (r, s') \<Longrightarrow> nati_obj s' = nati_obj s \<and> map_array s' = map_array s \<and> out_val s' = out_val s"
  by (auto simp: low_def split: prod.splits)

lemma take_mutex_obj:
  "take_mutex env s = (r, s') \<Longrightarrow>
   nati_obj s' = nati_obj s \<and> map_array s' = map_array s \<and> lib s' = lib s \<and> out_val s' = out_val s \<and> (is_ok r \<longrightarrow> nat_mutex_init s')"
  by (auto simp: take_mutex_def split: if_splits)

lemma vote_obj: "ipa_nat_vote_clock hdr env s = (r, s') \<Longrightarrow> nati_obj s' = nati_obj s \<and> map_array s' = map_array s \<and> out_val s' = out_val s"
  by (auto simp: ipa_nat_vote_clock_def dest: low_obj)

lemma add_rule_low_obj:
  "add_rule_low hdr engine env h rule s = Some (r, s') \<Longrightarrow> nati_obj s' = nati_obj s \<and> map_array s' = map_array s \<and> out_val s' = out_val s"
  by (auto simp: add_rule_low_def)

lemma set_count_simps [simp]:
  "curr_state (nati_obj (set_count mem n s)) = curr_state (nati_obj s)" "map_array (set_count mem n s) = map_array s"
  "lib (set_count mem n s) = lib s" "out_val (set_count mem n s) = out_val s" "map_pairs (nati_obj (set_count mem n s)) = map_pairs (nati_obj s)"
  "prev_state (nati_obj (set_count mem n s)) = prev_state (nati_obj s)" "hold_state (nati_obj (set_count mem n s)) = hold_state (nati_obj s)"
  "state_to_hold (nati_obj (set_count mem n s)) = state_to_hold (nati_obj s)" "nat_mutex_init (set_count mem n s) = nat_mutex_init s"
  by (simp_all add: set_count_def)

lemma smAddRuleToTbl_state:
  "smAddRuleToTbl hdr engine env h rule s = Some (r, s') \<Longrightarrow> curr_state (nati_obj s') = curr_state (nati_obj s)"
  by (cases "add_rule_low hdr engine env h (rule\<lparr>cr_redirect := 0, cr_enable := 0, cr_time_stamp := 0\<rparr>) s")
    (auto simp: smAddRuleToTbl_def dest!: add_rule_low_obj split: sum.splits)

lemma bind_cong2:
  "m = m' \<Longrightarrow> (\<And>r s. m' = Some (r, s) \<Longrightarrow> f r s = g r s) \<Longrightarrow>
   Option.bind m (\<lambda>(r, s). f r s) = Option.bind m' (\<lambda>(r, s). g r s)"
  by (cases m') auto

text \<open>An action uses the machine only for the triggers below, in the states below.\<close>

definition agree :: "sm_run \<Rightarrow> sm_run \<Rightarrow> ipa_nati_state \<Rightarrow> ipa_nati_trigger \<Rightarrow> bool" where
  "agree run run' st t \<longleftrightarrow>
     (case t of
        NATI_TRIG_ADD_TABLE _ _ _ \<Rightarrow>
          (st = NATI_STATE_NULL \<longrightarrow>
             (\<forall>ip n m s. curr_state (nati_obj s) \<noteq> NATI_STATE_NULL \<longrightarrow>
                run (NATI_TRIG_ADD_TABLE ip n m) s = run' (NATI_TRIG_ADD_TABLE ip n m) s)) \<and>
          (st \<noteq> NATI_STATE_NULL \<longrightarrow> (\<forall>s. run NATI_TRIG_GOTO_SRAM s = run' NATI_TRIG_GOTO_SRAM s))
      | NATI_TRIG_ADD_RULE _ _ \<Rightarrow>
          st = NATI_STATE_HYBRID \<longrightarrow>
            (\<forall>s. run NATI_TRIG_TBL_SWITCH s = run' NATI_TRIG_TBL_SWITCH s) \<and>
            (\<forall>h r s. curr_state (nati_obj s) \<noteq> NATI_STATE_HYBRID \<longrightarrow> run (NATI_TRIG_ADD_RULE h r) s = run' (NATI_TRIG_ADD_RULE h r) s)
      | NATI_TRIG_DEL_RULE _ _ \<Rightarrow> \<forall>s. run NATI_TRIG_TBL_SWITCH s = run' NATI_TRIG_TBL_SWITCH s
      | NATI_TRIG_TBL_SWITCH \<Rightarrow>
          \<forall>s. run NATI_TRIG_GOTO_SRAM s = run' NATI_TRIG_GOTO_SRAM s \<and> run NATI_TRIG_GOTO_DDR s = run' NATI_TRIG_GOTO_DDR s
      | _ \<Rightarrow> True)"

lemma smAddRuleHybrid_cong:
  assumes "agree run run' (curr_state (nati_obj s)) (NATI_TRIG_ADD_RULE h rule)"
  shows "smAddRuleHybrid hdr engine env run h rule s = smAddRuleHybrid hdr engine env run' h rule s"
  using assms unfolding smAddRuleHybrid_def agree_def
  by (intro bind_cong2) (auto simp: SET_NATIOBJ_STATE_def dest: smAddRuleToTbl_state intro!: bind_cong2)

lemma smFirstTbl_cong:
  assumes "agree run run' NATI_STATE_NULL (NATI_TRIG_ADD_TABLE ip n m)"
  shows "smFirstTbl run ip n m s = smFirstTbl run' ip n m s"
proof -
  have "mem_type_str_to_ipa_nati_state m \<noteq> NATI_STATE_NULL"
    by (auto simp: mem_type_str_to_ipa_nati_state_def split: option.splits)
  then show ?thesis using assms by (auto simp: smFirstTbl_def agree_def Let_def SET_NATIOBJ_STATE_def)
qed

lemma state_mach_tbl_cong:
  assumes "agree run run' (curr_state (nati_obj s)) t"
  shows "state_mach_tbl hdr engine env run (curr_state (nati_obj s)) t s =
    state_mach_tbl hdr engine env run' (curr_state (nati_obj s)) t s"
  using assms
  by (cases t; cases "curr_state (nati_obj s)")
    (auto simp: state_mach_tbl_def smFirstTbl_cong [where run' = run'] smAddRuleHybrid_cong [where run' = run'],
     auto simp: agree_def smAddSramAndDdrTbl_def smDelRuleHybrid_def smSwitchFromDdrToSram_def smSwitchFromSramToDdr_def
        smSwitch_def Let_def cong: if_cong sum.case_cong prod.case_cong)

lemma state_mach_tbl_cong2:
  "agree run run' (curr_state (nati_obj s)) t \<Longrightarrow> nati_obj x = nati_obj s \<Longrightarrow>
   state_mach_tbl hdr engine env run (curr_state (nati_obj s)) t x = state_mach_tbl hdr engine env run' (curr_state (nati_obj s)) t x"
  using state_mach_tbl_cong [of run run' x t hdr engine env] by simp

lemma statemach_body_cong:
  assumes "agree run run' (curr_state (nati_obj s)) t"
  shows "statemach_body hdr engine env run t s = statemach_body hdr engine env run' t s"
  using assms
  by (auto simp: statemach_body_def Let_def state_mach_tbl_cong2 [where run' = run'] split: prod.splits dest!: take_mutex_obj vote_obj)

text \<open>The levels that a trigger needs.\<close>

definition levels :: "ipa_nati_state \<Rightarrow> ipa_nati_trigger \<Rightarrow> nat" where
  "levels st t =
     (case t of
        NATI_TRIG_ADD_TABLE _ _ _ \<Rightarrow> if st = NATI_STATE_NULL then 3 else 2
      | NATI_TRIG_ADD_RULE _ _ \<Rightarrow> if st = NATI_STATE_HYBRID then 3 else 1
      | NATI_TRIG_DEL_RULE _ _ \<Rightarrow> 3
      | NATI_TRIG_TBL_SWITCH \<Rightarrow> 2
      | _ \<Rightarrow> 1)"

lemma statemach_depth_levels:
  "levels (curr_state (nati_obj s)) t \<le> m \<Longrightarrow> levels (curr_state (nati_obj s)) t \<le> n \<Longrightarrow>
   statemach_depth hdr engine env m t s = statemach_depth hdr engine env n t s"
proof (induction m arbitrary: n t s)
  case 0
  then show ?case by (cases t) (auto simp: levels_def split: if_splits)
next
  case (Suc m)
  obtain n' where n: "n = Suc n'"
    using Suc.prems(2) by (cases n; cases t) (auto simp: levels_def split: if_splits)
  have IH: "statemach_depth hdr engine env m t' s' = statemach_depth hdr engine env n' t' s'"
    if "Suc (levels (curr_state (nati_obj s')) t') \<le> levels (curr_state (nati_obj s)) t" for t' s'
    using Suc.IH [of s' t' n'] that Suc.prems n by linarith
  have "agree (statemach_depth hdr engine env m) (statemach_depth hdr engine env n') (curr_state (nati_obj s)) t"
    using IH by (cases t) (auto simp: agree_def levels_def)
  then show ?case by (simp add: n statemach_body_cong)
qed

lemma levels_le: "levels st t \<le> 3"
  by (cases t) (auto simp: levels_def)

lemma statemach_unfold:
  "ipa_nati_statemach hdr engine env t s = statemach_body hdr engine env (ipa_nati_statemach hdr engine env) t s"
proof -
  have "ipa_nati_statemach hdr engine env = statemach_depth hdr engine env 3" by (simp add: ipa_nati_statemach_def fun_eq_iff)
  moreover have "statemach_depth hdr engine env 3 t s = statemach_depth hdr engine env (Suc 3) t s"
    using levels_le [of "curr_state (nati_obj s)" t] by (intro statemach_depth_levels) simp_all
  ultimately show ?thesis by (simp only: statemach_depth.simps)
qed

text \<open>C38. The machine runs itself at most three levels deep: a larger bound on the depth changes nothing, in any
  state and for any trigger, and the function is the fixed point of its body, as the recursive function of
  the code is.\<close>

theorem ipa_nati_statemach_terminates:
  "statemach_depth hdr engine env (3 + n) t s = ipa_nati_statemach hdr engine env t s \<and>
   ipa_nati_statemach hdr engine env t s = statemach_body hdr engine env (ipa_nati_statemach hdr engine env) t s"
  using statemach_unfold levels_le [of "curr_state (nati_obj s)" t]
    statemach_depth_levels [of s t "3 + n" 3 hdr engine env]
  by (metis ipa_nati_statemach_def le_add1 order_trans)

section \<open>What all actions keep\<close>

text \<open>One step of a walk: whether the callback is called for a slot, and the call.\<close>

definition walk_size :: "('e, 'm, 'u) ipa_table \<Rightarrow> nat" where
  "walk_size t = unat (table_entries t) + unat (expn_table_entries t)"

definition filled :: "('e, 'm, 'u) ipa_table \<Rightarrow> nat \<Rightarrow> bool" where
  "filled t i \<longleftrightarrow> entry_is_valid (entry_interface t) (rec_at t (of_nat i))"

definition handle_at :: "('e, 'm, 'u) ipa_table \<Rightarrow> nat \<Rightarrow> u32" where
  "handle_at t i = ucast (MakeEntryHdl t (of_nat i))"

definition cb_at :: "('e, 'm, 'u) ipa_table \<Rightarrow> ('e, 'm, 'u, 'a) ipa_table_walk_cb \<Rightarrow> nat \<Rightarrow> 'a \<Rightarrow> int \<times> 'a" where
  "cb_at t cb i arb =
     cb t (handle_at t i) (of_nat i)
       (if table_entries t \<le> of_nat i \<and> meta t \<noteq> None then Some (of_nat i - table_entries t) else None) arb"

lemma walk_loop_step:
  "walk_loop t WHEN_SLOT_FILLED cb arb i =
     (if walk_size t \<le> i then (0, arb)
      else if \<not> filled t i then walk_loop t WHEN_SLOT_FILLED cb arb (Suc i)
      else if fst (cb_at t cb i arb) \<noteq> 0 then cb_at t cb i arb
      else walk_loop t WHEN_SLOT_FILLED cb (snd (cb_at t cb i arb)) (Suc i))"
  by (subst walk_loop.simps) (simp add: walk_size_def filled_def cb_at_def handle_at_def Let_def case_prod_beta not_le)

lemma walk_loop_keeps:
  assumes "\<And>rh i m arb. Q arb \<Longrightarrow> Q (snd (cb t rh i m arb))" "Q arb"
  shows "Q (snd (walk_loop t WHEN_SLOT_FILLED cb arb i))"
  using assms(2)
proof (induction "walk_size t - i" arbitrary: i arb)
  case 0
  then show ?case by (simp add: walk_loop_step)
next
  case (Suc n)
  have "n = walk_size t - Suc i" using Suc.hyps(2) by linarith
  moreover have "Q (snd (cb_at t cb i arb))" unfolding cb_at_def by (rule assms(1) [OF Suc.prems])
  ultimately show ?case using Suc.hyps(1) Suc.prems by (subst walk_loop_step) simp
qed

text \<open>The steps on the object: the maps keep their numbers and the states stay those of the enumeration that
  stand for one.\<close>

definition obj_ok :: "ipa_nati_obj \<Rightarrow> bool" where
  "obj_ok ob \<longleftrightarrow> map_pairs ob = map_pairs nati_obj_start \<and> curr_state ob \<noteq> NATI_STATE_LAST \<and>
     state_to_hold ob \<in> {NATI_STATE_NULL, NATI_STATE_DDR_ONLY, NATI_STATE_SRAM_ONLY}"

locale sm_invariant =
  fixes hdr :: nat_header and engine :: nat_engine and P :: "nat_sm \<Rightarrow> bool"
  assumes P_call: "P s \<Longrightarrow> P (next_call s)"
    and P_mutex: "P s \<Longrightarrow> P (s\<lparr>nat_mutex_init := True\<rparr>)"
    and P_out: "P s \<Longrightarrow> P (s\<lparr>out_val := v\<rparr>)"
    and P_lib: "P s \<Longrightarrow> (nat_reachable hdr engine (lib s) \<Longrightarrow> nat_reachable hdr engine l) \<Longrightarrow> P (s\<lparr>lib := l\<rparr>)"
    and P_obj: "P s \<Longrightarrow> (obj_ok (nati_obj s) \<Longrightarrow> obj_ok ob) \<Longrightarrow> map_pairs ob = map_pairs (nati_obj s) \<Longrightarrow> P (s\<lparr>nati_obj := ob\<rparr>)"
    and P_add: "P s \<Longrightarrow> P (snd (add_new_handle mem a b s))"
    and P_clear: "P s \<Longrightarrow> P (clear_maps mem s)"
    and P_del: "P s \<Longrightarrow> map_array s (o2n mem s) a = Some b \<Longrightarrow>
      P (s\<lparr>map_array := snd (ipa_nat_map_del (n2o mem s) b (snd (ipa_nat_map_del (o2n mem s) a (map_array s))))\<rparr>)"
begin

lemma P_low:
  assumes "low env f s = (r, s')" "P s" "\<And>os l. nat_reachable hdr engine l \<Longrightarrow> nat_reachable hdr engine (snd (f os l))"
  shows "P s'"
proof -
  have "P ((next_call s)\<lparr>lib := snd (f (sys_now env s) (lib s))\<rparr>)" using assms(3) by (intro P_lib P_call assms(2)) simp
  then show ?thesis using assms(1) by (simp add: low_def case_prod_beta Let_def)
qed

lemma P_vote: "P s \<Longrightarrow> ipa_nat_vote_clock hdr env s = (r, s') \<Longrightarrow> P s'"
  unfolding ipa_nat_vote_clock_def by (erule P_low) (auto intro: nat_reachable.vote_clock [OF _ prod.collapse [symmetric]])

lemma P_take: "P s \<Longrightarrow> take_mutex env s = (r, s') \<Longrightarrow> P s'"
  by (auto simp: take_mutex_def intro: P_call P_mutex split: if_splits)

lemma P_give: "P s \<Longrightarrow> give_mutex env s = (r, s') \<Longrightarrow> P s'"
  by (auto simp: give_mutex_def intro: P_call)

lemma P_add_rule_low: "P s \<Longrightarrow> add_rule_low hdr engine env h rule s = Some (r, s') \<Longrightarrow> P s'"
  by (auto simp: add_rule_low_def intro!: P_lib [OF P_call] intro: nat_reachable.add_rule)

lemma P_count: "P s \<Longrightarrow> P (set_count mem n s)"
  unfolding set_count_def by (rule P_obj) (auto simp: obj_ok_def)

lemma P_state: "P s \<Longrightarrow> st \<noteq> NATI_STATE_LAST \<Longrightarrow> P (SET_NATIOBJ_STATE st s)"
  unfolding SET_NATIOBJ_STATE_def by (rule P_obj) (auto simp: obj_ok_def)

lemma P_unstarted: "P s \<Longrightarrow> P (s\<lparr>nati_obj := BACK2_UNSTARTED_STATE (nati_obj s)\<rparr>)"
  by (rule P_obj) (auto simp: obj_ok_def BACK2_UNSTARTED_STATE_def)

lemma P_tbl_hdl: "P s \<Longrightarrow> add_ipv4_tbl_hdl hdr env mem ip n s = (r, s') \<Longrightarrow> P s'"
  unfolding add_ipv4_tbl_hdl_def
  by (erule P_low) (auto simp: Let_def split: prod.splits intro: nat_reachable.add_tbl)

lemma P_del_tbl: "P s \<Longrightarrow> smDelTbl env h s = (r, s') \<Longrightarrow> P s'"
  unfolding smDelTbl_def
  by (auto split: prod.splits if_splits intro!: P_unstarted elim!: P_low intro: nat_reachable.del_tbl [OF _ prod.collapse [symmetric]])

lemma P_migrate:
  assumes "pred_option P arb"
  shows "pred_option P (snd (migrate_rule hdr engine env h t rh i m arb))"
proof (cases arb)
  case None
  then show ?thesis by (simp add: migrate_rule_def)
next
  case (Some s)
  then show ?thesis
    using assms P_add_rule_low [of s env h] P_add [OF P_count]
    by (auto simp: migrate_rule_def Let_def split: sum.splits option.splits prod.splits) (metis snd_conv)+
qed

lemma P_copy:
  assumes "ipa_nati_copy_ipv4_tbl env a b (migrate_rule hdr engine env) s = Some (r, s')" "P s"
  shows "P s'"
proof -
  let ?s1 = "next_call s"
  obtain r1 s2 where low: "low env (\<lambda>os. ipa_NATI_clear_ipv4_tbl (base_sys os) b) ?s1 = (r1, s2)" by fastforce
  have s2: "P s2" using low P_call [OF assms(2)]
    by (erule_tac P_low) (auto intro: nat_reachable.clear [OF _ prod.collapse [symmetric]])
  have "pred_option P (snd (walk_loop t WHEN_SLOT_FILLED (migrate_rule hdr engine env b) (Some (next_call s2)) 0))" for t
    by (rule walk_loop_keeps [where Q = "pred_option P"]) (auto intro: P_migrate P_call s2)
  then have "pred_option P (snd (ipa_NATI_walk_ipv4_tbl os a (migrate_rule hdr engine env b) (lib s2) (Some (next_call s2))))" for os
    using P_call [OF s2]
    by (simp add: ipa_NATI_walk_ipv4_tbl_def ipa_table_walk_def Let_def case_prod_beta split: option.split)
  from this [of "base_sys (sys_now env s2)"] show ?thesis using assms P_call low s2
    by (auto simp: ipa_nati_copy_ipv4_tbl_def Let_def case_prod_beta split: if_splits sum.splits option.splits)
qed

lemma P_add_ddr: "smAddDdrTbl hdr env ip n s = (r, s') \<Longrightarrow> P s \<Longrightarrow> P s'"
  by (auto simp: smAddDdrTbl_def Let_def obj_ok_def dest!: P_tbl_hdl [rotated] intro!: P_obj P_out split: prod.splits if_splits)

lemma P_add_sram:
  assumes "smAddSramTbl hdr env ip s = Some (r, s')" "P s"
  shows "P s'"
proof -
  obtain r1 s1 where low: "low env (\<lambda>os. ipa_nati_get_sram_size hdr (base_sys os)) s = (r1, s1)" by fastforce
  have s1: "P s1" using low assms(2)
    by (erule_tac P_low) (auto intro: nat_reachable.sram_size [OF _ prod.collapse [symmetric]])
  have s2: "P (s1\<lparr>nati_obj := (nati_obj s1)\<lparr>tot_slots_in_sram := x, back_to_sram_thresh := y\<rparr>\<rparr>)"
    "P (s1\<lparr>nati_obj := (nati_obj s1)\<lparr>tot_slots_in_sram := x\<rparr>\<rparr>)" for x y
    by (rule P_obj [OF s1]; simp add: obj_ok_def)+
  have hdl: "P (s3\<lparr>nati_obj := (nati_obj s3)\<lparr>sram_tbl_hdl := x\<rparr>\<rparr>)" if "P s3" for s3 x
    by (rule P_obj [OF that]) (auto simp: obj_ok_def)
  have add: "P (snd (ipa_nat_vote_clock hdr env (s3\<lparr>nati_obj := (nati_obj s3)\<lparr>sram_tbl_hdl := y\<rparr>\<rparr>)))"
    if "P s2" "s3 = snd (add_ipv4_tbl_hdl hdr env mem ip n s2)" for s2 n s3 y mem
    using P_vote [OF hdl [OF P_tbl_hdl [OF that(1) prod.collapse [symmetric]]] prod.collapse [symmetric]] that(2) by simp
  show ?thesis
  proof (cases r1)
    case (Inl e)
    then show ?thesis using assms(1) low s1 by (simp add: smAddSramTbl_def)
  next
    case (Inr size)
    then obtain ents where ents: "ipa_calc_num_sram_table_entries size 32 4 = Some ents"
      using assms(1) low by (auto simp: smAddSramTbl_def bind_eq_Some_conv)
    show ?thesis
    proof (cases ents)
      case (Inl e)
      then show ?thesis using assms(1) low s2 Inr ents by (auto simp: smAddSramTbl_def)
    next
      case n: (Inr n)
      obtain v s3 where v: "ipa_nat_vote_clock hdr env
          (s1\<lparr>nati_obj := (nati_obj s1)\<lparr>tot_slots_in_sram := ucast n, back_to_sram_thresh := ucast n div 4\<rparr>\<rparr>) = (v, s3)" by fastforce
      then have "P s3" by (rule P_vote [OF s2(1)])
      then show ?thesis using assms(1) low Inr ents n v add [OF _ refl]
        by (auto simp: smAddSramTbl_def Let_def case_prod_beta split: sum.splits if_splits intro: P_out)
    qed
  qed
qed

lemma P_add_rule: "smAddRuleToTbl hdr engine env h rule s = Some (r, s') \<Longrightarrow> P s \<Longrightarrow> P s'"
  by (cases "add_rule_low hdr engine env h (rule\<lparr>cr_redirect := 0, cr_enable := 0, cr_time_stamp := 0\<rparr>) s")
    (auto simp: smAddRuleToTbl_def dest!: P_add_rule_low [rotated] intro!: P_count P_out split: sum.splits)

lemma P_del_rule: "smDelRuleFromTbl hdr engine env h rh s = (r, s') \<Longrightarrow> P s \<Longrightarrow> P s'"
  unfolding smDelRuleFromTbl_def
  by (auto split: prod.splits if_splits intro!: P_count elim!: P_low
      intro: nat_reachable.del_rule [OF _ prod.collapse [symmetric]])

lemma P_clr: "smClrTbl env h s = (r, s') \<Longrightarrow> P s \<Longrightarrow> P s'"
  unfolding smClrTbl_def
  by (erule P_low) (auto intro: P_clear nat_reachable.clear [OF _ prod.collapse [symmetric]])

lemma P_goto: "smGoTo env h st s = (r, s') \<Longrightarrow> st \<noteq> NATI_STATE_LAST \<Longrightarrow> P s \<Longrightarrow> P s'"
  unfolding smGoTo_def
  by (auto split: prod.splits if_splits intro!: P_state elim!: P_low
      intro: nat_reachable.post_init [OF _ prod.collapse [symmetric]])

lemma P_del_both:
  assumes "smDelSramAndDdrTbl env h s = (r, s')" "P s"
  shows "P s'"
  using assms(1) P_clear [OF P_clear [OF assms(2)]]
  by (auto simp: smDelSramAndDdrTbl_def Let_def intro!: P_unstarted elim!: P_del_tbl [rotated] split: prod.splits if_splits)

lemma P_time_stamp: "smGetTmStmp env h rh s = (r, s') \<Longrightarrow> P s \<Longrightarrow> P s'"
  by (auto simp: smGetTmStmp_def intro: P_call P_out split: sum.splits)

lemma P_count_switch: "P s \<Longrightarrow> P (count_switch mem r s)"
  unfolding count_switch_def Let_def by (rule P_obj) (auto simp: obj_ok_def)

text \<open>The actions that run the machine again keep what the machine keeps.\<close>

lemma P_switch:
  assumes "smSwitch hdr engine env run goto dst src_hdl dst_hdl s = Some (r, s')" "P s"
    "\<And>t s r s'. run t s = Some (r, s') \<Longrightarrow> P s \<Longrightarrow> P s'"
  shows "P s'"
proof -
  obtain r1 s1 where s1: "run goto s = Some (r1, s1)" using assms(1) by (auto simp: smSwitch_def bind_eq_Some_conv Let_def)
  have P1: "P (clear_maps dst s1)" "P s1" using assms(3) [OF s1 assms(2)] P_clear by auto
  have P2: "P s2" if "ipa_nati_copy_ipv4_tbl env a b (migrate_rule hdr engine env) (clear_maps dst s1) = Some (r2, s2)" for a b r2 s2
    by (rule P_copy [OF that P1(1)])
  show ?thesis using assms(1) s1 P1(2) P2
    by (auto simp: smSwitch_def bind_eq_Some_conv Let_def split: if_splits intro: P_count_switch)
qed

lemma P_add_both:
  assumes "smAddSramAndDdrTbl hdr env run ip n s = Some (r, s')" "P s"
    "\<And>t s r s'. run t s = Some (r, s') \<Longrightarrow> P s \<Longrightarrow> P s'"
  shows "P s'"
  using assms(1) P_clear [OF P_clear [OF assms(2)]]
  by (auto simp: smAddSramAndDdrTbl_def bind_eq_Some_conv Let_def split: if_splits prod.splits
      intro!: P_state P_out dest!: P_add_sram intro: assms(3) elim!: P_add_ddr)

lemma P_add_hybrid:
  assumes "smAddRuleHybrid hdr engine env run h rule s = Some (r, s')" "P s"
    "\<And>t s r s'. run t s = Some (r, s') \<Longrightarrow> P s \<Longrightarrow> P s'"
  shows "P s'"
proof -
  obtain r1 s1 where s1: "smAddRuleToTbl hdr engine env (hybrid_tbl h s) rule s = Some (r1, s1)"
    using assms(1) by (auto simp: smAddRuleHybrid_def bind_eq_Some_conv)
  have P1: "P s1" by (rule P_add_rule [OF s1 assms(2)])
  have add: "P s2" if "add_new_handle mem a b s1 = (r2, s2)" for mem a b r2 s2 using P_add [OF P1, of mem a b] that by simp
  show ?thesis
    using assms(1) s1 P1
    by (auto simp: smAddRuleHybrid_def bind_eq_Some_conv split: if_splits intro: add assms(3) P_state)
qed

lemma P_del_hybrid:
  assumes "smDelRuleHybrid hdr engine env run h rh s = Some (r, s')" "P s"
    "\<And>t s r s'. run t s = Some (r, s') \<Longrightarrow> P s \<Longrightarrow> P s'"
  shows "P s'"
proof (cases "map_array s (o2n (CHOOSE_MEM_SUB s) s) rh")
  case None
  then show ?thesis using assms(1,2) by (simp add: smDelRuleHybrid_def ipa_nat_map_del_def)
next
  case (Some new)
  define s1 where "s1 = s\<lparr>map_array := snd (ipa_nat_map_del (n2o (CHOOSE_MEM_SUB s) s) new
    (snd (ipa_nat_map_del (o2n (CHOOSE_MEM_SUB s) s) rh (map_array s))))\<rparr>"
  have P1: "P s1" unfolding s1_def by (rule P_del [OF assms(2) Some])
  obtain r2 s2 where s2: "smDelRuleFromTbl hdr engine env (hybrid_tbl h s1) new s1 = (r2, s2)" by fastforce
  have P2: "P s2" by (rule P_del_rule [OF s2 P1])
  have eq: "ipa_nat_map_del (o2n (CHOOSE_MEM_SUB s) s) rh (map_array s) =
      (Inr new, snd (ipa_nat_map_del (o2n (CHOOSE_MEM_SUB s) s) rh (map_array s)))"
    using Some by (simp add: ipa_nat_map_del_def)
  show ?thesis
    using assms(1) s2 P2 unfolding smDelRuleHybrid_def Let_def
    by (subst (asm) eq) (auto simp: s1_def [symmetric] bind_eq_Some_conv split: if_splits intro: assms(3) P_state)
qed

lemma P_first:
  assumes "smFirstTbl run ip n m s = Some (r, s')" "P s" "\<And>t s r s'. run t s = Some (r, s') \<Longrightarrow> P s \<Longrightarrow> P s'"
  shows "P s'"
proof -
  have "mem_type_str_to_ipa_nati_state m \<noteq> NATI_STATE_LAST"
    by (auto simp: mem_type_str_to_ipa_nati_state_def split: option.splits)
  then have "P (SET_NATIOBJ_STATE (if hold_state (nati_obj s) \<and> state_to_hold (nati_obj s) \<noteq> NATI_STATE_NULL
      then state_to_hold (nati_obj s) else mem_type_str_to_ipa_nati_state m) s)"
    unfolding SET_NATIOBJ_STATE_def by (intro P_obj [OF assms(2)]) (auto simp: obj_ok_def)
  then show ?thesis using assms(1) by (auto simp: smFirstTbl_def Let_def intro: assms(3))
qed

lemma P_action:
  assumes "state_mach_tbl hdr engine env run st t s = Some (r, s')" "P s"
    "\<And>t s r s'. run t s = Some (r, s') \<Longrightarrow> P s \<Longrightarrow> P s'"
  shows "P s'"
  using assms(1,2)
  by (auto simp: state_mach_tbl_def smUndef_def smClrTblHybrid_def smGoToDdr_def smGoToSram_def
      smSwitchFromDdrToSram_def smSwitchFromSramToDdr_def smGetTmStmpHybrid_def
      split: ipa_nati_state.splits ipa_nati_trigger.splits sum.splits
      elim: P_add_ddr P_add_sram P_del_tbl [rotated] P_clr P_add_rule P_del_rule P_time_stamp P_del_both P_goto
        P_first [OF _ _ assms(3)] P_add_both [OF _ _ assms(3)] P_add_hybrid [OF _ _ assms(3)] P_del_hybrid [OF _ _ assms(3)]
        P_switch [OF _ _ assms(3)])

lemma P_body:
  assumes "statemach_body hdr engine env run t s = Some (r, s')" "P s"
    "\<And>t s r s'. run t s = Some (r, s') \<Longrightarrow> P s \<Longrightarrow> P s'"
  shows "P s'"
proof -
  obtain r1 s1 where s1: "take_mutex env s = (r1, s1)" by fastforce
  have P1: "P s1" by (rule P_take [OF assms(2) s1])
  define vote where "vote = VOTE_REQUIRED t (nati_obj s1)"
  obtain r2 s2 where s2: "(if vote then ipa_nat_vote_clock hdr env s1 else (Inr (), s1)) = (r2, s2)" by fastforce
  have P2: "P s2" using s2 P1 P_vote by (auto split: if_splits)
  have P3: "P s3" if "state_mach_tbl hdr engine env run (curr_state (nati_obj s2)) t s2 = Some (r3, s3)" for r3 s3
    by (rule P_action [OF that P2 assms(3)])
  show ?thesis
  proof (cases "is_ok r1 \<and> is_ok r2")
    case False
    then show ?thesis using assms(1) s1 s2 P1 P_give [OF P2, of env r s']
      by (auto simp: statemach_body_def vote_def [symmetric] split: if_splits)
  next
    case True
    then obtain r3 s3 where s3: "state_mach_tbl hdr engine env run (curr_state (nati_obj s2)) t s2 = Some (r3, s3)"
      and fin: "(if r3 = Inl CRASH then (r3, s3) else give_mutex env (if vote then snd (ipa_nat_vote_clock hdr env s3) else s3)) = (r, s')"
      using assms(1) s1 s2 by (auto simp: statemach_body_def vote_def [symmetric] bind_eq_Some_conv)
    then show ?thesis
      using P3 [OF s3] P_vote [OF P3 [OF s3] prod.collapse [symmetric]] by (auto split: if_splits elim!: P_give [rotated])
  qed
qed

lemma P_depth: "statemach_depth hdr engine env n t s = Some (r, s') \<Longrightarrow> P s \<Longrightarrow> P s'"
proof (induction n arbitrary: t s r s')
  case (Suc n)
  show ?case by (rule P_body [OF Suc.prems(1) [unfolded statemach_depth.simps] Suc.prems(2) Suc.IH])
qed simp

lemma P_statemach: "ipa_nati_statemach hdr engine env t s = Some (r, s') \<Longrightarrow> P s \<Longrightarrow> P s'"
  unfolding ipa_nati_statemach_def by (rule P_depth)

lemma P_switch_to:
  assumes "ipa_nat_switch_to hdr engine env mem hold s = Some (r, s')" "P s"
  shows "P s'"
proof -
  obtain r1 s1 where s1: "take_mutex env s = (r1, s1)" by fastforce
  have P1: "P s1" by (rule P_take [OF assms(2) s1])
  have hold: "P (s\<lparr>nati_obj := (nati_obj s)\<lparr>hold_state := b, state_to_hold := st\<rparr>\<rparr>)"
    if "P s" "st \<in> {NATI_STATE_NULL, NATI_STATE_DDR_ONLY, NATI_STATE_SRAM_ONLY, state_to_hold (nati_obj s), GEN_HOLD_STATE (nati_obj s)}" for b st s
    using that(2) by (intro P_obj [OF that(1)]; cases "curr_state (nati_obj s)") (auto simp: obj_ok_def GEN_HOLD_STATE_def IN_HYBRID_STATE_def)
  have give: "P s'" if "give_mutex env s2 = (r, s')" "P s2" for s2 by (rule P_give [OF that(2,1)])
  have gen: "P (s2\<lparr>nati_obj := (nati_obj s2)\<lparr>hold_state := b\<rparr>\<rparr>)" if "P s2" for s2 b
    using hold [OF that, of "state_to_hold (nati_obj s2)" b] by simp
  show ?thesis
  proof (cases "is_ok r1 \<and> \<not> IN_UNSTARTED_STATE (nati_obj s1) \<and> IN_HYBRID_STATE (nati_obj s1)")
    case False
    then show ?thesis
      using assms(1) s1 P1 hold [OF P1] gen [OF P1]
      by (auto simp: ipa_nat_switch_to_def Let_def split: if_splits elim!: give)
  next
    case True
    define go where "go = (if COMPATIBLE_NMI_4SWITCH mem (nati_obj s1) then ipa_nati_statemach hdr engine env NATI_TRIG_TBL_SWITCH s1 else Some (Inr (), s1))"
    obtain r2 s2 where s2: "go = Some (r2, s2)"
      using assms(1) s1 True by (auto simp: ipa_nat_switch_to_def go_def Let_def bind_eq_Some_conv split: if_splits)
    have P2: "P s2" using s2 P1 P_statemach by (auto simp: go_def split: if_splits)
    show ?thesis
      using assms(1) s1 True s2 P2 hold [OF P2] gen [OF P2]
      by (auto simp: ipa_nat_switch_to_def Let_def go_def [symmetric] split: if_splits elim!: give)
  qed
qed

end

section \<open>Errors are not reported\<close>

definition mutex_works :: "sm_env \<Rightarrow> bool" where
  "mutex_works env \<longleftrightarrow> (\<forall>n. mutex_init_ok (env n) \<and> lock_ok (base_sys (low_sys (env n))) \<and> unlock_ok (base_sys (low_sys (env n))))"

interpretation initialised: sm_invariant hdr engine nat_mutex_init
  by unfold_locales (auto simp: next_call_def add_new_handle_def clear_maps_def set_count_def Let_def split: sum.splits prod.splits)

lemma mutex_works_simps:
  assumes "mutex_works env"
  shows "take_mutex env s = (Inr (), (next_call s)\<lparr>nat_mutex_init := True\<rparr>)"
    "nat_mutex_init s \<Longrightarrow> give_mutex env s = (Inr (), next_call s)"
  using assms by (simp_all add: mutex_works_def take_mutex_def give_mutex_def sys_now_def)

text \<open>The machine's result, with a mutex that works.\<close>

lemma statemach_result:
  assumes "mutex_works env" "ipa_nati_statemach hdr engine env t s = Some (ret, s')"
  shows "ret = Inr () \<or> ret = Inl CRASH"
proof -
  let ?run = "ipa_nati_statemach hdr engine env"
  define s1 where "s1 = (next_call s)\<lparr>nat_mutex_init := True\<rparr>"
  define vote where "vote = VOTE_REQUIRED t (nati_obj s1)"
  obtain r2 s2 where s2: "(if vote then ipa_nat_vote_clock hdr env s1 else (Inr (), s1)) = (r2, s2)" by fastforce
  have i2: "nat_mutex_init s2" using s2 initialised.P_vote [of s1 hdr env] by (auto simp: s1_def split: if_splits)
  note run = assms(2) [unfolded statemach_unfold [of hdr engine env t s] statemach_body_def Let_def mutex_works_simps(1) [OF assms(1)]
    s1_def [symmetric] vote_def [symmetric] prod.case s2]
  show ?thesis
  proof (cases "is_ok r2")
    case False
    then show ?thesis using run i2 mutex_works_simps(2) [OF assms(1)] by auto
  next
    case True
    then obtain r3 s3 where s3: "state_mach_tbl hdr engine env ?run (curr_state (nati_obj s2)) t s2 = Some (r3, s3)"
      and fin: "(if r3 = Inl CRASH then (r3, s3) else give_mutex env (if vote then snd (ipa_nat_vote_clock hdr env s3) else s3)) = (ret, s')"
      using run by (auto simp: bind_eq_Some_conv)
    have "nat_mutex_init s3" by (rule initialised.P_action [OF s3 i2 initialised.P_statemach])
    then show ?thesis using fin initialised.P_vote [of s3 hdr env] mutex_works_simps(2) [OF assms(1)]
      by (cases "ipa_nat_vote_clock hdr env s3") (auto split: if_splits)
  qed
qed

lemma switch_to_result:
  assumes "mutex_works env" "ipa_nat_switch_to hdr engine env mem hold s = Some (ret, s')"
  shows "ret = Inr () \<or> ret = Inl CRASH"
proof -
  note [simp] = mutex_works_simps [OF assms(1)]
  have "nat_mutex_init s2" if "ipa_nati_statemach hdr engine env t ((next_call s)\<lparr>nat_mutex_init := True\<rparr>) = Some (r2, s2)" for t r2 s2
    by (rule initialised.P_statemach [OF that]) simp
  then show ?thesis
    using assms(2) by (auto simp: ipa_nat_switch_to_def Let_def bind_eq_Some_conv split: if_splits)
qed


section \<open>The invariant of the maps\<close>

text \<open>Every handle of a table that leads back to an original one is what the original one leads to.\<close>

definition leads_back :: "(u32 \<rightharpoonup> u32) \<Rightarrow> (u32 \<rightharpoonup> u32) \<Rightarrow> bool" where
  "leads_back new orig \<longleftrightarrow> (\<forall>a b. orig b = Some a \<longrightarrow> new a = Some b)"

definition maps_ok :: "nat_sm \<Rightarrow> bool" where
  "maps_ok s \<longleftrightarrow> (\<forall>mem. leads_back (map_array s (o2n mem s)) (map_array s (n2o mem s)))"

definition sm_inv :: "nat_header \<Rightarrow> nat_engine \<Rightarrow> nat_sm \<Rightarrow> bool" where
  "sm_inv hdr engine s \<longleftrightarrow> nat_reachable hdr engine (lib s) \<and> obj_ok (nati_obj s) \<and> maps_ok s"

lemma leads_back_add:
  "leads_back f g \<Longrightarrow> f a = None \<Longrightarrow> leads_back (f(a \<mapsto> b)) g"
  "leads_back f g \<Longrightarrow> f a = None \<Longrightarrow> leads_back (f(a \<mapsto> b)) (g(b \<mapsto> a))"
  by (auto simp: leads_back_def)

lemma leads_back_del:
  "leads_back f g \<Longrightarrow> f a = Some b \<Longrightarrow> leads_back (f(a := None)) (g(b := None))"
  "leads_back f g \<Longrightarrow> f a = Some b \<Longrightarrow> g b = None \<Longrightarrow> leads_back (f(a := None)) g"
  by (auto simp: leads_back_def)

lemma leads_back_empty [simp]: "leads_back f (\<lambda>_. None)"
  by (simp add: leads_back_def)

text \<open>The four maps are different ones.\<close>

lemma pair_numbers:
  assumes "map_pairs (nati_obj s) = map_pairs nati_obj_start"
  shows "o2n mem s \<noteq> n2o mem' s" "n2o mem' s \<noteq> o2n mem s" "o2n mem s = o2n mem' s \<longleftrightarrow> mem = mem'" "n2o mem s = n2o mem' s \<longleftrightarrow> mem = mem'"
  using assms by (simp_all add: o2n_def n2o_def nati_obj_start_def split: ipa3_nat_mem_in.split)

lemma maps_ok_update:
  assumes "map_pairs (nati_obj s) = map_pairs nati_obj_start" "maps_ok s" "nati_obj s' = nati_obj s"
    "map_array s' = (map_array s)(o2n mem s := f, n2o mem s := g)" "leads_back f g"
  shows "maps_ok s'"
  using assms(2-5) pair_numbers [OF assms(1)] by (auto simp: maps_ok_def o2n_def n2o_def)

interpretation machine: sm_invariant hdr engine "sm_inv hdr engine"
proof unfold_locales
  fix s mem a b
  assume s: "sm_inv hdr engine s"
  then have p: "map_pairs (nati_obj s) = map_pairs nati_obj_start" and ok: "maps_ok s" by (simp_all add: sm_inv_def obj_ok_def)
  let ?f = "map_array s (o2n mem s)" and ?g = "map_array s (n2o mem s)"
  have lb: "leads_back ?f ?g" using ok by (simp add: maps_ok_def)
  have ne [simp]: "o2n mem s \<noteq> n2o mem s" "n2o mem s \<noteq> o2n mem s" using pair_numbers [OF p] by metis+
  note upd = maps_ok_update [OF p ok, where mem = mem]
  have "maps_ok (snd (add_new_handle mem a b s))"
  proof (cases "?f a")
    case None
    show ?thesis
    proof (cases "?g b")
      case g: None
      show ?thesis
        by (rule upd [where f = "?f(a \<mapsto> b)" and g = "?g(b \<mapsto> a)"])
          (use None g leads_back_add [OF lb] in \<open>auto simp: add_new_handle_def ipa_nat_map_add_def\<close>)
    next
      case (Some x)
      show ?thesis
        by (rule upd [where f = "?f(a \<mapsto> b)" and g = ?g])
          (use None Some leads_back_add [OF lb] in \<open>auto simp: add_new_handle_def ipa_nat_map_add_def\<close>)
    qed
  next
    case (Some x)
    then show ?thesis using ok by (simp add: add_new_handle_def ipa_nat_map_add_def)
  qed
  then show "sm_inv hdr engine (snd (add_new_handle mem a b s))"
    using s by (auto simp: sm_inv_def add_new_handle_def split: sum.split prod.split)
  have "maps_ok (s\<lparr>map_array := map_array (clear_maps mem s)\<rparr>)"
    by (rule upd [where f = "\<lambda>_. None" and g = "\<lambda>_. None"])
      (auto simp: clear_maps_def set_count_def ipa_nat_map_clear_def o2n_def n2o_def Let_def)
  then show "sm_inv hdr engine (clear_maps mem s)"
    using s by (auto simp: sm_inv_def obj_ok_def maps_ok_def clear_maps_def set_count_def o2n_def n2o_def Let_def)
  show "sm_inv hdr engine (s\<lparr>map_array := snd (ipa_nat_map_del (n2o mem s) b (snd (ipa_nat_map_del (o2n mem s) a (map_array s))))\<rparr>)"
    if ab: "?f a = Some b"
  proof -
    have "maps_ok (s\<lparr>map_array := snd (ipa_nat_map_del (n2o mem s) b (snd (ipa_nat_map_del (o2n mem s) a (map_array s))))\<rparr>)"
    proof (cases "?g b")
      case None
      show ?thesis
        by (rule upd [where f = "?f(a := None)" and g = ?g])
          (use None ab leads_back_del [OF lb ab] in \<open>auto simp: ipa_nat_map_del_def\<close>)
    next
      case (Some x)
      show ?thesis
        by (rule upd [where f = "?f(a := None)" and g = "?g(b := None)"])
          (use Some ab leads_back_del [OF lb ab] in \<open>auto simp: ipa_nat_map_del_def\<close>)
    qed
    then show ?thesis using s by (simp add: sm_inv_def)
  qed
qed (auto simp: sm_inv_def maps_ok_def o2n_def n2o_def next_call_def)

text \<open>The states after any sequence of calls of the application, each with answers of the system of its own.\<close>

inductive sm_reachable :: "nat_header \<Rightarrow> nat_engine \<Rightarrow> nat_sm \<Rightarrow> bool" for hdr engine where
  start: "sm_reachable hdr engine (sm_start hdr)"
| trigger: "sm_reachable hdr engine s \<Longrightarrow> ipa_nati_statemach hdr engine env t (s\<lparr>out_val := v\<rparr>) = Some (ret, s') \<Longrightarrow>
    sm_reachable hdr engine s'"
| switch: "sm_reachable hdr engine s \<Longrightarrow> ipa_nat_switch_to hdr engine env mem hold s = Some (ret, s') \<Longrightarrow> sm_reachable hdr engine s'"
| vote: "sm_reachable hdr engine s \<Longrightarrow> ipa_nat_vote_clock hdr env s = (ret, s') \<Longrightarrow> sm_reachable hdr engine s'"
| modify_pdn: "sm_reachable hdr engine s \<Longrightarrow> ipa_nati_modify_pdn os e (lib s) = (ret, l) \<Longrightarrow> sm_reachable hdr engine (s\<lparr>lib := l\<rparr>)"
| alloc_pdn: "sm_reachable hdr engine s \<Longrightarrow> ipa_nati_alloc_pdn hdr os p (lib s) = (rn, l) \<Longrightarrow> sm_reachable hdr engine (s\<lparr>lib := l\<rparr>)"
| dealloc_pdn: "sm_reachable hdr engine s \<Longrightarrow> ipa_nati_dealloc_pdn os i (lib s) = (ret, l) \<Longrightarrow> sm_reachable hdr engine (s\<lparr>lib := l\<rparr>)"

lemma sm_reachable_inv: "sm_reachable hdr engine s \<Longrightarrow> sm_inv hdr engine s"
proof (induction rule: sm_reachable.induct)
  case start
  show ?case
    by (auto simp: sm_inv_def sm_start_def obj_ok_def maps_ok_def nati_obj_start_def leads_back_def intro: nat_reachable.start)
qed (auto intro: machine.P_statemach [OF _ machine.P_out] machine.P_switch_to machine.P_vote
  intro!: machine.P_lib intro: nat_reachable.intros)

text \<open>C10. After any sequence of calls of the public functions, the state machine has only brought the tables into
  states that the layer below reaches by calls of its own, which are all well formed; it is in one of
  its five states; and its maps are consistent: a handle of a table that leads back to an original
  handle is what that leads to, so that no two handles of a table stand for the same rule of the
  application.\<close>

theorem ipa_nat_statemach_reachable_ok:
  assumes "engine_keeps engine" "sm_reachable hdr engine s"
  shows "nat_reachable hdr engine (lib s) \<and> nat_inv hdr (lib s) \<and> curr_state (nati_obj s) \<noteq> NATI_STATE_LAST \<and>
    (\<forall>mem new orig. map_array s (n2o mem s) new = Some orig \<longrightarrow> map_array s (o2n mem s) orig = Some new) \<and>
    (\<forall>mem. inj_on (map_array s (n2o mem s)) (dom (map_array s (n2o mem s))))"
proof -
  have inv: "sm_inv hdr engine s" by (rule sm_reachable_inv [OF assms(2)])
  then have lb: "leads_back (map_array s (o2n mem s)) (map_array s (n2o mem s))" for mem by (simp add: sm_inv_def maps_ok_def)
  then have "inj_on (map_array s (n2o mem s)) (dom (map_array s (n2o mem s)))" for mem
    unfolding leads_back_def by (auto intro!: inj_onI) (metis option.inject)
  then show ?thesis
    using inv lb nat_reachable_inv [OF assms(1)] by (auto simp: sm_inv_def obj_ok_def leads_back_def)
qed

section \<open>Moving the rules\<close>

text \<open>The records of rules that are not deleted, and what a move gives for each of them: the original handle
  leads to a new one and that back, and the counter of the memory counts them.\<close>

definition live :: "nat_table \<Rightarrow> nat \<Rightarrow> bool" where
  "live t i \<longleftrightarrow> filled t i \<and> nr_protocol (rec_at t (of_nat i)) \<noteq> IPA_NAT_INVALID_PROTO_FIELD_VALUE_IN_RULE"

definition moved :: "ipa3_nat_mem_in \<Rightarrow> ipa3_nat_mem_in \<Rightarrow> nat_table \<Rightarrow> nat \<Rightarrow> nat_sm \<Rightarrow> nat_sm \<Rightarrow> bool" where
  "moved src dst t n s s' \<longleftrightarrow>
     map_pairs (nati_obj s') = map_pairs (nati_obj s) \<and>
     map_array s' (o2n src s) = map_array s (o2n src s) \<and> map_array s' (n2o src s) = map_array s (n2o src s) \<and>
     count_of dst s' = of_nat (length (filter (live t) [0..<n])) \<and>
     (\<forall>i<n. live t i \<longrightarrow>
       (\<exists>orig new. map_array s (n2o src s) (handle_at t i) = Some orig \<and>
          map_array s' (o2n dst s) orig = Some new \<and> map_array s' (n2o dst s) new = Some orig))"

lemma walk_loop_ok:
  assumes "\<And>i arb arb'. i < walk_size t \<Longrightarrow> Q i arb \<Longrightarrow> filled t i \<Longrightarrow> cb_at t cb i arb = (0, arb') \<Longrightarrow> Q (Suc i) arb'"
    and "\<And>i arb. i < walk_size t \<Longrightarrow> Q i arb \<Longrightarrow> \<not> filled t i \<Longrightarrow> Q (Suc i) arb"
    and "walk_loop t WHEN_SLOT_FILLED cb arb i = (0, arb')" "Q i arb" "i \<le> walk_size t"
  shows "Q (walk_size t) arb'"
  using assms(3-)
proof (induction "walk_size t - i" arbitrary: i arb)
  case 0
  then show ?case by (simp add: walk_loop_step [of t cb arb])
next
  case (Suc n)
  have i: "i < walk_size t" "n = walk_size t - Suc i" using Suc.hyps(2) by linarith+
  show ?case
  proof (cases "filled t i")
    case False
    then show ?thesis using Suc.prems i assms(2) [OF i(1)] walk_loop_step [of t cb arb i] by (intro Suc.hyps(1) [of "Suc i" arb]) auto
  next
    case True
    obtain r arb1 where cb: "cb_at t cb i arb = (r, arb1)" by fastforce
    have r: "r = 0" using Suc.prems(1) i True cb walk_loop_step [of t cb arb i] by (auto split: if_splits)
    then show ?thesis
      using Suc.prems i True cb walk_loop_step [of t cb arb i] assms(1) [OF i(1) Suc.prems(2) True]
      by (intro Suc.hyps(1) [of "Suc i" arb1]) auto
  qed
qed

lemma add_new_handle_ok:
  assumes "add_new_handle mem a b s = (Inr (), s')" "o2n mem s \<noteq> n2o mem s"
  shows "map_array s (o2n mem s) a = None" "map_array s (n2o mem s) b = None" "nati_obj s' = nati_obj s"
    "map_array s' = (map_array s)(o2n mem s := (map_array s (o2n mem s))(a \<mapsto> b), n2o mem s := (map_array s (n2o mem s))(b \<mapsto> a))"
  using assms by (auto simp: add_new_handle_def ipa_nat_map_add_def split: option.splits)

lemma migrate_rule_ok:
  assumes "migrate_rule hdr engine env h t rh i m (Some s) = (0, arb')" "nmi t = src" "dst \<noteq> src"
    "map_pairs (nati_obj s) = map_pairs nati_obj_start" "nr_protocol (rec_at t i) \<noteq> IPA_NAT_INVALID_PROTO_FIELD_VALUE_IN_RULE"
  obtains s' orig new where "arb' = Some s'" "map_array s (n2o src s) rh = Some orig"
    "map_array s (o2n dst s) orig = None" "map_array s (n2o dst s) new = None"
    "map_array s' = (map_array s)(o2n dst s := (map_array s (o2n dst s))(orig \<mapsto> new), n2o dst s := (map_array s (n2o dst s))(new \<mapsto> orig))"
    "map_pairs (nati_obj s') = map_pairs (nati_obj s)" "count_of dst s' = count_of dst s + 1"
proof -
  have dst: "(if nmi t = IPA_NAT_MEM_IN_SRAM then IPA_NAT_MEM_IN_DDR else IPA_NAT_MEM_IN_SRAM) = dst"
    using assms(2,3) by (cases dst; cases src) auto
  obtain orig where orig: "map_array s (n2o src s) rh = Some orig"
    using assms(1,2,5) by (cases "map_array s (n2o src s) rh") (auto simp: migrate_rule_def Let_def ipa_nat_map_find_def)
  obtain r1 s1 where s1: "add_rule_low hdr engine env h (v4_rule_of (rec_at t i)) s = Some (r1, s1)"
    using assms(1,2,5) orig
    by (cases "add_rule_low hdr engine env h (v4_rule_of (rec_at t i)) s") (auto simp: migrate_rule_def Let_def ipa_nat_map_find_def)
  obtain new where new: "r1 = Inr new"
    using assms(1,2,5) orig s1 by (cases r1) (auto simp: migrate_rule_def Let_def ipa_nat_map_find_def)
  let ?s2 = "set_count dst (count_of dst s1 + 1) s1"
  obtain r3 s3 where s3: "add_new_handle dst orig new ?s2 = (r3, s3)" by fastforce
  have fin: "is_ok r3" "arb' = Some s3"
    using assms(1,2,5) orig s1 new s3 dst by (auto simp: migrate_rule_def Let_def ipa_nat_map_find_def split: if_splits)
  have obj: "nati_obj s1 = nati_obj s" "map_array s1 = map_array s" using add_rule_low_obj [OF s1] by auto
  have same: "o2n dst ?s2 = o2n dst s" "n2o dst ?s2 = n2o dst s" using obj by (simp_all add: o2n_def n2o_def)
  have ne: "o2n dst ?s2 \<noteq> n2o dst ?s2" using pair_numbers(1) [OF assms(4)] same by simp
  have "r3 = Inr ()" using fin by (cases r3) auto
  note H = add_new_handle_ok [OF s3 [unfolded this] ne, unfolded same]
  show ?thesis
    by (rule that [OF fin(2) orig]) (use H obj in \<open>auto simp: count_of_def set_count_def\<close>)
qed

lemma migrate_walk:
  fixes t :: nat_table
  assumes walk: "walk_loop t WHEN_SLOT_FILLED (migrate_rule hdr engine env h) (Some s) 0 = (0, arb')"
    and t: "nmi t = src" "dst \<noteq> src" and p: "map_pairs (nati_obj s) = map_pairs nati_obj_start" and z: "count_of dst s = 0"
  shows "\<exists>s'. arb' = Some s' \<and> moved src dst t (walk_size t) s s'"
proof (rule walk_loop_ok [where Q = "\<lambda>i arb. \<exists>s'. arb = Some s' \<and> moved src dst t i s s'", OF _ _ walk])
  show "\<exists>s'. Some s = Some s' \<and> moved src dst t 0 s s'" using z by (simp add: moved_def)
  show "\<exists>s'. arb = Some s' \<and> moved src dst t (Suc i) s s'"
    if "\<exists>s'. arb = Some s' \<and> moved src dst t i s s'" "\<not> filled t i" for i arb
    using that by (auto simp: moved_def live_def less_Suc_eq)
  fix i arb arb2
  assume i: "\<exists>s'. arb = Some s' \<and> moved src dst t i s s'" "filled t i" "cb_at t (migrate_rule hdr engine env h) i arb = (0, arb2)"
  then obtain s1 where s1: "arb = Some s1" "moved src dst t i s s1" by auto
  show "\<exists>s'. arb2 = Some s' \<and> moved src dst t (Suc i) s s'"
  proof (cases "live t i")
    case False
    then have "arb2 = Some s1" using i s1 by (auto simp: cb_at_def live_def migrate_rule_def Let_def)
    then show ?thesis using s1 False by (auto simp: moved_def less_Suc_eq)
  next
    case True
    have p1: "map_pairs (nati_obj s1) = map_pairs nati_obj_start" using s1(2) p by (simp add: moved_def)
    have same: "o2n mem s1 = o2n mem s" "n2o mem s1 = n2o mem s" for mem using s1(2) by (simp_all add: moved_def o2n_def n2o_def)
    note ne = pair_numbers [OF p]
    have pr: "nr_protocol (rec_at t (of_nat i)) \<noteq> IPA_NAT_INVALID_PROTO_FIELD_VALUE_IN_RULE" using True by (simp add: live_def)
    note call = i(3) [unfolded s1(1) cb_at_def]
    obtain s2 orig new where s2: "arb2 = Some s2" "map_array s1 (n2o src s) (handle_at t i) = Some orig"
      "map_array s1 (o2n dst s) orig = None" "map_array s1 (n2o dst s) new = None"
      "map_array s2 = (map_array s1)(o2n dst s := (map_array s1 (o2n dst s))(orig \<mapsto> new), n2o dst s := (map_array s1 (n2o dst s))(new \<mapsto> orig))"
      "map_pairs (nati_obj s2) = map_pairs (nati_obj s1)" "count_of dst s2 = count_of dst s1 + 1"
      by (rule migrate_rule_ok [OF call t p1 pr]) (simp add: same)
    have keep: "map_array s2 m a = map_array s1 m a" if "map_array s1 m a \<noteq> None" for m a
      using that s2(3-5) ne by auto
    have "moved src dst t (Suc i) s s2"
      using s1(2) s2 ne t(2) True keep unfolding moved_def less_Suc_eq by (auto; metis option.distinct(1))
    then show ?thesis using s2(1) by simp
  qed
qed simp

text \<open>Turning to a memory changes neither the tables nor the maps.\<close>

definition same_tables :: "nat_sm \<Rightarrow> nat_sm \<Rightarrow> bool" where
  "same_tables s s' \<longleftrightarrow>
     map_array s' = map_array s \<and> map_pairs (nati_obj s') = map_pairs (nati_obj s) \<and>
     ddr_tbl_hdl (nati_obj s') = ddr_tbl_hdl (nati_obj s) \<and> sram_tbl_hdl (nati_obj s') = sram_tbl_hdl (nati_obj s) \<and>
     (\<forall>mem. ip4_tbl (ipv4_nat_cache (lib s') mem) = ip4_tbl (ipv4_nat_cache (lib s) mem))"

lemma same_tables_trans: "same_tables s s' \<Longrightarrow> same_tables s' s'' \<Longrightarrow> same_tables s s''"
  by (simp add: same_tables_def)

lemma same_tables_steps:
  "take_mutex env s = (r, s') \<Longrightarrow> same_tables s s'" "give_mutex env s = (r, s') \<Longrightarrow> same_tables s s'"
  "ipa_nat_vote_clock hdr env s = (r, s') \<Longrightarrow> same_tables s s'" "smGoTo env h st s = (r, s') \<Longrightarrow> same_tables s s'"
  by (auto simp: same_tables_def take_mutex_def give_mutex_def ipa_nat_vote_clock_def ipa_nati_vote_clock_def low_def open_ipa_def
      set_cache_def smGoTo_def ipa_NATI_post_ipv4_init_cmd_def ipa_nati_post_ipv4_init_cmd_def SET_NATIOBJ_STATE_def Let_def
      split: if_splits prod.splits option.splits sum.splits)

lemma goto_same_tables:
  assumes "ipa_nati_statemach hdr engine env t s = Some (r, s')" "t = NATI_TRIG_GOTO_DDR \<or> t = NATI_TRIG_GOTO_SRAM"
  shows "same_tables s s'"
proof -
  obtain r1 s1 where s1: "take_mutex env s = (r1, s1)" by fastforce
  define vote where "vote = VOTE_REQUIRED t (nati_obj s1)"
  obtain r2 s2 where s2: "(if vote then ipa_nat_vote_clock hdr env s1 else (Inr (), s1)) = (r2, s2)" by fastforce
  have S2: "same_tables s s2"
    using s2 same_tables_steps(1) [OF s1] same_tables_steps(3) [of hdr env s1] by (auto intro: same_tables_trans split: if_splits)
  have S3: "same_tables s2 s3" if "state_mach_tbl hdr engine env run (curr_state (nati_obj s2)) t s2 = Some (r3, s3)" for run r3 s3
    using that assms(2) same_tables_steps(4)
    by (auto simp: state_mach_tbl_def smUndef_def smGoToDdr_def smGoToSram_def same_tables_def split: ipa_nati_state.splits)
  note run = assms(1) [unfolded statemach_unfold [of hdr engine env t s] statemach_body_def Let_def s1 vote_def [symmetric] prod.case s2]
  show ?thesis
  proof (cases "is_ok r1 \<and> is_ok r2")
    case False
    then show ?thesis using run same_tables_steps(1) [OF s1] S2 same_tables_steps(2)
      by (auto split: if_splits intro: same_tables_trans)
  next
    case True
    then obtain r3 s3 where s3: "state_mach_tbl hdr engine env (ipa_nati_statemach hdr engine env) (curr_state (nati_obj s2)) t s2 = Some (r3, s3)"
      and fin: "(if r3 = Inl CRASH then (r3, s3) else give_mutex env (if vote then snd (ipa_nat_vote_clock hdr env s3) else s3)) = (r, s')"
      using run by (auto simp: bind_eq_Some_conv)
    have "same_tables s s3" using S2 S3 [OF s3] by (rule same_tables_trans)
    then show ?thesis
      using fin same_tables_steps(3) [of hdr env s3, OF prod.collapse [symmetric]] same_tables_steps(2)
      by (auto split: if_splits intro: same_tables_trans)
  qed
qed

lemma copy_moves:
  assumes "ipa_nati_copy_ipv4_tbl env src_hdl dst_hdl (migrate_rule hdr engine env) s = Some (Inr (), s')"
    and hdl: "BREAK_TBL_HDL src_hdl = (src, 1)" "BREAK_TBL_HDL dst_hdl = (dst, 1)" "dst \<noteq> src"
    and t: "ip4_tbl (ipv4_nat_cache (lib s) src) = [nt]" "nmi (table nt) = src"
    and p: "map_pairs (nati_obj s) = map_pairs nati_obj_start" and z: "count_of dst s = 0"
  shows "moved src dst (table nt) (walk_size (table nt)) s s'"
proof -
  obtain r1 s1 where s1: "low env (\<lambda>os. ipa_NATI_clear_ipv4_tbl (base_sys os) dst_hdl) (next_call s) = (r1, s1)" by fastforce
  have obj: "nati_obj s1 = nati_obj s" "map_array s1 = map_array s" using low_obj [OF s1] by auto
  have "ipv4_nat_cache (lib s1) src = ipv4_nat_cache (lib s) src"
    using s1 hdl
    by (auto simp: low_def ipa_NATI_clear_ipv4_tbl_def set_ip4_tbl_def set_cache_def Let_def split: prod.splits if_splits option.splits)
  then have nt: "tbl_of (ipv4_nat_cache (lib s1) src) 1 = Some nt" using t(1) by (simp add: tbl_of_def)
  define os where "os = base_sys (sys_now env s1)"
  obtain ret arb where w: "ipa_NATI_walk_ipv4_tbl os src_hdl (migrate_rule hdr engine env dst_hdl) (lib s1) (Some (next_call s1)) = (ret, arb)"
    by fastforce
  have inr: "mutex_unlock x (y :: unit result) = Inr () \<Longrightarrow> y = Inr ()" for x y by (cases y) (auto simp: mutex_unlock_def split: if_splits)
  have fin: "arb = Some s'" "ret = Inr ()"
    using assms(1) s1 w inr by (auto simp: ipa_nati_copy_ipv4_tbl_def Let_def os_def split: if_splits sum.splits)
  have "ipa_table_walk (table nt) 0 WHEN_SLOT_FILLED (migrate_rule hdr engine env dst_hdl) (Some (next_call s1)) = (0, arb)"
    using w fin(2) nt hdl(1) inr
    by (auto simp: ipa_NATI_walk_ipv4_tbl_def Let_def split: if_splits prod.splits dest!: inr)
  then have "walk_loop (table nt) WHEN_SLOT_FILLED (migrate_rule hdr engine env dst_hdl) (Some (next_call s1)) 0 = (0, arb)"
    by (simp add: ipa_table_walk_def split: if_splits)
  from migrate_walk [OF this t(2) hdl(3)] p z obj fin(1) have "moved src dst (table nt) (walk_size (table nt)) (next_call s1) s'"
    by (simp add: count_of_def)
  then show ?thesis using obj by (simp add: moved_def o2n_def n2o_def)
qed

text \<open>The tables and handles that a hybrid state works with.\<close>

definition hybrid_tables :: "nat_sm \<Rightarrow> bool" where
  "hybrid_tables s \<longleftrightarrow>
     BREAK_TBL_HDL (sram_tbl_hdl (nati_obj s)) = (IPA_NAT_MEM_IN_SRAM, 1) \<and>
     BREAK_TBL_HDL (ddr_tbl_hdl (nati_obj s)) = (IPA_NAT_MEM_IN_DDR, 1) \<and>
     (\<forall>mem. \<exists>nt. ip4_tbl (ipv4_nat_cache (lib s) mem) = [nt] \<and> nmi (table nt) = mem)"

definition rule_table :: "ipa3_nat_mem_in \<Rightarrow> nat_sm \<Rightarrow> nat_table" where
  "rule_table mem s = table (ip4_tbl (ipv4_nat_cache (lib s) mem) ! 0)"

lemma switch_moves:
  assumes "smSwitch hdr engine env (ipa_nati_statemach hdr engine env) goto dst src_hdl dst_hdl s = Some (Inr (), s')"
    and g: "goto = NATI_TRIG_GOTO_DDR \<or> goto = NATI_TRIG_GOTO_SRAM"
    and hdl: "\<And>ob. (src_hdl ob, dst_hdl ob) =
      (if dst = IPA_NAT_MEM_IN_DDR then (sram_tbl_hdl ob, ddr_tbl_hdl ob) else (ddr_tbl_hdl ob, sram_tbl_hdl ob))"
    and s: "hybrid_tables s" "obj_ok (nati_obj s)" and d: "dst \<noteq> src"
  shows "moved src dst (rule_table src s) (walk_size (rule_table src s)) s s'"
proof -
  obtain r1 s1 where s1: "ipa_nati_statemach hdr engine env goto s = Some (r1, s1)"
    using assms(1) by (auto simp: smSwitch_def bind_eq_Some_conv Let_def)
  have S: "same_tables s s1" by (rule goto_same_tables [OF s1 g])
  obtain nt where nt: "ip4_tbl (ipv4_nat_cache (lib s) src) = [nt]" "nmi (table nt) = src" using s(1) by (auto simp: hybrid_tables_def)
  have p: "map_pairs (nati_obj s) = map_pairs nati_obj_start" using s(2) by (simp add: obj_ok_def)
  define s2 where "s2 = clear_maps dst s1"
  have s2: "map_pairs (nati_obj s2) = map_pairs nati_obj_start" "count_of dst s2 = 0" "lib s2 = lib s1"
    "sram_tbl_hdl (nati_obj s2) = sram_tbl_hdl (nati_obj s)" "ddr_tbl_hdl (nati_obj s2) = ddr_tbl_hdl (nati_obj s)"
    using S p by (auto simp: s2_def clear_maps_def set_count_def count_of_def same_tables_def Let_def)
  obtain r3 s3 where s3: "ipa_nati_copy_ipv4_tbl env (src_hdl (nati_obj s2)) (dst_hdl (nati_obj s2)) (migrate_rule hdr engine env) s2 = Some (Inr (), s3)"
    and s': "s' = count_switch (CHOOSE_MEM_SUB s) r3 s3"
    using assms(1) s1 by (auto simp: smSwitch_def bind_eq_Some_conv Let_def s2_def split: if_splits)
  have hd: "BREAK_TBL_HDL (src_hdl (nati_obj s2)) = (src, 1)" "BREAK_TBL_HDL (dst_hdl (nati_obj s2)) = (dst, 1)"
    using hdl [of "nati_obj s2"] s(1) s2(4,5) d by (cases dst; cases src; auto simp: hybrid_tables_def)+
  have t2: "ip4_tbl (ipv4_nat_cache (lib s2) src) = [nt]" using S nt(1) s2(3) by (simp add: same_tables_def)
  note M = copy_moves [OF s3 hd d t2 nt(2) s2(1,2)]
  have src: "o2n src s2 = o2n src s" "n2o src s2 = n2o src s" "o2n dst s2 = o2n dst s" "n2o dst s2 = n2o dst s"
    using s2(1) p by (simp_all add: o2n_def n2o_def)
  have maps: "map_array s2 (o2n src s) = map_array s (o2n src s)" "map_array s2 (n2o src s) = map_array s (n2o src s)"
    using S pair_numbers [OF p] d by (auto simp: s2_def clear_maps_def set_count_def ipa_nat_map_clear_def o2n_def n2o_def same_tables_def Let_def)
  have "rule_table src s = table nt" using nt(1) by (simp add: rule_table_def)
  then show ?thesis using M src maps s2(1) p by (simp add: moved_def s' count_switch_def count_of_def Let_def)
qed


end
