(* ===== verification/IPA_NAT_SM_Runs.thy ===== *)
theory IPA_NAT_SM_Runs
  imports IPA_NAT_SM_Rules
begin

text \<open>
  Where the NAT state machine (\<open>ipa_nat_statemach.c\<close>) goes wrong: a handle that is given out twice, a second table
  that makes a later switch crash, and a request to switch that is mistaken for one before the start.
  At the end, examples for its theorems.
\<close>

section \<open>Steps that succeed\<close>

text \<open>The clock can be voted for.\<close>

definition clock_works :: "nat_header \<Rightarrow> sm_env \<Rightarrow> nat_lib \<Rightarrow> bool" where
  "clock_works hdr env l \<longleftrightarrow>
     (\<forall>n. clock_vote_ok (low_sys (env n))) \<and> nc_ipa_desc (ipv4_nat_cache l IPA_NAT_MEM_IN_SRAM) \<noteq> None"

lemma vote_works: "clock_works hdr env (lib s) \<Longrightarrow> ipa_nat_vote_clock hdr env s = (Inr (), next_call s)"
  by (auto simp: clock_works_def ipa_nat_vote_clock_def low_def ipa_nati_vote_clock_def open_ipa_def sys_now_def next_call_def)

lemma calls_simps [simp]:
  "calls (next_call s) = Suc (calls s)" "calls (set_count mem n s) = calls s" "lib (s\<lparr>nat_mutex_init := b\<rparr>) = lib s"
  by (simp_all add: next_call_def set_count_def)

section \<open>A handle that is given out twice\<close>

text \<open>C39. After a move to the other memory and back, the handle of a rule in SRAM may differ from its original handle,
  whose slot is free again. When a rule is then added at that slot, the application gets the same handle a second
  time, and success is reported: the new rule is in the table, but the maps stay as they were, so that the
  handle still leads to the other rule.\<close>

theorem ipa_nat_handle_given_twice:
  assumes "mutex_works env" "clock_works hdr env (lib s)" "clock_works hdr env l"
    "curr_state (nati_obj s) = NATI_STATE_HYBRID" "VALID_TBL_HDL tbl_hdl"
    "ipa_NATI_add_ipv4_rule hdr engine (base_sys (low_sys (env (Suc (Suc (calls s)))))) tbl_hdl
       (Some (rule\<lparr>cr_redirect := 0, cr_enable := 0, cr_time_stamp := 0\<rparr>)) True (lib s) = Some (Inr h, l)"
    "map_array s (o2n IPA_NAT_MEM_IN_SRAM s) h = Some h'"
  shows "\<exists>s'. ipa_nat_add_ipv4_rule hdr engine env tbl_hdl (Some rule) (Some out) s = Some (Inr (), s') \<and>
    out_val s' = h \<and> lib s' = l \<and> map_array s' = map_array s \<and>
    map_array s' (o2n IPA_NAT_MEM_IN_SRAM s') (out_val s') = Some h'"
proof -
  note [simp] = mutex_works_simps [OF assms(1)]
  let ?s1 = "(next_call (s\<lparr>out_val := out\<rparr>))\<lparr>nat_mutex_init := True\<rparr>"
  let ?s2 = "next_call ?s1" and ?r = "rule\<lparr>cr_redirect := 0, cr_enable := 0, cr_time_stamp := 0\<rparr>"
  let ?s3 = "(next_call ?s2)\<lparr>lib := l\<rparr>"
  let ?s4 = "set_count IPA_NAT_MEM_IN_SRAM (count_of IPA_NAT_MEM_IN_SRAM ?s3 + 1) (?s3\<lparr>out_val := h\<rparr>)"
  have v: "ipa_nat_vote_clock hdr env ?s1 = (Inr (), ?s2)" by (rule vote_works) (simp add: assms(2))
  have v4: "ipa_nat_vote_clock hdr env ?s4 = (Inr (), next_call ?s4)" by (rule vote_works) (simp add: assms(3))
  have "add_rule_low hdr engine env tbl_hdl ?r ?s2 = Some (Inr h, ?s3)"
    using assms(6) by (simp add: add_rule_low_def sys_now_def next_call_def)
  then have "smAddRuleToTbl hdr engine env tbl_hdl rule ?s2 = Some (Inr (), ?s4)"
    using assms(4) by (simp add: smAddRuleToTbl_def CHOOSE_MEM_SUB_def count_of_def)
  moreover have "add_new_handle IPA_NAT_MEM_IN_SRAM h h ?s4 = (Inl EFAIL, ?s4)"
    using assms(7) by (simp add: add_new_handle_def ipa_nat_map_add_def o2n_def)
  ultimately have "smAddRuleHybrid hdr engine env run tbl_hdl rule ?s2 = Some (Inl EFAIL, ?s4)" for run
    using assms(4) by (simp add: smAddRuleHybrid_def hybrid_tbl_def CHOOSE_MEM_SUB_def)
  moreover have "VOTE_REQUIRED (NATI_TRIG_ADD_RULE tbl_hdl rule) (nati_obj s)"
    using assms(4) by (simp add: VOTE_REQUIRED_def SRAM_TO_BE_ACCESSED_def SRAM_CURRENTLY_ACTIVE_def)
  ultimately show ?thesis
    using assms(4,5,7) v v4
    by (simp add: ipa_nat_add_ipv4_rule_def statemach_unfold [of hdr engine env "NATI_TRIG_ADD_RULE tbl_hdl rule"]
        statemach_body_def Let_def state_mach_tbl_def o2n_def)
qed

section \<open>A second table\<close>

text \<open>Adding a table where there is one fails and leaves 0 as its handle.\<close>

lemma add_tbl_exists:
  assumes "table_cnt (ipv4_nat_cache (lib s) mem) = 1" "add_ipv4_tbl_hdl hdr env mem ip n s = ((ret, hdl), s')"
  shows "\<not> is_ok ret" "ret \<noteq> Inl CRASH" "hdl = 0" "nati_obj s' = nati_obj s" "map_array s' = map_array s" "out_val s' = out_val s"
    "nat_mutex_init s' = nat_mutex_init s" "calls s' = Suc (calls s)"
    "table_cnt (ipv4_nat_cache (lib s') m) = table_cnt (ipv4_nat_cache (lib s) m)"
    "nc_ipa_desc (ipv4_nat_cache (lib s') m) = nc_ipa_desc (ipv4_nat_cache (lib s) m)"
    "ip4_tbl (ipv4_nat_cache (lib s') m) = ip4_tbl (ipv4_nat_cache (lib s) m)"
  using assms
  by (auto simp: add_ipv4_tbl_hdl_def low_def ipa_NATI_add_ipv4_tbl_def set_cache_def IPA_NAT_MAX_IP4_TBLS_def next_call_def Let_def
      split: if_splits)

text \<open>A hybrid state with both tables.\<close>

definition started_hybrid :: "nat_sm \<Rightarrow> bool" where
  "started_hybrid s \<longleftrightarrow> curr_state (nati_obj s) = NATI_STATE_HYBRID \<and> prev_state (nati_obj s) \<noteq> NATI_STATE_NULL \<and>
     (\<forall>mem. table_cnt (ipv4_nat_cache (lib s) mem) = 1 \<and> nc_ipa_desc (ipv4_nat_cache (lib s) mem) \<noteq> None \<and>
       length (ip4_tbl (ipv4_nat_cache (lib s) mem)) = 1)"

text \<open>The clock can be voted for, and the search for the number of entries in SRAM ends.\<close>

definition sram_works :: "sm_env \<Rightarrow> bool" where
  "sram_works env \<longleftrightarrow> (\<forall>n. clock_vote_ok (low_sys (env n)) \<and>
     (case get_nat_in_sram_info (base_sys (low_sys (env n))) of
        None \<Rightarrow> True
      | Some info \<Rightarrow> ipa_calc_num_sram_table_entries (sram_mem_available_for_nat info) 32 4 \<noteq> None))"

lemma started_hybrid_simps [simp]:
  "started_hybrid (next_call s) = started_hybrid s" "started_hybrid (s\<lparr>out_val := v\<rparr>) = started_hybrid s"
  "started_hybrid (s\<lparr>nat_mutex_init := b\<rparr>) = started_hybrid s" "started_hybrid (set_count mem n s) = started_hybrid s"
  "started_hybrid (s\<lparr>map_array := m\<rparr>) = started_hybrid s" "started_hybrid (s\<lparr>nati_obj := (nati_obj s)\<lparr>tot_slots_in_sram := x\<rparr>\<rparr>) = started_hybrid s"
  "started_hybrid (s\<lparr>nati_obj := (nati_obj s)\<lparr>tot_slots_in_sram := x, back_to_sram_thresh := y\<rparr>\<rparr>) = started_hybrid s"
  "started_hybrid (s\<lparr>nati_obj := (nati_obj s)\<lparr>sram_tbl_hdl := h\<rparr>\<rparr>) = started_hybrid s"
  "started_hybrid (s\<lparr>nati_obj := (nati_obj s)\<lparr>ddr_tbl_hdl := h\<rparr>\<rparr>) = started_hybrid s"
  by (simp_all add: started_hybrid_def)

lemma started_hybrid_vote:
  assumes "started_hybrid s" "sram_works env"
  shows "ipa_nat_vote_clock hdr env s = (Inr (), next_call s)"
  using assms by (intro vote_works) (simp add: clock_works_def sram_works_def started_hybrid_def)

lemma started_hybrid_add:
  assumes "started_hybrid s" "add_ipv4_tbl_hdl hdr env mem ip n s = ((ret, hdl), s')"
  shows "started_hybrid s'" "\<not> is_ok ret" "ret \<noteq> Inl CRASH" "hdl = 0" "out_val s' = out_val s" "nat_mutex_init s' = nat_mutex_init s"
proof -
  have c: "table_cnt (ipv4_nat_cache (lib s) mem) = 1" using assms(1) by (simp add: started_hybrid_def)
  note A = add_tbl_exists [OF c assms(2)]
  show "started_hybrid s'" using assms(1) A by (simp add: started_hybrid_def)
  show "\<not> is_ok ret" "ret \<noteq> Inl CRASH" "hdl = 0" "out_val s' = out_val s" "nat_mutex_init s' = nat_mutex_init s" using A by auto
qed

lemma add_sram_exists:
  assumes "started_hybrid s" "sram_works env"
  shows "\<exists>ret s'. smAddSramTbl hdr env ip s = Some (ret, s') \<and> \<not> is_ok ret \<and> started_hybrid s' \<and> out_val s' = out_val s \<and>
    nat_mutex_init s' = nat_mutex_init s"
proof -
  have "nc_ipa_desc (ipv4_nat_cache (lib s) IPA_NAT_MEM_IN_SRAM) \<noteq> None" using assms(1) by (simp add: started_hybrid_def)
  then have "snd (ipa_nati_get_sram_size hdr os (lib s)) = lib s" for os
    by (auto simp: ipa_nati_get_sram_size_def open_ipa_def Let_def split: option.split)
  moreover define r where "r = fst (ipa_nati_get_sram_size hdr (base_sys (sys_now env s)) (lib s))"
  moreover have "(next_call s)\<lparr>lib := lib s\<rparr> = next_call s" by (cases s) (simp add: next_call_def)
  ultimately have low: "low env (\<lambda>os. ipa_nati_get_sram_size hdr (base_sys os)) s = (r, next_call s)"
    by (simp add: low_def case_prod_beta Let_def)
  show ?thesis
  proof (cases r)
    case (Inl e)
    then show ?thesis using low assms(1) by (simp add: smAddSramTbl_def)
  next
    case (Inr size)
    then obtain info where "get_nat_in_sram_info (base_sys (sys_now env s)) = Some info" "size = sram_mem_available_for_nat info"
      using low by (auto simp: low_def ipa_nati_get_sram_size_def mutex_unlock_def Let_def split: prod.splits if_splits option.splits sum.splits)
    then have "ipa_calc_num_sram_table_entries size 32 4 \<noteq> None"
      using assms(2) by (auto simp: sram_works_def sys_now_def split: option.splits)
    then obtain ents where ents: "ipa_calc_num_sram_table_entries size 32 4 = Some ents" by auto
    show ?thesis
    proof (cases ents)
      case (Inl e)
      then show ?thesis using low Inr ents assms(1) by (simp add: smAddSramTbl_def started_hybrid_def)
    next
      case n: (Inr n)
      let ?s1 = "(next_call s)\<lparr>nati_obj := (nati_obj (next_call s))\<lparr>tot_slots_in_sram := ucast n, back_to_sram_thresh := ucast n div 4\<rparr>\<rparr>"
      have s1: "started_hybrid ?s1" using assms(1) by (subst started_hybrid_simps) simp
      note v1 = started_hybrid_vote [OF s1 assms(2), of hdr]
      obtain ret hdl s3 where s3: "add_ipv4_tbl_hdl hdr env IPA_NAT_MEM_IN_SRAM ip n (next_call ?s1) = ((ret, hdl), s3)"
        by (metis prod.collapse)
      note A = started_hybrid_add [OF _ s3]
      have H: "started_hybrid (s3\<lparr>nati_obj := (nati_obj s3)\<lparr>sram_tbl_hdl := hdl\<rparr>\<rparr>)" using A(1) s1 by simp
      note v3 = started_hybrid_vote [OF H assms(2), of hdr]
      show ?thesis using low Inr ents n v1 s3 v3 A s1 H by (simp add: smAddSramTbl_def Let_def)
    qed
  qed
qed

lemma second_table:
  assumes "started_hybrid s" "sram_works env"
  shows "\<exists>ret s'. smAddSramAndDdrTbl hdr env run ip n s = Some (ret, s') \<and> \<not> is_ok ret \<and> ret \<noteq> Inl CRASH \<and> started_hybrid s' \<and>
    out_val s' = out_val s \<and> nat_mutex_init s' = nat_mutex_init s \<and> ddr_tbl_hdl (nati_obj s') = 0"
proof -
  let ?s1 = "clear_maps IPA_NAT_MEM_IN_DDR (clear_maps IPA_NAT_MEM_IN_SRAM s)"
  have s1: "started_hybrid ?s1" "out_val ?s1 = out_val s" "nat_mutex_init ?s1 = nat_mutex_init s"
    using assms(1) by (simp_all add: clear_maps_def Let_def)
  obtain r2 s2 where s2: "smAddSramTbl hdr env ip ?s1 = Some (r2, s2)" "\<not> is_ok r2" "started_hybrid s2" "out_val s2 = out_val s"
    "nat_mutex_init s2 = nat_mutex_init s"
    using add_sram_exists [OF s1(1) assms(2)] s1 by metis
  obtain ret hdl s3 where s3: "add_ipv4_tbl_hdl hdr env IPA_NAT_MEM_IN_DDR ip n s2 = ((ret, hdl), s3)" by (metis prod.collapse)
  note A = started_hybrid_add [OF s2(3) s3]
  show ?thesis using s2 s3 A by (simp add: smAddSramAndDdrTbl_def smAddDdrTbl_def Let_def)
qed

text \<open>Turning to the table with the handle 0.\<close>

lemma goto_null_crashes:
  assumes "mutex_works env" "sram_works env" "started_hybrid s" "ddr_tbl_hdl (nati_obj s) = 0"
  shows "\<exists>s'. ipa_nati_statemach hdr engine env NATI_TRIG_GOTO_DDR s = Some (Inl CRASH, s')"
proof -
  note [simp] = mutex_works_simps [OF assms(1)]
  let ?s1 = "(next_call s)\<lparr>nat_mutex_init := True\<rparr>"
  have h: "started_hybrid ?s1" using assms(3) by simp
  have c: "curr_state (nati_obj s) = NATI_STATE_HYBRID" "table_cnt (ipv4_nat_cache (lib s) IPA_NAT_MEM_IN_DDR) = 1"
    "length (ip4_tbl (ipv4_nat_cache (lib s) IPA_NAT_MEM_IN_DDR)) = 1"
    using assms(3) by (auto simp: started_hybrid_def)
  have "unat (0 - 1 :: u32) = 2 ^ 32 - 1" by (simp add: unsigned_minus_1_eq_mask mask_eq_exp_minus_1)
  then have t: "tbl_of (ipv4_nat_cache (lib s) IPA_NAT_MEM_IN_DDR) 0 = None" using c(3) by (simp add: tbl_of_def)
  have b: "BREAK_TBL_HDL 0 = (IPA_NAT_MEM_IN_DDR, 0)" by (simp add: BREAK_TBL_HDL_def)
  have l: "lock_ok (base_sys (sys_now env x))" for x using assms(1) by (simp add: mutex_works_def sys_now_def)
  have "fst (low env (\<lambda>os. ipa_NATI_post_ipv4_init_cmd (base_sys os) 0) (next_call ?s1)) = Inl CRASH"
    using c t b l [of "next_call ?s1"] by (simp add: low_def ipa_NATI_post_ipv4_init_cmd_def)
  then obtain s2 where "low env (\<lambda>os. ipa_NATI_post_ipv4_init_cmd (base_sys os) 0) (next_call ?s1) = (Inl CRASH, s2)"
    by (metis prod.collapse)
  moreover have "VOTE_REQUIRED NATI_TRIG_GOTO_DDR (nati_obj s)"
    using c by (simp add: VOTE_REQUIRED_def SRAM_TO_BE_ACCESSED_def SRAM_CURRENTLY_ACTIVE_def)
  ultimately show ?thesis
    using c(1) assms(4) started_hybrid_vote [OF h assms(2), of hdr]
    by (simp add: statemach_unfold [of hdr engine env NATI_TRIG_GOTO_DDR] statemach_body_def state_mach_tbl_def Let_def smGoToDdr_def smGoTo_def)
qed

lemma switch_null_crashes:
  assumes "mutex_works env" "sram_works env" "started_hybrid s" "ddr_tbl_hdl (nati_obj s) = 0"
  shows "\<exists>s'. ipa_nati_statemach hdr engine env NATI_TRIG_TBL_SWITCH s = Some (Inl CRASH, s')"
proof -
  note [simp] = mutex_works_simps [OF assms(1)]
  let ?s1 = "(next_call s)\<lparr>nat_mutex_init := True\<rparr>"
  have h: "started_hybrid ?s1" "started_hybrid (next_call ?s1)" using assms(3) by simp_all
  have c: "curr_state (nati_obj s) = NATI_STATE_HYBRID" using assms(3) by (simp add: started_hybrid_def)
  obtain s2 where "ipa_nati_statemach hdr engine env NATI_TRIG_GOTO_DDR (next_call ?s1) = Some (Inl CRASH, s2)"
    using goto_null_crashes [OF assms(1,2) h(2)] assms(4) by auto
  moreover have "VOTE_REQUIRED NATI_TRIG_TBL_SWITCH (nati_obj s)"
    using c by (simp add: VOTE_REQUIRED_def SRAM_TO_BE_ACCESSED_def)
  ultimately show ?thesis
    using c started_hybrid_vote [OF h(1) assms(2), of hdr]
    by (simp add: statemach_unfold [of hdr engine env NATI_TRIG_TBL_SWITCH] statemach_body_def state_mach_tbl_def Let_def
        smSwitchFromSramToDdr_def smSwitch_def)
qed

text \<open>C40. With tables in both memories, a second call that adds a table is reported as a success although it fails; it
  gives the application the handle 0 and overwrites the handles that the machine keeps with 0. The next
  switch to DDR, on request or since SRAM is full, then uses the element before the array of tables.\<close>

theorem ipa_nat_second_table_crashes:
  assumes "mutex_works env" "sram_works env" "started_hybrid s" "number_of_entries \<noteq> 0"
  shows "\<exists>s1 s2. ipa_nat_add_ipv4_tbl hdr engine env ip (Some mem_type) number_of_entries True s = Some (Inr (), s1) \<and>
    out_val s1 = 0 \<and> ddr_tbl_hdl (nati_obj s1) = 0 \<and>
    ipa_nat_switch_to hdr engine env IPA_NAT_MEM_IN_DDR hold s1 = Some (Inl CRASH, s2)"
proof -
  note [simp] = mutex_works_simps [OF assms(1)]
  let ?t = "NATI_TRIG_ADD_TABLE ip number_of_entries (Some mem_type)"
  let ?s0 = "(next_call (s\<lparr>out_val := 0\<rparr>))\<lparr>nat_mutex_init := True\<rparr>"
  have h0: "started_hybrid ?s0" using assms(3) by simp
  have c: "curr_state (nati_obj s) = NATI_STATE_HYBRID" using assms(3) by (simp add: started_hybrid_def)
  obtain ret s1 where s1: "smAddSramAndDdrTbl hdr env (ipa_nati_statemach hdr engine env) ip number_of_entries ?s0 = Some (ret, s1)"
    "\<not> is_ok ret" "ret \<noteq> Inl CRASH" "started_hybrid s1" "out_val s1 = 0" "nat_mutex_init s1" "ddr_tbl_hdl (nati_obj s1) = 0"
    using second_table [OF h0 assms(2), of hdr "ipa_nati_statemach hdr engine env" ip number_of_entries] by auto
  have add: "ipa_nat_add_ipv4_tbl hdr engine env ip (Some mem_type) number_of_entries True s = Some (Inr (), next_call s1)"
    using s1 c assms(4)
    by (simp add: ipa_nat_add_ipv4_tbl_def statemach_unfold [of hdr engine env ?t] statemach_body_def state_mach_tbl_def Let_def VOTE_REQUIRED_def)
  let ?s2 = "(next_call (next_call s1))\<lparr>nat_mutex_init := True\<rparr>"
  have h2: "started_hybrid ?s2" "ddr_tbl_hdl (nati_obj ?s2) = 0" using s1 by simp_all
  obtain s3 where "ipa_nati_statemach hdr engine env NATI_TRIG_TBL_SWITCH ?s2 = Some (Inl CRASH, s3)"
    using switch_null_crashes [OF assms(1,2) h2] by blast
  then have "ipa_nat_switch_to hdr engine env IPA_NAT_MEM_IN_DDR hold (next_call s1) = Some (Inl CRASH, s3)"
    using h2(1) by (simp add: ipa_nat_switch_to_def Let_def started_hybrid_def IN_UNSTARTED_STATE_def IN_HYBRID_STATE_def COMPATIBLE_NMI_4SWITCH_def)
  then show ?thesis using add s1 by auto
qed

section \<open>A switch mistaken for one before the start\<close>

text \<open>A machine that was started with a table in DDR still counts as not started, since its previous state is the one
  before the start. A request to hold the table in SRAM is then not refused as incompatible: it is
  accepted and kept for the next start.\<close>

lemma ipa_nat_switch_to_started_ddr:
  assumes "mutex_works env" "curr_state (nati_obj s) = NATI_STATE_NULL" "\<not> hold_state (nati_obj s)"
    "ipa_nati_statemach hdr engine env (NATI_TRIG_ADD_TABLE ip n (Some ''DDR'')) s = Some (ret, s1)"
  shows "curr_state (nati_obj s1) = NATI_STATE_DDR_ONLY" "IN_UNSTARTED_STATE (nati_obj s1)"
    "\<exists>s2. ipa_nat_switch_to hdr engine env IPA_NAT_MEM_IN_SRAM True s1 = Some (Inr (), s2) \<and>
       state_to_hold (nati_obj s2) = NATI_STATE_SRAM_ONLY \<and> curr_state (nati_obj s2) = NATI_STATE_DDR_ONLY"
proof -
  note [simp] = mutex_works_simps [OF assms(1)]
  let ?t = "NATI_TRIG_ADD_TABLE ip n (Some ''DDR'')"
  have m: "mem_type_str_to_ipa_nati_state (Some ''DDR'') = NATI_STATE_DDR_ONLY" by code_simp
  let ?s1 = "SET_NATIOBJ_STATE NATI_STATE_DDR_ONLY ((next_call s)\<lparr>nat_mutex_init := True\<rparr>)"
  let ?s2 = "(next_call ?s1)\<lparr>nat_mutex_init := True\<rparr>"
  obtain q hdl s3 where s3: "add_ipv4_tbl_hdl hdr env IPA_NAT_MEM_IN_DDR ip n ?s2 = ((q, hdl), s3)" by (metis prod.collapse)
  have obj: "nati_obj s3 = nati_obj ?s2" "nat_mutex_init s3"
    using s3 low_obj by (auto simp: add_ipv4_tbl_hdl_def low_def next_call_def split: prod.splits)
  let ?o = "(nati_obj ?s2)\<lparr>ddr_tbl_hdl := hdl\<rparr>"
  have "\<exists>r2 s4. statemach_body hdr engine env (ipa_nati_statemach hdr engine env) ?t ?s1 = Some (r2, s4) \<and> nati_obj s4 = ?o \<and> nat_mutex_init s4"
    using s3 obj
    by (cases "q = Inl CRASH"; cases "is_ok q")
      (simp_all add: statemach_body_def state_mach_tbl_def smAddDdrTbl_def VOTE_REQUIRED_def SET_NATIOBJ_STATE_def Let_def)
  then obtain r2 s4 where r2: "ipa_nati_statemach hdr engine env ?t ?s1 = Some (r2, s4)" and s4: "nati_obj s4 = ?o" "nat_mutex_init s4"
    unfolding statemach_unfold [of hdr engine env ?t ?s1] by blast
  have "smFirstTbl (ipa_nati_statemach hdr engine env) ip n (Some ''DDR'') ((next_call s)\<lparr>nat_mutex_init := True\<rparr>) = Some (r2, s4)"
    using r2 m assms(3) by (simp add: smFirstTbl_def Let_def)
  then have s1: "nati_obj s1 = ?o"
    using assms(2,4) s4 unfolding statemach_unfold [of hdr engine env ?t s]
    by (cases "r2 = Inl CRASH") (auto simp: statemach_body_def state_mach_tbl_def VOTE_REQUIRED_def Let_def)
  show "curr_state (nati_obj s1) = NATI_STATE_DDR_ONLY" "IN_UNSTARTED_STATE (nati_obj s1)"
    using s1 assms(2) by (simp_all add: SET_NATIOBJ_STATE_def IN_UNSTARTED_STATE_def)
  then show "\<exists>s2. ipa_nat_switch_to hdr engine env IPA_NAT_MEM_IN_SRAM True s1 = Some (Inr (), s2) \<and>
       state_to_hold (nati_obj s2) = NATI_STATE_SRAM_ONLY \<and> curr_state (nati_obj s2) = NATI_STATE_DDR_ONLY"
    by (simp add: ipa_nat_switch_to_def Let_def)
qed

section \<open>Examples\<close>

text \<open>A system that grants everything and has no room in SRAM to tell of; a state with a table in DDR, and hybrid
  states with tables in both memories, without rules and with one.\<close>

definition w_sm_env :: sm_env where
  "w_sm_env = (\<lambda>_. \<lparr>low_sys = w_nat_sys, mutex_init_ok = True\<rparr>)"

definition w_sm :: "ipa_nati_state \<Rightarrow> nat_maps \<Rightarrow> nat_lib \<Rightarrow> nat_sm" where
  "w_sm st maps l = \<lparr>nati_obj = nati_obj_start\<lparr>prev_state := st, curr_state := st, ddr_tbl_hdl := 1, sram_tbl_hdl := 0x80000001\<rparr>,
     map_array = maps, lib = l, nat_mutex_init = True, out_val = 0, calls = 0\<rparr>"

definition w_both :: nat_lib where
  "w_both = snd (ipa_NATI_add_ipv4_tbl w_nat_hdr w_nat_sys IPA_NAT_MEM_IN_SRAM 0x0A000001 2 w_nat_table)"

lemma w_sm_env_works: "mutex_works w_sm_env" "sram_works w_sm_env"
  by (simp_all add: mutex_works_def sram_works_def w_sm_env_def w_nat_sys_def w_nat_os_def)

definition w_tables_ok :: "ipa3_nat_mem_in \<Rightarrow> bool" where
  "w_tables_ok mem \<longleftrightarrow> (let c = ipv4_nat_cache w_both mem in
     table_cnt c = 1 \<and> nc_ipa_desc c \<noteq> None \<and> length (ip4_tbl c) = 1 \<and> nmi (table (ip4_tbl c ! 0)) = mem)"

lemma w_tables_ok: "w_tables_ok mem"
proof -
  have "w_tables_ok IPA_NAT_MEM_IN_DDR" "w_tables_ok IPA_NAT_MEM_IN_SRAM" by code_simp+
  then show ?thesis by (cases mem) simp_all
qed

lemma w_both_tables:
  "table_cnt (ipv4_nat_cache w_both mem) = 1" "nc_ipa_desc (ipv4_nat_cache w_both mem) \<noteq> None"
  "\<exists>nt. ip4_tbl (ipv4_nat_cache w_both mem) = [nt] \<and> nmi (table nt) = mem"
  using w_tables_ok [of mem] by (auto simp: w_tables_ok_def Let_def length_Suc_conv)

lemma all_mem: "(\<forall>mem. Q mem) \<longleftrightarrow> Q IPA_NAT_MEM_IN_DDR \<and> Q IPA_NAT_MEM_IN_SRAM"
  by (metis ipa3_nat_mem_in.exhaust)

lemma length_one: "xs = [x] \<Longrightarrow> length xs = Suc 0"
  by simp

lemma w_started: "started_hybrid (w_sm NATI_STATE_HYBRID maps w_both)"
  using w_both_tables by (auto simp: started_hybrid_def w_sm_def) (metis length_Cons list.size(3))


theorem ipa_nat_second_table_crashes_witness:
  "started_hybrid (w_sm NATI_STATE_HYBRID (\<lambda>_ _. None) w_both) \<and>
   (\<exists>s1 s2. ipa_nat_add_ipv4_tbl w_nat_hdr nat_simple_engine w_sm_env 7 (Some ''HYBRID'') 100 True
      (w_sm NATI_STATE_HYBRID (\<lambda>_ _. None) w_both) = Some (Inr (), s1) \<and>
    ipa_nat_switch_to w_nat_hdr nat_simple_engine w_sm_env IPA_NAT_MEM_IN_DDR False s1 = Some (Inl CRASH, s2))"
  using ipa_nat_second_table_crashes [OF w_sm_env_works w_started, of 100 w_nat_hdr nat_simple_engine 7 "''HYBRID''" "\<lambda>_ _. None" False] w_started
  by auto

lemma some_inr_case: "(case x of Some (Inr h, l) \<Rightarrow> P h l | _ \<Rightarrow> False) \<Longrightarrow> \<exists>h l. x = Some (Inr h, l) \<and> P h l"
  by (auto split: option.splits sum.splits) (metis sum.exhaust)

text \<open>A handle in SRAM that is in use as the original handle of another rule is given out again.\<close>

definition w_added :: "(u32 result \<times> nat_lib) option" where
  "w_added = ipa_NATI_add_ipv4_rule w_nat_hdr nat_simple_engine w_nat_os 0x80000001
     (Some (w_nat_rule\<lparr>cr_redirect := 0, cr_enable := 0, cr_time_stamp := 0\<rparr>)) True w_both"

lemma w_added: "\<exists>l. w_added = Some (Inr 32770, l) \<and> nc_ipa_desc (ipv4_nat_cache l IPA_NAT_MEM_IN_SRAM) \<noteq> None"
proof -
  have "case w_added of Some (Inr h, l) \<Rightarrow> h = 32770 \<and> nc_ipa_desc (ipv4_nat_cache l IPA_NAT_MEM_IN_SRAM) \<noteq> None | _ \<Rightarrow> False"
    by code_simp
  from some_inr_case [OF this] show ?thesis by auto
qed

theorem ipa_nat_handle_given_twice_witness:
  "\<exists>s'. ipa_nat_add_ipv4_rule w_nat_hdr nat_simple_engine w_sm_env 0x80000001 (Some w_nat_rule) (Some 99)
     (w_sm NATI_STATE_HYBRID ((\<lambda>_ _. None)(MAP_NUM_02 := [32770 \<mapsto> 32775])) w_both) = Some (Inr (), s') \<and>
   out_val s' = 32770 \<and> map_array s' (o2n IPA_NAT_MEM_IN_SRAM s') 32770 = Some 32775"
proof -
  let ?s = "w_sm NATI_STATE_HYBRID ((\<lambda>_ _. None)(MAP_NUM_02 := [32770 \<mapsto> 32775])) w_both"
  obtain l where l: "w_added = Some (Inr 32770, l)" "nc_ipa_desc (ipv4_nat_cache l IPA_NAT_MEM_IN_SRAM) \<noteq> None" using w_added by blast
  have c: "clock_works w_nat_hdr w_sm_env (lib ?s)" "clock_works w_nat_hdr w_sm_env l"
    using w_both_tables(2) l(2) by (auto simp: clock_works_def w_sm_def w_sm_env_def w_nat_sys_def)
  have A: "curr_state (nati_obj ?s) = NATI_STATE_HYBRID" "VALID_TBL_HDL 0x80000001"
    and B: "map_array ?s (o2n IPA_NAT_MEM_IN_SRAM ?s) 32770 = Some 32775"
    by (simp_all add: w_sm_def VALID_TBL_HDL_def IPA_NAT_MAX_IP4_TBLS_def o2n_def nati_obj_start_def)
  have C: "ipa_NATI_add_ipv4_rule w_nat_hdr nat_simple_engine (base_sys (low_sys (w_sm_env (Suc (Suc (calls ?s)))))) 0x80000001
      (Some (w_nat_rule\<lparr>cr_redirect := 0, cr_enable := 0, cr_time_stamp := 0\<rparr>)) True (lib ?s) = Some (Inr 32770, l)"
    using l(1) by (simp add: w_added_def w_sm_def w_sm_env_def w_nat_sys_def)
  show ?thesis using ipa_nat_handle_given_twice [OF w_sm_env_works(1) c A C B, of 99] by auto
qed

text \<open>A table in SRAM with one rule, which is moved to DDR. The other slots are empty.\<close>

definition w_rec :: ipa_nat_rule where
  "w_rec = zero_nat_rule\<lparr>nr_private_ip := 0xC0A80002, nr_target_ip := 0x08080808, nr_private_port := 5000, nr_public_port := 6000,
     nr_target_port := 443, nr_protocol := 6, nr_enable := True\<rparr>"

definition w_tbl :: "ipa3_nat_mem_in \<Rightarrow> ipa_nat_ip4_table_cache" where
  "w_tbl mem = ip4_tbl (ipv4_nat_cache w_both mem) ! 0"

definition w_nt1 :: ipa_nat_ip4_table_cache where
  "w_nt1 = (w_tbl IPA_NAT_MEM_IN_SRAM)\<lparr>table := set_rec 1 w_rec (table (w_tbl IPA_NAT_MEM_IN_SRAM))\<rparr>"

definition w_one :: nat_lib where
  "w_one = set_ip4_tbl IPA_NAT_MEM_IN_SRAM 0 w_nt1 w_both"

text \<open>The tables while the rule is moved: DDR is in use, then its table has been cleared.\<close>

definition w_one1 :: nat_lib where
  "w_one1 = w_one\<lparr>nat_hw := (nat_hw w_one)(IPA_NAT_MEM_IN_DDR := Some (nat_init_cmd IPA_NAT_MEM_IN_DDR (w_tbl IPA_NAT_MEM_IN_DDR) 0 True)),
     active_nat_cache := Some IPA_NAT_MEM_IN_DDR\<rparr>"

definition w_one2 :: nat_lib where
  "w_one2 = set_ip4_tbl IPA_NAT_MEM_IN_DDR 0
     ((w_tbl IPA_NAT_MEM_IN_DDR)\<lparr>table := clear_table (table (w_tbl IPA_NAT_MEM_IN_DDR)),
        index_table := clear_table (index_table (w_tbl IPA_NAT_MEM_IN_DDR))\<rparr>) w_one1"

definition w_moved :: "(u32 result \<times> nat_lib) option" where
  "w_moved = ipa_NATI_add_ipv4_rule w_nat_hdr nat_simple_engine w_nat_os 1 (Some (v4_rule_of w_rec)) True w_one2"

definition w_switch :: nat_sm where
  "w_switch = w_sm NATI_STATE_HYBRID ((\<lambda>_ _. None)(MAP_NUM_02 := [32770 \<mapsto> 32770], MAP_NUM_03 := [32770 \<mapsto> 32770])) w_one"

lemma w_moved: "\<exists>l. w_moved = Some (Inr 2, l)"
proof -
  have "case w_moved of Some (Inr h, l) \<Rightarrow> h = 2 | _ \<Rightarrow> False" by code_simp
  from some_inr_case [OF this] show ?thesis by auto
qed

lemma w_nt1_slots:
  "walk_size (table w_nt1) = 4" "filled (table w_nt1) 0 = False" "filled (table w_nt1) 1 = True" "filled (table w_nt1) 2 = False"
  "filled (table w_nt1) 3 = False" "handle_at (table w_nt1) 1 = 32770" "nmi (table w_nt1) = IPA_NAT_MEM_IN_SRAM"
  "rec_at (table w_nt1) 1 = w_rec"
  by code_simp+

lemma w_one_tables:
  "ip4_tbl (ipv4_nat_cache w_one IPA_NAT_MEM_IN_SRAM) = [w_nt1]" "ip4_tbl (ipv4_nat_cache w_one IPA_NAT_MEM_IN_DDR) = [w_tbl IPA_NAT_MEM_IN_DDR]"
  "table_cnt (ipv4_nat_cache w_one mem) = 1" "nc_ipa_desc (ipv4_nat_cache w_one mem) \<noteq> None"
  "nmi (table (w_tbl IPA_NAT_MEM_IN_DDR)) = IPA_NAT_MEM_IN_DDR"
proof -
  obtain nt nt' where nt: "ip4_tbl (ipv4_nat_cache w_both IPA_NAT_MEM_IN_SRAM) = [nt]" "ip4_tbl (ipv4_nat_cache w_both IPA_NAT_MEM_IN_DDR) = [nt']"
    "nmi (table nt') = IPA_NAT_MEM_IN_DDR"
    using w_both_tables(3) by metis
  then show "ip4_tbl (ipv4_nat_cache w_one IPA_NAT_MEM_IN_SRAM) = [w_nt1]" "ip4_tbl (ipv4_nat_cache w_one IPA_NAT_MEM_IN_DDR) = [w_tbl IPA_NAT_MEM_IN_DDR]"
    "table_cnt (ipv4_nat_cache w_one mem) = 1" "nc_ipa_desc (ipv4_nat_cache w_one mem) \<noteq> None"
    "nmi (table (w_tbl IPA_NAT_MEM_IN_DDR)) = IPA_NAT_MEM_IN_DDR"
    using w_both_tables(1,2) by (auto simp: w_one_def w_tbl_def set_ip4_tbl_def set_cache_def Let_def)
qed

lemma w_handles: "BREAK_TBL_HDL 0x80000001 = (IPA_NAT_MEM_IN_SRAM, 1)" "BREAK_TBL_HDL 1 = (IPA_NAT_MEM_IN_DDR, 1)"
  by code_simp+

lemma w_switch_ok: "started_hybrid w_switch" "hybrid_tables w_switch" "obj_ok (nati_obj w_switch)"
proof -
  show "started_hybrid w_switch"
    unfolding started_hybrid_def w_switch_def w_sm_def using w_one_tables
    by (auto simp: all_mem intro: length_one)
  show "hybrid_tables w_switch" "obj_ok (nati_obj w_switch)"
    using w_one_tables(1,2,5) w_nt1_slots(7) w_handles
    by (auto simp: hybrid_tables_def w_switch_def w_sm_def obj_ok_def nati_obj_start_def all_mem)
qed

lemma w_env_sys: "sys_now w_sm_env s = w_nat_sys" "base_sys w_nat_sys = w_nat_os" "lock_ok w_nat_os" "unlock_ok w_nat_os" "init_table_ok w_nat_os"
  by (simp_all add: sys_now_def w_sm_env_def w_nat_sys_def w_nat_os_def)

lemma w_goto:
  "\<exists>s1. ipa_nati_statemach w_nat_hdr nat_simple_engine w_sm_env NATI_TRIG_GOTO_DDR w_switch = Some (Inr (), s1) \<and>
     lib s1 = w_one1 \<and> map_array s1 = map_array w_switch \<and>
     nati_obj s1 = (nati_obj w_switch)\<lparr>prev_state := NATI_STATE_HYBRID, curr_state := NATI_STATE_HYBRID_DDR\<rparr>"
proof -
  note [simp] = mutex_works_simps [OF w_sm_env_works(1)] w_env_sys
  let ?s1 = "(next_call w_switch)\<lparr>nat_mutex_init := True\<rparr>"
  have c: "curr_state (nati_obj w_switch) = NATI_STATE_HYBRID" "ddr_tbl_hdl (nati_obj w_switch) = 1" "lib w_switch = w_one"
    by (simp_all add: w_switch_def w_sm_def)
  have v1: "ipa_nat_vote_clock w_nat_hdr w_sm_env ?s1 = (Inr (), next_call ?s1)"
    by (rule started_hybrid_vote [OF _ w_sm_env_works(2)]) (simp add: w_switch_ok)
  have t: "tbl_of (ipv4_nat_cache w_one IPA_NAT_MEM_IN_DDR) 1 = Some (w_tbl IPA_NAT_MEM_IN_DDR)" using w_one_tables(2) by (simp add: tbl_of_def)
  let ?s2 = "(next_call (next_call ?s1))\<lparr>lib := w_one1\<rparr>"
  have "low w_sm_env (\<lambda>os. ipa_NATI_post_ipv4_init_cmd (base_sys os) 1) (next_call ?s1) = (Inr (), ?s2)"
    using c t w_one_tables(3) w_handles
    by (simp add: low_def ipa_NATI_post_ipv4_init_cmd_def ipa_nati_post_ipv4_init_cmd_def mutex_unlock_def w_one1_def)
  then have g: "smGoToDdr w_sm_env (next_call ?s1) = (Inr (), SET_NATIOBJ_STATE NATI_STATE_HYBRID_DDR ?s2)"
    using c by (simp add: smGoToDdr_def smGoTo_def)
  have n: "nc_ipa_desc (ipv4_nat_cache w_one1 IPA_NAT_MEM_IN_SRAM) \<noteq> None" using w_one_tables(4) by (simp add: w_one1_def)
  have v2: "ipa_nat_vote_clock w_nat_hdr w_sm_env (SET_NATIOBJ_STATE NATI_STATE_HYBRID_DDR ?s2) =
      (Inr (), next_call (SET_NATIOBJ_STATE NATI_STATE_HYBRID_DDR ?s2))"
    using w_sm_env_works(2) n by (intro vote_works) (simp add: clock_works_def sram_works_def SET_NATIOBJ_STATE_def)
  have "VOTE_REQUIRED NATI_TRIG_GOTO_DDR (nati_obj w_switch)"
    using c by (simp add: VOTE_REQUIRED_def SRAM_TO_BE_ACCESSED_def SRAM_CURRENTLY_ACTIVE_def)
  then show ?thesis
    using c v1 g v2
    by (simp add: statemach_unfold [of w_nat_hdr nat_simple_engine w_sm_env NATI_TRIG_GOTO_DDR] statemach_body_def state_mach_tbl_def Let_def SET_NATIOBJ_STATE_def)
qed

lemma w_migrate:
  assumes "lib s = w_one2" "map_pairs (nati_obj s) = map_pairs nati_obj_start"
    "map_array s = (\<lambda>_ _. None)(MAP_NUM_02 := [32770 \<mapsto> 32770], MAP_NUM_03 := [32770 \<mapsto> 32770])"
  shows "\<exists>s'. ipa_table_walk (table w_nt1) 0 WHEN_SLOT_FILLED (migrate_rule w_nat_hdr nat_simple_engine w_sm_env 1) (Some s) = (0, Some s')"
proof -
  note [simp] = w_env_sys
  let ?cb = "migrate_rule w_nat_hdr nat_simple_engine w_sm_env 1"
  obtain l where "w_moved = Some (Inr 2, l)" using w_moved by blast
  then have a: "add_rule_low w_nat_hdr nat_simple_engine w_sm_env 1 (v4_rule_of w_rec) s = Some (Inr 2, (next_call s)\<lparr>lib := l\<rparr>)"
    using assms(1) by (simp add: add_rule_low_def w_moved_def)
  have p: "nr_protocol w_rec \<noteq> IPA_NAT_INVALID_PROTO_FIELD_VALUE_IN_RULE" by (simp add: w_rec_def IPA_NAT_INVALID_PROTO_FIELD_VALUE_IN_RULE_def)
  have "\<exists>s'. cb_at (table w_nt1) ?cb 1 (Some s) = (0, Some s')"
    using a p w_nt1_slots(6-8) assms(2,3)
    by (simp add: cb_at_def migrate_rule_def ipa_nat_map_find_def add_new_handle_def ipa_nat_map_add_def n2o_def o2n_def nati_obj_start_def Let_def)
  then obtain s' where cb: "cb_at (table w_nt1) ?cb 1 (Some s) = (0, Some s')" by blast
  have e: "(1 :: nat) = Suc 0" "(2 :: nat) = Suc (Suc 0)" "(3 :: nat) = Suc (Suc (Suc 0))" "(4 :: nat) = Suc (Suc (Suc (Suc 0)))" by simp_all
  have "walk_loop (table w_nt1) WHEN_SLOT_FILLED ?cb (Some s) 0 = (0, Some s')"
    using w_nt1_slots(1-5) cb unfolding e by (simp add: walk_loop_step)
  moreover have "unat (table_entries (table w_nt1)) + unat (expn_table_entries (table w_nt1)) = 4"
    using w_nt1_slots(1) by (simp add: walk_size_def)
  ultimately show ?thesis by (simp add: ipa_table_walk_def)
qed

lemma w_copy:
  assumes "lib s = w_one1" "map_pairs (nati_obj s) = map_pairs nati_obj_start"
    "map_array s = (\<lambda>_ _. None)(MAP_NUM_02 := [32770 \<mapsto> 32770], MAP_NUM_03 := [32770 \<mapsto> 32770])"
  shows "\<exists>s'. ipa_nati_copy_ipv4_tbl w_sm_env 0x80000001 1 (migrate_rule w_nat_hdr nat_simple_engine w_sm_env) s = Some (Inr (), s')"
proof -
  note [simp] = w_env_sys
  let ?s1 = "(next_call (next_call s))\<lparr>lib := w_one2\<rparr>"
  have one1: "ipv4_nat_cache w_one1 = ipv4_nat_cache w_one" by (simp add: w_one1_def)
  have t: "tbl_of (ipv4_nat_cache w_one IPA_NAT_MEM_IN_DDR) 1 = Some (w_tbl IPA_NAT_MEM_IN_DDR)" using w_one_tables(2) by (simp add: tbl_of_def)
  have clear: "low w_sm_env (\<lambda>os. ipa_NATI_clear_ipv4_tbl (base_sys os) 1) (next_call s) = (Inr (), ?s1)"
    using assms(1) t one1 w_one_tables(3) w_handles
    by (simp add: low_def ipa_NATI_clear_ipv4_tbl_def mutex_unlock_def w_one2_def)
  have two: "ipv4_nat_cache w_one2 IPA_NAT_MEM_IN_SRAM = ipv4_nat_cache w_one IPA_NAT_MEM_IN_SRAM"
    using one1 by (simp add: w_one2_def set_ip4_tbl_def set_cache_def Let_def)
  then have t2: "tbl_of (ipv4_nat_cache w_one2 IPA_NAT_MEM_IN_SRAM) 1 = Some w_nt1" using w_one_tables(1) by (simp add: tbl_of_def)
  obtain s2 where "ipa_table_walk (table w_nt1) 0 WHEN_SLOT_FILLED (migrate_rule w_nat_hdr nat_simple_engine w_sm_env 1) (Some (next_call ?s1)) = (0, Some s2)"
    using w_migrate [of "next_call ?s1"] assms(2,3) by auto
  then have "ipa_NATI_walk_ipv4_tbl w_nat_os 0x80000001 (migrate_rule w_nat_hdr nat_simple_engine w_sm_env 1) (lib ?s1) (Some (next_call ?s1)) = (Inr (), Some s2)"
    using two t2 w_one_tables(3) w_handles
    by (simp add: ipa_NATI_walk_ipv4_tbl_def VALID_TBL_HDL_def IPA_NAT_MAX_IP4_TBLS_def mutex_unlock_def)
  then show ?thesis using clear by (simp add: ipa_nati_copy_ipv4_tbl_def Let_def mutex_unlock_def)
qed

lemma w_switch_run:
  "\<exists>s'. smSwitchFromSramToDdr w_nat_hdr nat_simple_engine w_sm_env (ipa_nati_statemach w_nat_hdr nat_simple_engine w_sm_env) w_switch = Some (Inr (), s')"
proof -
  obtain s1 where s1: "ipa_nati_statemach w_nat_hdr nat_simple_engine w_sm_env NATI_TRIG_GOTO_DDR w_switch = Some (Inr (), s1)"
    "lib s1 = w_one1" "map_array s1 = map_array w_switch"
    "nati_obj s1 = (nati_obj w_switch)\<lparr>prev_state := NATI_STATE_HYBRID, curr_state := NATI_STATE_HYBRID_DDR\<rparr>"
    using w_goto by blast
  let ?s2 = "clear_maps IPA_NAT_MEM_IN_DDR s1"
  have "map_array ?s2 = (\<lambda>_ _. None)(MAP_NUM_02 := [32770 \<mapsto> 32770], MAP_NUM_03 := [32770 \<mapsto> 32770])"
    using s1 by (auto simp: clear_maps_def set_count_def ipa_nat_map_clear_def o2n_def n2o_def w_switch_def w_sm_def nati_obj_start_def Let_def fun_eq_iff)
  moreover have "lib ?s2 = w_one1" "map_pairs (nati_obj ?s2) = map_pairs nati_obj_start"
    "sram_tbl_hdl (nati_obj ?s2) = 0x80000001" "ddr_tbl_hdl (nati_obj ?s2) = 1"
    using s1 by (simp_all add: clear_maps_def set_count_def w_switch_def w_sm_def Let_def)
  ultimately show ?thesis
    using w_copy [of ?s2] s1(1) by (auto simp: smSwitchFromSramToDdr_def smSwitch_def Let_def)
qed


theorem ipa_nat_statemach_reachable_ok_witness:
  "\<exists>s. sm_reachable w_nat_hdr nat_simple_engine s \<and> state_to_hold (nati_obj s) = NATI_STATE_SRAM_ONLY \<and> nat_inv w_nat_hdr (lib s)"
proof -
  note [simp] = mutex_works_simps [OF w_sm_env_works(1)]
  have "\<exists>s. ipa_nat_switch_to w_nat_hdr nat_simple_engine w_sm_env IPA_NAT_MEM_IN_SRAM True (sm_start w_nat_hdr) = Some (Inr (), s) \<and>
      state_to_hold (nati_obj s) = NATI_STATE_SRAM_ONLY"
    by (simp add: ipa_nat_switch_to_def Let_def sm_start_def nati_obj_start_def IN_UNSTARTED_STATE_def)
  then obtain s where s: "sm_reachable w_nat_hdr nat_simple_engine s" "state_to_hold (nati_obj s) = NATI_STATE_SRAM_ONLY"
    using sm_reachable.switch [OF sm_reachable.start] by blast
  then show ?thesis using ipa_nat_statemach_reachable_ok [OF engine_keeps_simple s(1)] by blast
qed

end
