(* ===== verification/Spec2Isabelle.thy ===== *)
theory Spec2Isabelle
  imports HW_Fence_Api MMRM_Api IPA_IPv6CT_Rules IPA_NAT_SM_Runs
begin

text \<open>
  Verification of kernel modules and of a library of the SM8550 platform. The repository collects
  the out-of-tree drivers of a phone. Three of its programs keep a state of their own whose
  correctness does not depend on one device: the driver of hardware fences, the multimedia resource
  manager and the user space library of the IPA network accelerator. They are modelled here
  function by function.

  \<^bold>\<open>Hardware fences\<close> (\<open>qcom/opensource/mm-drivers/hw_fence\<close>). Clients (display, graphics, video)
  create fences in a table of shared memory, wait for them and signal them; a controller, or the
  driver in its place, sends messages through ring buffers and interrupts.
  \<^item> \<open>HW_Fence_Types\<close>: the structures of \<open>include/hw_fence_drv_priv.h\<close> and \<open>hw_fence_drv_utils.h\<close>. The
    driver data is one record, \<open>hw_fence_driver_data\<close>, that every operation gets and returns; the
    queue memory is a function from word indices to words, so that a write out of range is visible.
  \<^item> \<open>HW_Fence_Queue\<close>: \<open>hw_fence_update_queue\<close>, \<open>hw_fence_read_queue\<close>, the resets and the graphics
    loopback of \<open>src/hw_fence_drv_priv.c\<close>. A ring refines a bounded list of messages (locale
    \<open>bounded_fifo\<close>, interpreted on the ring operations).
  \<^item> \<open>HW_Fence_Table\<close>: hash, linear probing, create, destroy and find. The table refines a map from
    (context, sequence number) to fences (locale \<open>fence_store\<close>); a duplicate key is possible after
    a deletion, which is stated as a theorem too.
  \<^item> \<open>HW_Fence_Wait\<close>: registration of waiters, fence arrays and their join fence, signalling.
  \<^item> \<open>HW_Fence_Mem\<close>: the layout of the shared memory from the device tree (\<open>src/hw_fence_drv_utils.c\<close>) and
    the initialisation of queues: regions are disjoint and in range.
  \<^item> \<open>HW_Fence_Ipc\<close>: the tables of the interrupt controller (\<open>src/hw_fence_drv_ipc.c\<close>).
  \<^item> \<open>HW_Fence_Api\<close>: the exported functions of \<open>src/msm_hw_fence.c\<close>, as a step relation
    \<open>hw_fence_step\<close> with its invariant.

  \<^bold>\<open>Multimedia resource manager\<close> (\<open>qcom/opensource/mmrm-driver/driver/src\<close>).
  \<^item> \<open>MMRM_Fixedpoint\<close>: the arithmetic of \<open>mmrm_fixedpoint.h\<close> with its error bounds.
  \<^item> \<open>MMRM_Clk\<close>: \<open>mmrm_clk_rsrc_mgr_sw.c\<close>, the table of clock clients, registration, voltage levels, the
    peak current and throttling. The theorems show what the aggregated current stands for and that
    it stays below the threshold, as an invariant of \<open>mmrm_step\<close>, that a client reads what it set last
    (locale \<open>clk_client_ops\<close>, interpreted on the operations), and three cases where the code
    gives this up.
  \<^item> \<open>MMRM_Api\<close>: the tables read from the device tree (\<open>mmrm_res_parse.c\<close>), the choice of the clock
    manager (\<open>mmrm_internal.c\<close>, \<open>mmrm_clk_rsrc_mgr.c\<close>), probe, removal and the functions clients call
    (\<open>msm_mmrm.c\<close>). The driver's global pointer is a datatype, since its error value and \<open>NULL\<close> lead
    to different outcomes.

  \<^bold>\<open>IPA user space library\<close> (\<open>qcom/opensource/dataipa/ipanat\<close>).
  \<^item> \<open>IPA_Table\<close>: \<open>src/ipa_table.c\<close> and \<open>inc/ipa_table.h\<close>, for any type of records. A table is a record with
    the memory of its base and expansion table as one list of records; a pointer to a record is
    its index. The functions of a record type are the fields of \<open>ipa_table_entry_interface\<close>, as
    in the code. Shown: sizes, handles, the search for the number of entries in SRAM.
  \<^item> \<open>IPA_Table_Lists\<close>: doubly linked lists over indices, the invariant \<open>table_ok\<close> and the locale
    \<open>ipa_records\<close>, the contract between the table and a type of records: adding puts a rule at
    the end of the list of its hash value, deleting unlinks it, both change nothing else.
  \<^item> \<open>IPA_Mem\<close>: \<open>src/ipa_mem_descriptor.c\<close> and the device descriptor of \<open>src/ipa_nat_utils.c\<close>.
  \<^item> \<open>IPA_IPv6CT\<close>: \<open>src/ipa_ipv6ct.c\<close>, \<open>inc/ipa_ipv6cti.h\<close>, \<open>inc/ipa_ipv6ct.h\<close>: the record with its bit layout, the
    hash, the operations on tables and rules; the interpretation of \<open>ipa_records\<close>.
  \<^item> \<open>IPA_IPv6CT_Rules\<close>: the invariant of the library's state in all states that calls lead to, and the
    refinement of adding and deleting rules to updates of a map.

  \<^item> \<open>IPA_Layout\<close>: how 16-bit fields lie in the 64-bit words of a record, for both kinds of records.
  \<^item> \<open>IPA_NAT\<close>: \<open>src/ipa_nat_drvi.c\<close>, \<open>inc/ipa_nat_drvi.h\<close> and the public addresses (PDNs) of \<open>src/ipa_nat_drv.c\<close>:
    the rule and index records, the checksum deltas, the tables in DDR and SRAM, adding and
    deleting rules in the rule table and the index table, time stamps, the vote for the SRAM clock.
  \<^item> \<open>IPA_NAT_Rules\<close>: the deltas translate a header's checksum, the record and its words say the
    same, slots stay in their table and the commands fit into the buffer. What table operations
    keep of any record type is proved in the locale \<open>safe_records\<close>, interpreted for both tables.
  \<^item> \<open>IPA_NAT_Safe\<close>: the invariant \<open>nat_inv\<close> of the library's global variables in all states that calls
    lead to, and that adding, deleting and querying rules follow no null pointer in them.
  \<^item> \<open>IPA_NAT_Pdn\<close>: allocation of public addresses, the errors found in it, and examples.

  \<^item> \<open>IPA_NAT_SM\<close>: the state machine in front of the NAT tables (\<open>src/ipa_nat_statemach.c\<close>), its maps of rule handles
    (\<open>src/ipa_nat_map.cpp\<close>), the copying of tables and the public functions of \<open>src/ipa_nat_drv.c\<close>. Its state, \<open>nat_sm\<close>, holds that
    of the tables; an action that runs the machine again gets it as an argument.
  \<^item> \<open>IPA_NAT_SM_Rules\<close>: what every action keeps, in the locale \<open>sm_invariant\<close>, interpreted for the mutex and for the
    invariant of the machine; with it that the machine brings the tables only into states of \<open>nat_reachable\<close>,
    that its maps stay consistent, that a move keeps the original handles, and that errors are lost.
  \<^item> \<open>IPA_NAT_SM_Runs\<close>: three sequences of calls that go wrong, and examples.

  \<^bold>\<open>Prelude\<close> holds what they share: the C integers as words of their width, the errno values,
  results, shared memory and lemmas on lists and probing.

  \<^bold>\<open>Parameters.\<close> What is not part of the repository is an argument: the constants of the kernel's
  headers (\<open>hw_fence_abi\<close>, \<open>mmrm_header\<close>, \<open>ipa_header\<close>, \<open>nat_header\<close>), the clock framework (\<open>mmrm_env\<close>), device trees, the answers
  of system calls (\<open>sys\<close>, \<open>nat_sys\<close>), and the hardware that carries out DMA commands (\<open>ct_engine\<close>,
  \<open>nat_engine\<close>). On the last one the IPv6 theorems rest on the named hypothesis \<open>dma_engine\<close>: the hardware stores 16 bits at the offset that a
  command names; a concrete one is given and used in the examples.
  The NAT theorems need only \<open>engine_keeps\<close>: a command changes records and nothing else of a table. \<open>alloc_at_start\<close> says that the
  IPA driver reports the offset 0 for a new table, which is what its code does.

  \<^bold>\<open>Loops.\<close> Loops that end are functions with their termination proof. Three can run forever for some
  state and are partial functions, \<open>None\<close> being a call that does not return: the graphics loopback,
  the search in SRAM sizes and the walk to the end of a list. For each of them there is a theorem that
  it returns, in every reachable state or under the condition stated; that the walk ends for lists of
  NAT rules too is not shown. The only bound on a depth is that of \<open>statemach_depth\<close>, for the NAT state machine
  that runs itself: \<open>ipa_nati_statemach\<close> uses 3, and a theorem shows that a larger one changes nothing.

  \<^bold>\<open>Not modelled.\<close> Of the three programs: debug file systems, logging and platform glue, the
  messages between virtual machines of MMRM; of the IPv4 NAT client the printing, the statistics and
  the walks with an application's callback. The mutex of a driver or library is held during a whole
  operation, so operations are atomic; \<open>ipa_ipv6ct_add_tbl\<close>, which does not take it, is modelled as if nothing
  ran beside it. The time stamps that the IPA hardware writes into records are not modelled. The other
  directories hold drivers that program registers, exchange firmware messages or glue subsystems
  together (camera, display, graphics, video, audio, Bluetooth, NFC), vendored trees (WLAN, file systems)
  and generated register headers.
\<close>

end
